(* ===== verification/Giro_Prelude.thy ===== *)
theory Giro_Prelude
  imports
    Main
    "HOL-Library.AList"
    "HOL-Library.Multiset"
    "HOL-Library.Char_ord"
    "HOL-Library.List_Lexorder"
    "HOL-Library.Product_Lexorder"
    "HOL-Library.Word"
begin

text \<open>
  The shared base of the development: the result type of fallible Go functions and its
  sequencing operator, tables as association lists with their lookup, update and sum
  laws, loops over slices, and sorting by a key. Strings are byte strings (\<open>string\<close>),
  ordered bytewise by \<open>List_Lexorder\<close> over \<open>Char_ord\<close>, which is the order of Go's
  \<open>cmp.Compare\<close>; pairs are ordered lexicographically.
\<close>

named_theorems res_simps \<open>inversion of sequenced results\<close>
named_theorems tab_simps \<open>lookup after update in tables\<close>
named_theorems schema_defs \<open>definitions of row and column accessors\<close>

type_synonym time = int
type_synonym ('k, 'v) table = "('k \<times> 'v) list"

subsection \<open>Results\<close>

text \<open>\<open>if err != nil { return err }\<close>: the first error is the result.\<close>

definition bindE :: "'e + 'a \<Rightarrow> ('a \<Rightarrow> 'e + 'b) \<Rightarrow> 'e + 'b" where
  "bindE m f = (case m of Inl e \<Rightarrow> Inl e | Inr x \<Rightarrow> f x)"

definition guardE :: "bool \<Rightarrow> 'e \<Rightarrow> 'e + unit" where
  "guardE b e = (if b then Inr () else Inl e)"

definition mapErr :: "('e \<Rightarrow> 'f) \<Rightarrow> 'e + 'a \<Rightarrow> 'f + 'a" where
  "mapErr f m = (case m of Inl e \<Rightarrow> Inl (f e) | Inr x \<Rightarrow> Inr x)"

fun is_ok :: "'e + 'a \<Rightarrow> bool" where
  "is_ok (Inl _) = False"
| "is_ok (Inr _) = True"

lemma bindE_simps [simp]: "bindE (Inl e) f = Inl e" "bindE (Inr x) f = f x"
  by (simp_all add: bindE_def)

lemma bindE_Inr_iff [res_simps]: "bindE m f = Inr y \<longleftrightarrow> (\<exists>x. m = Inr x \<and> f x = Inr y)"
  by (cases m) auto

lemma bindE_Inl_iff: "bindE m f = Inl e \<longleftrightarrow> m = Inl e \<or> (\<exists>x. m = Inr x \<and> f x = Inl e)"
  by (cases m) auto

lemma bindE_cong [fundef_cong]:
  "m = m' \<Longrightarrow> (\<And>x. m' = Inr x \<Longrightarrow> f x = f' x) \<Longrightarrow> bindE m f = bindE m' f'"
  by (cases m') auto

lemma guardE_Inr_iff [res_simps, simp]: "guardE b e = Inr u \<longleftrightarrow> b"
  by (simp add: guardE_def)

lemma guardE_True [simp]: "guardE True e = Inr ()"
  by (simp add: guardE_def)

lemma guardE_False [simp]: "guardE False e = Inl e"
  by (simp add: guardE_def)

lemma mapErr_simps [simp]: "mapErr f (Inl e) = Inl (f e)" "mapErr f (Inr x) = Inr x"
  by (simp_all add: mapErr_def)

lemma mapErr_Inr_iff [res_simps]: "mapErr f m = Inr y \<longleftrightarrow> m = Inr y"
  by (cases m) auto

lemma is_ok_iff: "is_ok m \<longleftrightarrow> (\<exists>x. m = Inr x)"
  by (cases m) auto

text \<open>A loop over a slice whose body updates a state and may return early with an error.\<close>

fun foldE :: "('a \<Rightarrow> 's \<Rightarrow> 'e + 's) \<Rightarrow> 'a list \<Rightarrow> 's \<Rightarrow> 'e + 's" where
  "foldE f [] s = Inr s"
| "foldE f (x # xs) s = bindE (f x s) (foldE f xs)"

lemma foldE_append: "foldE f (xs @ ys) s = bindE (foldE f xs s) (foldE f ys)"
proof (induction xs arbitrary: s)
  case (Cons x xs)
  then show ?case by (cases "f x s") auto
qed simp

text \<open>An invariant of the body is an invariant of the loop.\<close>

lemma foldE_invariant:
  assumes "foldE f xs s = Inr s'" and "P s"
    and "\<And>x s s'. x \<in> set xs \<Longrightarrow> P s \<Longrightarrow> f x s = Inr s' \<Longrightarrow> P s'"
  shows "P s'"
  using assms
proof (induction xs arbitrary: s)
  case (Cons x xs)
  from Cons.prems(1) obtain t where t: "f x s = Inr t" "foldE f xs t = Inr s'"
    by (auto simp: bindE_Inr_iff)
  show ?case
    by (rule Cons.IH [OF t(2)]) (use Cons.prems t in \<open>auto\<close>)
qed simp

text \<open>A loop that counts what it has examined and stops at the first error.\<close>

fun scanE :: "('a \<Rightarrow> 's \<Rightarrow> 'e + 's) \<Rightarrow> 'a list \<Rightarrow> 's \<Rightarrow> nat \<Rightarrow> nat \<times> 'e option" where
  "scanE f [] s n = (n, None)"
| "scanE f (x # xs) s n = (case f x s of Inl e \<Rightarrow> (n, Some e) | Inr s' \<Rightarrow> scanE f xs s' (Suc n))"

lemma scanE_None: "snd (scanE f xs s n) = None \<longleftrightarrow> is_ok (foldE f xs s)"
  by (induction xs arbitrary: s n) (auto split: sum.splits simp: bindE_def)

lemma scanE_count: "is_ok (foldE f xs s) \<Longrightarrow> scanE f xs s n = (n + length xs, None)"
  by (induction xs arbitrary: s n) (auto split: sum.splits simp: bindE_def)

subsection \<open>Tables\<close>

text \<open>
  A table is an association list from its primary key to the row. \<open>AList.update\<close> is the
  upsert; the laws below are the ones the components use.
\<close>

abbreviation keys :: "('k, 'v) table \<Rightarrow> 'k list" where
  "keys t \<equiv> map fst t"

abbreviation unique_keys :: "('k, 'v) table \<Rightarrow> bool" where
  "unique_keys t \<equiv> distinct (keys t)"

declare map_of_eq_Some_iff [simp del] Some_eq_map_of_iff [simp del] split_paired_All [simp del]

lemma lookup_update [simp, tab_simps]: "map_of (AList.update k v t) = (map_of t)(k \<mapsto> v)"
  by (rule update_conv')

lemma unique_keys_update [simp, intro]: "unique_keys t \<Longrightarrow> unique_keys (AList.update k v t)"
  by (rule distinct_update)

lemma set_keys_update [simp]: "fst ` set (AList.update k v t) = insert k (fst ` set t)"
  by (simp add: dom_update)

lemma map_of_None_keys: "map_of t k = None \<longleftrightarrow> k \<notin> set (keys t)"
  by (simp add: map_of_eq_None_iff)

lemma update_fresh: "map_of t k = None \<Longrightarrow> AList.update k v t = t @ [(k, v)]"
  by (induction t) (auto split: if_splits)

text \<open>Rows with unique keys are a map whatever their order; the rows of one ledger are a table.\<close>

lemma unique_keys_mset:
  assumes "mset xs = mset ys" and "unique_keys ys"
  shows "unique_keys xs"
proof -
  have "mset (keys xs) = mset (keys ys)" by (simp add: assms(1))
  then show ?thesis using assms(2) mset_eq_imp_distinct_iff by blast
qed

lemma map_of_unique_mset:
  assumes "mset xs = mset ys" and "unique_keys xs"
  shows "map_of xs = map_of ys"
proof -
  have "unique_keys ys"
    by (rule unique_keys_mset [OF assms(1) [symmetric] assms(2)])
  with assms show ?thesis
    by (metis map_of_inject_set set_mset_mset)
qed

lemma map_of_ledger_part:
  "map_of (map (\<lambda>((_, k), r). (k, f r)) (filter (\<lambda>((l', k), _). l' = l \<and> P k) t)) k =
     (if P k then map_option f (map_of t (l, k)) else None)"
  by (induction t) auto

lemma unique_ledger_part:
  assumes "unique_keys t"
  shows "unique_keys (map (\<lambda>((_, k), r). (k, f r)) (filter (\<lambda>((l', k), _). l' = l \<and> P k) t))"
proof -
  have "inj_on (\<lambda>x. snd (fst x)) {x \<in> set t. fst (fst x) = l}"
    using assms by (force simp: distinct_map inj_on_def)
  then have "inj_on (\<lambda>x. snd (fst x)) (set (filter (\<lambda>((l', k), _). l' = l \<and> P k) t))"
    by (rule inj_on_subset) auto
  then have "distinct (map (\<lambda>x. snd (fst x)) (filter (\<lambda>((l', k), _). l' = l \<and> P k) t))"
    using assms by (simp add: distinct_map)
  then show ?thesis by (simp add: comp_def case_prod_unfold)
qed

text \<open>Sums over a table: one update changes the sum by the difference at its key.\<close>

definition tab_sum :: "('k \<times> 'v \<Rightarrow> int) \<Rightarrow> ('k, 'v) table \<Rightarrow> int" where
  "tab_sum f t = (\<Sum>x\<leftarrow>t. f x)"

lemma tab_sum_simps [simp]:
  "tab_sum f [] = 0" "tab_sum f (x # t) = f x + tab_sum f t"
  "tab_sum f (t @ t') = tab_sum f t + tab_sum f t'"
  by (simp_all add: tab_sum_def)

lemma tab_sum_update:
  "unique_keys t \<Longrightarrow> tab_sum f (AList.update k v t) =
     tab_sum f t - (case map_of t k of None \<Rightarrow> 0 | Some w \<Rightarrow> f (k, w)) + f (k, v)"
proof (induction t)
  case (Cons p t)
  obtain k' w where p: "p = (k', w)" by (cases p)
  show ?case
  proof (cases "k' = k")
    case True
    with Cons.prems p show ?thesis by simp
  next
    case False
    with Cons p show ?thesis by simp
  qed
qed simp

lemma tab_sum_cong: "(\<And>x. x \<in> set t \<Longrightarrow> f x = g x) \<Longrightarrow> tab_sum f t = tab_sum g t"
  by (induction t) auto

lemma tab_sum_zero: "(\<And>x. x \<in> set t \<Longrightarrow> f x = 0) \<Longrightarrow> tab_sum f t = 0"
  by (induction t) auto

subsection \<open>Sorting by a key\<close>

text \<open>
  Go's map iteration order is random; sorting by a key that is unique forgets it.
\<close>

lemma sort_key_mset_eq:
  assumes "mset xs = mset ys" and "inj_on f (set xs)"
  shows "sort_key f xs = sort_key f ys"
  by (rule sort_key_inj_key_eq) (use assms in auto)

end
