(* ===== verification/Ledger_Names.thy ===== *)
theory Ledger_Names
  imports Giro_Prelude
begin

text \<open>
  Account addresses and assets (\<open>src/ledger/address.go\<close>, \<open>src/ledger/asset.go\<close>): the
  two name grammars, how a name splits into its parts, and that splitting loses nothing.
  The regular expressions are anchored and Go's \<open>$\<close> matches at the end of the text
  only, so each is a predicate on the whole byte string.
\<close>

type_synonym Address = string
type_synonym Asset = string

subsection \<open>Go's \<open>strings.Split\<close>, \<open>strings.Join\<close> and \<open>strings.Cut\<close> at one byte\<close>

fun split_on :: "char \<Rightarrow> string \<Rightarrow> string list" where
  "split_on c [] = [[]]"
| "split_on c (x # xs) =
     (if x = c then [] # split_on c xs
      else (case split_on c xs of [] \<Rightarrow> [[x]] | seg # segs \<Rightarrow> (x # seg) # segs))"

fun join_with :: "char \<Rightarrow> string list \<Rightarrow> string" where
  "join_with c [] = []"
| "join_with c [s] = s"
| "join_with c (s # t # ss) = s @ c # join_with c (t # ss)"

fun cut_at :: "char \<Rightarrow> string \<Rightarrow> string \<times> string \<times> bool" where
  "cut_at c [] = ([], [], False)"
| "cut_at c (x # xs) =
     (if x = c then ([], xs, True)
      else (case cut_at c xs of (before, after, found) \<Rightarrow> (x # before, after, found)))"

lemma split_on_nonempty [simp]: "split_on c s \<noteq> []"
  by (induction s) (auto split: list.splits)

lemma join_split [simp]: "join_with c (split_on c s) = s"
proof (induction s)
  case (Cons x xs)
  obtain seg segs where "split_on c xs = seg # segs" by (cases "split_on c xs") auto
  with Cons show ?case by (cases segs) auto
qed simp

lemma split_on_no_sep: "seg \<in> set (split_on c s) \<Longrightarrow> c \<notin> set seg"
proof (induction s arbitrary: seg)
  case (Cons x xs)
  then show ?case by (cases "split_on c xs") (auto split: if_splits)
qed simp

lemma split_on_single: "c \<notin> set s \<Longrightarrow> split_on c s = [s]"
  by (induction s) auto

lemma split_on_append: "c \<notin> set s \<Longrightarrow> split_on c (s @ c # t) = s # split_on c t"
  by (induction s) auto

lemma split_join:
  "ss \<noteq> [] \<Longrightarrow> (\<And>s. s \<in> set ss \<Longrightarrow> c \<notin> set s) \<Longrightarrow> split_on c (join_with c ss) = ss"
  by (induction c ss rule: join_with.induct) (auto simp: split_on_single split_on_append)

lemma cut_at_found: "cut_at c s = (b, a, True) \<Longrightarrow> s = b @ c # a \<and> c \<notin> set b"
  by (induction s arbitrary: b) (auto split: if_splits prod.splits)

lemma cut_at_missing: "cut_at c s = (b, a, False) \<Longrightarrow> b = s \<and> a = [] \<and> c \<notin> set s"
  by (induction s arbitrary: b) (auto split: if_splits prod.splits)

lemma cut_at_append [simp]: "c \<notin> set s \<Longrightarrow> cut_at c (s @ c # t) = (s, t, True)"
  by (induction s) auto

lemma cut_at_absent [simp]: "c \<notin> set s \<Longrightarrow> cut_at c s = (s, [], False)"
  by (induction s) auto

subsection \<open>Addresses\<close>

definition is_lower :: "char \<Rightarrow> bool" where
  "is_lower c \<longleftrightarrow> CHR ''a'' \<le> c \<and> c \<le> CHR ''z''"

definition is_upper :: "char \<Rightarrow> bool" where
  "is_upper c \<longleftrightarrow> CHR ''A'' \<le> c \<and> c \<le> CHR ''Z''"

definition is_digit :: "char \<Rightarrow> bool" where
  "is_digit c \<longleftrightarrow> CHR ''0'' \<le> c \<and> c \<le> CHR ''9''"

lemmas char_class_defs = is_lower_def is_upper_def is_digit_def

text \<open>\<open>^[a-zA-Z0-9_-]+$\<close>\<close>

definition segment_char :: "char \<Rightarrow> bool" where
  "segment_char c \<longleftrightarrow>
     is_lower c \<or> is_upper c \<or> is_digit c \<or> c = CHR ''_'' \<or> c = CHR ''-''"

definition addressSegment :: "string \<Rightarrow> bool" where
  "addressSegment s \<longleftrightarrow> s \<noteq> [] \<and> list_all segment_char s"

definition Address_Segments :: "Address \<Rightarrow> string list" where
  "Address_Segments a = split_on CHR '':'' a"

definition Address_Valid :: "Address \<Rightarrow> bool" where
  "Address_Valid a = list_all addressSegment (split_on CHR '':'' a)"

definition WorldAccount :: Address where
  "WorldAccount = ''world''"

lemma segment_char_no_colon: "segment_char c \<Longrightarrow> c \<noteq> CHR '':''"
  by (auto simp: segment_char_def char_class_defs less_eq_char_def)

lemma addressSegment_no_colon: "addressSegment s \<Longrightarrow> CHR '':'' \<notin> set s"
  using segment_char_no_colon by (auto simp: addressSegment_def list_all_iff)

text \<open>What is stored in \<open>accounts.address_array\<close> determines the address, and back.\<close>

lemma Segments_join: "join_with CHR '':'' (Address_Segments a) = a"
  by (simp add: Address_Segments_def)

lemma Address_Valid_iff:
  "Address_Valid a \<longleftrightarrow>
     (\<exists>segs. segs \<noteq> [] \<and> list_all addressSegment segs \<and> a = join_with CHR '':'' segs)"
proof
  assume "Address_Valid a"
  then show "\<exists>segs. segs \<noteq> [] \<and> list_all addressSegment segs \<and> a = join_with CHR '':'' segs"
    by (intro exI [of _ "split_on CHR '':'' a"]) (simp add: Address_Valid_def)
next
  assume "\<exists>segs. segs \<noteq> [] \<and> list_all addressSegment segs \<and> a = join_with CHR '':'' segs"
  then obtain segs where s: "segs \<noteq> []" "list_all addressSegment segs"
    and a: "a = join_with CHR '':'' segs" by blast
  have "split_on CHR '':'' a = segs"
    unfolding a by (rule split_join) (use s addressSegment_no_colon in \<open>auto simp: list_all_iff\<close>)
  with s show "Address_Valid a" by (simp add: Address_Valid_def)
qed

lemma Address_Valid_nonempty: "Address_Valid a \<Longrightarrow> a \<noteq> []"
  by (auto simp: Address_Valid_def addressSegment_def)

lemma WorldAccount_Valid: "Address_Valid WorldAccount"
  by (simp add: Address_Valid_def WorldAccount_def addressSegment_def segment_char_def
      char_class_defs less_eq_char_def)

subsection \<open>Assets\<close>

text \<open>\<open>^[A-Z][A-Z0-9_]*(/\\d{1,6})?$\<close>; the code part never contains the slash, so the
  optional group starts at the first one.\<close>

definition code_char :: "char \<Rightarrow> bool" where
  "code_char c \<longleftrightarrow> is_upper c \<or> is_digit c \<or> c = CHR ''_''"

definition asset_code :: "string \<Rightarrow> bool" where
  "asset_code s = (case s of [] \<Rightarrow> False | c # cs \<Rightarrow> is_upper c \<and> list_all code_char cs)"

definition asset_digits :: "string \<Rightarrow> bool" where
  "asset_digits s \<longleftrightarrow> 1 \<le> length s \<and> length s \<le> 6 \<and> list_all is_digit s"

definition Asset_Valid :: "Asset \<Rightarrow> bool" where
  "Asset_Valid a =
     (case cut_at CHR ''/'' a of
        (code, digits, found) \<Rightarrow> asset_code code \<and> (found \<longrightarrow> asset_digits digits))"

definition digit_value :: "char \<Rightarrow> nat" where
  "digit_value c = of_char c - 48"

text \<open>\<open>strconv.Atoi\<close> on a nonempty string of decimal digits.\<close>

definition digits_value :: "string \<Rightarrow> nat" where
  "digits_value s = foldl (\<lambda>n c. 10 * n + digit_value c) 0 s"

definition Asset_Scale :: "Asset \<Rightarrow> int \<times> bool" where
  "Asset_Scale a =
     (if \<not> Asset_Valid a then (0, False)
      else (case cut_at CHR ''/'' a of
              (_, digits, found) \<Rightarrow>
                if \<not> found then (0, True) else (int (digits_value digits), True)))"

definition Asset_Code :: "Asset \<Rightarrow> string" where
  "Asset_Code a = fst (cut_at CHR ''/'' a)"

lemma digit_value_le: "is_digit c \<Longrightarrow> digit_value c \<le> 9"
  by (auto simp: is_digit_def less_eq_char_def digit_value_def)

lemma foldl_digits_bound:
  "list_all is_digit s \<Longrightarrow>
     foldl (\<lambda>n c. 10 * n + digit_value c) n s < (n + 1) * 10 ^ length s"
proof (induction s arbitrary: n)
  case (Cons c s)
  have "foldl (\<lambda>n c. 10 * n + digit_value c) (10 * n + digit_value c) s
          < (10 * n + digit_value c + 1) * 10 ^ length s"
    using Cons by simp
  also have "\<dots> \<le> (10 * (n + 1)) * 10 ^ length s"
    using Cons.prems digit_value_le [of c] by (intro mult_right_mono) auto
  finally show ?case by (simp add: algebra_simps)
qed simp

lemma digits_value_bound: "list_all is_digit s \<Longrightarrow> digits_value s < 10 ^ length s"
  using foldl_digits_bound [of s 0] by (simp add: digits_value_def)

lemma asset_code_no_slash: "asset_code s \<Longrightarrow> CHR ''/'' \<notin> set s"
  by (auto simp: asset_code_def code_char_def char_class_defs less_eq_char_def list_all_iff
      split: list.splits)

lemma Asset_Valid_cases:
  assumes "Asset_Valid a"
  obtains (bare) "asset_code a" "CHR ''/'' \<notin> set a"
    | (scaled) code digits where "a = code @ CHR ''/'' # digits" "asset_code code" "asset_digits digits"
proof -
  obtain code digits found where c: "cut_at CHR ''/'' a = (code, digits, found)"
    by (cases "cut_at CHR ''/'' a")
  show thesis
  proof (cases found)
    case True
    with c assms cut_at_found [of "CHR ''/''" a code digits] show ?thesis
      by (intro scaled [of code digits]) (auto simp: Asset_Valid_def)
  next
    case False
    with c assms cut_at_missing [of "CHR ''/''" a code digits] show ?thesis
      by (intro bare) (auto simp: Asset_Valid_def)
  qed
qed

end
