(* ===== verification/Giro_Errors.thy ===== *)
theory Giro_Errors
  imports Ledger_Names
begin

text \<open>
  Every error the modelled packages return, as one datatype: the sentinel errors and the
  typed errors of \<open>src/ledger\<close>, \<open>src/storage\<close>, \<open>src/fx\<close> and \<open>src/recon\<close>, the error codes of
  the database (\<open>PgError\<close>), errors that are only a formatted text (\<open>ErrText\<close>), and a
  nil dereference of the Go program itself (\<open>NilPanic\<close>). A wrapped error
  (\<open>fmt.Errorf\<close> with \<open>%w\<close>) is its sentinel; \<open>PostingError\<close> and \<open>BatchItemError\<close> wrap
  an error they can be unwrapped to.
\<close>

datatype error =
    ErrInvalidSourceAddress
  | ErrInvalidDestinationAddress
  | ErrInvalidAsset
  | ErrInvalidAmount
  | ErrAmountTooLarge
  | ErrNilAmount nat
  | ErrEmptyMetadataKey
  | ErrTooManyMetadataKeys nat
  | ErrMetadataKeyTooLong string nat
  | ErrMetadataValueTooLong string nat
  | ErrNoPostings
  | ErrLedgerNotFound string
  | ErrDuplicateReference string
  | ErrNotFound string
  | ErrInvalidCursor string
  | InsufficientFundsError Address Asset int int
  | PostingError nat error
  | UnexpectedCreditError Address Asset int
  | UnboundedSweepError Address Asset
  | AccountClosedError Address
  | UnknownAssetError Asset Asset
  | ErrLedgerExists string
  | ErrAlreadyReverted int time
  | ErrIdempotencyMismatch string string string
  | ErrChainBroken int int
  | ErrBatchTooLarge
  | BatchItemError nat error
  | ErrWorldMustAllowNegative
  | ErrAccountNotEmpty Address "(Asset \<times> int) list"
  | ErrAccountClosureRefused
  | ErrEmptyMetadata
  | ErrChainBehind int int
  | ErrChainForked int
  | ErrGaveUp nat string
  | ProjectionMismatch Address Asset "(int \<times> int) option" "(int \<times> int) option"
  | EffectiveVolumesMismatch int Address Asset "int \<times> int" "int \<times> int"
  | ErrConservationBroken "(Asset \<times> int) list"
  | UnpermittedNegatives "(Address \<times> Asset \<times> int) list"
  | ClosedAccountsHold "(Address \<times> Asset \<times> int) list"
  | ErrNeverLogged int
  | ErrLogCount nat nat
  | ErrInvalidRate string
  | ErrSameAsset Asset
  | ErrConversionRounding int
  | PgError string
  | ErrText string
  | NilPanic

type_synonym 'a res = "error + 'a"

text \<open>The Postgres error codes the code distinguishes or the schema raises
  (\<open>src/storage/retry.go\<close>; \<open>restrict_violation\<close> is what the triggers raise).\<close>

definition deadlockDetected :: string where "deadlockDetected = ''40P01''"
definition serializationFailure :: string where "serializationFailure = ''40001''"
definition uniqueViolation :: string where "uniqueViolation = ''23505''"
definition foreignKeyViolation :: string where "foreignKeyViolation = ''23503''"
definition restrictViolation :: string where "restrictViolation = ''23001''"
definition numericOutOfRange :: string where "numericOutOfRange = ''22003''"

lemmas pg_code_defs = deadlockDetected_def serializationFailure_def uniqueViolation_def
  foreignKeyViolation_def restrictViolation_def numericOutOfRange_def

text \<open>Only contention is worth another attempt. \<open>errors.As\<close> looks through wrapped errors.\<close>

fun retryable :: "error \<Rightarrow> bool" where
  "retryable (PgError code) = (code = deadlockDetected \<or> code = serializationFailure)"
| "retryable (PostingError _ e) = retryable e"
| "retryable (BatchItemError _ e) = retryable e"
| "retryable _ = False"

end
