(* ===== verification/Ledger_Postings.thy ===== *)
theory Ledger_Postings
  imports Giro_Errors
begin

text \<open>
  Postings and volumes (\<open>src/ledger/posting.go\<close>, \<open>src/ledger/volumes.go\<close>): validation,
  reversal, and the per-(account, asset) deltas a transaction applies. An amount is a
  \<open>*big.Int\<close>, an \<open>int option\<close> with \<open>None\<close> for nil. A nil counter of \<open>Volumes\<close> reads as zero
  everywhere the code looks at one, so \<open>Volumes\<close> carries plain integers.
\<close>

subsection \<open>Postings\<close>

definition MaxAmountDigits :: nat where "MaxAmountDigits = 100"
definition maxAmountBits :: nat where "maxAmountBits = 333"

record Posting =
  Source :: Address
  Destination :: Address
  PAsset :: Asset
  Amount :: "int option"
  UpTo :: bool

type_synonym Postings = "Posting list"

fun HasUpTo :: "Postings \<Rightarrow> bool" where
  "HasUpTo [] = False"
| "HasUpTo (p # ps) = (if UpTo p then True else HasUpTo ps)"

text \<open>\<open>big.Int.BitLen\<close>: the bits of the absolute value, zero for zero.\<close>

fun bit_len :: "nat \<Rightarrow> nat" where
  "bit_len n = (if n = 0 then 0 else Suc (bit_len (n div 2)))"

declare bit_len.simps [simp del]

definition BitLen :: "int \<Rightarrow> nat" where
  "BitLen x = bit_len (nat \<bar>x\<bar>)"

text \<open>The checks of one posting, in the order of the loop body.\<close>

definition validate_one :: "Posting \<Rightarrow> error option" where
  "validate_one p =
     (if \<not> Address_Valid (Source p) then Some ErrInvalidSourceAddress
      else if \<not> Address_Valid (Destination p) then Some ErrInvalidDestinationAddress
      else if \<not> Asset_Valid (PAsset p) then Some ErrInvalidAsset
      else if Amount p = None \<and> \<not> UpTo p then Some ErrInvalidAmount
      else (case Amount p of
              None \<Rightarrow> None
            | Some a \<Rightarrow>
                if a < 0 then Some ErrInvalidAmount
                else if BitLen a > maxAmountBits then Some ErrAmountTooLarge
                else None))"

fun validate_from :: "nat \<Rightarrow> Postings \<Rightarrow> (nat \<times> error) option" where
  "validate_from i [] = None"
| "validate_from i (p # ps) =
     (case validate_one p of Some e \<Rightarrow> Some (i, e) | None \<Rightarrow> validate_from (Suc i) ps)"

text \<open>\<open>None\<close> stands for \<open>(-1, nil)\<close>.\<close>

definition Validate :: "Postings \<Rightarrow> (nat \<times> error) option" where
  "Validate p = validate_from 0 p"

text \<open>
  \<open>Reverse\<close> fills the result from its end, so it is the reversal of the swapped postings;
  the first nil amount stops it.
\<close>

definition swap_posting :: "Posting \<Rightarrow> int \<Rightarrow> Posting" where
  "swap_posting p a =
     \<lparr>Source = Destination p, Destination = Source p, PAsset = PAsset p,
      Amount = Some a, UpTo = False\<rparr>"

fun reverse_from :: "nat \<Rightarrow> Postings \<Rightarrow> Postings \<Rightarrow> Postings res" where
  "reverse_from i [] rev_acc = Inr rev_acc"
| "reverse_from i (p # ps) rev_acc =
     (case Amount p of
        None \<Rightarrow> Inl (ErrNilAmount i)
      | Some a \<Rightarrow> reverse_from (Suc i) ps (swap_posting p a # rev_acc))"

definition Reverse :: "Postings \<Rightarrow> Postings res" where
  "Reverse p = reverse_from 0 p []"

subsection \<open>Volumes\<close>

record Volumes =
  Input :: int
  Output :: int

definition NewVolumes :: Volumes where
  "NewVolumes = \<lparr>Input = 0, Output = 0\<rparr>"

definition Balance :: "Volumes \<Rightarrow> int" where
  "Balance v = Input v - Output v"

definition orZero :: "int option \<Rightarrow> int" where
  "orZero i = (case i of None \<Rightarrow> 0 | Some x \<Rightarrow> x)"

record VolumeUpdate =
  Account :: Address
  UAsset :: Asset
  UInput :: int
  UOutput :: int

type_synonym key = "Address \<times> Asset"

definition update_key :: "VolumeUpdate \<Rightarrow> key" where
  "update_key u = (Account u, UAsset u)"

text \<open>
  The Go map \<open>index\<close> from (account, asset) to the update being accumulated; \<open>at\<close> creates
  the entry on first use and the caller adds to one of its counters.
\<close>

type_synonym update_index = "(key, VolumeUpdate) table"

definition index_at :: "update_index \<Rightarrow> key \<Rightarrow> VolumeUpdate" where
  "index_at idx k =
     (case map_of idx k of
        Some u \<Rightarrow> u
      | None \<Rightarrow> \<lparr>Account = fst k, UAsset = snd k, UInput = 0, UOutput = 0\<rparr>)"

definition add_output :: "key \<Rightarrow> int \<Rightarrow> update_index \<Rightarrow> update_index" where
  "add_output k a idx =
     (let u = index_at idx k in AList.update k (u\<lparr>UOutput := UOutput u + a\<rparr>) idx)"

definition add_input :: "key \<Rightarrow> int \<Rightarrow> update_index \<Rightarrow> update_index" where
  "add_input k a idx =
     (let u = index_at idx k in AList.update k (u\<lparr>UInput := UInput u + a\<rparr>) idx)"

text \<open>An \<open>UpTo\<close> posting without a ceiling counts as zero until it is resolved.\<close>

definition effective_amount :: "Posting \<Rightarrow> int option" where
  "effective_amount p = (if Amount p = None \<and> UpTo p then Some 0 else Amount p)"

fun index_postings :: "nat \<Rightarrow> Postings \<Rightarrow> update_index \<Rightarrow> update_index res" where
  "index_postings i [] idx = Inr idx"
| "index_postings i (p # ps) idx =
     (case effective_amount p of
        None \<Rightarrow> Inl (ErrNilAmount i)
      | Some a \<Rightarrow>
          index_postings (Suc i) ps
            (add_input (Destination p, PAsset p) a
              (add_output (Source p, PAsset p) a idx)))"

definition VolumeUpdates :: "Postings \<Rightarrow> VolumeUpdate list res" where
  "VolumeUpdates p =
     bindE (index_postings 0 p []) (\<lambda>idx. Inr (sort_key update_key (map snd idx)))"

subsection \<open>Validation\<close>

lemma bit_len_0 [simp]: "bit_len 0 = 0"
  by (simp add: bit_len.simps)

lemma bit_len_le_iff: "bit_len n \<le> b \<longleftrightarrow> n < 2 ^ b"
proof (induction b arbitrary: n)
  case 0
  then show ?case by (simp add: bit_len.simps [of n])
next
  case (Suc b)
  show ?case
  proof (cases "n = 0")
    case False
    then have "bit_len n \<le> Suc b \<longleftrightarrow> n div 2 < 2 ^ b"
      by (simp add: bit_len.simps [of n] Suc)
    also have "\<dots> \<longleftrightarrow> n < 2 ^ Suc b"
      by (simp add: div_less_iff_less_mult mult.commute)
    finally show ?thesis .
  qed simp
qed

lemma BitLen_le_iff: "BitLen x \<le> b \<longleftrightarrow> \<bar>x\<bar> < 2 ^ b"
  by (simp add: BitLen_def bit_len_le_iff nat_less_iff)

lemma BitLen_gt_iff: "b < BitLen x \<longleftrightarrow> 2 ^ b \<le> \<bar>x\<bar>"
  using BitLen_le_iff [of x b] by linarith

text \<open>The same recursion on integers, so that evaluation never leaves the binary numerals.\<close>

function int_bits :: "int \<Rightarrow> nat" where
  "int_bits n = (if n \<le> 0 then 0 else Suc (int_bits (n div 2)))"
  by auto
termination by (relation "measure nat") auto

declare int_bits.simps [simp del]

lemma int_bits_nat: "int_bits (int n) = bit_len n"
proof (induction n rule: bit_len.induct)
  case (1 n)
  have half: "int n div 2 = int (n div 2)" by simp
  show ?case
  proof (cases "n = 0")
    case True
    then show ?thesis by (simp add: int_bits.simps)
  next
    case False
    then show ?thesis using 1 by (subst int_bits.simps, subst bit_len.simps) (simp only: half, simp)
  qed
qed

lemma BitLen_code [code]: "BitLen x = int_bits \<bar>x\<bar>"
  using int_bits_nat [of "nat \<bar>x\<bar>"] by (simp add: BitLen_def)

definition valid_posting :: "Posting \<Rightarrow> bool" where
  "valid_posting p \<longleftrightarrow>
     Address_Valid (Source p) \<and> Address_Valid (Destination p) \<and> Asset_Valid (PAsset p) \<and>
     (Amount p = None \<longrightarrow> UpTo p) \<and>
     (\<forall>a. Amount p = Some a \<longrightarrow> 0 \<le> a \<and> a < 2 ^ maxAmountBits)"

lemma validate_one_None: "validate_one p = None \<longleftrightarrow> valid_posting p"
  by (auto simp: validate_one_def valid_posting_def not_le not_less BitLen_gt_iff
      split: option.splits if_splits)

lemma validate_from_None: "validate_from i ps = None \<longleftrightarrow> list_all valid_posting ps"
  by (induction ps arbitrary: i) (auto simp flip: validate_one_None split: option.splits)

lemma validate_from_Some:
  "validate_from i ps = Some (j, e) \<Longrightarrow>
     \<exists>n. j = i + n \<and> n < length ps \<and> validate_one (ps ! n) = Some e \<and>
         list_all valid_posting (take n ps)"
proof (induction ps arbitrary: i)
  case (Cons p ps)
  show ?case
  proof (cases "validate_one p")
    case None
    with Cons.prems have "validate_from (Suc i) ps = Some (j, e)" by simp
    from Cons.IH [OF this] obtain n where n: "j = Suc i + n" "n < length ps"
      "validate_one (ps ! n) = Some e" "list_all valid_posting (take n ps)" by blast
    with None show ?thesis
      by (intro exI [of _ "Suc n"]) (simp add: validate_one_None)
  next
    case (Some e')
    with Cons.prems show ?thesis by (intro exI [of _ 0]) auto
  qed
qed simp

subsection \<open>Flows: what a list of postings adds to each counter\<close>

text \<open>
  The reference the volume deltas are compared with: the amounts of the postings that
  name the key as destination (inflow) and as source (outflow), added up.
\<close>

definition amt :: "Posting \<Rightarrow> int" where
  "amt p = orZero (Amount p)"

definition inflow :: "Postings \<Rightarrow> key \<Rightarrow> int" where
  "inflow ps k = (\<Sum>p\<leftarrow>ps. if (Destination p, PAsset p) = k then amt p else 0)"

definition outflow :: "Postings \<Rightarrow> key \<Rightarrow> int" where
  "outflow ps k = (\<Sum>p\<leftarrow>ps. if (Source p, PAsset p) = k then amt p else 0)"

definition touched :: "Postings \<Rightarrow> key set" where
  "touched ps = (\<Union>p\<in>set ps. {(Source p, PAsset p), (Destination p, PAsset p)})"

lemma flow_simps [simp]:
  "inflow [] k = 0" "outflow [] k = 0"
  "inflow (p # ps) k = (if (Destination p, PAsset p) = k then amt p else 0) + inflow ps k"
  "outflow (p # ps) k = (if (Source p, PAsset p) = k then amt p else 0) + outflow ps k"
  "inflow (ps @ qs) k = inflow ps k + inflow qs k"
  "outflow (ps @ qs) k = outflow ps k + outflow qs k"
  by (simp_all add: inflow_def outflow_def)

lemma flow_rev [simp]: "inflow (rev ps) k = inflow ps k" "outflow (rev ps) k = outflow ps k"
  by (induction ps) simp_all

lemma touched_simps [simp]:
  "touched [] = {}"
  "touched (p # ps) = insert (Source p, PAsset p) (insert (Destination p, PAsset p) (touched ps))"
  by (auto simp: touched_def)

lemma finite_touched [simp]: "finite (touched ps)"
  by (simp add: touched_def)

lemma flow_untouched: "k \<notin> touched ps \<Longrightarrow> inflow ps k = 0 \<and> outflow ps k = 0"
  by (induction ps) auto

lemma effective_amount_amt: "effective_amount p = Some a \<Longrightarrow> a = amt p"
  by (auto simp: effective_amount_def amt_def orZero_def split: if_splits)

definition priced :: "Postings \<Rightarrow> bool" where
  "priced ps \<longleftrightarrow> (\<forall>p\<in>set ps. Amount p = None \<longrightarrow> UpTo p)"

definition nonneg :: "Postings \<Rightarrow> bool" where
  "nonneg ps \<longleftrightarrow> (\<forall>p\<in>set ps. 0 \<le> amt p)"

lemma valid_priced: "list_all valid_posting ps \<Longrightarrow> priced ps"
  by (auto simp: priced_def list_all_iff valid_posting_def)

lemma valid_nonneg: "list_all valid_posting ps \<Longrightarrow> nonneg ps"
  by (auto simp: nonneg_def list_all_iff valid_posting_def amt_def orZero_def split: option.splits)

lemma flow_nonneg: "nonneg ps \<Longrightarrow> 0 \<le> inflow ps k \<and> 0 \<le> outflow ps k"
  by (induction ps) (auto simp: nonneg_def)

subsection \<open>The index and the sorted updates\<close>

definition index_ok :: "update_index \<Rightarrow> (key \<Rightarrow> int) \<Rightarrow> (key \<Rightarrow> int) \<Rightarrow> key set \<Rightarrow> bool" where
  "index_ok idx fin fout ks \<longleftrightarrow>
     unique_keys idx \<and> set (keys idx) = ks \<and>
     (\<forall>(k, u)\<in>set idx. update_key u = k) \<and>
     (\<forall>k. UInput (index_at idx k) = fin k \<and> UOutput (index_at idx k) = fout k)"

lemma index_at_key: "(\<forall>(k, u)\<in>set idx. update_key u = k) \<Longrightarrow> update_key (index_at idx k) = k"
  by (cases "map_of idx k") (auto simp: index_at_def update_key_def dest: map_of_SomeD)

lemma index_at_update: "index_at (AList.update k u idx) k' = (if k' = k then u else index_at idx k')"
  by (simp add: index_at_def)

lemma update_values:
  "(k', u) \<in> set (AList.update k v t) \<Longrightarrow> (k' = k \<and> u = v) \<or> (k', u) \<in> set t"
  by (induction t) (auto split: if_splits)

lemma index_ok_add_output:
  assumes "index_ok idx fin fout ks"
  shows "index_ok (add_output k a idx) fin (fout(k := fout k + a)) (insert k ks)"
proof -
  have "update_key (index_at idx k) = k"
    using assms index_at_key unfolding index_ok_def by blast
  then show ?thesis
    using assms unfolding index_ok_def add_output_def Let_def
    by (auto simp: index_at_update update_key_def dest!: update_values)
qed

lemma index_ok_add_input:
  assumes "index_ok idx fin fout ks"
  shows "index_ok (add_input k a idx) (fin(k := fin k + a)) fout (insert k ks)"
proof -
  have "update_key (index_at idx k) = k"
    using assms index_at_key unfolding index_ok_def by blast
  then show ?thesis
    using assms unfolding index_ok_def add_input_def Let_def
    by (auto simp: index_at_update update_key_def dest!: update_values)
qed

lemma index_postings_ok:
  assumes "index_postings i ps idx = Inr idx'" and "index_ok idx fin fout ks"
  shows "index_ok idx' (\<lambda>k. fin k + inflow ps k) (\<lambda>k. fout k + outflow ps k) (ks \<union> touched ps)"
  using assms
proof (induction ps arbitrary: i idx fin fout ks)
  case (Cons p ps)
  from Cons.prems(1) obtain a where a: "effective_amount p = Some a"
    and rest: "index_postings (Suc i) ps
      (add_input (Destination p, PAsset p) a (add_output (Source p, PAsset p) a idx)) = Inr idx'"
    by (auto split: option.splits)
  let ?s = "(Source p, PAsset p)" and ?d = "(Destination p, PAsset p)"
  have "index_ok (add_input ?d a (add_output ?s a idx)) (fin(?d := fin ?d + a))
          (fout(?s := fout ?s + a)) (insert ?d (insert ?s ks))"
    by (intro index_ok_add_input index_ok_add_output Cons.prems(2))
  note step = Cons.IH [OF rest this]
  have "(\<lambda>k. (fin(?d := fin ?d + a)) k + inflow ps k) = (\<lambda>k. fin k + inflow (p # ps) k)"
    and "(\<lambda>k. (fout(?s := fout ?s + a)) k + outflow ps k) = (\<lambda>k. fout k + outflow (p # ps) k)"
    and "insert ?d (insert ?s ks) \<union> touched ps = ks \<union> touched (p # ps)"
    using effective_amount_amt [OF a] by (auto simp: fun_eq_iff)
  with step show ?case by (simp only:)
qed simp


lemma index_ok_empty: "index_ok [] (\<lambda>k. 0) (\<lambda>k. 0) {}"
  by (simp add: index_ok_def index_at_def)

text \<open>The contract of \<open>VolumeUpdates\<close>: one entry per touched key, in key order, carrying
  exactly the flows.\<close>

definition updates_for :: "Postings \<Rightarrow> VolumeUpdate list \<Rightarrow> bool" where
  "updates_for ps us \<longleftrightarrow>
     sorted (map update_key us) \<and> distinct (map update_key us) \<and>
     update_key ` set us = touched ps \<and>
     (\<forall>u\<in>set us. UInput u = inflow ps (update_key u) \<and> UOutput u = outflow ps (update_key u))"

lemma index_ok_keys: "index_ok idx fin fout ks \<Longrightarrow> map update_key (map snd idx) = keys idx"
  by (auto simp: index_ok_def)

lemma VolumeUpdates_spec:
  assumes "VolumeUpdates ps = Inr us"
  shows "updates_for ps us"
proof -
  from assms obtain idx where idx: "index_postings 0 ps [] = Inr idx"
    and us: "us = sort_key update_key (map snd idx)"
    by (auto simp: VolumeUpdates_def bindE_Inr_iff)
  have ok: "index_ok idx (inflow ps) (outflow ps) (touched ps)"
    using index_postings_ok [OF idx index_ok_empty] by simp
  note ks = index_ok_keys [OF ok]
  have "mset (map update_key us) = mset (map update_key (map snd idx))"
    by (simp add: us multiset.map_comp)
  then have "mset (map update_key us) = mset (keys idx)"
    by (simp only: ks)
  then have dist: "distinct (map update_key us)"
    using ok by (metis index_ok_def mset_eq_imp_distinct_iff)
  have "update_key ` set us = set (map update_key (map snd idx))"
    by (simp add: us image_comp)
  then have keys: "update_key ` set us = touched ps"
    using ok by (simp only: ks index_ok_def)
  have "UInput u = inflow ps (update_key u) \<and> UOutput u = outflow ps (update_key u)"
    if "u \<in> set us" for u
  proof -
    from that obtain k where k: "(k, u) \<in> set idx" by (auto simp: us)
    with ok have "update_key u = k" and "map_of idx k = Some u"
      by (auto simp: index_ok_def)
    then have "index_at idx (update_key u) = u" by (simp add: index_at_def)
    then show ?thesis using ok by (metis index_ok_def)
  qed
  with dist keys show ?thesis by (simp add: updates_for_def us)
qed

lemma index_postings_total: "(\<exists>idx'. index_postings i ps idx = Inr idx') \<longleftrightarrow> priced ps"
  by (induction ps arbitrary: i idx)
    (auto simp: priced_def effective_amount_def split: option.splits)

lemma VolumeUpdates_total: "(\<exists>us. VolumeUpdates ps = Inr us) \<longleftrightarrow> priced ps"
  using index_postings_total [of 0 ps "[]"] by (simp add: VolumeUpdates_def bindE_Inr_iff)

lemma updates_for_unique:
  assumes "updates_for ps us" "updates_for ps us'"
  shows "us = us'"
proof -
  have same_keys: "map update_key us = map update_key us'"
    by (rule sorted_distinct_set_unique) (use assms in \<open>auto simp: updates_for_def\<close>)
  have det: "u = u'" if "u \<in> set us" "u' \<in> set us'" "update_key u = update_key u'" for u u'
  proof -
    have "UInput u = UInput u'" "UOutput u = UOutput u'"
      using that assms by (auto simp: updates_for_def)
    with that(3) show ?thesis by (simp add: update_key_def)
  qed
  have "list_all2 (=) us us'"
    using same_keys det by (auto simp: list_all2_conv_all_nth list_eq_iff_nth_eq)
  then show ?thesis by (simp add: list.rel_eq)
qed

text \<open>Sums of the updates: per asset, what arrives is what leaves.\<close>

definition upd_net :: "Asset \<Rightarrow> VolumeUpdate list \<Rightarrow> int" where
  "upd_net s us = (\<Sum>u\<leftarrow>us. if UAsset u = s then UInput u - UOutput u else 0)"

lemma flow_sum_asset:
  assumes "finite K" "touched ps \<subseteq> K"
  shows "(\<Sum>k\<in>{k \<in> K. snd k = s}. inflow ps k) = (\<Sum>p\<leftarrow>ps. if PAsset p = s then amt p else 0)"
    and "(\<Sum>k\<in>{k \<in> K. snd k = s}. outflow ps k) = (\<Sum>p\<leftarrow>ps. if PAsset p = s then amt p else 0)"
  using assms
proof (induction ps)
  case (Cons p ps)
  have fin: "finite {k \<in> K. snd k = s}" using assms(1) by simp
  have point: "(\<Sum>k\<in>{k \<in> K. snd k = s}. if k0 = k then amt p else 0) = (if PAsset p = s then amt p else 0)"
    if "k0 \<in> K" "snd k0 = PAsset p" for k0
    using that fin by (simp add: sum.delta)
  {
    case 1
    then have "(Destination p, PAsset p) \<in> K" by auto
    with 1 Cons.IH(1) show ?case by (simp add: sum.distrib point)
  next
    case 2
    then have "(Source p, PAsset p) \<in> K" by auto
    with 2 Cons.IH(2) show ?case by (simp add: sum.distrib point)
  }
qed simp_all

lemma upd_net_zero:
  assumes "updates_for ps us"
  shows "upd_net s us = 0"
proof -
  let ?f = "\<lambda>k. if snd k = s then inflow ps k - outflow ps k else 0"
  have "upd_net s us = (\<Sum>k\<leftarrow>map update_key us. ?f k)"
    unfolding upd_net_def map_map comp_def
    by (rule arg_cong [where f = sum_list], rule map_cong [OF refl])
      (use assms in \<open>auto simp: updates_for_def update_key_def\<close>)
  also have "\<dots> = (\<Sum>k\<in>touched ps. ?f k)"
    by (subst sum_list_distinct_conv_sum_set) (use assms in \<open>auto simp: updates_for_def\<close>)
  also have "\<dots> = (\<Sum>k\<in>{k \<in> touched ps. snd k = s}. inflow ps k - outflow ps k)"
    by (simp add: sum.inter_filter)
  also have "\<dots> = 0"
    using flow_sum_asset [of "touched ps" ps s] by (simp add: sum_subtractf)
  finally show ?thesis .
qed

subsection \<open>Reversal\<close>

definition all_amounts :: "Postings \<Rightarrow> bool" where
  "all_amounts ps \<longleftrightarrow> (\<forall>p\<in>set ps. Amount p \<noteq> None)"

lemma reverse_from_eq:
  "reverse_from i ps acc =
     (if all_amounts ps then Inr (rev (map (\<lambda>p. swap_posting p (amt p)) ps) @ acc)
      else reverse_from i ps acc)"
  by (induction ps arbitrary: i acc) (auto simp: all_amounts_def amt_def orZero_def)

lemma reverse_from_Inr: "reverse_from i ps acc = Inr qs \<Longrightarrow> all_amounts ps"
  by (induction ps arbitrary: i acc) (auto simp: all_amounts_def split: option.splits)

lemma Reverse_eq:
  "Reverse ps = Inr qs \<longleftrightarrow> all_amounts ps \<and> qs = rev (map (\<lambda>p. swap_posting p (amt p)) ps)"
  using reverse_from_eq [of 0 ps "[]"] reverse_from_Inr [of 0 ps "[]" qs]
  by (auto simp: Reverse_def)

lemma reverse_from_Inl:
  "reverse_from i ps acc = Inl e \<Longrightarrow>
     \<exists>n < length ps. e = ErrNilAmount (i + n) \<and> Amount (ps ! n) = None \<and> all_amounts (take n ps)"
proof (induction ps arbitrary: i acc)
  case (Cons p ps)
  show ?case
  proof (cases "Amount p")
    case None
    with Cons.prems show ?thesis by (intro exI [of _ 0]) (simp add: all_amounts_def)
  next
    case (Some a)
    with Cons.prems Cons.IH [of "Suc i" "swap_posting p a # acc"] obtain n where
      "n < length ps" "e = ErrNilAmount (Suc i + n)" "Amount (ps ! n) = None"
      "all_amounts (take n ps)" by auto
    with Some show ?thesis by (intro exI [of _ "Suc n"]) (auto simp: all_amounts_def)
  qed
qed simp

lemma swap_fields [simp]:
  "Source (swap_posting p a) = Destination p" "Destination (swap_posting p a) = Source p"
  "PAsset (swap_posting p a) = PAsset p" "Amount (swap_posting p a) = Some a"
  "amt (swap_posting p a) = a" "UpTo (swap_posting p a) = False"
  by (simp_all add: swap_posting_def amt_def orZero_def)

lemma flow_swap:
  "inflow (map (\<lambda>p. swap_posting p (amt p)) ps) k = outflow ps k"
  "outflow (map (\<lambda>p. swap_posting p (amt p)) ps) k = inflow ps k"
  by (induction ps) simp_all

lemma Reverse_flow:
  assumes "Reverse ps = Inr qs"
  shows "inflow qs k = outflow ps k" "outflow qs k = inflow ps k"
  using assms by (simp_all add: Reverse_eq flow_swap)

lemma Reverse_touched: "Reverse ps = Inr qs \<Longrightarrow> touched qs = touched ps"
  by (auto simp: Reverse_eq touched_def)

lemma swap_swap: "Amount p \<noteq> None \<Longrightarrow> \<not> UpTo p \<Longrightarrow> swap_posting (swap_posting p (amt p)) (amt p) = p"
  by (cases p) (auto simp: swap_posting_def amt_def orZero_def)

end
