(* ===== verification/Ledger_Records.thy ===== *)
theory Ledger_Records
  imports Ledger_Postings
begin

text \<open>
  Transactions, metadata and log entries (\<open>src/ledger/transaction.go\<close>,
  \<open>src/ledger/log.go\<close>, \<open>src/ledger/account.go\<close>). A Go map with string keys is a table;
  \<open>None\<close> is a nil map where the code tells nil and empty apart. An instant is the number of
  nanoseconds since Go's zero time, so the zero time is \<open>0\<close>; zones only choose how an
  instant is printed.
\<close>

subsection \<open>Metadata\<close>

type_synonym Metadata = "(string, string) table"

definition MaxMetadataKeys :: nat where "MaxMetadataKeys = 32"
definition MaxMetadataKeyLength :: nat where "MaxMetadataKeyLength = 128"
definition MaxMetadataValueLength :: nat where "MaxMetadataValueLength = 1024"

lemmas metadata_caps = MaxMetadataKeys_def MaxMetadataKeyLength_def MaxMetadataValueLength_def

definition truncate :: "string \<Rightarrow> string" where
  "truncate s = (if length s \<le> 32 then s else take 32 s @ ''...'')"

definition metadata_entry :: "string \<times> string \<Rightarrow> error option" where
  "metadata_entry kv =
     (case kv of (k, v) \<Rightarrow>
        if k = [] then Some ErrEmptyMetadataKey
        else if length k > MaxMetadataKeyLength
          then Some (ErrMetadataKeyTooLong (truncate k) (length k))
        else if length v > MaxMetadataValueLength
          then Some (ErrMetadataValueTooLong (truncate k) (length v))
        else None)"

fun metadata_entries :: "Metadata \<Rightarrow> error option" where
  "metadata_entries [] = None"
| "metadata_entries (kv # m) =
     (case metadata_entry kv of Some e \<Rightarrow> Some e | None \<Rightarrow> metadata_entries m)"

text \<open>\<open>None\<close> is the nil error. Which of several bad entries is reported depends on Go's
  map order; the model takes the table's.\<close>

definition Metadata_Validate :: "Metadata \<Rightarrow> error option" where
  "Metadata_Validate m =
     (if length m > MaxMetadataKeys then Some (ErrTooManyMetadataKeys (length m))
      else metadata_entries m)"

definition small_metadata :: "Metadata \<Rightarrow> bool" where
  "small_metadata m \<longleftrightarrow>
     length m \<le> 32 \<and> (\<forall>(k, v)\<in>set m. k \<noteq> [] \<and> length k \<le> 128 \<and> length v \<le> 1024)"

lemma metadata_entries_None:
  "metadata_entries m = None \<longleftrightarrow> (\<forall>kv\<in>set m. metadata_entry kv = None)"
  by (induction m) (auto split: option.splits)

lemma metadata_entry_None:
  "metadata_entry (k, v) = None \<longleftrightarrow> k \<noteq> [] \<and> length k \<le> 128 \<and> length v \<le> 1024"
  by (simp add: metadata_entry_def metadata_caps)

lemma Metadata_Validate_None: "Metadata_Validate m = None \<longleftrightarrow> small_metadata m"
  by (auto simp: Metadata_Validate_def small_metadata_def metadata_entries_None
      metadata_entry_None metadata_caps)

lemma length_truncate: "length (truncate s) \<le> 35"
  by (simp add: truncate_def)

subsection \<open>Transactions\<close>

type_synonym PostCommitVolumes = "(Address, (Asset, Volumes) table) table"

definition PCV_Set :: "PostCommitVolumes \<Rightarrow> Address \<Rightarrow> Asset \<Rightarrow> Volumes \<Rightarrow> PostCommitVolumes" where
  "PCV_Set v account asset vol =
     (let inner = (case map_of v account of None \<Rightarrow> [] | Some m \<Rightarrow> m)
      in AList.update account (AList.update asset vol inner) v)"

definition pcv_lookup :: "PostCommitVolumes \<Rightarrow> key \<Rightarrow> Volumes option" where
  "pcv_lookup v k = (case map_of v (fst k) of None \<Rightarrow> None | Some m \<Rightarrow> map_of m (snd k))"

lemma pcv_lookup_Set:
  "pcv_lookup (PCV_Set v a s vol) k = (if k = (a, s) then Some vol else pcv_lookup v k)"
  by (cases k) (auto simp: pcv_lookup_def PCV_Set_def Let_def split: option.splits)

record Transaction =
  TxID :: int
  TPostings :: Postings
  Timestamp :: time
  InsertedAt :: time
  RevertedAt :: "time option"
  TReference :: string
  TMetadata :: "Metadata option"
  TPostCommitVolumes :: PostCommitVolumes

definition zero_transaction :: Transaction where
  "zero_transaction =
     \<lparr>TxID = 0, TPostings = [], Timestamp = 0, InsertedAt = 0, RevertedAt = None,
      TReference = [], TMetadata = None, TPostCommitVolumes = []\<rparr>"

definition orEmpty :: "Metadata option \<Rightarrow> Metadata" where
  "orEmpty m = (case m of None \<Rightarrow> [] | Some m' \<Rightarrow> m')"

record GAccount =
  GAddress :: Address
  GMetadata :: Metadata
  FirstUsage :: time
  InsertionDate :: time
  UpdatedAt :: time
  GVolumes :: "(Asset, Volumes) table option"
  GEffectiveVolumes :: "(Asset, Volumes) table option"

subsection \<open>Log entries\<close>

datatype LogType =
  LogNewTransaction | LogRevertedTransaction | LogSetMetadata | LogDeleteMetadata | LogRecovery

datatype MetadataTargetType = TargetTransaction | TargetAccount

record SetMetadataPayload =
  SetTargetType :: MetadataTargetType
  SetTargetID :: string
  SetMetadata :: Metadata

record DeleteMetadataPayload =
  DelTargetType :: MetadataTargetType
  DelTargetID :: string
  DelKey :: string

record RevertedTransactionPayload =
  RevertedTransactionID :: int
  RevTransaction :: "Transaction option"

record RecoveryPayload =
  ResumedFrom :: int
  SkippedThrough :: int
  Note :: string

text \<open>
  What the bytes of \<open>logs.data\<close> are: the text \<open>json.Marshal\<close> wrote for one of the five
  payloads, or bytes that are none of them. The decoders below say what
  \<open>json.Unmarshal\<close> returns on that text for each target type; fields the text does not
  name keep their zero value, so an empty metadata map, which is omitted, reads back as nil.
\<close>

datatype log_data =
    TxData Transaction
  | RevertedData RevertedTransactionPayload
  | SetMetadataData SetMetadataPayload
  | DeleteMetadataData DeleteMetadataPayload
  | RecoveryData RecoveryPayload
  | RawData string

definition json_roundtrip :: "Transaction \<Rightarrow> Transaction" where
  "json_roundtrip t = t\<lparr>TMetadata := (if orEmpty (TMetadata t) = [] then None else TMetadata t)\<rparr>"

fun unmarshalTransaction :: "log_data \<Rightarrow> Transaction option" where
  "unmarshalTransaction (TxData t) = Some (json_roundtrip t)"
| "unmarshalTransaction (RevertedData _) = Some zero_transaction"
| "unmarshalTransaction (SetMetadataData p) =
     Some (zero_transaction\<lparr>TMetadata := Some (SetMetadata p)\<rparr>)"
| "unmarshalTransaction (DeleteMetadataData _) = Some zero_transaction"
| "unmarshalTransaction (RecoveryData _) = Some zero_transaction"
| "unmarshalTransaction (RawData _) = None"

fun unmarshalReverted :: "log_data \<Rightarrow> RevertedTransactionPayload option" where
  "unmarshalReverted (RevertedData p) =
     Some (p\<lparr>RevTransaction := map_option json_roundtrip (RevTransaction p)\<rparr>)"
| "unmarshalReverted (RawData _) = None"
| "unmarshalReverted _ = Some \<lparr>RevertedTransactionID = 0, RevTransaction = None\<rparr>"

fun unmarshalRecovery :: "log_data \<Rightarrow> RecoveryPayload option" where
  "unmarshalRecovery (RecoveryData p) = Some p"
| "unmarshalRecovery (RawData _) = None"
| "unmarshalRecovery _ = Some \<lparr>ResumedFrom = 0, SkippedThrough = 0, Note = []\<rparr>"

record Log =
  LogID :: int
  LType :: LogType
  LDate :: time
  LData :: log_data
  LHash :: string
  IdempotencyKey :: string
  IdempotencyHash :: string

definition RevertsKey :: string where "RevertsKey = ''giro/reverts''"
definition BatchKey :: string where "BatchKey = ''giro/batch''"

end
