(* ===== verification/Go_Sha256.thy ===== *)
theory Go_Sha256
  imports Giro_Prelude
begin

text \<open>
  The two encoders of Go's standard library that the hash chain and the idempotency keys
  rest on: \<open>crypto/sha256\<close> (FIPS 180-4) on byte strings and \<open>encoding/hex\<close>. No theorem
  of the development assumes that SHA-256 has no collisions; the theorems that need it
  name the pair of inputs it is needed for.
\<close>

unbundle bit_operations_syntax

type_synonym u32 = "32 word"

definition sha_k :: "u32 list" where
  "sha_k =
    [1116352408, 1899447441, 3049323471, 3921009573, 961987163, 1508970993, 2453635748, 2870763221,
     3624381080, 310598401, 607225278, 1426881987, 1925078388, 2162078206, 2614888103, 3248222580,
     3835390401, 4022224774, 264347078, 604807628, 770255983, 1249150122, 1555081692, 1996064986,
     2554220882, 2821834349, 2952996808, 3210313671, 3336571891, 3584528711, 113926993, 338241895,
     666307205, 773529912, 1294757372, 1396182291, 1695183700, 1986661051, 2177026350, 2456956037,
     2730485921, 2820302411, 3259730800, 3345764771, 3516065817, 3600352804, 4094571909, 275423344,
     430227734, 506948616, 659060556, 883997877, 958139571, 1322822218, 1537002063, 1747873779,
     1955562222, 2024104815, 2227730452, 2361852424, 2428436474, 2756734187, 3204031479, 3329325298]"

definition sha_init :: "u32 list" where
  "sha_init = [1779033703, 3144134277, 1013904242, 2773480762, 1359893119, 2600822924, 528734635, 1541459225]"

definition rotr :: "nat \<Rightarrow> u32 \<Rightarrow> u32" where
  "rotr n x = drop_bit n x OR push_bit (32 - n) x"

definition big_sigma0 :: "u32 \<Rightarrow> u32" where "big_sigma0 x = rotr 2 x XOR rotr 13 x XOR rotr 22 x"
definition big_sigma1 :: "u32 \<Rightarrow> u32" where "big_sigma1 x = rotr 6 x XOR rotr 11 x XOR rotr 25 x"
definition small_sigma0 :: "u32 \<Rightarrow> u32" where "small_sigma0 x = rotr 7 x XOR rotr 18 x XOR drop_bit 3 x"
definition small_sigma1 :: "u32 \<Rightarrow> u32" where "small_sigma1 x = rotr 17 x XOR rotr 19 x XOR drop_bit 10 x"
definition sha_ch :: "u32 \<Rightarrow> u32 \<Rightarrow> u32 \<Rightarrow> u32" where "sha_ch x y z = (x AND y) XOR (NOT x AND z)"
definition sha_maj :: "u32 \<Rightarrow> u32 \<Rightarrow> u32 \<Rightarrow> u32" where "sha_maj x y z = (x AND y) XOR (x AND z) XOR (y AND z)"

text \<open>The message schedule, kept newest first: from sixteen words to sixty-four.\<close>

fun sha_schedule :: "nat \<Rightarrow> u32 list \<Rightarrow> u32 list" where
  "sha_schedule 0 ws = ws"
| "sha_schedule (Suc n) ws =
     sha_schedule n ((small_sigma1 (ws ! 1) + ws ! 6 + small_sigma0 (ws ! 14) + ws ! 15) # ws)"

fun sha_round :: "u32 list \<Rightarrow> u32 \<times> u32 \<Rightarrow> u32 list" where
  "sha_round [a, b, c, d, e, f, g, h] (k, w) =
     (let t1 = h + big_sigma1 e + sha_ch e f g + k + w;
          t2 = big_sigma0 a + sha_maj a b c
      in [t1 + t2, a, b, c, d + t1, e, f, g])"
| "sha_round st _ = st"

definition be_word :: "char list \<Rightarrow> u32" where
  "be_word cs = foldl (\<lambda>w c. w * 256 + of_char c) 0 cs"

fun chunks :: "nat \<Rightarrow> nat \<Rightarrow> 'a list \<Rightarrow> 'a list list" where
  "chunks 0 n xs = []"
| "chunks (Suc fuel) n xs = (if xs = [] then [] else take n xs # chunks fuel n (drop n xs))"

definition sha_block :: "u32 list \<Rightarrow> char list \<Rightarrow> u32 list" where
  "sha_block st bs =
     (let ws = rev (sha_schedule 48 (rev (map be_word (chunks 16 4 bs))))
      in map2 (+) st (foldl sha_round st (zip sha_k ws)))"

definition be_bytes :: "nat \<Rightarrow> int \<Rightarrow> char list" where
  "be_bytes n x = map (\<lambda>i. char_of (x div 256 ^ (n - 1 - i))) [0..<n]"

definition sha_pad :: "char list \<Rightarrow> char list" where
  "sha_pad m =
     (let n = length m
      in m @ [char_of (128 :: int)] @ replicate ((119 - n mod 64) mod 64) (char_of (0 :: int))
           @ be_bytes 8 (8 * int n))"

text \<open>\<open>sha256.Sum256\<close>; \<open>h.Write(a); h.Write(b); h.Sum(nil)\<close> is \<open>sha256 (a @ b)\<close>.\<close>

definition sha256 :: "string \<Rightarrow> string" where
  "sha256 m =
     (let p = sha_pad m
      in concat (map (\<lambda>w. be_bytes 4 (uint w)) (foldl sha_block sha_init (chunks (length p) 64 p))))"

definition hex_digit :: "nat \<Rightarrow> char" where
  "hex_digit n = ''0123456789abcdef'' ! (n mod 16)"

text \<open>\<open>hex.EncodeToString\<close>\<close>

definition hexEncode :: "string \<Rightarrow> string" where
  "hexEncode s = concat (map (\<lambda>c. [hex_digit (of_char c div 16), hex_digit (of_char c)]) s)"

subsection \<open>Every digest has thirty-two bytes\<close>

lemma sha_round_length: "length st = 8 \<Longrightarrow> length (sha_round st kw) = 8"
  by (cases "(st, kw)" rule: sha_round.cases) (auto simp: Let_def)

lemma foldl_sha_round_length: "length st = 8 \<Longrightarrow> length (foldl sha_round st kws) = 8"
  by (induction kws arbitrary: st) (auto simp: sha_round_length)

lemma sha_block_length: "length st = 8 \<Longrightarrow> length (sha_block st bs) = 8"
  by (simp add: sha_block_def Let_def foldl_sha_round_length)

lemma foldl_sha_block_length: "length st = 8 \<Longrightarrow> length (foldl sha_block st bss) = 8"
  by (induction bss arbitrary: st) (auto simp: sha_block_length)

lemma length_be_bytes [simp]: "length (be_bytes n x) = n"
  by (simp add: be_bytes_def)

lemma length_concat_be_bytes: "length (concat (map (\<lambda>w. be_bytes 4 (uint w)) ws)) = 4 * length ws"
  by (induction ws) auto

lemma length_sha256 [simp]: "length (sha256 m) = 32"
  by (simp add: sha256_def Let_def length_concat_be_bytes foldl_sha_block_length sha_init_def)

lemma sha256_nonempty [simp]: "sha256 m \<noteq> []"
  using length_sha256 [of m] by (metis list.size(3) zero_neq_numeral)

lemma hexEncode_nonempty: "s \<noteq> [] \<Longrightarrow> hexEncode s \<noteq> []"
  by (cases s) (auto simp: hexEncode_def)

text \<open>The first test vector of the standard: the digest of the empty message.\<close>

lemma sha256_empty:
  "hexEncode (sha256 []) = ''e3b0c44298fc1c149afbf4c8996fb92427ae41e4649b934ca495991b7852b855''"
  by code_simp

end
