(* ===== verification/Go_Json.thy ===== *)
theory Go_Json
  imports Ledger_Records Go_Sha256
begin

text \<open>
  The bytes that are hashed: what \<open>encoding/json\<close> writes for the payloads of log entries and
  for the input of an idempotency hash. Struct fields come in declaration order, map keys
  sorted, \<open>omitempty\<close> fields only when they are not empty; a nil map or pointer is \<open>null\<close>.
  Strings are UTF-8 texts: sequences that are not UTF-8, which \<open>json.Marshal\<close> would replace
  by U+FFFD, are outside the model. Instants print in UTC.
\<close>

subsection \<open>Strings, numbers, instants\<close>

text \<open>The HTML-safe escaping that \<open>json.Marshal\<close> applies to strings.\<close>

definition hex2 :: "nat \<Rightarrow> string" where
  "hex2 n = [hex_digit (n div 16), hex_digit n]"

definition json_char :: "char \<Rightarrow> string" where
  "json_char c =
     (let n = of_char c :: nat
      in if n = 34 \<or> n = 92 then [CHR 0x5C, c]
         else if n = 8 then [CHR 0x5C] @ ''b''
         else if n = 9 then [CHR 0x5C] @ ''t''
         else if n = 10 then [CHR 0x5C] @ ''n''
         else if n = 12 then [CHR 0x5C] @ ''f''
         else if n = 13 then [CHR 0x5C] @ ''r''
         else if n < 32 \<or> n = 38 \<or> n = 60 \<or> n = 62 then [CHR 0x5C] @ ''u00'' @ hex2 n
         else [c])"

text \<open>U+2028 and U+2029 (three bytes each in UTF-8) are escaped as well.\<close>

fun json_chars :: "string \<Rightarrow> string" where
  "json_chars [] = []"
| "json_chars (a # b # c # s) =
     (if a = CHR 0xE2 \<and> b = CHR 0x80 \<and> (c = CHR 0xA8 \<or> c = CHR 0xA9)
      then [CHR 0x5C] @ ''u202'' @ [hex_digit (of_char c)] @ json_chars s
      else json_char a @ json_chars (b # c # s))"
| "json_chars (a # s) = json_char a @ json_chars s"

definition json_string :: "string \<Rightarrow> string" where
  "json_string s = [CHR 0x22] @ json_chars s @ [CHR 0x22]"

text \<open>Decimal digits of a number below \<open>10 ^ fuel\<close>; the fuel of \<open>json_int\<close> always is enough,
  since a number has at most as many digits as bits.\<close>

fun dec_digits :: "nat \<Rightarrow> int \<Rightarrow> string \<Rightarrow> string" where
  "dec_digits 0 n acc = acc"
| "dec_digits (Suc fuel) n acc =
     (let acc' = char_of (48 + n mod 10) # acc
      in if n < 10 then acc' else dec_digits fuel (n div 10) acc')"

definition json_int :: "int \<Rightarrow> string" where
  "json_int n =
     (if n < 0 then ''-'' @ dec_digits (Suc (BitLen n)) (- n) []
      else dec_digits (Suc (BitLen n)) n [])"

definition json_bigint :: "int option \<Rightarrow> string" where
  "json_bigint i = (case i of None \<Rightarrow> ''null'' | Some n \<Rightarrow> json_int n)"

definition pad_int :: "nat \<Rightarrow> int \<Rightarrow> string" where
  "pad_int w n = (let d = json_int n in replicate (w - length d) CHR ''0'' @ d)"

text \<open>The Gregorian calendar from the number of days since 1 January of year 1.\<close>

definition year_and_day :: "int \<Rightarrow> int \<times> int" where
  "year_and_day days =
     (let n400 = days div 146097; d = days mod 146097;
          n100 = min 3 (d div 36524); d1 = d - 36524 * n100;
          n4 = d1 div 1461; d2 = d1 mod 1461;
          n1 = min 3 (d2 div 365)
      in (400 * n400 + 100 * n100 + 4 * n4 + n1 + 1, d2 - 365 * n1))"

definition leap_year :: "int \<Rightarrow> bool" where
  "leap_year y \<longleftrightarrow> y mod 4 = 0 \<and> (y mod 100 \<noteq> 0 \<or> y mod 400 = 0)"

fun month_and_day :: "int list \<Rightarrow> int \<Rightarrow> int \<Rightarrow> int \<times> int" where
  "month_and_day [] m d = (m, d + 1)"
| "month_and_day (n # ns) m d = (if d < n then (m, d + 1) else month_and_day ns (m + 1) (d - n))"

definition month_lengths :: "int \<Rightarrow> int list" where
  "month_lengths y = [31, if leap_year y then 29 else 28, 31, 30, 31, 30, 31, 31, 30, 31, 30]"

definition nanos_per_second :: int where "nanos_per_second = 1000000000"

definition year_of :: "time \<Rightarrow> int" where
  "year_of t = fst (year_and_day (t div (86400 * nanos_per_second)))"

fun drop_zeros :: "string \<Rightarrow> string" where
  "drop_zeros [] = []"
| "drop_zeros (c # s) = (if c = CHR ''0'' then drop_zeros s else c # s)"

text \<open>\<open>time.RFC3339Nano\<close>: fractional seconds without trailing zeros.\<close>

definition rfc3339nano :: "time \<Rightarrow> string" where
  "rfc3339nano t =
     (let secs = t div nanos_per_second; frac = t mod nanos_per_second;
          (y, yd) = year_and_day (secs div 86400);
          (m, d) = month_and_day (month_lengths y) 1 yd;
          s = secs mod 86400;
          f = rev (drop_zeros (rev (pad_int 9 frac)))
      in pad_int 4 y @ ''-'' @ pad_int 2 m @ ''-'' @ pad_int 2 d @ ''T''
         @ pad_int 2 (s div 3600) @ '':'' @ pad_int 2 (s div 60 mod 60) @ '':'' @ pad_int 2 (s mod 60)
         @ (if f = [] then [] else ''.'' @ f) @ ''Z'')"

text \<open>\<open>time.Time.MarshalJSON\<close> refuses a year outside 0 to 9999.\<close>

definition time_ok :: "time \<Rightarrow> bool" where
  "time_ok t \<longleftrightarrow> 0 \<le> year_of t \<and> year_of t \<le> 9999"

definition json_time :: "time \<Rightarrow> string" where
  "json_time t = [CHR 0x22] @ rfc3339nano t @ [CHR 0x22]"

subsection \<open>Objects\<close>

definition json_obj :: "(string \<times> string) list \<Rightarrow> string" where
  "json_obj fs = ''{'' @ join_with CHR '','' (map (\<lambda>(k, v). json_string k @ '':'' @ v) fs) @ ''}''"

definition json_arr :: "string list \<Rightarrow> string" where
  "json_arr xs = ''['' @ join_with CHR '','' xs @ '']''"

definition json_map :: "('v \<Rightarrow> string) \<Rightarrow> (string, 'v) table \<Rightarrow> string" where
  "json_map f m = json_obj (sort_key fst (map (\<lambda>(k, v). (k, f v)) m))"

definition json_metadata :: "Metadata option \<Rightarrow> string" where
  "json_metadata m = (case m of None \<Rightarrow> ''null'' | Some kvs \<Rightarrow> json_map json_string kvs)"

definition json_posting :: "Posting \<Rightarrow> string" where
  "json_posting p =
     json_obj ([(''source'', json_string (Source p)), (''destination'', json_string (Destination p)),
                (''asset'', json_string (PAsset p)), (''amount'', json_bigint (Amount p))]
               @ (if UpTo p then [(''upTo'', ''true'')] else []))"

definition json_postings :: "Postings \<Rightarrow> string" where
  "json_postings ps = json_arr (map json_posting ps)"

definition json_volumes :: "Volumes \<Rightarrow> string" where
  "json_volumes v = json_obj [(''input'', json_int (Input v)), (''output'', json_int (Output v))]"

definition json_pcv :: "PostCommitVolumes \<Rightarrow> string" where
  "json_pcv v = json_map (json_map json_volumes) v"

definition json_transaction :: "Transaction \<Rightarrow> string" where
  "json_transaction t =
     json_obj
       ([(''id'', json_int (TxID t)), (''postings'', json_postings (TPostings t)),
         (''timestamp'', json_time (Timestamp t)), (''insertedAt'', json_time (InsertedAt t))]
        @ (case RevertedAt t of None \<Rightarrow> [] | Some r \<Rightarrow> [(''revertedAt'', json_time r)])
        @ (if TReference t = [] then [] else [(''reference'', json_string (TReference t))])
        @ (if orEmpty (TMetadata t) = [] then [] else [(''metadata'', json_metadata (TMetadata t))])
        @ (if TPostCommitVolumes t = [] then []
           else [(''postCommitVolumes'', json_pcv (TPostCommitVolumes t))]))"

definition target_text :: "MetadataTargetType \<Rightarrow> string" where
  "target_text t = (case t of TargetTransaction \<Rightarrow> ''TRANSACTION'' | TargetAccount \<Rightarrow> ''ACCOUNT'')"

text \<open>The bytes stored in \<open>logs.data\<close>.\<close>

fun log_text :: "log_data \<Rightarrow> string" where
  "log_text (TxData t) = json_transaction t"
| "log_text (RevertedData p) =
     json_obj [(''revertedTransactionId'', json_int (RevertedTransactionID p)),
               (''transaction'',
                case RevTransaction p of None \<Rightarrow> ''null'' | Some t \<Rightarrow> json_transaction t)]"
| "log_text (SetMetadataData p) =
     json_obj [(''targetType'', json_string (target_text (SetTargetType p))),
               (''targetId'', json_string (SetTargetID p)),
               (''metadata'', json_metadata (Some (SetMetadata p)))]"
| "log_text (DeleteMetadataData p) =
     json_obj [(''targetType'', json_string (target_text (DelTargetType p))),
               (''targetId'', json_string (DelTargetID p)), (''key'', json_string (DelKey p))]"
| "log_text (RecoveryData p) =
     json_obj ([(''resumedFrom'', json_int (ResumedFrom p)),
                (''skippedThrough'', json_int (SkippedThrough p))]
               @ (if Note p = [] then [] else [(''note'', json_string (Note p))]))"
| "log_text (RawData s) = s"

text \<open>\<open>json.Marshal\<close> fails on a payload only for an instant it cannot print.\<close>

definition transaction_marshals :: "Transaction \<Rightarrow> bool" where
  "transaction_marshals t \<longleftrightarrow>
     time_ok (Timestamp t) \<and> time_ok (InsertedAt t) \<and>
     (case RevertedAt t of None \<Rightarrow> True | Some r \<Rightarrow> time_ok r)"

fun marshals :: "log_data \<Rightarrow> bool" where
  "marshals (TxData t) = transaction_marshals t"
| "marshals (RevertedData p) =
     (case RevTransaction p of None \<Rightarrow> True | Some t \<Rightarrow> transaction_marshals t)"
| "marshals _ = True"

subsection \<open>Hashes\<close>

text \<open>\<open>ledger.ChainHash\<close>: the previous hash (nil at the head of the chain), then the data.\<close>

definition ChainHash :: "string \<Rightarrow> string \<Rightarrow> string" where
  "ChainHash previous data = sha256 (previous @ data)"

lemma length_ChainHash [simp]: "length (ChainHash p d) = 32"
  by (simp add: ChainHash_def)

lemma ChainHash_nonempty [simp]: "ChainHash p d \<noteq> []"
  by (simp add: ChainHash_def)

text \<open>Two chains whose digests agree agree on the last data, unless the two inputs are a
  collision of SHA-256.\<close>

lemma ChainHash_inj:
  assumes "ChainHash p d = ChainHash p' d'" and "length p = length p'"
    and "\<not> (p @ d \<noteq> p' @ d' \<and> sha256 (p @ d) = sha256 (p' @ d'))"
  shows "p = p' \<and> d = d'"
  using assms by (auto simp: ChainHash_def)

end
