(* ===== verification/Giro_Db.thy ===== *)
theory Giro_Db
  imports Go_Json
begin

text \<open>
  The database as the engine sees it: the tables of \<open>src/migrations\<close> that the Go code reads
  and writes, with the constraints and triggers that decide whether a statement succeeds.
  A statement is a function on the state that returns an error code instead of a state
  when a constraint or trigger refuses it. A database transaction is state passing: what an
  operation does not return is rolled back. Checks that are deferred to COMMIT
  (\<open>accounts_volumes_conservation\<close>) are queued in \<open>deferred\<close> and run by \<open>db_commit\<close>.

  Amounts are \<open>numeric\<close> columns that only ever hold integers; ids are \<open>bigint\<close>.
\<close>

subsection \<open>Rows and tables\<close>

record ledger_row =
  added_at :: time
  last_tx_id :: int
  last_log_id :: int
  last_log_hash :: "string option"

record account_row =
  address_array :: "string list"
  acc_metadata :: Metadata
  first_usage :: time
  insertion_date :: time
  updated_at :: time
  closed :: bool

record volume_row =
  vr_input :: int
  vr_output :: int
  allow_negative :: bool
  allow_positive :: bool

record tx_row =
  tx_timestamp :: time
  tx_inserted_at :: time
  tx_reverted_at :: "time option"
  tx_reference :: "string option"
  tx_postings :: Postings
  tx_metadata :: Metadata
  tx_sources :: "string list"
  tx_destinations :: "string list"
  tx_pc_volumes :: PostCommitVolumes

record move_row =
  mv_seq :: int
  mv_ledger :: string
  mv_tx_id :: int
  mv_key :: key
  mv_amount :: int
  mv_is_source :: bool
  mv_effective_date :: time
  mv_insertion_date :: time
  mv_pcv :: Volumes
  mv_pcev :: Volumes

record log_row =
  lg_type :: LogType
  lg_data :: log_data
  lg_date :: time
  lg_hash :: string
  lg_key :: "string option"
  lg_key_hash :: "string option"

record run_row =
  run_ledger :: string
  run_check :: string
  run_at :: time
  run_checked :: int
  run_ok :: bool
  run_detail :: "string option"
  run_took_ms :: int

record db =
  ledgers :: "(string, ledger_row) table"
  assets :: "(string \<times> Asset, time) table"
  accounts :: "(string \<times> Address, account_row) table"
  accounts_volumes :: "(string \<times> key, volume_row) table"
  transactions :: "(string \<times> int, tx_row) table"
  moves :: "move_row list"
  next_seq :: int
  logs :: "(string \<times> int, log_row) table"
  verification_runs :: "run_row list"
  deferred :: "(string \<times> Asset) list"

definition empty_db :: db where
  "empty_db =
     \<lparr>ledgers = [], assets = [], accounts = [], accounts_volumes = [], transactions = [],
      moves = [], next_seq = 1, logs = [], verification_runs = [], deferred = []\<rparr>"

text \<open>The clocks an operation reads: Go's \<open>time.Now\<close>, the database's \<open>now()\<close> (the start of the
  database transaction, in microseconds), and the error of a cancelled context.\<close>

record env =
  go_now :: time
  db_now :: time
  ctx_err :: "error option"

definition truncate_us :: "time \<Rightarrow> time" where
  "truncate_us t = t - t mod 1000"

definition max_bigint :: int where "max_bigint = 2 ^ 63 - 1"

subsection \<open>Volumes of an account\<close>

text \<open>A missing row is an account nothing ever touched: zero on both sides.\<close>

definition vol :: "db \<Rightarrow> string \<Rightarrow> key \<Rightarrow> Volumes" where
  "vol d l k =
     (case map_of (accounts_volumes d) (l, k) of
        None \<Rightarrow> NewVolumes
      | Some r \<Rightarrow> \<lparr>Input = vr_input r, Output = vr_output r\<rparr>)"

definition bal :: "db \<Rightarrow> string \<Rightarrow> key \<Rightarrow> int" where
  "bal d l k = Balance (vol d l k)"

definition add_flow :: "Volumes \<Rightarrow> int \<Rightarrow> int \<Rightarrow> Volumes" where
  "add_flow v i out = \<lparr>Input = Input v + i, Output = Output v + out\<rparr>"

lemma add_flow_simps [simp]:
  "Input (add_flow v i out) = Input v + i" "Output (add_flow v i out) = Output v + out"
  "add_flow v 0 0 = v" "add_flow (add_flow v i out) i' out' = add_flow v (i + i') (out + out')"
  "Balance (add_flow v i out) = Balance v + (i - out)"
  by (simp_all add: add_flow_def Balance_def)

text \<open>The net position of a ledger in an asset, what \<open>giro_conservation\<close> sums.\<close>

definition row_net :: "string \<Rightarrow> Asset \<Rightarrow> (string \<times> key) \<times> volume_row \<Rightarrow> int" where
  "row_net l s x =
     (if fst (fst x) = l \<and> snd (snd (fst x)) = s then vr_input (snd x) - vr_output (snd x) else 0)"

definition drift :: "db \<Rightarrow> string \<Rightarrow> Asset \<Rightarrow> int" where
  "drift d l s = tab_sum (row_net l s) (accounts_volumes d)"

subsection \<open>Statements on accounts_volumes\<close>

text \<open>\<open>insert ... on conflict do nothing\<close>: the foreign key to \<open>assets\<close> is checked for a row
  that is inserted. A zero row passes the overdraw trigger.\<close>

definition new_volume_row :: "Address \<Rightarrow> volume_row" where
  "new_volume_row a =
     \<lparr>vr_input = 0, vr_output = 0, allow_negative = (a = WorldAccount), allow_positive = True\<rparr>"

definition insert_volume_row :: "string \<Rightarrow> key \<Rightarrow> volume_row \<Rightarrow> db \<Rightarrow> db res" where
  "insert_volume_row l k r d =
     (if map_of (accounts_volumes d) (l, k) \<noteq> None then Inr d
      else if map_of (assets d) (l, snd k) = None then Inl (PgError foreignKeyViolation)
      else Inr (d\<lparr>accounts_volumes := AList.update (l, k) r (accounts_volumes d),
                  deferred := deferred d @ [(l, snd k)]\<rparr>))"

text \<open>The row triggers \<open>giro_volumes_monotonic\<close> and \<open>giro_no_unpermitted_overdraw\<close>: volumes
  never fall, and a row whose volumes change respects its bounds.\<close>

definition volumes_trigger :: "volume_row \<Rightarrow> volume_row \<Rightarrow> bool" where
  "volumes_trigger old new \<longleftrightarrow>
     vr_input old \<le> vr_input new \<and> vr_output old \<le> vr_output new \<and>
     (vr_input new = vr_input old \<and> vr_output new = vr_output old \<or>
      (vr_input new < vr_output new \<longrightarrow> allow_negative new) \<and>
      (vr_input new > vr_output new \<longrightarrow> allow_positive new))"

text \<open>An update of one row by its primary key: \<open>None\<close> when no row is affected.\<close>

definition update_volume_row ::
  "string \<Rightarrow> key \<Rightarrow> (volume_row \<Rightarrow> volume_row) \<Rightarrow> db \<Rightarrow> db option res" where
  "update_volume_row l k f d =
     (case map_of (accounts_volumes d) (l, k) of
        None \<Rightarrow> Inr None
      | Some old \<Rightarrow>
          if volumes_trigger old (f old)
          then Inr (Some (d\<lparr>accounts_volumes := AList.update (l, k) (f old) (accounts_volumes d),
                            deferred := deferred d @ [(l, snd k)]\<rparr>))
          else Inl (PgError restrictViolation))"

text \<open>COMMIT runs the queued conservation checks.\<close>

definition db_commit :: "db \<Rightarrow> db res" where
  "db_commit d =
     (if list_all (\<lambda>(l, s). drift d l s = 0) (deferred d) then Inr (d\<lparr>deferred := []\<rparr>)
      else Inl (PgError restrictViolation))"

subsection \<open>Statements on the other tables\<close>

text \<open>\<open>update ledgers ... where name = l\<close> with the counter trigger and the range of \<open>bigint\<close>;
  \<open>None\<close> when there is no such ledger.\<close>

definition update_ledger_row ::
  "string \<Rightarrow> (ledger_row \<Rightarrow> ledger_row) \<Rightarrow> db \<Rightarrow> (db \<times> ledger_row) option res" where
  "update_ledger_row l f d =
     (case map_of (ledgers d) l of
        None \<Rightarrow> Inr None
      | Some old \<Rightarrow>
          (let new = f old
           in if last_tx_id new > max_bigint \<or> last_log_id new > max_bigint
              then Inl (PgError numericOutOfRange)
              else if last_tx_id new < last_tx_id old \<or> last_log_id new < last_log_id old
              then Inl (PgError restrictViolation)
              else Inr (Some (d\<lparr>ledgers := AList.update l new (ledgers d)\<rparr>, new))))"

definition reference_taken :: "db \<Rightarrow> string \<Rightarrow> string \<Rightarrow> bool" where
  "reference_taken d l ref \<longleftrightarrow>
     list_ex (\<lambda>((l', _), r). l' = l \<and> tx_reference r = Some ref) (transactions d)"

definition insert_tx_row :: "string \<Rightarrow> int \<Rightarrow> tx_row \<Rightarrow> db \<Rightarrow> db res" where
  "insert_tx_row l i r d =
     (if map_of (transactions d) (l, i) \<noteq> None then Inl (PgError uniqueViolation)
      else if (case tx_reference r of None \<Rightarrow> False | Some ref \<Rightarrow> reference_taken d l ref)
      then Inl (PgError uniqueViolation)
      else Inr (d\<lparr>transactions := transactions d @ [((l, i), r)]\<rparr>))"

definition upsert_account :: "string \<Rightarrow> Address \<Rightarrow> time \<Rightarrow> time \<Rightarrow> db \<Rightarrow> db" where
  "upsert_account l a ts now d =
     d\<lparr>accounts := AList.update (l, a)
         (case map_of (accounts d) (l, a) of
            None \<Rightarrow> \<lparr>address_array = Address_Segments a, acc_metadata = [], first_usage = ts,
                     insertion_date = now, updated_at = now, closed = False\<rparr>
          | Some r \<Rightarrow> r\<lparr>first_usage := min (first_usage r) ts, updated_at := now\<rparr>)
         (accounts d)\<rparr>"

text \<open>\<open>seq\<close> comes from the sequence; both foreign keys are checked.\<close>

definition insert_move :: "move_row \<Rightarrow> db \<Rightarrow> db res" where
  "insert_move m d =
     (if map_of (transactions d) (mv_ledger m, mv_tx_id m) = None \<or>
         map_of (assets d) (mv_ledger m, snd (mv_key m)) = None
      then Inl (PgError foreignKeyViolation)
      else Inr (d\<lparr>moves := moves d @ [m\<lparr>mv_seq := next_seq d\<rparr>], next_seq := next_seq d + 1\<rparr>))"

definition key_taken :: "db \<Rightarrow> string \<Rightarrow> string \<Rightarrow> bool" where
  "key_taken d l ik \<longleftrightarrow> list_ex (\<lambda>((l', _), r). l' = l \<and> lg_key r = Some ik) (logs d)"

text \<open>Characters of a UTF-8 text: every byte that is not a continuation byte starts one.\<close>

definition utf8_length :: "string \<Rightarrow> nat" where
  "utf8_length s = length (filter (\<lambda>c. (of_char c :: nat) div 64 \<noteq> 2) s)"

definition stringTooLong :: string where "stringTooLong = ''22001''"

definition insert_log_row :: "string \<Rightarrow> int \<Rightarrow> log_row \<Rightarrow> db \<Rightarrow> db res" where
  "insert_log_row l i r d =
     (if (case lg_key r of None \<Rightarrow> False | Some ik \<Rightarrow> utf8_length ik > 256)
      then Inl (PgError stringTooLong)
      else if map_of (logs d) (l, i) \<noteq> None then Inl (PgError uniqueViolation)
      else if (case lg_key r of None \<Rightarrow> False | Some ik \<Rightarrow> key_taken d l ik)
      then Inl (PgError uniqueViolation)
      else Inr (d\<lparr>logs := logs d @ [((l, i), r)]\<rparr>))"

subsection \<open>Views of the tables, and what the statements change\<close>

text \<open>The rows of one ledger, in the order of their ids.\<close>

definition ledger_logs :: "db \<Rightarrow> string \<Rightarrow> (int \<times> log_row) list" where
  "ledger_logs d l =
     sort_key fst (map (\<lambda>((_, i), r). (i, r)) (filter (\<lambda>((l', _), _). l' = l) (logs d)))"

definition ledger_moves :: "db \<Rightarrow> string \<Rightarrow> move_row list" where
  "ledger_moves d l = filter (\<lambda>m. mv_ledger m = l) (moves d)"

definition key_moves :: "db \<Rightarrow> string \<Rightarrow> key \<Rightarrow> move_row list" where
  "key_moves d l k = filter (\<lambda>m. mv_ledger m = l \<and> mv_key m = k) (moves d)"

definition well_keyed :: "db \<Rightarrow> bool" where
  "well_keyed d \<longleftrightarrow>
     unique_keys (ledgers d) \<and> unique_keys (assets d) \<and> unique_keys (accounts d) \<and>
     unique_keys (accounts_volumes d) \<and> unique_keys (transactions d) \<and> unique_keys (logs d)"

lemma vol_deferred [simp]: "vol (d\<lparr>deferred := q\<rparr>) = vol d"
  by (simp add: vol_def fun_eq_iff)

lemma vol_update:
  "vol (d\<lparr>accounts_volumes := AList.update (l, k) r (accounts_volumes d)\<rparr>) l' k' =
     (if l' = l \<and> k' = k then \<lparr>Input = vr_input r, Output = vr_output r\<rparr> else vol d l' k')"
  by (simp add: vol_def)

lemma insert_volume_row_zero_vol:
  assumes "insert_volume_row l k (new_volume_row a) d = Inr d'"
  shows "vol d' = vol d"
proof (intro ext)
  fix l' k'
  show "vol d' l' k' = vol d l' k'"
    using assms
    by (auto simp: insert_volume_row_def vol_def new_volume_row_def NewVolumes_def split: if_splits)
qed

lemma drift_update:
  assumes "unique_keys (accounts_volumes d)"
  shows "drift (d\<lparr>accounts_volumes := AList.update (l, k) r (accounts_volumes d)\<rparr>) l' s =
     drift d l' s +
       (if l' = l \<and> s = snd k then vr_input r - vr_output r - bal d l k else 0)"
  using assms
  by (simp add: drift_def tab_sum_update row_net_def bal_def Balance_def vol_def NewVolumes_def
      split: option.splits)

lemma drift_deferred [simp]: "drift (d\<lparr>deferred := q\<rparr>) = drift d"
  by (simp add: drift_def fun_eq_iff)

lemma vol_cong: "accounts_volumes d = accounts_volumes d' \<Longrightarrow> vol d = vol d'"
  by (simp add: vol_def fun_eq_iff)

lemma drift_cong: "accounts_volumes d = accounts_volumes d' \<Longrightarrow> drift d = drift d'"
  by (simp add: drift_def fun_eq_iff)

lemma db_commit_Inr:
  "db_commit d = Inr d' \<longleftrightarrow> d' = d\<lparr>deferred := []\<rparr> \<and> (\<forall>(l, s)\<in>set (deferred d). drift d l s = 0)"
  by (auto simp: db_commit_def list_all_iff)

end
