(* ===== verification/Storage_Assets.thy ===== *)
theory Storage_Assets
  imports Giro_Db
begin

text \<open>
  The store and the registries everything else depends on (\<open>src/storage/store.go\<close>,
  \<open>ledgers.go\<close>, \<open>assets.go\<close>): creating a ledger, registering assets, and the check of a
  transaction's assets with its cache of positive answers. The lemmas show that the cache
  never changes an answer and that a registry holds one scale per code.
\<close>

subsection \<open>The store\<close>

text \<open>Scoped to one ledger. \<open>beforeCommit\<close> is the seam called with the number of the attempt just
  before COMMIT; an error it returns aborts that attempt, which is also what a statement
  killed by the server does.\<close>

record Store =
  ledger :: string
  registered :: "Asset list"
  ledgerSeen :: bool
  retries :: int
  beforeCommit :: "nat \<Rightarrow> error option"

definition New :: "string \<Rightarrow> Store" where
  "New name = \<lparr>ledger = name, registered = [], ledgerSeen = False, retries = 0,
               beforeCommit = (\<lambda>_. None)\<rparr>"

subsection \<open>Ledgers\<close>

record LedgerInfo =
  LName :: string
  AddedAt :: time

definition CreateLedger :: "env \<Rightarrow> Store \<Rightarrow> db \<Rightarrow> (db \<times> LedgerInfo) res" where
  "CreateLedger e s d =
     (if map_of (ledgers d) (ledger s) \<noteq> None then Inl (ErrLedgerExists (ledger s))
      else Inr (d\<lparr>ledgers := AList.update (ledger s)
                    \<lparr>added_at = db_now e, last_tx_id = 0, last_log_id = 0, last_log_hash = None\<rparr>
                    (ledgers d)\<rparr>,
                \<lparr>LName = ledger s, AddedAt = db_now e\<rparr>))"

definition GetLedger :: "Store \<Rightarrow> db \<Rightarrow> LedgerInfo res" where
  "GetLedger s d =
     (case map_of (ledgers d) (ledger s) of
        None \<Rightarrow> Inl (ErrNotFound (ledger s))
      | Some r \<Rightarrow> Inr \<lparr>LName = ledger s, AddedAt = added_at r\<rparr>)"

lemma CreateLedger_then_GetLedger:
  "CreateLedger e s d = Inr (d', info) \<Longrightarrow> GetLedger s d' = Inr info"
  by (auto simp: CreateLedger_def GetLedger_def split: if_splits)

subsection \<open>Assets\<close>

text \<open>The registered asset with the same code, \<open>[]\<close> when there is none.\<close>

definition assetWithCodeOf :: "Store \<Rightarrow> db \<Rightarrow> Asset \<Rightarrow> Asset" where
  "assetWithCodeOf s d asset =
     (case filter (\<lambda>((l, a), _). l = ledger s \<and> Asset_Code a = Asset_Code asset) (assets d) of
        [] \<Rightarrow> []
      | ((_, a), _) # _ \<Rightarrow> a)"

definition code_taken :: "db \<Rightarrow> string \<Rightarrow> Asset \<Rightarrow> bool" where
  "code_taken d l asset \<longleftrightarrow>
     list_ex (\<lambda>((l', a), _). l' = l \<and> Asset_Code a = Asset_Code asset) (assets d)"

text \<open>The conflict clause names the primary key; another scale of the same code trips the
  unique index \<open>assets_one_scale_per_code\<close>.\<close>

definition RegisterAsset :: "env \<Rightarrow> Store \<Rightarrow> db \<Rightarrow> Asset \<Rightarrow> db res" where
  "RegisterAsset e s d asset =
     (if \<not> Asset_Valid asset then Inl (ErrText ''invalid asset'')
      else if map_of (assets d) (ledger s, asset) \<noteq> None then Inr d
      else if code_taken d (ledger s) asset then
        (if assetWithCodeOf s d asset \<noteq> [] then Inl (ErrText ''cannot register: one scale per currency'')
         else Inl (PgError uniqueViolation))
      else Inr (d\<lparr>assets := AList.update (ledger s, asset) (db_now e) (assets d)\<rparr>))"

definition Assets :: "Store \<Rightarrow> db \<Rightarrow> Asset list" where
  "Assets s d =
     map snd (sort_key (\<lambda>(t, a). (t, a))
       (map (\<lambda>((_, a), t). (t, a)) (filter (\<lambda>((l, _), _). l = ledger s) (assets d))))"

definition is_registered :: "db \<Rightarrow> string \<Rightarrow> Asset \<Rightarrow> bool" where
  "is_registered d l a \<longleftrightarrow> map_of (assets d) (l, a) \<noteq> None"

text \<open>The assets to ask the database about: distinct, and not yet known.\<close>

fun unknown_assets :: "Asset list \<Rightarrow> Asset list \<Rightarrow> Postings \<Rightarrow> Asset list" where
  "unknown_assets known seen [] = []"
| "unknown_assets known seen (p # ps) =
     (if PAsset p \<in> set seen then unknown_assets known seen ps
      else if PAsset p \<in> set known then unknown_assets known (PAsset p # seen) ps
      else PAsset p # unknown_assets known (PAsset p # seen) ps)"

definition checkAssets :: "Store \<Rightarrow> db \<Rightarrow> Postings \<Rightarrow> Store \<times> error option" where
  "checkAssets s d p =
     (let asks = unknown_assets (registered s) [] p
      in if asks = [] \<and> ledgerSeen s then (s, None)
         else if map_of (ledgers d) (ledger s) = None then (s, Some (ErrLedgerNotFound (ledger s)))
         else let s' = s\<lparr>ledgerSeen := True\<rparr>
              in (case filter (\<lambda>a. \<not> is_registered d (ledger s) a) asks of
                    [] \<Rightarrow> (s'\<lparr>registered := registered s' @ asks\<rparr>, None)
                  | missing # _ \<Rightarrow>
                      (s', Some (UnknownAssetError missing (assetWithCodeOf s d missing)))))"

subsection \<open>The cache only remembers what is true\<close>

definition cache_sound :: "Store \<Rightarrow> db \<Rightarrow> bool" where
  "cache_sound s d \<longleftrightarrow>
     (\<forall>a\<in>set (registered s). is_registered d (ledger s) a) \<and>
     (ledgerSeen s \<longrightarrow> map_of (ledgers d) (ledger s) \<noteq> None)"

definition assets_ok :: "db \<Rightarrow> string \<Rightarrow> Postings \<Rightarrow> bool" where
  "assets_ok d l p \<longleftrightarrow> map_of (ledgers d) l \<noteq> None \<and> (\<forall>x\<in>set p. is_registered d l (PAsset x))"

lemma set_unknown_assets:
  "set (unknown_assets known seen ps) = PAsset ` set ps - set known - set seen"
  by (induction ps arbitrary: seen) auto

lemma checkAssets_ledger [simp]: "ledger (fst (checkAssets s d p)) = ledger s"
  by (auto simp: checkAssets_def Let_def split: list.splits)

lemma checkAssets_other [simp]:
  "retries (fst (checkAssets s d p)) = retries s"
  "beforeCommit (fst (checkAssets s d p)) = beforeCommit s"
  by (auto simp: checkAssets_def Let_def split: list.splits)

lemma checkAssets_None_iff:
  assumes "cache_sound s d"
  shows "snd (checkAssets s d p) = None \<longleftrightarrow> assets_ok d (ledger s) p"
proof -
  let ?asks = "unknown_assets (registered s) [] p"
  have asks: "set ?asks = PAsset ` set p - set (registered s)"
    by (simp add: set_unknown_assets)
  have reg: "(\<forall>a\<in>set ?asks. is_registered d (ledger s) a) \<longleftrightarrow>
      (\<forall>x\<in>set p. is_registered d (ledger s) (PAsset x))"
    using assms unfolding asks cache_sound_def by blast
  show ?thesis
  proof (cases "?asks = [] \<and> ledgerSeen s")
    case True
    with reg assms show ?thesis
      by (simp add: checkAssets_def assets_ok_def cache_sound_def)
  next
    case False
    have "(\<forall>a\<in>set ?asks. is_registered d (ledger s) a) \<longleftrightarrow>
        filter (\<lambda>a. \<not> is_registered d (ledger s) a) ?asks = []"
      by (simp add: filter_empty_conv)
    with False reg show ?thesis
      by (auto simp: checkAssets_def Let_def assets_ok_def split: list.splits)
  qed
qed

lemma checkAssets_cache_sound:
  assumes "cache_sound s d"
  shows "cache_sound (fst (checkAssets s d p)) d"
proof -
  let ?asks = "unknown_assets (registered s) [] p"
  show ?thesis
  proof (cases "filter (\<lambda>a. \<not> is_registered d (ledger s) a) ?asks")
    case Nil
    then have "\<forall>a\<in>set ?asks. is_registered d (ledger s) a"
      by (simp add: filter_empty_conv)
    with assms Nil show ?thesis
      by (auto simp: checkAssets_def Let_def cache_sound_def)
  next
    case (Cons a as)
    with assms show ?thesis
      by (auto simp: checkAssets_def Let_def cache_sound_def)
  qed
qed

lemma New_cache_sound: "cache_sound (New l) d"
  by (simp add: cache_sound_def New_def)

text \<open>Registration and creation are permanent, so a cache that is right stays right.\<close>

definition registry_grows :: "db \<Rightarrow> db \<Rightarrow> bool" where
  "registry_grows d d' \<longleftrightarrow>
     (\<forall>l a. is_registered d l a \<longrightarrow> is_registered d' l a) \<and>
     (\<forall>l. map_of (ledgers d) l \<noteq> None \<longrightarrow> map_of (ledgers d') l \<noteq> None)"

lemma cache_sound_grows: "cache_sound s d \<Longrightarrow> registry_grows d d' \<Longrightarrow> cache_sound s d'"
  by (auto simp: cache_sound_def registry_grows_def)

subsection \<open>One scale per code\<close>

definition one_scale :: "db \<Rightarrow> bool" where
  "one_scale d \<longleftrightarrow>
     (\<forall>l a b. is_registered d l a \<and> is_registered d l b \<and> Asset_Code a = Asset_Code b \<longrightarrow> a = b)"

lemma code_taken_iff:
  "code_taken d l asset \<longleftrightarrow> (\<exists>a. is_registered d l a \<and> Asset_Code a = Asset_Code asset)"
proof -
  have "is_registered d l a \<longleftrightarrow> (\<exists>t. ((l, a), t) \<in> set (assets d))" for a
    using map_of_eq_None_iff [of "assets d" "(l, a)"] by (force simp: is_registered_def)
  then show ?thesis by (force simp: code_taken_def list_ex_iff)
qed

lemma RegisterAsset_one_scale:
  assumes "RegisterAsset e s d asset = Inr d'" and "one_scale d"
  shows "one_scale d'"
proof (cases "d' = d")
  case False
  with assms have "\<not> code_taken d (ledger s) asset"
    and d': "d' = d\<lparr>assets := AList.update (ledger s, asset) (db_now e) (assets d)\<rparr>"
    by (auto simp: RegisterAsset_def split: if_splits)
  then have "is_registered d (ledger s) a \<Longrightarrow> Asset_Code a \<noteq> Asset_Code asset" for a
    by (auto simp: code_taken_iff)
  moreover have "is_registered d' l a \<longleftrightarrow> (l = ledger s \<and> a = asset) \<or> is_registered d l a" for l a
    by (auto simp: d' is_registered_def)
  ultimately show ?thesis using assms(2) unfolding one_scale_def by metis
qed (use assms in simp)

lemma RegisterAsset_registers:
  "RegisterAsset e s d asset = Inr d' \<Longrightarrow> is_registered d' (ledger s) asset"
  by (auto simp: RegisterAsset_def is_registered_def split: if_splits)

lemma RegisterAsset_again:
  "RegisterAsset e s d asset = Inr d' \<Longrightarrow> RegisterAsset e' s d' asset = Inr d'"
  by (auto simp: RegisterAsset_def split: if_splits)

lemma RegisterAsset_grows: "RegisterAsset e s d asset = Inr d' \<Longrightarrow> registry_grows d d'"
  by (auto simp: RegisterAsset_def registry_grows_def is_registered_def split: if_splits)

lemma CreateLedger_grows: "CreateLedger e s d = Inr (d', info) \<Longrightarrow> registry_grows d d'"
  by (auto simp: CreateLedger_def registry_grows_def is_registered_def split: if_splits)

end
