(* ===== verification/Storage_Commit.thy ===== *)
theory Storage_Commit
  imports Storage_Assets
begin

text \<open>
  The commit path (\<open>src/storage/volumes.go\<close>, \<open>moves.go\<close>, \<open>rows.go\<close>, \<open>allocate.go\<close>,
  \<open>log.go\<close>, \<open>commit.go\<close>, \<open>retry.go\<close>): lock the volume rows, resolve ceilings, check the
  bounds, apply the deltas, allocate ids, write the transaction, its accounts and moves,
  shift the effective volumes of later moves, append the log entry, commit, and the retry
  loop around it. Definitions only; \<open>Storage_Commit_Props\<close> and \<open>Storage_Effective\<close> prove what they do.

  \<open>NilPanic\<close> is the nil dereference Go would run into if a map entry or an amount that the
  code takes for granted were missing.
\<close>

subsection \<open>Locking\<close>

record locked =
  lk_volumes :: Volumes
  lk_allow_negative :: bool
  lk_allow_positive :: bool
  lk_closed :: bool

type_synonym before = "(key, locked) table"

definition materialise :: "string \<Rightarrow> VolumeUpdate list \<Rightarrow> db \<Rightarrow> db res" where
  "materialise l = foldE (\<lambda>u. insert_volume_row l (update_key u) (new_volume_row (Account u)))"

definition locked_row :: "volume_row \<Rightarrow> locked" where
  "locked_row r =
     \<lparr>lk_volumes = \<lparr>Input = vr_input r, Output = vr_output r\<rparr>,
      lk_allow_negative = allow_negative r, lk_allow_positive = allow_positive r, lk_closed = False\<rparr>"

text \<open>The \<open>select ... for update\<close>: the rows of the touched keys, in key order.\<close>

definition lock_rows :: "string \<Rightarrow> VolumeUpdate list \<Rightarrow> db \<Rightarrow> before" where
  "lock_rows l us d =
     sort_key fst (map (\<lambda>((_, k), r). (k, locked_row r))
       (filter (\<lambda>((l', k), _). l' = l \<and> k \<in> set (map update_key us)) (accounts_volumes d)))"

definition fill_missing :: "VolumeUpdate \<Rightarrow> before \<Rightarrow> before" where
  "fill_missing u current =
     (if map_of current (update_key u) \<noteq> None then current
      else AList.update (update_key u)
             \<lparr>lk_volumes = NewVolumes, lk_allow_negative = (Account u = WorldAccount),
              lk_allow_positive = True, lk_closed = False\<rparr> current)"

definition scanClosed :: "string \<Rightarrow> VolumeUpdate list \<Rightarrow> db \<Rightarrow> Address list" where
  "scanClosed l us d =
     map (\<lambda>((_, a), _). a)
       (filter (\<lambda>((l', a), r). l' = l \<and> closed r \<and> a \<in> set (map Account us)) (accounts d))"

definition mark_closed :: "Address list \<Rightarrow> before \<Rightarrow> before" where
  "mark_closed cs current =
     map (\<lambda>(k, v). (k, if fst k \<in> set cs then v\<lparr>lk_closed := True\<rparr> else v)) current"

definition lockVolumes :: "string \<Rightarrow> VolumeUpdate list \<Rightarrow> db \<Rightarrow> (db \<times> before) res" where
  "lockVolumes l us d =
     bindE (materialise l us d) (\<lambda>d'.
       Inr (d', mark_closed (scanClosed l us d') (fold fill_missing us (lock_rows l us d'))))"

subsection \<open>Ceilings and checks\<close>

definition held_at :: "(key, int) table \<Rightarrow> key \<Rightarrow> int" where
  "held_at running k = orZero (map_of running k)"

definition run_move :: "key \<Rightarrow> key \<Rightarrow> int \<Rightarrow> (key, int) table \<Rightarrow> (key, int) table" where
  "run_move src dst a running =
     (let r = AList.update src (held_at running src - a) running
      in AList.update dst (held_at r dst + a) r)"

text \<open>What an \<open>UpTo\<close> posting moves: what is there, never less than nothing, never more than its
  ceiling.\<close>

definition sweep :: "int option \<Rightarrow> int \<Rightarrow> int" where
  "sweep ceiling held =
     (let available = (if held < 0 then 0 else held)
      in case ceiling of None \<Rightarrow> available | Some c \<Rightarrow> if c < available then c else available)"

fun resolve_from :: "before \<Rightarrow> (key, int) table \<Rightarrow> Postings \<Rightarrow> Postings res" where
  "resolve_from bf running [] = Inr []"
| "resolve_from bf running (p # ps) =
     (let src = (Source p, PAsset p); dst = (Destination p, PAsset p)
      in if \<not> UpTo p then
           bindE (resolve_from bf
                    (case Amount p of None \<Rightarrow> running | Some a \<Rightarrow> run_move src dst a running) ps)
             (\<lambda>qs. Inr (p # qs))
         else if (case map_of bf src of None \<Rightarrow> False | Some v \<Rightarrow> lk_allow_negative v)
         then Inl (UnboundedSweepError (Source p) (PAsset p))
         else let a = sweep (Amount p) (held_at running src)
              in bindE (resolve_from bf (run_move src dst a running) ps)
                   (\<lambda>qs. Inr (p\<lparr>Amount := Some a, UpTo := False\<rparr> # qs)))"

definition resolveUpTo :: "Postings \<Rightarrow> before \<Rightarrow> Postings res" where
  "resolveUpTo p bf = resolve_from bf (map (\<lambda>(k, v). (k, Balance (lk_volumes v))) bf) p"

fun checkClosed :: "before \<Rightarrow> VolumeUpdate list \<Rightarrow> unit res" where
  "checkClosed bf [] = Inr ()"
| "checkClosed bf (u # us) =
     (if (case map_of bf (update_key u) of None \<Rightarrow> False | Some v \<Rightarrow> lk_closed v)
      then Inl (AccountClosedError (Account u))
      else checkClosed bf us)"

fun checkBalances :: "before \<Rightarrow> VolumeUpdate list \<Rightarrow> unit res" where
  "checkBalances bf [] = Inr ()"
| "checkBalances bf (u # us) =
     (case map_of bf (update_key u) of
        None \<Rightarrow> Inl NilPanic
      | Some v \<Rightarrow>
          (let i = Input (lk_volumes v) + UInput u; out = Output (lk_volumes v) + UOutput u
           in if \<not> lk_allow_negative v \<and> i < out
              then Inl (InsufficientFundsError (Account u) (UAsset u) (Balance (lk_volumes v)) (UOutput u))
              else if \<not> lk_allow_positive v \<and> i > out
              then Inl (UnexpectedCreditError (Account u) (UAsset u) (i - out))
              else checkBalances bf us))"

fun post_commit_volumes :: "before \<Rightarrow> VolumeUpdate list \<Rightarrow> PostCommitVolumes \<Rightarrow> PostCommitVolumes res" where
  "post_commit_volumes bf [] pcv = Inr pcv"
| "post_commit_volumes bf (u # us) pcv =
     (case map_of bf (update_key u) of
        None \<Rightarrow> Inl NilPanic
      | Some v \<Rightarrow>
          post_commit_volumes bf us
            (PCV_Set pcv (Account u) (UAsset u) (add_flow (lk_volumes v) (UInput u) (UOutput u))))"

definition postCommitVolumes :: "before \<Rightarrow> VolumeUpdate list \<Rightarrow> PostCommitVolumes res" where
  "postCommitVolumes bf us = post_commit_volumes bf us []"

subsection \<open>Applying the deltas\<close>

definition apply_volume :: "string \<Rightarrow> VolumeUpdate \<Rightarrow> db \<Rightarrow> db res" where
  "apply_volume l u d =
     bindE (update_volume_row l (update_key u)
              (\<lambda>r. r\<lparr>vr_input := vr_input r + UInput u, vr_output := vr_output r + UOutput u\<rparr>) d)
       (\<lambda>x. case x of None \<Rightarrow> Inl (ErrText ''apply volumes: 0 rows affected'') | Some d' \<Rightarrow> Inr d')"

definition applyVolumes :: "string \<Rightarrow> VolumeUpdate list \<Rightarrow> db \<Rightarrow> db res" where
  "applyVolumes l = foldE (apply_volume l)"

subsection \<open>Ids\<close>

record allocation =
  transactionID :: int
  logID :: int
  previousHash :: string

definition hash_bytes :: "string option \<Rightarrow> string" where
  "hash_bytes h = (case h of None \<Rightarrow> [] | Some b \<Rightarrow> b)"

definition allocate :: "string \<Rightarrow> db \<Rightarrow> (db \<times> allocation) res" where
  "allocate l d =
     bindE (update_ledger_row l
              (\<lambda>r. r\<lparr>last_tx_id := last_tx_id r + 1, last_log_id := last_log_id r + 1\<rparr>) d)
       (\<lambda>x. case x of
              None \<Rightarrow> Inl (ErrLedgerNotFound l)
            | Some (d', r) \<Rightarrow>
                Inr (d', \<lparr>transactionID = last_tx_id r, logID = last_log_id r,
                          previousHash = hash_bytes (last_log_hash r)\<rparr>))"

definition allocateLogID :: "string \<Rightarrow> db \<Rightarrow> (db \<times> allocation) res" where
  "allocateLogID l d =
     bindE (update_ledger_row l (\<lambda>r. r\<lparr>last_log_id := last_log_id r + 1\<rparr>) d)
       (\<lambda>x. case x of
              None \<Rightarrow> Inl (ErrLedgerNotFound l)
            | Some (d', r) \<Rightarrow>
                Inr (d', \<lparr>transactionID = 0, logID = last_log_id r,
                          previousHash = hash_bytes (last_log_hash r)\<rparr>))"

subsection \<open>Rows\<close>

definition endpoints :: "(Posting \<Rightarrow> string) \<Rightarrow> Postings \<Rightarrow> string list" where
  "endpoints get p = remdups_adj (sort (map get p))"

definition row_of_transaction :: "env \<Rightarrow> Transaction \<Rightarrow> tx_row" where
  "row_of_transaction e t =
     \<lparr>tx_timestamp = Timestamp t, tx_inserted_at = db_now e, tx_reverted_at = None,
      tx_reference = (if TReference t = [] then None else Some (TReference t)),
      tx_postings = TPostings t, tx_metadata = orEmpty (TMetadata t),
      tx_sources = endpoints Source (TPostings t),
      tx_destinations = endpoints Destination (TPostings t),
      tx_pc_volumes = TPostCommitVolumes t\<rparr>"

text \<open>Any unique violation of this insert is reported as a duplicate reference.\<close>

definition insertTransaction :: "string \<Rightarrow> env \<Rightarrow> Transaction \<Rightarrow> db \<Rightarrow> (db \<times> Transaction) res" where
  "insertTransaction l e t d =
     bindE (mapErr (\<lambda>x. if x = PgError uniqueViolation then ErrDuplicateReference (TReference t) else x)
              (insert_tx_row l (TxID t) (row_of_transaction e t) d))
       (\<lambda>d'. Inr (d', t\<lparr>InsertedAt := db_now e\<rparr>))"

definition queueAccounts :: "string \<Rightarrow> env \<Rightarrow> VolumeUpdate list \<Rightarrow> time \<Rightarrow> db \<Rightarrow> db" where
  "queueAccounts l e us ts d =
     fold (\<lambda>a. upsert_account l a ts (db_now e)) (remdups_adj (map Account us)) d"

subsection \<open>Moves\<close>

text \<open>The latest of a list of moves in effective order: by date, then by \<open>seq\<close>.\<close>

definition eff_key :: "move_row \<Rightarrow> time \<times> int" where
  "eff_key m = (mv_effective_date m, mv_seq m)"

fun latest :: "move_row list \<Rightarrow> move_row option" where
  "latest [] = None"
| "latest (m # ms) =
     (case latest ms of None \<Rightarrow> Some m | Some m' \<Rightarrow> Some (if eff_key m' < eff_key m then m else m'))"

definition effective_volume_at :: "string \<Rightarrow> key \<Rightarrow> time \<Rightarrow> db \<Rightarrow> Volumes" where
  "effective_volume_at l k at d =
     (case latest (filter (\<lambda>m. mv_effective_date m \<le> at) (key_moves d l k)) of
        None \<Rightarrow> NewVolumes
      | Some m \<Rightarrow> mv_pcev m)"

definition effectiveVolumesAt :: "string \<Rightarrow> VolumeUpdate list \<Rightarrow> time \<Rightarrow> db \<Rightarrow> (key, Volumes) table" where
  "effectiveVolumesAt l us at d =
     map (\<lambda>u. (update_key u, effective_volume_at l (update_key u) at d)) us"

definition copyLocked :: "before \<Rightarrow> (key, Volumes) table" where
  "copyLocked bf = map (\<lambda>(k, v). (k, lk_volumes v)) bf"

definition vol_at :: "(key, Volumes) table \<Rightarrow> key \<Rightarrow> Volumes" where
  "vol_at m k = (case map_of m k of None \<Rightarrow> NewVolumes | Some v \<Rightarrow> v)"

definition apply_side :: "(key, Volumes) table \<Rightarrow> key \<Rightarrow> int \<Rightarrow> bool \<Rightarrow> (key, Volumes) table" where
  "apply_side m k amount isSource =
     AList.update k
       (if isSource then add_flow (vol_at m k) 0 amount else add_flow (vol_at m k) amount 0) m"

text \<open>Two sides per posting, source first.\<close>

definition sides :: "Postings \<Rightarrow> (key \<times> int option \<times> bool) list" where
  "sides ps =
     concat (map (\<lambda>p. [((Source p, PAsset p), Amount p, True),
                       ((Destination p, PAsset p), Amount p, False)]) ps)"

fun build_moves ::
  "string \<Rightarrow> Transaction \<Rightarrow> (key \<times> int option \<times> bool) list \<Rightarrow> (key, Volumes) table \<Rightarrow>
   (key, Volumes) table \<Rightarrow> move_row list res" where
  "build_moves l t [] running effective = Inr []"
| "build_moves l t ((k, amount, isSource) # xs) running effective =
     (case amount of
        None \<Rightarrow> Inl NilPanic
      | Some a \<Rightarrow>
          (let running' = apply_side running k a isSource;
               effective' = apply_side effective k a isSource
           in bindE (build_moves l t xs running' effective') (\<lambda>ms.
                Inr (\<lparr>mv_seq = 0, mv_ledger = l, mv_tx_id = TxID t, mv_key = k, mv_amount = a,
                      mv_is_source = isSource, mv_effective_date = Timestamp t,
                      mv_insertion_date = InsertedAt t, mv_pcv = vol_at running' k,
                      mv_pcev = vol_at effective' k\<rparr> # ms))))"

text \<open>A backdated transaction shifts the effective volumes of the moves strictly after it.\<close>

definition shift_later :: "string \<Rightarrow> time \<Rightarrow> VolumeUpdate \<Rightarrow> db \<Rightarrow> db" where
  "shift_later l at u d =
     d\<lparr>moves := map (\<lambda>m. if mv_ledger m = l \<and> mv_key m = update_key u \<and> mv_effective_date m > at
                         then m\<lparr>mv_pcev := add_flow (mv_pcev m) (UInput u) (UOutput u)\<rparr> else m)
                 (moves d)\<rparr>"

definition queueMoves ::
  "string \<Rightarrow> Transaction \<Rightarrow> before \<Rightarrow> (key, Volumes) table \<Rightarrow> VolumeUpdate list \<Rightarrow> db \<Rightarrow> db res" where
  "queueMoves l t bf effective us d =
     bindE (build_moves l t (sides (TPostings t)) (copyLocked bf) effective) (\<lambda>ms.
     bindE (foldE insert_move ms d) (\<lambda>d'.
       Inr (fold (shift_later l (Timestamp t)) us d')))"

subsection \<open>One transaction\<close>

record applyOptions =
  ATimestamp :: time
  AReference :: string
  AMetadata :: "Metadata option"

definition resolve_timestamp :: "env \<Rightarrow> time \<Rightarrow> time" where
  "resolve_timestamp e ts = truncate_us (if ts = 0 then go_now e else ts)"

definition resolve_updates ::
  "Postings \<Rightarrow> VolumeUpdate list \<Rightarrow> before \<Rightarrow> (Postings \<times> VolumeUpdate list) res" where
  "resolve_updates p us bf =
     (if HasUpTo p
      then bindE (resolveUpTo p bf) (\<lambda>p'. bindE (VolumeUpdates p') (\<lambda>us'. Inr (p', us')))
      else Inr (p, us))"

definition applyTransaction ::
  "string \<Rightarrow> env \<Rightarrow> Postings \<Rightarrow> applyOptions \<Rightarrow> db \<Rightarrow> (db \<times> Transaction \<times> allocation) res" where
  "applyTransaction l e p opts d =
     bindE (VolumeUpdates p) (\<lambda>us0.
     bindE (lockVolumes l us0 d) (\<lambda>(d1, bf).
     bindE (resolve_updates p us0 bf) (\<lambda>(p', us).
     bindE (checkClosed bf us) (\<lambda>_.
     bindE (checkBalances bf us) (\<lambda>_.
     bindE (applyVolumes l us d1) (\<lambda>d2.
     let ts = resolve_timestamp e (ATimestamp opts);
         effective = effectiveVolumesAt l us ts d2
     in bindE (allocate l d2) (\<lambda>(d3, alloc).
        bindE (postCommitVolumes bf us) (\<lambda>pcv.
        bindE (insertTransaction l e
                 \<lparr>TxID = transactionID alloc, TPostings = p', Timestamp = ts, InsertedAt = 0,
                  RevertedAt = None, TReference = AReference opts, TMetadata = AMetadata opts,
                  TPostCommitVolumes = pcv\<rparr> d3) (\<lambda>(d4, t).
        bindE (queueMoves l t bf effective us (queueAccounts l e us ts d4)) (\<lambda>d5.
          Inr (d5, t, alloc)))))))))))"

subsection \<open>The log\<close>

definition insertLog :: "string \<Rightarrow> Log \<Rightarrow> db \<Rightarrow> db res" where
  "insertLog l lg d =
     (let has_key = (IdempotencyKey lg \<noteq> [])
      in bindE (insert_log_row l (LogID lg)
           \<lparr>lg_type = LType lg, lg_data = LData lg, lg_date = LDate lg, lg_hash = LHash lg,
            lg_key = (if has_key then Some (IdempotencyKey lg) else None),
            lg_key_hash = (if has_key then Some (IdempotencyHash lg) else None)\<rparr> d) (\<lambda>d1.
         bindE (update_ledger_row l (\<lambda>r. r\<lparr>last_log_hash := Some (LHash lg)\<rparr>) d1) (\<lambda>x.
           case x of None \<Rightarrow> Inr d1 | Some (d2, _) \<Rightarrow> Inr d2)))"

definition appendLogEntry ::
  "string \<Rightarrow> allocation \<Rightarrow> LogType \<Rightarrow> log_data \<Rightarrow> time \<Rightarrow> string \<Rightarrow> string \<Rightarrow> db \<Rightarrow> db res" where
  "appendLogEntry l a typ payload date ik ikHash d =
     (if \<not> marshals payload then Inl (ErrText ''json: year outside of range [0,9999]'')
      else insertLog l
             \<lparr>LogID = logID a, LType = typ, LDate = date, LData = payload,
              LHash = ChainHash (previousHash a) (log_text payload),
              IdempotencyKey = ik, IdempotencyHash = ikHash\<rparr> d)"

definition appendLog :: "string \<Rightarrow> Transaction \<Rightarrow> allocation \<Rightarrow> string \<Rightarrow> string \<Rightarrow> db \<Rightarrow> db res" where
  "appendLog l t a ik ikHash d =
     appendLogEntry l a LogNewTransaction (TxData t) (InsertedAt t) ik ikHash d"

subsection \<open>Idempotency\<close>

record CommitOptions =
  OTimestamp :: time
  OReference :: string
  OMetadata :: "Metadata option"
  OIdempotencyKey :: string
  ODryRun :: bool

definition idempotency_text :: "Postings \<Rightarrow> CommitOptions \<Rightarrow> string" where
  "idempotency_text p opts =
     json_obj [(''postings'', json_postings p), (''timestamp'', json_time (OTimestamp opts)),
               (''reference'', json_string (OReference opts)),
               (''metadata'', json_metadata (OMetadata opts))]"

definition idempotencyHash :: "Postings \<Rightarrow> CommitOptions \<Rightarrow> string res" where
  "idempotencyHash p opts =
     (if \<not> time_ok (OTimestamp opts) then Inl (ErrText ''json: year outside of range [0,9999]'')
      else Inr (hexEncode (sha256 (idempotency_text p opts))))"

definition log_with_key :: "db \<Rightarrow> string \<Rightarrow> string \<Rightarrow> log_row option" where
  "log_with_key d l ik =
     (case filter (\<lambda>((l', _), r). l' = l \<and> lg_key r = Some ik) (logs d) of
        [] \<Rightarrow> None
      | (_, r) # _ \<Rightarrow> Some r)"

definition findByIdempotencyKey ::
  "string \<Rightarrow> db \<Rightarrow> string \<Rightarrow> string \<Rightarrow> Transaction option res" where
  "findByIdempotencyKey l d ik wantHash =
     (case log_with_key d l ik of
        None \<Rightarrow> Inr None
      | Some r \<Rightarrow>
          (case lg_key_hash r of
             None \<Rightarrow> Inl (ErrText ''read idempotency key: cannot scan NULL'')
           | Some gotHash \<Rightarrow>
               if gotHash \<noteq> wantHash then Inl (ErrIdempotencyMismatch ik gotHash wantHash)
               else (case unmarshalTransaction (lg_data r) of
                       None \<Rightarrow> Inl (ErrText ''decode stored transaction'')
                     | Some t \<Rightarrow> Inr (Some t))))"

text \<open>\<open>Inr None\<close> is \<open>(nil, nil)\<close>: not a race, the caller keeps its own error.\<close>

definition idempotencyRace ::
  "string \<Rightarrow> db \<Rightarrow> string \<Rightarrow> string \<Rightarrow> error \<Rightarrow> Transaction option res" where
  "idempotencyRace l d ik ikHash err =
     (if ik = [] then Inr None
      else if err \<noteq> PgError uniqueViolation then Inr None
      else findByIdempotencyKey l d ik ikHash)"

subsection \<open>One attempt and the retry loop\<close>

text \<open>
  \<open>seen\<close> is the database as the replay lookup at the start of the attempt reads it, \<open>d\<close> as the
  rest of the attempt finds it once its locks are granted: under READ COMMITTED each
  statement reads what is committed then, and another commit can land in between. An attempt
  that runs alone has \<open>seen = d\<close>. What is returned as the new state is what is committed;
  on an error, and on a dry run, nothing is.
\<close>

definition replay_lookup :: "string \<Rightarrow> db \<Rightarrow> string \<Rightarrow> string \<Rightarrow> Transaction option res" where
  "replay_lookup l seen ik ikHash =
     (if ik = [] then Inr None else findByIdempotencyKey l seen ik ikHash)"

definition commitOnce ::
  "Store \<Rightarrow> env \<Rightarrow> db \<Rightarrow> db \<Rightarrow> Postings \<Rightarrow> CommitOptions \<Rightarrow> string \<Rightarrow> nat \<Rightarrow> (db \<times> Transaction) res" where
  "commitOnce s e seen d p opts ikHash attempt =
     bindE (replay_lookup (ledger s) seen (OIdempotencyKey opts) ikHash) (\<lambda>existing.
     case existing of
       Some t \<Rightarrow> Inr (d, t)
     | None \<Rightarrow>
         bindE (applyTransaction (ledger s) e p
                  \<lparr>ATimestamp = OTimestamp opts, AReference = OReference opts,
                   AMetadata = OMetadata opts\<rparr> d) (\<lambda>(d1, t, alloc).
         case appendLog (ledger s) t alloc (OIdempotencyKey opts) ikHash d1 of
           Inl err \<Rightarrow>
             bindE (idempotencyRace (ledger s) d (OIdempotencyKey opts) ikHash err) (\<lambda>replayed.
               case replayed of Some t' \<Rightarrow> Inr (d, t') | None \<Rightarrow> Inl err)
         | Inr d2 \<Rightarrow>
             (case beforeCommit s attempt of
                Some err \<Rightarrow> Inl err
              | None \<Rightarrow>
                  if ODryRun opts then Inr (d, t)
                  else bindE (db_commit d2) (\<lambda>d3. Inr (d3, t)))))"

definition maxAttempts :: nat where "maxAttempts = 10"

text \<open>The loop shared by commits, reverts and batches: \<open>n\<close> attempts are left, \<open>attempt\<close> is the
  next. The first component counts the restarts. \<open>backoff\<close> only fails when the context is done.\<close>

definition backoff :: "env \<Rightarrow> error option" where
  "backoff e = ctx_err e"

fun retry_loop ::
  "string \<Rightarrow> (nat \<Rightarrow> env) \<Rightarrow> (nat \<Rightarrow> 'r res) \<Rightarrow> nat \<Rightarrow> nat \<Rightarrow> nat \<times> 'r res" where
  "retry_loop l envs once 0 attempt = (0, Inl (ErrGaveUp maxAttempts l))"
| "retry_loop l envs once (Suc n) attempt =
     (case once attempt of
        Inr x \<Rightarrow> (0, Inr x)
      | Inl err \<Rightarrow>
          if \<not> retryable err then (0, Inl err)
          else (case backoff (envs attempt) of
                  Some err' \<Rightarrow> (1, Inl err')
                | None \<Rightarrow> (case retry_loop l envs once n (Suc attempt) of (r, y) \<Rightarrow> (Suc r, y))))"

definition add_retries :: "nat \<Rightarrow> Store \<Rightarrow> Store" where
  "add_retries n s = s\<lparr>retries := retries s + int n\<rparr>"

text \<open>\<open>None\<close> is the nil error of the checks made before the loop.\<close>

definition validate_request :: "Postings \<Rightarrow> error option" where
  "validate_request p =
     (if p = [] then Some ErrNoPostings
      else (case Validate p of Some (i, err) \<Rightarrow> Some (PostingError i err) | None \<Rightarrow> None))"

definition CommitTransaction ::
  "(nat \<Rightarrow> env) \<Rightarrow> Store \<Rightarrow> db \<Rightarrow> Postings \<Rightarrow> CommitOptions \<Rightarrow> Store \<times> (db \<times> Transaction) res" where
  "CommitTransaction envs s d p opts =
     (case validate_request p of
        Some err \<Rightarrow> (s, Inl err)
      | None \<Rightarrow>
          (case checkAssets s d p of
             (s', Some err) \<Rightarrow> (s', Inl err)
           | (s', None) \<Rightarrow>
               (case idempotencyHash p opts of
                  Inl err \<Rightarrow> (s', Inl err)
                | Inr ikHash \<Rightarrow>
                    (case retry_loop (ledger s') envs
                            (\<lambda>i. commitOnce s' (envs i) d d p opts ikHash i) maxAttempts 0 of
                       (r, res) \<Rightarrow> (add_retries r s', res)))))"

end
