(* ===== verification/Storage_Lock.thy ===== *)
theory Storage_Lock
  imports Storage_Commit
begin

text \<open>
  What the locking phase of a commit establishes (\<open>lockVolumes\<close> in
  \<open>src/storage/volumes.go\<close>): rows are created for the touched keys and carry no value, and the
  map handed to the checks agrees with the locked rows.
\<close>

subsection \<open>Frames: what a group of statements leaves alone\<close>

definition frame_volumes :: "db \<Rightarrow> db \<Rightarrow> bool" where
  "frame_volumes d d' \<longleftrightarrow>
     ledgers d' = ledgers d \<and> assets d' = assets d \<and> accounts d' = accounts d \<and>
     transactions d' = transactions d \<and> moves d' = moves d \<and> next_seq d' = next_seq d \<and>
     logs d' = logs d \<and> verification_runs d' = verification_runs d"

lemma frame_volumes_refl [simp]: "frame_volumes d d"
  by (simp add: frame_volumes_def)

lemma frame_volumes_trans: "frame_volumes a b \<Longrightarrow> frame_volumes b c \<Longrightarrow> frame_volumes a c"
  by (simp add: frame_volumes_def)

subsection \<open>Locking\<close>

text \<open>Materialising the zero rows adds rows only for touched keys, and no value.\<close>

definition materialised :: "string \<Rightarrow> key set \<Rightarrow> db \<Rightarrow> db \<Rightarrow> bool" where
  "materialised l K d d' \<longleftrightarrow>
     frame_volumes d d' \<and> unique_keys (accounts_volumes d') \<and>
     (\<forall>k\<in>K. map_of (accounts_volumes d) (l, k) \<noteq> None \<or> is_registered d l (snd k)) \<and>
     (\<forall>x. map_of (accounts_volumes d') x =
        (case map_of (accounts_volumes d) x of
           Some r \<Rightarrow> Some r
         | None \<Rightarrow> if fst x = l \<and> snd x \<in> K then Some (new_volume_row (fst (snd x))) else None)) \<and>
     vol d' = vol d \<and> drift d' = drift d"

lemma insert_volume_row_materialised:
  assumes "insert_volume_row l k (new_volume_row (fst k)) d = Inr d'"
    and "unique_keys (accounts_volumes d)"
  shows "materialised l {k} d d'"
proof (cases "map_of (accounts_volumes d) (l, k)")
  case (Some r)
  with assms have "d' = d" by (simp add: insert_volume_row_def)
  with Some assms(2) show ?thesis
    by (auto simp: materialised_def split: option.splits)
next
  case None
  with assms(1) have reg: "is_registered d l (snd k)"
    and d': "d' = d\<lparr>accounts_volumes := AList.update (l, k) (new_volume_row (fst k)) (accounts_volumes d),
                     deferred := deferred d @ [(l, snd k)]\<rparr>"
    by (auto simp: insert_volume_row_def is_registered_def split: if_splits)
  have "drift d' = drift d"
    using None unfolding d'
    by (simp add: fun_eq_iff drift_update assms(2) new_volume_row_def bal_def vol_def
        NewVolumes_def Balance_def)
  moreover have "vol d' = vol d"
    by (rule insert_volume_row_zero_vol [OF assms(1)])
  ultimately show ?thesis
    using None reg assms(2)
    by (auto simp: materialised_def d' frame_volumes_def split: option.splits)
qed

lemma materialised_refl: "unique_keys (accounts_volumes d) \<Longrightarrow> materialised l {} d d"
  by (simp add: materialised_def split: option.splits)

lemma materialised_trans:
  assumes "materialised l K d d'" and "materialised l K' d' d''"
  shows "materialised l (K \<union> K') d d''"
proof -
  have reg: "is_registered d' = is_registered d"
    using assms(1) by (simp add: materialised_def frame_volumes_def is_registered_def fun_eq_iff)
  show ?thesis
    unfolding materialised_def
  proof (intro conjI ballI allI)
    fix k assume "k \<in> K \<union> K'"
    then show "map_of (accounts_volumes d) (l, k) \<noteq> None \<or> is_registered d l (snd k)"
      using assms reg unfolding materialised_def by (force split: option.splits if_splits)
  next
    fix x
    have "map_of (accounts_volumes d') x =
        (case map_of (accounts_volumes d) x of Some r \<Rightarrow> Some r
         | None \<Rightarrow> if fst x = l \<and> snd x \<in> K then Some (new_volume_row (fst (snd x))) else None)"
      and "map_of (accounts_volumes d'') x =
        (case map_of (accounts_volumes d') x of Some r \<Rightarrow> Some r
         | None \<Rightarrow> if fst x = l \<and> snd x \<in> K' then Some (new_volume_row (fst (snd x))) else None)"
      using assms unfolding materialised_def by blast+
    then show "map_of (accounts_volumes d'') x =
        (case map_of (accounts_volumes d) x of Some r \<Rightarrow> Some r
         | None \<Rightarrow> if fst x = l \<and> snd x \<in> K \<union> K' then Some (new_volume_row (fst (snd x))) else None)"
      by (cases "map_of (accounts_volumes d) x") auto
  qed (use assms in \<open>auto simp: materialised_def intro: frame_volumes_trans\<close>)
qed

lemma materialised_lookup:
  assumes "materialised l K d d'"
  shows "map_of (accounts_volumes d') x =
        (case map_of (accounts_volumes d) x of
           Some r \<Rightarrow> Some r
         | None \<Rightarrow> if fst x = l \<and> snd x \<in> K then Some (new_volume_row (fst (snd x))) else None)"
  using assms unfolding materialised_def by blast

lemma materialised_frame:
  assumes "materialised l K d d'"
  shows "frame_volumes d d'" "unique_keys (accounts_volumes d')" "vol d' = vol d" "drift d' = drift d"
  using assms by (simp_all add: materialised_def)

lemma materialise_materialised:
  assumes "materialise l us d = Inr d'" and "unique_keys (accounts_volumes d)"
  shows "materialised l (update_key ` set us) d d'"
  using assms
proof (induction us arbitrary: d)
  case Nil
  then show ?case by (simp add: materialise_def materialised_refl)
next
  case (Cons u us)
  then obtain d1 where d1: "insert_volume_row l (update_key u) (new_volume_row (fst (update_key u))) d = Inr d1"
    and rest: "materialise l us d1 = Inr d'"
    by (auto simp: materialise_def bindE_Inr_iff update_key_def)
  have m1: "materialised l {update_key u} d d1"
    by (rule insert_volume_row_materialised [OF d1 Cons.prems(2)])
  then have "unique_keys (accounts_volumes d1)" by (simp add: materialised_def)
  from materialised_trans [OF m1 Cons.IH [OF rest this]] show ?case by simp
qed

lemma materialise_total:
  assumes "\<forall>u\<in>set us. is_registered d l (UAsset u)"
  shows "\<exists>d'. materialise l us d = Inr d'"
  using assms
proof (induction us arbitrary: d)
  case (Cons u us)
  have "\<exists>d1. insert_volume_row l (update_key u) (new_volume_row (Account u)) d = Inr d1 \<and>
      is_registered d1 = is_registered d"
    using Cons.prems
    by (auto simp: insert_volume_row_def is_registered_def update_key_def fun_eq_iff)
  then obtain d1 where d1: "insert_volume_row l (update_key u) (new_volume_row (Account u)) d = Inr d1"
    and "is_registered d1 = is_registered d" by blast
  with Cons.IH [of d1] Cons.prems show ?case
    by (simp add: materialise_def)
qed (simp add: materialise_def)

text \<open>What the commit path knows about a locked key: the volumes and permissions of the row, and
  whether the account is closed.\<close>

definition account_closed :: "db \<Rightarrow> string \<Rightarrow> Address \<Rightarrow> bool" where
  "account_closed d l a \<longleftrightarrow>
     (case map_of (accounts d) (l, a) of None \<Rightarrow> False | Some r \<Rightarrow> closed r)"

definition locked_view :: "string \<Rightarrow> db \<Rightarrow> key set \<Rightarrow> before \<Rightarrow> bool" where
  "locked_view l d K bf \<longleftrightarrow>
     unique_keys bf \<and> set (keys bf) = K \<and>
     (\<forall>k\<in>K. \<exists>r. map_of (accounts_volumes d) (l, k) = Some r \<and>
        map_of bf k = Some ((locked_row r)\<lparr>lk_closed := account_closed d l (fst k)\<rparr>))"

lemma lock_rows_lookup:
  assumes "unique_keys (accounts_volumes d)"
  shows "map_of (lock_rows l us d) k =
      (if k \<in> update_key ` set us then map_option locked_row (map_of (accounts_volumes d) (l, k)) else None)"
    and "unique_keys (lock_rows l us d)"
proof -
  let ?xs = "map (\<lambda>((_, k), r). (k, locked_row r))
       (filter (\<lambda>((l', k), _). l' = l \<and> k \<in> update_key ` set us) (accounts_volumes d))"
  have u: "unique_keys ?xs" by (rule unique_ledger_part [OF assms])
  have eq: "mset (lock_rows l us d) = mset ?xs" by (simp add: lock_rows_def)
  have "map_of (lock_rows l us d) = map_of ?xs"
    by (rule map_of_unique_mset [OF eq [symmetric] u, symmetric])
  then show "map_of (lock_rows l us d) k =
      (if k \<in> update_key ` set us then map_option locked_row (map_of (accounts_volumes d) (l, k)) else None)"
    by (simp only: map_of_ledger_part)
  show "unique_keys (lock_rows l us d)"
    by (rule unique_keys_mset [OF eq u])
qed

lemma fill_missing_id:
  "\<forall>u\<in>set us. map_of c (update_key u) \<noteq> None \<Longrightarrow> fold fill_missing us c = c"
  by (induction us arbitrary: c) (auto simp: fill_missing_def)

lemma scanClosed_iff:
  assumes "unique_keys (accounts d)"
  shows "a \<in> set (scanClosed l us d) \<longleftrightarrow> a \<in> Account ` set us \<and> account_closed d l a"
proof -
  have "map_of (accounts d) (l, a) = Some r \<longleftrightarrow> ((l, a), r) \<in> set (accounts d)" for r
    using assms by (rule map_of_eq_Some_iff)
  then have "account_closed d l a \<longleftrightarrow> (\<exists>r. ((l, a), r) \<in> set (accounts d) \<and> closed r)"
    using map_of_eq_None_iff [of "accounts d" "(l, a)"]
    by (cases "map_of (accounts d) (l, a)") (force simp: account_closed_def)+
  then show ?thesis
    by (force simp: scanClosed_def)
qed

lemma mark_closed_lookup:
  "map_of (mark_closed cs c) k =
     map_option (\<lambda>v. if fst k \<in> set cs then v\<lparr>lk_closed := True\<rparr> else v) (map_of c k)"
  by (induction c) (auto simp: mark_closed_def)

lemma mark_closed_keys [simp]: "keys (mark_closed cs c) = keys c"
  by (induction c) (auto simp: mark_closed_def)

lemma lockVolumes_spec:
  assumes "lockVolumes l us d = Inr (d', bf)" and wk: "well_keyed d"
  shows "materialised l (update_key ` set us) d d'" (is ?m)
    and "locked_view l d' (update_key ` set us) bf"
proof -
  let ?K = "update_key ` set us"
  from assms(1) have m: "materialise l us d = Inr d'"
    and bf: "bf = mark_closed (scanClosed l us d') (fold fill_missing us (lock_rows l us d'))"
    by (auto simp: lockVolumes_def bindE_Inr_iff)
  show M: ?m
    using materialise_materialised [OF m] wk by (simp add: well_keyed_def)
  then have uniq: "unique_keys (accounts_volumes d')" and acc: "unique_keys (accounts d')"
    using wk by (simp_all add: materialised_def frame_volumes_def well_keyed_def)
  have present: "\<exists>r. map_of (accounts_volumes d') (l, k) = Some r" if "k \<in> ?K" for k
    using materialised_lookup [OF M, of "(l, k)"] that by (simp split: option.splits)
  note look = lock_rows_lookup [OF uniq, of l us]
  have fill: "fold fill_missing us (lock_rows l us d') = lock_rows l us d'"
    by (rule fill_missing_id) (use present in \<open>auto simp: look(1)\<close>)
  have "set (keys (lock_rows l us d')) = ?K"
  proof -
    have "k \<in> set (keys (lock_rows l us d')) \<longleftrightarrow> k \<in> ?K" for k
      using present [of k] look(1) [of k] map_of_eq_None_iff [of "lock_rows l us d'" k]
      by (auto split: if_splits)
    then show ?thesis by blast
  qed
  moreover have "map_of bf k = Some ((locked_row r)\<lparr>lk_closed := account_closed d' l (fst k)\<rparr>)"
    if "k \<in> ?K" "map_of (accounts_volumes d') (l, k) = Some r" for k r
  proof -
    have "fst k \<in> Account ` set us" using that(1) by (auto simp: update_key_def)
    then have "fst k \<in> set (scanClosed l us d') \<longleftrightarrow> account_closed d' l (fst k)"
      by (simp add: scanClosed_iff [OF acc])
    then show ?thesis
      using that by (simp add: bf fill mark_closed_lookup look(1) locked_row_def)
  qed
  moreover have "unique_keys bf" and "keys bf = keys (lock_rows l us d')"
    using look(2) by (simp_all add: bf fill)
  ultimately show "locked_view l d' ?K bf"
    unfolding locked_view_def using present by metis
qed

end
