(* ===== verification/Storage_Check.thy ===== *)
theory Storage_Check
  imports Storage_Lock
begin

text \<open>
  Between the locks and the writes (\<open>src/storage/commit.go\<close>): what resolving ceilings may
  change in a request, what each sweep takes, and what the closure and balance checks
  guarantee about the rows they were run on.
\<close>

subsection \<open>Ceilings\<close>

text \<open>A resolved posting differs from the request only in the amount of a sweep.\<close>

definition resolved_as :: "Posting \<Rightarrow> Posting \<Rightarrow> bool" where
  "resolved_as p q \<longleftrightarrow>
     (if UpTo p
      then q = p\<lparr>Amount := Amount q, UpTo := False\<rparr> \<and>
           (\<exists>a. Amount q = Some a \<and> (\<forall>c. Amount p = Some c \<longrightarrow> a \<le> c) \<and>
                ((\<forall>c. Amount p = Some c \<longrightarrow> 0 \<le> c) \<longrightarrow> 0 \<le> a))
      else q = p)"

lemma sweep_bounds:
  "(\<forall>c. ceiling = Some c \<longrightarrow> sweep ceiling h \<le> c)"
  "(\<forall>c. ceiling = Some c \<longrightarrow> 0 \<le> c) \<Longrightarrow> 0 \<le> sweep ceiling h"
  "sweep ceiling h \<le> max 0 h"
  by (auto simp: sweep_def Let_def split: option.splits)

lemma resolve_from_resolved:
  "resolve_from bf running ps = Inr qs \<Longrightarrow> list_all2 resolved_as ps qs"
proof (induction ps arbitrary: running qs)
  case (Cons p ps)
  show ?case
  proof (cases "UpTo p")
    case False
    with Cons.prems obtain qs' where "qs = p # qs'" and
      "resolve_from bf (case Amount p of None \<Rightarrow> running
         | Some a \<Rightarrow> run_move (Source p, PAsset p) (Destination p, PAsset p) a running) ps = Inr qs'"
      by (auto simp: bindE_Inr_iff)
    with Cons.IH False show ?thesis by (auto simp: resolved_as_def)
  next
    case True
    define a where "a = sweep (Amount p) (held_at running (Source p, PAsset p))"
    from True Cons.prems obtain qs' where qs: "qs = p\<lparr>Amount := Some a, UpTo := False\<rparr> # qs'"
      and rest: "resolve_from bf (run_move (Source p, PAsset p) (Destination p, PAsset p) a running) ps = Inr qs'"
      unfolding a_def by (auto simp: bindE_Inr_iff Let_def split: if_splits)
    have "resolved_as p (p\<lparr>Amount := Some a, UpTo := False\<rparr>)"
      using True sweep_bounds(1, 2) by (auto simp: resolved_as_def a_def)
    with Cons.IH [OF rest] show ?thesis by (simp add: qs)
  qed
qed simp

lemma resolved_as_fields:
  assumes "resolved_as p q"
  shows "Source q = Source p" "Destination q = Destination p" "PAsset q = PAsset p" "\<not> UpTo q"
proof -
  have "Source q = Source p \<and> Destination q = Destination p \<and> PAsset q = PAsset p \<and> \<not> UpTo q"
  proof (cases "UpTo p")
    case True
    then have eq: "q = p\<lparr>Amount := Amount q, UpTo := False\<rparr>"
      using assms by (simp add: resolved_as_def)
    from arg_cong [OF eq, of Source] arg_cong [OF eq, of Destination]
      arg_cong [OF eq, of PAsset] arg_cong [OF eq, of UpTo]
    show ?thesis by simp
  qed (use assms in \<open>simp add: resolved_as_def\<close>)
  then show "Source q = Source p" "Destination q = Destination p" "PAsset q = PAsset p" "\<not> UpTo q"
    by simp_all
qed

lemma resolved_touched: "list_all2 resolved_as ps qs \<Longrightarrow> touched qs = touched ps"
proof (induction rule: list_all2_induct)
  case (Cons p ps q qs)
  then show ?case by (simp add: resolved_as_fields)
qed simp

lemma resolved_amounts: "list_all2 resolved_as ps qs \<Longrightarrow> priced ps \<Longrightarrow> all_amounts qs"
proof (induction rule: list_all2_induct)
  case (Cons p ps q qs)
  then have "priced ps" "Amount p = None \<longrightarrow> UpTo p" by (auto simp: priced_def)
  with Cons show ?case by (auto simp: all_amounts_def resolved_as_def split: if_splits)
qed (simp add: all_amounts_def)

lemma resolved_nonneg: "list_all2 resolved_as ps qs \<Longrightarrow> nonneg ps \<Longrightarrow> nonneg qs"
proof (induction rule: list_all2_induct)
  case (Cons p ps q qs)
  then have "nonneg ps" and "0 \<le> amt p" by (auto simp: nonneg_def)
  then have "\<forall>c. Amount p = Some c \<longrightarrow> 0 \<le> c" by (auto simp: amt_def orZero_def)
  with Cons \<open>0 \<le> amt p\<close> have "0 \<le> amt q"
    by (auto simp: resolved_as_def amt_def orZero_def split: if_splits)
  with Cons \<open>nonneg ps\<close> show ?case by (simp add: nonneg_def)
qed (simp add: nonneg_def)

lemma resolved_HasUpTo: "list_all2 resolved_as ps qs \<Longrightarrow> \<not> HasUpTo qs"
proof (induction rule: list_all2_induct)
  case (Cons p ps q qs)
  then show ?case by (simp add: resolved_as_fields)
qed simp

lemma HasUpTo_iff: "HasUpTo ps \<longleftrightarrow> (\<exists>p\<in>set ps. UpTo p)"
  by (induction ps) auto

lemma resolved_refl: "\<not> HasUpTo ps \<Longrightarrow> list_all2 resolved_as ps ps"
  by (induction ps) (auto simp: resolved_as_def split: if_splits)

text \<open>Each sweep takes what its source holds when it runs: the balance before the transaction,
  plus what the earlier postings moved.\<close>

lemma held_run_move:
  "held_at (run_move s t a r) k =
     held_at r k + (if k = t then a else 0) - (if k = s then a else 0)"
  by (auto simp: held_at_def run_move_def Let_def orZero_def)

lemma resolve_from_sweeps:
  assumes "resolve_from bf running ps = Inr qs" and "i < length ps" and "UpTo (ps ! i)"
    and "k = (Source (ps ! i), PAsset (ps ! i))"
  shows "amt (qs ! i) = sweep (Amount (ps ! i))
           (held_at running k + inflow (take i qs) k - outflow (take i qs) k)"
  using assms
proof (induction ps arbitrary: running qs i)
  case (Cons p ps)
  let ?s = "(Source p, PAsset p)" and ?d = "(Destination p, PAsset p)"
  show ?case
  proof (cases "UpTo p")
    case True
    define a where "a = sweep (Amount p) (held_at running ?s)"
    from True Cons.prems obtain qs' where qs: "qs = p\<lparr>Amount := Some a, UpTo := False\<rparr> # qs'"
      and rest: "resolve_from bf (run_move ?s ?d a running) ps = Inr qs'"
      unfolding a_def by (auto simp: bindE_Inr_iff Let_def split: if_splits)
    show ?thesis
    proof (cases i)
      case 0
      with Cons.prems qs show ?thesis by (simp add: a_def amt_def orZero_def)
    next
      case (Suc j)
      with Cons.prems Cons.IH [OF rest, of j] show ?thesis
        by (simp add: qs held_run_move amt_def orZero_def algebra_simps)
    qed
  next
    case False
    with Cons.prems obtain j where i: "i = Suc j" by (cases i) auto
    from False Cons.prems obtain qs' where qs: "qs = p # qs'"
      and rest: "resolve_from bf (case Amount p of None \<Rightarrow> running
         | Some a \<Rightarrow> run_move ?s ?d a running) ps = Inr qs'"
      by (auto simp: bindE_Inr_iff)
    have held: "held_at (case Amount p of None \<Rightarrow> running | Some a \<Rightarrow> run_move ?s ?d a running) k =
       held_at running k + (if ?d = k then amt p else 0) - (if ?s = k then amt p else 0)"
      by (auto simp: amt_def orZero_def held_run_move split: option.splits)
    have "j < length ps" "UpTo (ps ! j)" "k = (Source (ps ! j), PAsset (ps ! j))"
      using Cons.prems(2-4) i by simp_all
    from Cons.IH [OF rest this, unfolded held] show ?thesis
      by (simp add: qs i algebra_simps)
  qed
qed simp

lemma resolve_updates_spec:
  assumes "resolve_updates p us0 bf = Inr (ps, us)" and "VolumeUpdates p = Inr us0"
  shows "list_all2 resolved_as p ps" "VolumeUpdates ps = Inr us" "update_key ` set us = update_key ` set us0"
proof -
  show r: "list_all2 resolved_as p ps"
    using assms(1)
    by (auto simp: resolve_updates_def resolveUpTo_def bindE_Inr_iff resolved_refl
        dest!: resolve_from_resolved split: if_splits)
  show u: "VolumeUpdates ps = Inr us"
    using assms by (auto simp: resolve_updates_def bindE_Inr_iff split: if_splits)
  show "update_key ` set us = update_key ` set us0"
    using VolumeUpdates_spec [OF u] VolumeUpdates_spec [OF assms(2)] resolved_touched [OF r]
    by (simp add: updates_for_def)
qed

subsection \<open>The checks\<close>

definition within_bounds :: "locked \<Rightarrow> VolumeUpdate \<Rightarrow> bool" where
  "within_bounds v u \<longleftrightarrow>
     (Input (lk_volumes v) + UInput u < Output (lk_volumes v) + UOutput u \<longrightarrow> lk_allow_negative v) \<and>
     (Input (lk_volumes v) + UInput u > Output (lk_volumes v) + UOutput u \<longrightarrow> lk_allow_positive v)"

lemma checkBalances_ok:
  "checkBalances bf us = Inr x \<longleftrightarrow>
     (\<forall>u\<in>set us. \<exists>v. map_of bf (update_key u) = Some v \<and> within_bounds v u)"
proof (induction us)
  case (Cons u us)
  show ?case
  proof (cases "map_of bf (update_key u)")
    case (Some v)
    have "within_bounds v u \<longleftrightarrow>
        \<not> (\<not> lk_allow_negative v \<and> Input (lk_volumes v) + UInput u < Output (lk_volumes v) + UOutput u) \<and>
        \<not> (\<not> lk_allow_positive v \<and> Input (lk_volumes v) + UInput u > Output (lk_volumes v) + UOutput u)"
      by (auto simp: within_bounds_def)
    with Some Cons show ?thesis by (simp add: Let_def)
  qed simp
qed simp

lemma checkBalances_no_panic:
  "\<forall>u\<in>set us. map_of bf (update_key u) \<noteq> None \<Longrightarrow> checkBalances bf us \<noteq> Inl NilPanic"
  by (induction us) (auto simp: Let_def split: if_splits)

lemma checkClosed_ok:
  "checkClosed bf us = Inr x \<longleftrightarrow>
     (\<forall>u\<in>set us. \<forall>v. map_of bf (update_key u) = Some v \<longrightarrow> \<not> lk_closed v)"
  by (induction us) (auto split: option.splits)

lemma post_commit_volumes_total:
  "\<forall>u\<in>set us. map_of bf (update_key u) \<noteq> None \<Longrightarrow> \<exists>pcv. post_commit_volumes bf us acc = Inr pcv"
  by (induction us arbitrary: acc) (auto split: option.splits)

lemma post_commit_volumes_lookup:
  assumes "post_commit_volumes bf us acc = Inr pcv" and "distinct (map update_key us)"
  shows "pcv_lookup pcv k =
    (case find (\<lambda>u. update_key u = k) us of
       None \<Rightarrow> pcv_lookup acc k
     | Some u \<Rightarrow> map_option (\<lambda>v. add_flow (lk_volumes v) (UInput u) (UOutput u)) (map_of bf k))"
  using assms
proof (induction us arbitrary: acc)
  case (Cons u us)
  then obtain v where v: "map_of bf (update_key u) = Some v"
    and rest: "post_commit_volumes bf us
      (PCV_Set acc (Account u) (UAsset u) (add_flow (lk_volumes v) (UInput u) (UOutput u))) = Inr pcv"
    by (auto split: option.splits)
  have "find (\<lambda>w. update_key w = update_key u) us = None"
    using Cons.prems(2) by (simp add: find_None_iff) (metis image_eqI)
  moreover have "pcv_lookup (PCV_Set acc (Account u) (UAsset u) x) k =
      (if update_key u = k then Some x else pcv_lookup acc k)" for x
    by (auto simp: pcv_lookup_Set update_key_def)
  ultimately show ?case
    using Cons.IH [OF rest] Cons.prems(2) v by (auto split: option.splits)
qed simp

end
