(* ===== verification/Storage_Rows.thy ===== *)
theory Storage_Rows
  imports Storage_Check
begin

text \<open>
  The writes of a commit one by one: the volume deltas (they add exactly the flows, they keep
  every permission, and no trigger fires on them after the checks), the id counters, the
  transaction row and the account rows.
\<close>

subsection \<open>Applying the deltas\<close>

definition uin :: "VolumeUpdate list \<Rightarrow> key \<Rightarrow> int" where
  "uin us k = (\<Sum>u\<leftarrow>us. if update_key u = k then UInput u else 0)"

definition uout :: "VolumeUpdate list \<Rightarrow> key \<Rightarrow> int" where
  "uout us k = (\<Sum>u\<leftarrow>us. if update_key u = k then UOutput u else 0)"

lemma u_simps [simp]:
  "uin [] k = 0" "uout [] k = 0"
  "uin (u # us) k = (if update_key u = k then UInput u else 0) + uin us k"
  "uout (u # us) k = (if update_key u = k then UOutput u else 0) + uout us k"
  by (simp_all add: uin_def uout_def)

lemma u_absent: "k \<notin> update_key ` set us \<Longrightarrow> uin us k = 0 \<and> uout us k = 0"
  by (induction us) auto

lemma u_present:
  "distinct (map update_key us) \<Longrightarrow> u \<in> set us \<Longrightarrow>
     uin us (update_key u) = UInput u \<and> uout us (update_key u) = UOutput u"
  by (induction us) (auto simp: u_absent image_iff)

lemma updates_for_flow:
  assumes "updates_for ps us"
  shows "uin us k = inflow ps k" "uout us k = outflow ps k"
proof -
  have "uin us k = inflow ps k \<and> uout us k = outflow ps k"
  proof (cases "k \<in> touched ps")
    case True
    with assms obtain u where "u \<in> set us" "k = update_key u"
      by (auto simp: updates_for_def)
    with assms u_present [of us u] show ?thesis
      by (auto simp: updates_for_def)
  next
    case False
    with assms u_absent [of k us] flow_untouched [of k ps] show ?thesis
      by (simp add: updates_for_def)
  qed
  then show "uin us k = inflow ps k" "uout us k = outflow ps k" by simp_all
qed

definition bump :: "int \<Rightarrow> int \<Rightarrow> volume_row \<Rightarrow> volume_row" where
  "bump i out r = r\<lparr>vr_input := vr_input r + i, vr_output := vr_output r + out\<rparr>"

lemma bump_simps [simp]:
  "vr_input (bump i out r) = vr_input r + i" "vr_output (bump i out r) = vr_output r + out"
  "allow_negative (bump i out r) = allow_negative r" "allow_positive (bump i out r) = allow_positive r"
  "bump 0 0 = id" "bump i out (bump i' out' r) = bump (i' + i) (out' + out) r"
  by (simp_all add: bump_def fun_eq_iff)

definition volumes_bumped :: "string \<Rightarrow> VolumeUpdate list \<Rightarrow> db \<Rightarrow> db \<Rightarrow> bool" where
  "volumes_bumped l us d d' \<longleftrightarrow>
     frame_volumes d d' \<and> unique_keys (accounts_volumes d') \<and>
     (\<forall>x. map_of (accounts_volumes d') x =
        map_option (if fst x = l then bump (uin us (snd x)) (uout us (snd x)) else id)
          (map_of (accounts_volumes d) x)) \<and>
     (\<forall>l' s. drift d' l' s = drift d l' s + (if l' = l then upd_net s us else 0))"

lemma apply_volume_Inr:
  "apply_volume l u d = Inr d' \<longleftrightarrow>
     (\<exists>r. map_of (accounts_volumes d) (l, update_key u) = Some r \<and>
          volumes_trigger r (bump (UInput u) (UOutput u) r) \<and>
          d' = d\<lparr>accounts_volumes :=
                   AList.update (l, update_key u) (bump (UInput u) (UOutput u) r) (accounts_volumes d),
                 deferred := deferred d @ [(l, UAsset u)]\<rparr>)"
  by (auto simp: apply_volume_def update_volume_row_def bump_def update_key_def bindE_Inr_iff
      split: option.splits if_splits)

lemma apply_volume_bumped:
  assumes "apply_volume l u d = Inr d'" and uk: "unique_keys (accounts_volumes d)"
  shows "volumes_bumped l [u] d d'"
proof -
  from assms(1) obtain r where r: "map_of (accounts_volumes d) (l, update_key u) = Some r"
    and d': "d' = d\<lparr>accounts_volumes :=
                   AList.update (l, update_key u) (bump (UInput u) (UOutput u) r) (accounts_volumes d),
                 deferred := deferred d @ [(l, UAsset u)]\<rparr>"
    by (auto simp: apply_volume_Inr)
  have "bal d l (update_key u) = vr_input r - vr_output r"
    by (simp add: bal_def vol_def r Balance_def)
  then have dr: "drift d' l' s = drift d l' s + (if l' = l then upd_net s [u] else 0)" for l' s
    by (auto simp: d' drift_update uk upd_net_def update_key_def)
  have look: "map_of (accounts_volumes d') x =
        map_option (if fst x = l then bump (uin [u] (snd x)) (uout [u] (snd x)) else id)
          (map_of (accounts_volumes d) x)" for x
    using r by (cases x) (auto simp: d' option.map_id0 option.map_ident split: option.splits)
  show ?thesis
    unfolding volumes_bumped_def using look dr uk by (simp add: d' frame_volumes_def)
qed

lemma volumes_bumped_cons:
  assumes "volumes_bumped l [u] d d1" and "volumes_bumped l us d1 d'"
  shows "volumes_bumped l (u # us) d d'"
proof -
  have "map_of (accounts_volumes d') x =
        map_option (if fst x = l then bump (uin (u # us) (snd x)) (uout (u # us) (snd x)) else id)
          (map_of (accounts_volumes d) x)" for x
  proof -
    have "map_of (accounts_volumes d1) x =
        map_option (if fst x = l then bump (uin [u] (snd x)) (uout [u] (snd x)) else id)
          (map_of (accounts_volumes d) x)"
      and "map_of (accounts_volumes d') x =
        map_option (if fst x = l then bump (uin us (snd x)) (uout us (snd x)) else id)
          (map_of (accounts_volumes d1) x)"
      using assms unfolding volumes_bumped_def by blast+
    then show ?thesis by (cases "map_of (accounts_volumes d) x") auto
  qed
  note look = this
  have dr: "drift d' l' s = drift d l' s + (if l' = l then upd_net s (u # us) else 0)" for l' s
  proof -
    have "drift d1 l' s = drift d l' s + (if l' = l then upd_net s [u] else 0)"
      and "drift d' l' s = drift d1 l' s + (if l' = l then upd_net s us else 0)"
      using assms unfolding volumes_bumped_def by blast+
    then show ?thesis by (simp add: upd_net_def)
  qed
  have "frame_volumes d d'" "unique_keys (accounts_volumes d')"
    using assms frame_volumes_trans unfolding volumes_bumped_def by blast+
  with look dr show ?thesis unfolding volumes_bumped_def by blast
qed

lemma applyVolumes_bumped:
  assumes "applyVolumes l us d = Inr d'" and "unique_keys (accounts_volumes d)"
  shows "volumes_bumped l us d d'"
  using assms
proof (induction us arbitrary: d)
  case Nil
  then show ?case
    by (auto simp: applyVolumes_def volumes_bumped_def upd_net_def option.map_id0 option.map_ident
        split: option.splits)
next
  case (Cons u us)
  then obtain d1 where d1: "apply_volume l u d = Inr d1" and rest: "applyVolumes l us d1 = Inr d'"
    by (auto simp: applyVolumes_def bindE_Inr_iff)
  have b: "volumes_bumped l [u] d d1" by (rule apply_volume_bumped [OF d1 Cons.prems(2)])
  then have "unique_keys (accounts_volumes d1)" by (simp add: volumes_bumped_def)
  from volumes_bumped_cons [OF b Cons.IH [OF rest this]] show ?case .
qed

text \<open>After the checks of the Go code no trigger fires: the update of every row goes through.\<close>

definition update_fits :: "string \<Rightarrow> db \<Rightarrow> VolumeUpdate \<Rightarrow> bool" where
  "update_fits l d u \<longleftrightarrow>
     (\<exists>r. map_of (accounts_volumes d) (l, update_key u) = Some r \<and>
          0 \<le> UInput u \<and> 0 \<le> UOutput u \<and> within_bounds (locked_row r) u)"

lemma update_fits_trigger:
  "0 \<le> UInput u \<Longrightarrow> 0 \<le> UOutput u \<Longrightarrow> within_bounds (locked_row r) u \<Longrightarrow>
     volumes_trigger r (bump (UInput u) (UOutput u) r)"
  by (simp add: volumes_trigger_def within_bounds_def locked_row_def)

lemma applyVolumes_total:
  assumes "\<forall>u\<in>set us. update_fits l d u" and "distinct (map update_key us)"
  shows "\<exists>d'. applyVolumes l us d = Inr d'"
  using assms
proof (induction us arbitrary: d)
  case (Cons u us)
  from Cons.prems(1) obtain r where r: "map_of (accounts_volumes d) (l, update_key u) = Some r"
    "0 \<le> UInput u" "0 \<le> UOutput u" "within_bounds (locked_row r) u"
    by (auto simp: update_fits_def)
  define d1 where "d1 = d\<lparr>accounts_volumes :=
                   AList.update (l, update_key u) (bump (UInput u) (UOutput u) r) (accounts_volumes d),
                 deferred := deferred d @ [(l, UAsset u)]\<rparr>"
  have d1: "apply_volume l u d = Inr d1"
    using r update_fits_trigger unfolding apply_volume_Inr d1_def by blast
  have "\<forall>w\<in>set us. update_fits l d1 w"
    using Cons.prems by (auto simp: update_fits_def d1_def image_iff)
  with Cons.IH [of d1] Cons.prems(2) d1 show ?case
    by (simp add: applyVolumes_def)
qed (simp add: applyVolumes_def)

subsection \<open>Ids, rows, accounts\<close>

lemma update_ledger_row_Inr:
  "update_ledger_row l f d = Inr (Some (d', new)) \<longleftrightarrow>
     (\<exists>old. map_of (ledgers d) l = Some old \<and> new = f old \<and>
        last_tx_id new \<le> max_bigint \<and> last_log_id new \<le> max_bigint \<and>
        last_tx_id old \<le> last_tx_id new \<and> last_log_id old \<le> last_log_id new \<and>
        d' = d\<lparr>ledgers := AList.update l new (ledgers d)\<rparr>)"
  by (auto simp: update_ledger_row_def Let_def split: option.splits if_splits)

lemma allocate_Inr:
  "allocate l d = Inr (d', a) \<longleftrightarrow>
     (\<exists>r. map_of (ledgers d) l = Some r \<and>
        last_tx_id r < max_bigint \<and> last_log_id r < max_bigint \<and>
        a = \<lparr>transactionID = last_tx_id r + 1, logID = last_log_id r + 1,
             previousHash = hash_bytes (last_log_hash r)\<rparr> \<and>
        d' = d\<lparr>ledgers := AList.update l
               (r\<lparr>last_tx_id := last_tx_id r + 1, last_log_id := last_log_id r + 1\<rparr>) (ledgers d)\<rparr>)"
  by (auto simp: allocate_def bindE_Inr_iff update_ledger_row_def Let_def split: option.splits if_splits)

lemma allocateLogID_Inr:
  "allocateLogID l d = Inr (d', a) \<longleftrightarrow>
     (\<exists>r. map_of (ledgers d) l = Some r \<and>
        last_tx_id r \<le> max_bigint \<and> last_log_id r < max_bigint \<and>
        a = \<lparr>transactionID = 0, logID = last_log_id r + 1,
             previousHash = hash_bytes (last_log_hash r)\<rparr> \<and>
        d' = d\<lparr>ledgers := AList.update l (r\<lparr>last_log_id := last_log_id r + 1\<rparr>) (ledgers d)\<rparr>)"
  by (auto simp: allocateLogID_def bindE_Inr_iff update_ledger_row_def Let_def
      split: option.splits if_splits)

lemma insertTransaction_Inr:
  "insertTransaction l e t d = Inr (d', t') \<longleftrightarrow>
     map_of (transactions d) (l, TxID t) = None \<and>
     (TReference t \<noteq> [] \<longrightarrow> \<not> reference_taken d l (TReference t)) \<and>
     t' = t\<lparr>InsertedAt := db_now e\<rparr> \<and>
     d' = d\<lparr>transactions := transactions d @ [((l, TxID t), row_of_transaction e t)]\<rparr>"
  by (auto simp: insertTransaction_def bindE_Inr_iff mapErr_Inr_iff insert_tx_row_def
      row_of_transaction_def split: if_splits)

lemma upsert_account_closed [simp]:
  "account_closed (upsert_account l a ts now d) = account_closed d"
  by (auto simp: account_closed_def upsert_account_def fun_eq_iff split: option.splits)

lemma queueAccounts_frame:
  "queueAccounts l e us ts d = d\<lparr>accounts := accounts (queueAccounts l e us ts d)\<rparr>"
proof -
  have "\<exists>acc. fold (\<lambda>a. upsert_account l a ts now) as d = d\<lparr>accounts := acc\<rparr>" for now as
  proof (induction as arbitrary: d)
    case Nil
    show ?case by (intro exI [of _ "accounts d"]) simp
  next
    case (Cons a as)
    from Cons [of "upsert_account l a ts now d"] show ?case
      by (auto simp: upsert_account_def)
  qed
  then obtain acc where "queueAccounts l e us ts d = d\<lparr>accounts := acc\<rparr>"
    unfolding queueAccounts_def by blast
  then show ?thesis by simp
qed

lemma queueAccounts_closed [simp]: "account_closed (queueAccounts l e us ts d) = account_closed d"
proof -
  have "account_closed (fold (\<lambda>a. upsert_account l a ts now) as d) = account_closed d" for now as
    by (induction as arbitrary: d) simp_all
  then show ?thesis by (simp add: queueAccounts_def)
qed

lemma queueAccounts_unique:
  "unique_keys (accounts d) \<Longrightarrow> unique_keys (accounts (queueAccounts l e us ts d))"
proof -
  have "unique_keys (accounts d) \<Longrightarrow>
      unique_keys (accounts (fold (\<lambda>a. upsert_account l a ts now) as d))" for now as
    by (induction as arbitrary: d) (auto simp: upsert_account_def)
  then show "unique_keys (accounts d) \<Longrightarrow> ?thesis" by (simp add: queueAccounts_def)
qed

end
