(* ===== verification/Storage_Moves.thy ===== *)
theory Storage_Moves
  imports Storage_Rows
begin

text \<open>
  The moves of a commit (\<open>src/storage/moves.go\<close>): two per posting, each with the running volumes
  of its account in both orders, and the shift of the moves that lie later in effective order.
\<close>

subsection \<open>Sums of moves\<close>

definition mv_in :: "move_row \<Rightarrow> int" where
  "mv_in m = (if mv_is_source m then 0 else mv_amount m)"

definition mv_out :: "move_row \<Rightarrow> int" where
  "mv_out m = (if mv_is_source m then mv_amount m else 0)"

definition moves_vol :: "string \<Rightarrow> key \<Rightarrow> move_row list \<Rightarrow> Volumes" where
  "moves_vol l k ms =
     \<lparr>Input = (\<Sum>m\<leftarrow>ms. if mv_ledger m = l \<and> mv_key m = k then mv_in m else 0),
      Output = (\<Sum>m\<leftarrow>ms. if mv_ledger m = l \<and> mv_key m = k then mv_out m else 0)\<rparr>"

lemma moves_vol_simps [simp]:
  "moves_vol l k [] = NewVolumes"
  "moves_vol l k (m # ms) =
     (if mv_ledger m = l \<and> mv_key m = k then add_flow (moves_vol l k ms) (mv_in m) (mv_out m)
      else moves_vol l k ms)"
  by (simp_all add: moves_vol_def NewVolumes_def add_flow_def)

lemma moves_vol_append:
  "moves_vol l k (xs @ ys) = add_flow (moves_vol l k xs) (Input (moves_vol l k ys)) (Output (moves_vol l k ys))"
  by (simp add: moves_vol_def add_flow_def)

definition same_side :: "move_row \<Rightarrow> move_row \<Rightarrow> bool" where
  "same_side m m' \<longleftrightarrow>
     mv_ledger m' = mv_ledger m \<and> mv_key m' = mv_key m \<and> mv_amount m' = mv_amount m \<and>
     mv_is_source m' = mv_is_source m"

lemma moves_vol_same_side: "list_all2 same_side ms ms' \<Longrightarrow> moves_vol l k ms' = moves_vol l k ms"
  by (induction rule: list_all2_induct) (auto simp: same_side_def mv_in_def mv_out_def)

subsection \<open>The moves of one transaction\<close>

lemma sides_simps [simp]:
  "sides [] = []"
  "sides (p # ps) = ((Source p, PAsset p), Amount p, True) # ((Destination p, PAsset p), Amount p, False) # sides ps"
  by (simp_all add: sides_def)

lemma length_sides [simp]: "length (sides ps) = 2 * length ps"
  by (induction ps) auto

lemma vol_at_apply_side:
  "vol_at (apply_side m k a s) k' =
     (if k' = k then add_flow (vol_at m k) (if s then 0 else a) (if s then a else 0) else vol_at m k')"
  by (simp add: vol_at_def apply_side_def)

definition side_of :: "string \<Rightarrow> Transaction \<Rightarrow> key \<times> int option \<times> bool \<Rightarrow> move_row \<Rightarrow> bool" where
  "side_of l t x m \<longleftrightarrow>
     mv_ledger m = l \<and> mv_tx_id m = TxID t \<and> mv_key m = fst x \<and> Some (mv_amount m) = fst (snd x) \<and>
     mv_is_source m = snd (snd x) \<and> mv_effective_date m = Timestamp t \<and>
     mv_insertion_date m = InsertedAt t"

lemma build_moves_sides:
  "build_moves l t xs r e = Inr ms \<Longrightarrow> list_all2 (side_of l t) xs ms"
  by (induction l t xs r e arbitrary: ms rule: build_moves.induct)
    (auto simp: bindE_Inr_iff side_of_def Let_def split: option.splits)

lemma build_moves_running:
  assumes "build_moves l t xs r e = Inr (ys @ m # zs)"
  shows "mv_pcv m = add_flow (vol_at r (mv_key m)) (Input (moves_vol l (mv_key m) (ys @ [m])))
                      (Output (moves_vol l (mv_key m) (ys @ [m])))"
    and "mv_pcev m = add_flow (vol_at e (mv_key m)) (Input (moves_vol l (mv_key m) (ys @ [m])))
                      (Output (moves_vol l (mv_key m) (ys @ [m])))"
proof -
  have "mv_pcv m = add_flow (vol_at r (mv_key m)) (Input (moves_vol l (mv_key m) (ys @ [m])))
                      (Output (moves_vol l (mv_key m) (ys @ [m]))) \<and>
        mv_pcev m = add_flow (vol_at e (mv_key m)) (Input (moves_vol l (mv_key m) (ys @ [m])))
                      (Output (moves_vol l (mv_key m) (ys @ [m])))"
    using assms
  proof (induction ys arbitrary: xs r e)
    case Nil
    then obtain k a s xs' where xs: "xs = (k, Some a, s) # xs'"
      by (cases xs) (auto split: option.splits)
    with Nil show ?case
      by (auto simp: bindE_Inr_iff Let_def vol_at_apply_side moves_vol_append NewVolumes_def mv_in_def
          mv_out_def split: if_splits)
  next
    case (Cons y ys)
    then obtain k a s xs' where xs: "xs = (k, Some a, s) # xs'"
      by (cases xs) (auto split: option.splits)
    with Cons.prems have rest: "build_moves l t xs' (apply_side r k a s) (apply_side e k a s) = Inr (ys @ m # zs)"
      and y: "mv_ledger y = l" "mv_key y = k" "mv_amount y = a" "mv_is_source y = s"
      by (auto simp: bindE_Inr_iff Let_def)
    from Cons.IH [OF rest] y show ?case
      by (auto simp: vol_at_apply_side mv_in_def mv_out_def add.assoc add.commute)
  qed
  then show "mv_pcv m = add_flow (vol_at r (mv_key m)) (Input (moves_vol l (mv_key m) (ys @ [m])))
                      (Output (moves_vol l (mv_key m) (ys @ [m])))"
    and "mv_pcev m = add_flow (vol_at e (mv_key m)) (Input (moves_vol l (mv_key m) (ys @ [m])))
                      (Output (moves_vol l (mv_key m) (ys @ [m])))" by simp_all
qed

lemma build_moves_total: "all_amounts ps \<Longrightarrow> \<exists>ms. build_moves l t (sides ps) r e = Inr ms"
proof (induction ps arbitrary: r e)
  case (Cons p ps)
  then obtain a where a: "Amount p = Some a" and "all_amounts ps" by (auto simp: all_amounts_def)
  let ?two = "\<lambda>m. apply_side (apply_side m (Source p, PAsset p) a True) (Destination p, PAsset p) a False"
  from Cons.IH [OF \<open>all_amounts ps\<close>, of "?two r" "?two e"] obtain ms
    where "build_moves l t (sides ps) (?two r) (?two e) = Inr ms" by blast
  with a show ?case by (simp add: Let_def)
qed simp

lemma sides_moves_vol:
  assumes "list_all2 (side_of l t) (sides ps) ms"
  shows "moves_vol l k ms = \<lparr>Input = inflow ps k, Output = outflow ps k\<rparr>"
  using assms
proof (induction ps arbitrary: ms)
  case Nil
  then show ?case by (simp add: NewVolumes_def)
next
  case (Cons p ps)
  then obtain m1 m2 ms' where ms: "ms = m1 # m2 # ms'"
    and s: "side_of l t ((Source p, PAsset p), Amount p, True) m1"
      "side_of l t ((Destination p, PAsset p), Amount p, False) m2"
    and rest: "list_all2 (side_of l t) (sides ps) ms'"
    by (auto simp: list_all2_Cons1)
  then have "amt p = mv_amount m1" "amt p = mv_amount m2"
    by (auto simp: side_of_def amt_def orZero_def split: option.splits)
  with s Cons.IH [OF rest] show ?case
    by (auto simp: ms side_of_def mv_in_def mv_out_def add_flow_def)
qed

lemma sides_other_ledger:
  "list_all2 (side_of l t) xs ms \<Longrightarrow> l' \<noteq> l \<Longrightarrow> moves_vol l' k ms = NewVolumes"
  by (induction rule: list_all2_induct) (auto simp: side_of_def)

subsection \<open>Inserting them\<close>

fun number :: "int \<Rightarrow> move_row list \<Rightarrow> move_row list" where
  "number n [] = []"
| "number n (m # ms) = m\<lparr>mv_seq := n\<rparr> # number (n + 1) ms"

lemma length_number [simp]: "length (number n ms) = length ms"
  by (induction ms arbitrary: n) auto

lemma number_same_side: "list_all2 same_side ms (number n ms)"
  by (induction ms arbitrary: n) (auto simp: same_side_def)

lemma insert_moves_Inr:
  assumes "foldE insert_move ms d = Inr d'"
  shows "d' = d\<lparr>moves := moves d @ number (next_seq d) ms, next_seq := next_seq d + int (length ms)\<rparr>"
  using assms
proof (induction ms arbitrary: d)
  case (Cons m ms)
  then obtain d1 where d1: "insert_move m d = Inr d1" and rest: "foldE insert_move ms d1 = Inr d'"
    by (auto simp: bindE_Inr_iff)
  from d1 have "d1 = d\<lparr>moves := moves d @ [m\<lparr>mv_seq := next_seq d\<rparr>], next_seq := next_seq d + 1\<rparr>"
    by (auto simp: insert_move_def split: if_splits)
  with Cons.IH [OF rest] show ?case by (simp add: algebra_simps)
qed simp

lemma insert_moves_total:
  assumes "\<forall>m\<in>set ms. map_of (transactions d) (mv_ledger m, mv_tx_id m) \<noteq> None \<and>
      is_registered d (mv_ledger m) (snd (mv_key m))"
  shows "\<exists>d'. foldE insert_move ms d = Inr d'"
  using assms
proof (induction ms arbitrary: d)
  case (Cons m ms)
  let ?d = "d\<lparr>moves := moves d @ [m\<lparr>mv_seq := next_seq d\<rparr>], next_seq := next_seq d + 1\<rparr>"
  have "insert_move m d = Inr ?d"
    using Cons.prems by (simp add: insert_move_def is_registered_def)
  moreover have "\<exists>d'. foldE insert_move ms ?d = Inr d'"
    by (rule Cons.IH) (use Cons.prems in \<open>simp add: is_registered_def\<close>)
  ultimately show ?case by simp
qed simp

text \<open>All shifts together add the transaction's delta to every later move.\<close>

definition shift_move :: "string \<Rightarrow> time \<Rightarrow> VolumeUpdate list \<Rightarrow> move_row \<Rightarrow> move_row" where
  "shift_move l at us m =
     (if mv_ledger m = l \<and> mv_effective_date m > at
      then m\<lparr>mv_pcev := add_flow (mv_pcev m) (uin us (mv_key m)) (uout us (mv_key m))\<rparr> else m)"

lemma shift_move_Nil [simp]: "shift_move l at [] = id"
  by (auto simp: shift_move_def fun_eq_iff)

lemma shift_move_fields [simp]:
  "mv_seq (shift_move l at us m) = mv_seq m" "mv_ledger (shift_move l at us m) = mv_ledger m"
  "mv_tx_id (shift_move l at us m) = mv_tx_id m" "mv_key (shift_move l at us m) = mv_key m"
  "mv_amount (shift_move l at us m) = mv_amount m" "mv_is_source (shift_move l at us m) = mv_is_source m"
  "mv_effective_date (shift_move l at us m) = mv_effective_date m"
  "mv_insertion_date (shift_move l at us m) = mv_insertion_date m" "mv_pcv (shift_move l at us m) = mv_pcv m"
  by (simp_all add: shift_move_def)

lemma fold_shift_later:
  "fold (shift_later l at) us d = d\<lparr>moves := map (shift_move l at us) (moves d)\<rparr>"
proof (induction us arbitrary: d)
  case (Cons u us)
  have "shift_move l at us \<circ> shift_move l at [u] = shift_move l at (u # us)"
    by (auto simp: shift_move_def fun_eq_iff)
  moreover have "shift_later l at u d = d\<lparr>moves := map (shift_move l at [u]) (moves d)\<rparr>"
    by (auto simp: shift_later_def shift_move_def intro!: arg_cong [where f = "\<lambda>x. d\<lparr>moves := x\<rparr>"])
  ultimately show ?case using Cons [of "shift_later l at u d"] by simp
qed simp

lemma map_shift_same_side: "list_all2 same_side ms (map (shift_move l at us) ms)"
  by (induction ms) (auto simp: same_side_def)

lemma shift_move_not_later: "mv_effective_date m \<le> at \<Longrightarrow> shift_move l at us m = m"
  by (simp add: shift_move_def)

end
