(* ===== verification/Storage_Apply.thy ===== *)
theory Storage_Apply
  imports Storage_Moves
begin

text \<open>
  \<open>applyTransaction\<close> as one step: \<open>apply_effect\<close> says what a successful call has changed, table by
  table, and \<open>applyTransaction_effect\<close> that every successful call has that effect. The second
  part bounds how it can fail: after the checks of the Go code no trigger fires and no nil is
  dereferenced.
\<close>

subsection \<open>The effect of a transaction\<close>

definition volumes_effect :: "string \<Rightarrow> db \<Rightarrow> db \<Rightarrow> Postings \<Rightarrow> bool" where
  "volumes_effect l d d' ps \<longleftrightarrow>
     (\<forall>l' k. vol d' l' k =
        (if l' = l then add_flow (vol d l k) (inflow ps k) (outflow ps k) else vol d l' k)) \<and>
     drift d' = drift d \<and> unique_keys (accounts_volumes d') \<and>
     (\<forall>x r. map_of (accounts_volumes d) x = Some r \<longrightarrow>
        (\<exists>i out. map_of (accounts_volumes d') x = Some (bump i out r))) \<and>
     (\<forall>x r. map_of (accounts_volumes d) x = None \<and> map_of (accounts_volumes d') x = Some r \<longrightarrow>
        fst x = l \<and> snd x \<in> touched ps \<and> (\<exists>i out. r = bump i out (new_volume_row (fst (snd x))))) \<and>
     (\<forall>k\<in>touched ps. \<exists>r. map_of (accounts_volumes d') (l, k) = Some r \<and>
        (vr_input r < vr_output r \<longrightarrow> allow_negative r) \<and>
        (vr_input r > vr_output r \<longrightarrow> allow_positive r))"

definition ledger_effect :: "string \<Rightarrow> db \<Rightarrow> db \<Rightarrow> allocation \<Rightarrow> bool" where
  "ledger_effect l d d' a \<longleftrightarrow>
     (\<exists>r. map_of (ledgers d) l = Some r \<and>
        last_tx_id r < max_bigint \<and> last_log_id r < max_bigint \<and>
        a = \<lparr>transactionID = last_tx_id r + 1, logID = last_log_id r + 1,
             previousHash = hash_bytes (last_log_hash r)\<rparr> \<and>
        ledgers d' = AList.update l
           (r\<lparr>last_tx_id := last_tx_id r + 1, last_log_id := last_log_id r + 1\<rparr>) (ledgers d))"

definition moves_effect :: "string \<Rightarrow> db \<Rightarrow> db \<Rightarrow> Transaction \<Rightarrow> VolumeUpdate list \<Rightarrow> bool" where
  "moves_effect l d d' t us \<longleftrightarrow>
     (\<exists>ms. list_all2 (side_of l t) (sides (TPostings t)) ms \<and>
        moves d' = map (shift_move l (Timestamp t) us) (moves d) @ number (next_seq d) ms \<and>
        next_seq d' = next_seq d + int (length ms) \<and>
        (\<forall>ys m zs. ms = ys @ m # zs \<longrightarrow>
           mv_pcv m = add_flow (vol d l (mv_key m)) (Input (moves_vol l (mv_key m) (ys @ [m])))
                        (Output (moves_vol l (mv_key m) (ys @ [m]))) \<and>
           mv_pcev m = add_flow (effective_volume_at l (mv_key m) (Timestamp t) d)
                        (Input (moves_vol l (mv_key m) (ys @ [m])))
                        (Output (moves_vol l (mv_key m) (ys @ [m])))))"

definition apply_effect ::
  "string \<Rightarrow> env \<Rightarrow> Postings \<Rightarrow> applyOptions \<Rightarrow> db \<Rightarrow> db \<Rightarrow> Transaction \<Rightarrow> allocation \<Rightarrow> bool" where
  "apply_effect l e p opts d d' t a \<longleftrightarrow>
     list_all2 resolved_as p (TPostings t) \<and>
     volumes_effect l d d' (TPostings t) \<and> ledger_effect l d d' a \<and>
     (\<exists>us. updates_for (TPostings t) us \<and> moves_effect l d d' t us) \<and>
     TxID t = transactionID a \<and> Timestamp t = resolve_timestamp e (ATimestamp opts) \<and>
     InsertedAt t = db_now e \<and> RevertedAt t = None \<and>
     TReference t = AReference opts \<and> TMetadata t = AMetadata opts \<and>
     (\<forall>k. pcv_lookup (TPostCommitVolumes t) k =
        (if k \<in> touched (TPostings t) then Some (vol d' l k) else None)) \<and>
     (\<forall>k\<in>touched p. \<not> account_closed d l (fst k)) \<and>
     transactions d' = transactions d @ [((l, TxID t), row_of_transaction e t)] \<and>
     map_of (transactions d) (l, TxID t) = None \<and>
     assets d' = assets d \<and> account_closed d' = account_closed d \<and>
     unique_keys (accounts d') \<and> logs d' = logs d \<and> verification_runs d' = verification_runs d"

lemma applyTransaction_steps:
  assumes "applyTransaction l e p opts d = Inr (d', t, a)"
  obtains us0 d1 bf ps us d2 d3 pcv d4 where
    "VolumeUpdates p = Inr us0" "lockVolumes l us0 d = Inr (d1, bf)"
    "resolve_updates p us0 bf = Inr (ps, us)"
    "checkClosed bf us = Inr ()" "checkBalances bf us = Inr ()"
    "applyVolumes l us d1 = Inr d2" "allocate l d2 = Inr (d3, a)" "postCommitVolumes bf us = Inr pcv"
    "t = \<lparr>TxID = transactionID a, TPostings = ps, Timestamp = resolve_timestamp e (ATimestamp opts),
          InsertedAt = db_now e, RevertedAt = None, TReference = AReference opts,
          TMetadata = AMetadata opts, TPostCommitVolumes = pcv\<rparr>"
    "map_of (transactions d3) (l, transactionID a) = None"
    "d4 = d3\<lparr>transactions := transactions d3 @ [((l, transactionID a), row_of_transaction e t)]\<rparr>"
    "queueMoves l t bf (effectiveVolumesAt l us (resolve_timestamp e (ATimestamp opts)) d2) us
       (queueAccounts l e us (resolve_timestamp e (ATimestamp opts)) d4) = Inr d'"
proof -
  from assms show ?thesis
    unfolding applyTransaction_def Let_def
    by (auto simp: bindE_Inr_iff insertTransaction_Inr row_of_transaction_def split: prod.splits intro!: that)
qed

lemma bump_self: "\<exists>i out. r = bump i out r"
  by (intro exI [of _ 0]) simp

lemma account_closed_cong: "accounts d = accounts d' \<Longrightarrow> account_closed d = account_closed d'"
  by (simp add: account_closed_def fun_eq_iff)

lemma locked_volumes_effect:
  assumes wk: "unique_keys (accounts_volumes d)"
    and m: "materialised l (touched ps) d d1"
    and lv: "locked_view l d1 (touched ps) bf"
    and us: "updates_for ps us"
    and cb: "checkBalances bf us = Inr ()"
    and av: "volumes_bumped l us d1 d2"
  shows "volumes_effect l d d2 ps"
proof -
  have look: "map_of (accounts_volumes d2) x =
      map_option (if fst x = l then bump (inflow ps (snd x)) (outflow ps (snd x)) else id)
        (map_of (accounts_volumes d1) x)" for x
    using av by (simp only: volumes_bumped_def updates_for_flow [OF us])
  have v: "vol d2 l' k =
      (if l' = l then add_flow (vol d l k) (inflow ps k) (outflow ps k) else vol d l' k)" for l' k
  proof -
    have "k \<notin> touched ps \<Longrightarrow> inflow ps k = 0 \<and> outflow ps k = 0" by (rule flow_untouched)
    moreover have "k \<in> touched ps \<Longrightarrow> \<exists>r. map_of (accounts_volumes d1) (l, k) = Some r"
      using lv by (auto simp: locked_view_def)
    moreover have "vol d1 l' k = vol d l' k" using m by (simp add: materialised_def)
    ultimately show ?thesis
      using look [of "(l', k)"] unfolding vol_def
      by (cases "k \<in> touched ps")
        (auto simp: add_flow_def NewVolumes_def split: option.splits)
  qed
  have dr: "drift d2 = drift d"
    using av m upd_net_zero [OF us] by (simp add: volumes_bumped_def materialised_def fun_eq_iff)
  have keep: "\<exists>i out. map_of (accounts_volumes d2) x = Some (bump i out r)"
    if "map_of (accounts_volumes d) x = Some r" for x r
  proof -
    have "map_of (accounts_volumes d1) x = Some r"
      using materialised_lookup [OF m, of x] that by simp
    then have "map_of (accounts_volumes d2) x =
        Some (if fst x = l then bump (inflow ps (snd x)) (outflow ps (snd x)) r else bump 0 0 r)"
      using look [of x] by simp
    then show ?thesis by (cases "fst x = l") (auto simp: bump_self)
  qed
  have fresh: "fst x = l \<and> snd x \<in> touched ps \<and> (\<exists>i out. r = bump i out (new_volume_row (fst (snd x))))"
    if "map_of (accounts_volumes d) x = None" "map_of (accounts_volumes d2) x = Some r" for x r
    using materialised_lookup [OF m, of x] look [of x] that by (auto split: if_splits)
  have bounds: "\<exists>r. map_of (accounts_volumes d2) (l, k) = Some r \<and>
        (vr_input r < vr_output r \<longrightarrow> allow_negative r) \<and>
        (vr_input r > vr_output r \<longrightarrow> allow_positive r)" if k: "k \<in> touched ps" for k
  proof -
    have "k \<in> update_key ` set us" using us k by (simp add: updates_for_def)
    then obtain u where u: "u \<in> set us" "update_key u = k" by blast
    then have flow: "UInput u = inflow ps k" "UOutput u = outflow ps k"
      using us by (auto simp: updates_for_def)
    from lv k obtain r where r: "map_of (accounts_volumes d1) (l, k) = Some r"
      and bf: "map_of bf k = Some ((locked_row r)\<lparr>lk_closed := account_closed d1 l (fst k)\<rparr>)"
      by (auto simp: locked_view_def)
    from cb u bf have "within_bounds ((locked_row r)\<lparr>lk_closed := account_closed d1 l (fst k)\<rparr>) u"
      by (auto simp: checkBalances_ok)
    then show ?thesis
      using look [of "(l, k)"] r flow by (simp add: within_bounds_def locked_row_def)
  qed
  have "unique_keys (accounts_volumes d2)" using av by (simp add: volumes_bumped_def)
  with v dr keep fresh bounds show ?thesis unfolding volumes_effect_def by blast
qed

lemma volumes_effect_cong:
  assumes "volumes_effect l d d2 ps" and "accounts_volumes d' = accounts_volumes d2"
  shows "volumes_effect l d d' ps"
  using assms(1) unfolding volumes_effect_def vol_cong [OF assms(2)] drift_cong [OF assms(2)] assms(2) .

lemma volumes_effect_vol:
  assumes "volumes_effect l d d' ps"
  shows "vol d' l' k = (if l' = l then add_flow (vol d l k) (inflow ps k) (outflow ps k) else vol d l' k)"
  using assms unfolding volumes_effect_def by blast

lemma volumes_effect_drift: "volumes_effect l d d' ps \<Longrightarrow> drift d' = drift d"
  unfolding volumes_effect_def by blast

lemma queueMoves_Inr:
  assumes "queueMoves l t bf eff us d = Inr d'"
  obtains ms where "build_moves l t (sides (TPostings t)) (copyLocked bf) eff = Inr ms"
    and "moves d' = map (shift_move l (Timestamp t) us) (moves d) @ number (next_seq d) ms"
    and "d' = d\<lparr>moves := moves d', next_seq := next_seq d + int (length ms)\<rparr>"
proof -
  from assms obtain ms d1 where ms: "build_moves l t (sides (TPostings t)) (copyLocked bf) eff = Inr ms"
    and d1: "foldE insert_move ms d = Inr d1"
    and d': "d' = fold (shift_later l (Timestamp t)) us d1"
    by (auto simp: queueMoves_def bindE_Inr_iff)
  have "map (shift_move l (Timestamp t) us) (number n ms) = number n ms" for n
  proof -
    have "list_all (\<lambda>m. mv_effective_date m = Timestamp t) ms"
      using build_moves_sides [OF ms] by (auto simp: list_all2_conv_all_nth list_all_length side_of_def)
    then show ?thesis
      by (induction ms arbitrary: n) (auto simp: shift_move_def)
  qed
  then have "moves d' = map (shift_move l (Timestamp t) us) (moves d) @ number (next_seq d) ms"
    and "d' = d\<lparr>moves := moves d', next_seq := next_seq d + int (length ms)\<rparr>"
    by (simp_all add: d' fold_shift_later insert_moves_Inr [OF d1])
  with ms show ?thesis by (rule that)
qed

lemma vol_at_copyLocked:
  assumes "locked_view l d K bf" and "k \<in> K"
  shows "vol_at (copyLocked bf) k = vol d l k"
proof -
  have "map_of (copyLocked bf) k = map_option lk_volumes (map_of bf k)"
    unfolding copyLocked_def by (induction bf) auto
  moreover from assms obtain r where "map_of (accounts_volumes d) (l, k) = Some r"
    "map_of bf k = Some ((locked_row r)\<lparr>lk_closed := account_closed d l (fst k)\<rparr>)"
    unfolding locked_view_def by blast
  ultimately show ?thesis by (simp add: vol_at_def vol_def locked_row_def)
qed

lemma vol_at_effective:
  assumes "k \<in> update_key ` set us"
  shows "vol_at (effectiveVolumesAt l us at d) k = effective_volume_at l k at d"
  using assms by (induction us) (auto simp: effectiveVolumesAt_def vol_at_def)

lemma effective_volume_at_cong: "moves d = moves d' \<Longrightarrow> effective_volume_at l k at d = effective_volume_at l k at d'"
  by (simp add: effective_volume_at_def key_moves_def)

lemma sides_touched: "x \<in> set (sides ps) \<Longrightarrow> fst x \<in> touched ps"
  by (induction ps) auto

lemma built_moves_effect:
  assumes b: "build_moves l t (sides (TPostings t)) (copyLocked bf) (effectiveVolumesAt l us (Timestamp t) d2) = Inr (ys @ m # zs)"
    and lv: "locked_view l d1 (touched (TPostings t)) bf" and v: "vol d1 = vol d"
    and us: "updates_for (TPostings t) us" and mv: "moves d2 = moves d"
  shows "mv_pcv m = add_flow (vol d l (mv_key m)) (Input (moves_vol l (mv_key m) (ys @ [m])))
                        (Output (moves_vol l (mv_key m) (ys @ [m]))) \<and>
         mv_pcev m = add_flow (effective_volume_at l (mv_key m) (Timestamp t) d)
                        (Input (moves_vol l (mv_key m) (ys @ [m])))
                        (Output (moves_vol l (mv_key m) (ys @ [m])))"
proof -
  have "list_all2 (side_of l t) (sides (TPostings t)) (ys @ m # zs)"
    by (rule build_moves_sides [OF b])
  then have "\<exists>x\<in>set (sides (TPostings t)). side_of l t x m"
    by (auto simp: list_all2_append2 list_all2_Cons2)
  then have k: "mv_key m \<in> touched (TPostings t)"
    using sides_touched by (auto simp: side_of_def)
  then have "mv_key m \<in> update_key ` set us" using us by (simp add: updates_for_def)
  note e = vol_at_effective [OF this, of l "Timestamp t" d2]
  show ?thesis
    using build_moves_running [OF b] vol_at_copyLocked [OF lv k] e v
      effective_volume_at_cong [OF mv, of l "mv_key m" "Timestamp t"] by simp
qed

lemma frame_queue:
  assumes q: "queueMoves l t bf eff us (queueAccounts l e us ts d4) = Inr d5"
  shows "accounts_volumes d5 = accounts_volumes d4" "ledgers d5 = ledgers d4" "assets d5 = assets d4"
    "transactions d5 = transactions d4" "logs d5 = logs d4" "verification_runs d5 = verification_runs d4"
    "account_closed d5 = account_closed d4"
    "unique_keys (accounts d4) \<Longrightarrow> unique_keys (accounts d5)"
    "moves (queueAccounts l e us ts d4) = moves d4" "next_seq (queueAccounts l e us ts d4) = next_seq d4"
proof -
  from queueMoves_Inr [OF q] obtain n where
    d5: "d5 = (queueAccounts l e us ts d4)\<lparr>moves := moves d5, next_seq := n\<rparr>" by metis
  note qa = queueAccounts_frame [of l e us ts d4]
  have acc: "accounts d5 = accounts (queueAccounts l e us ts d4)" by (subst d5) simp
  show "accounts_volumes d5 = accounts_volumes d4" "ledgers d5 = ledgers d4" "assets d5 = assets d4"
    "transactions d5 = transactions d4" "logs d5 = logs d4" "verification_runs d5 = verification_runs d4"
    by (subst d5, subst qa, simp)+
  show "moves (queueAccounts l e us ts d4) = moves d4" "next_seq (queueAccounts l e us ts d4) = next_seq d4"
    by (subst qa, simp)+
  show "account_closed d5 = account_closed d4"
    using account_closed_cong [OF acc] by simp
  show "unique_keys (accounts d4) \<Longrightarrow> unique_keys (accounts d5)"
    unfolding acc by (rule queueAccounts_unique)
qed


lemma locked_view_update:
  assumes "locked_view l d (touched ps) bf" "updates_for ps us" "k \<in> touched ps"
  obtains u r where "u \<in> set us" "update_key u = k" "UInput u = inflow ps k" "UOutput u = outflow ps k"
    and "map_of (accounts_volumes d) (l, k) = Some r"
    and "map_of bf k = Some ((locked_row r)\<lparr>lk_closed := account_closed d l (fst k)\<rparr>)"
proof -
  have "k \<in> update_key ` set us" using assms by (simp add: updates_for_def)
  then obtain u where "u \<in> set us" "update_key u = k" by blast
  moreover from this have "UInput u = inflow ps k" "UOutput u = outflow ps k"
    using assms(2) by (auto simp: updates_for_def)
  moreover obtain r where "map_of (accounts_volumes d) (l, k) = Some r"
    "map_of bf k = Some ((locked_row r)\<lparr>lk_closed := account_closed d l (fst k)\<rparr>)"
    using assms(1, 3) unfolding locked_view_def by blast
  ultimately show thesis by (rule that)
qed

lemma locked_not_closed:
  assumes "locked_view l d (touched ps) bf" "updates_for ps us" "checkClosed bf us = Inr ()"
    and "k \<in> touched ps"
  shows "\<not> account_closed d l (fst k)"
proof -
  from assms(1, 2, 4) obtain u r where "u \<in> set us" "update_key u = k"
    and "map_of bf k = Some ((locked_row r)\<lparr>lk_closed := account_closed d l (fst k)\<rparr>)"
    by (rule locked_view_update)
  with assms(3) show ?thesis by (auto simp: checkClosed_ok)
qed

lemma locked_post_commit:
  assumes lv: "locked_view l d (touched ps) bf" and us: "updates_for ps us"
    and "postCommitVolumes bf us = Inr pcv"
  shows "pcv_lookup pcv k =
    (if k \<in> touched ps then Some (add_flow (vol d l k) (inflow ps k) (outflow ps k)) else None)"
proof -
  have dist: "distinct (map update_key us)" and K: "update_key ` set us = touched ps"
    using us by (simp_all add: updates_for_def)
  note look = post_commit_volumes_lookup [OF assms(3) [unfolded postCommitVolumes_def] dist, of k]
  show ?thesis
  proof (cases "find (\<lambda>u. update_key u = k) us")
    case None
    then have "k \<notin> update_key ` set us" by (auto simp: find_None_iff)
    then have "k \<notin> touched ps" by (simp add: K)
    with None look show ?thesis by (simp add: pcv_lookup_def)
  next
    case (Some u)
    then have u: "u \<in> set us" "update_key u = k" by (auto simp: find_Some_iff)
    then have "k \<in> touched ps" using K by blast
    moreover have "UInput u = inflow ps k" "UOutput u = outflow ps k"
      using us u by (auto simp: updates_for_def)
    moreover from lv us \<open>k \<in> touched ps\<close> obtain r where "map_of (accounts_volumes d) (l, k) = Some r"
      "map_of bf k = Some ((locked_row r)\<lparr>lk_closed := account_closed d l (fst k)\<rparr>)"
      by (rule locked_view_update)
    ultimately show ?thesis
      using Some look by (simp add: vol_def locked_row_def)
  qed
qed

lemma applyTransaction_effect:
  assumes ok: "applyTransaction l e p opts d = Inr (d', t, a)" and wk: "well_keyed d"
  shows "apply_effect l e p opts d d' t a"
proof -
  let ?ts = "resolve_timestamp e (ATimestamp opts)"
  from ok obtain us0 d1 bf ps us d2 d3 pcv d4 where
    us0: "VolumeUpdates p = Inr us0" and lock: "lockVolumes l us0 d = Inr (d1, bf)"
    and res: "resolve_updates p us0 bf = Inr (ps, us)"
    and cc: "checkClosed bf us = Inr ()" and cb: "checkBalances bf us = Inr ()"
    and av: "applyVolumes l us d1 = Inr d2" and al: "allocate l d2 = Inr (d3, a)"
    and pcv: "postCommitVolumes bf us = Inr pcv"
    and t: "t = \<lparr>TxID = transactionID a, TPostings = ps, Timestamp = ?ts,
          InsertedAt = db_now e, RevertedAt = None, TReference = AReference opts,
          TMetadata = AMetadata opts, TPostCommitVolumes = pcv\<rparr>"
    and fresh: "map_of (transactions d3) (l, transactionID a) = None"
    and d4: "d4 = d3\<lparr>transactions := transactions d3 @ [((l, transactionID a), row_of_transaction e t)]\<rparr>"
    and qm: "queueMoves l t bf (effectiveVolumesAt l us ?ts d2) us (queueAccounts l e us ?ts d4) = Inr d'"
    by (rule applyTransaction_steps)
  note r = resolve_updates_spec [OF res us0]
  note uf = VolumeUpdates_spec [OF r(2)]
  have K: "update_key ` set us0 = touched ps" "touched p = touched ps"
    using VolumeUpdates_spec [OF us0] resolved_touched [OF r(1)] by (simp_all add: updates_for_def)
  note lk = lockVolumes_spec [OF lock wk, unfolded K(1)]
  note mf = materialised_frame [OF lk(1)]
  have bumped: "volumes_bumped l us d1 d2" by (rule applyVolumes_bumped [OF av mf(2)])
  have "unique_keys (accounts_volumes d)" using wk by (simp add: well_keyed_def)
  note ve = locked_volumes_effect [OF this lk(1) lk(2) uf cb bumped]
  have f1: "frame_volumes d d1" by (rule mf(1))
  have f2: "frame_volumes d d2"
    using bumped f1 frame_volumes_trans unfolding volumes_bumped_def by blast
  from al obtain led where d3: "d3 = d2\<lparr>ledgers := led\<rparr>" by (auto simp: allocate_Inr)
  note fq = frame_queue [OF qm]
  have volumes: "volumes_effect l d d' ps"
    by (rule volumes_effect_cong [OF ve]) (simp add: fq(1) d4 d3)
  have ledger: "ledger_effect l d d' a"
    using al f2 fq(2) by (auto simp: allocate_Inr ledger_effect_def frame_volumes_def d4)
  have mv: "moves_effect l d d' t us"
  proof -
    from queueMoves_Inr [OF qm] obtain ms where
      ms: "build_moves l t (sides (TPostings t)) (copyLocked bf) (effectiveVolumesAt l us ?ts d2) = Inr ms"
      and m': "moves d' = map (shift_move l (Timestamp t) us) (moves d4) @ number (next_seq d4) ms"
      and n': "d' = (queueAccounts l e us ?ts d4)\<lparr>moves := moves d', next_seq := next_seq d4 + int (length ms)\<rparr>"
      unfolding fq(9,10) by blast
    have ts: "Timestamp t = ?ts" and ps: "TPostings t = ps" by (simp_all add: t)
    have same: "moves d4 = moves d" "next_seq d4 = next_seq d" "moves d2 = moves d"
      using f2 by (simp_all add: frame_volumes_def d4 d3)
    have "mv_pcv m = add_flow (vol d l (mv_key m)) (Input (moves_vol l (mv_key m) (ys @ [m])))
                        (Output (moves_vol l (mv_key m) (ys @ [m]))) \<and>
         mv_pcev m = add_flow (effective_volume_at l (mv_key m) (Timestamp t) d)
                        (Input (moves_vol l (mv_key m) (ys @ [m])))
                        (Output (moves_vol l (mv_key m) (ys @ [m])))" if "ms = ys @ m # zs" for ys m zs
      by (rule built_moves_effect [OF _ _ mf(3) _ same(3)])
        (use ms lk(2) uf that in \<open>simp_all add: ts ps\<close>)
    moreover have "next_seq d' = next_seq d + int (length ms)"
      by (subst n') (simp add: same)
    ultimately show ?thesis
      unfolding moves_effect_def using build_moves_sides [OF ms] m' same by metis
  qed
  have same_closed: "account_closed d1 = account_closed d"
    using f1 by (intro account_closed_cong) (simp add: frame_volumes_def)
  have closed: "\<not> account_closed d l (fst k)" if "k \<in> touched p" for k
    using locked_not_closed [OF lk(2) uf cc] that K(2) same_closed by simp
  have lookup: "pcv_lookup pcv k = (if k \<in> touched ps then Some (vol d' l k) else None)" for k
    using locked_post_commit [OF lk(2) uf pcv, of k] volumes_effect_vol [OF volumes, of l k] mf(3) by simp
  have acc: "accounts d4 = accounts d" using f2 by (simp add: d4 d3 frame_volumes_def)
  have "account_closed d' = account_closed d" "unique_keys (accounts d')"
    using fq(7,8) account_closed_cong [OF acc] acc wk by (simp_all add: well_keyed_def)
  moreover have "\<exists>us. updates_for (TPostings t) us \<and> moves_effect l d d' t us"
    using uf mv by (intro exI [of _ us]) (simp add: t)
  ultimately show ?thesis
    using r(1) volumes ledger closed lookup fresh fq(3-6) f2
    unfolding apply_effect_def by (simp add: t d4 d3 frame_volumes_def)
qed
subsection \<open>How it can fail\<close>

definition business_error :: "error \<Rightarrow> bool" where
  "business_error err \<longleftrightarrow>
     (case err of
        AccountClosedError _ \<Rightarrow> True
      | InsufficientFundsError _ _ _ _ \<Rightarrow> True
      | UnexpectedCreditError _ _ _ \<Rightarrow> True
      | UnboundedSweepError _ _ \<Rightarrow> True
      | ErrLedgerNotFound _ \<Rightarrow> True
      | ErrDuplicateReference _ \<Rightarrow> True
      | PgError code \<Rightarrow> code = numericOutOfRange
      | _ \<Rightarrow> False)"

lemma resolve_from_fails:
  "resolve_from bf running ps = Inl err \<Longrightarrow> business_error err"
proof (induction ps arbitrary: running)
  case (Cons p ps)
  then show ?case
    by (auto simp: bindE_Inl_iff Let_def business_error_def split: if_splits option.splits)
qed simp

lemma checkClosed_fails: "checkClosed bf us = Inl err \<Longrightarrow> business_error err"
  by (induction us) (auto simp: business_error_def split: if_splits)

lemma checkBalances_fails:
  "checkBalances bf us = Inl err \<Longrightarrow> \<forall>u\<in>set us. map_of bf (update_key u) \<noteq> None \<Longrightarrow> business_error err"
  by (induction us) (auto simp: Let_def business_error_def split: if_splits option.splits)

lemma allocate_fails: "allocate l d = Inl err \<Longrightarrow> business_error err"
  by (auto simp: allocate_def bindE_Inl_iff update_ledger_row_def Let_def business_error_def
      split: option.splits if_splits)

lemma insertTransaction_fails: "insertTransaction l e t d = Inl err \<Longrightarrow> business_error err"
  by (auto simp: insertTransaction_def bindE_Inl_iff mapErr_def insert_tx_row_def business_error_def
      split: option.splits if_splits sum.splits)


lemma priced_VolumeUpdates: "priced ps \<Longrightarrow> \<exists>us. VolumeUpdates ps = Inr us"
  by (simp add: VolumeUpdates_total)

lemma all_amounts_priced: "all_amounts ps \<Longrightarrow> priced ps"
  by (auto simp: all_amounts_def priced_def)

lemma resolve_updates_fails:
  assumes "resolve_updates p us0 bf = Inl err" and "priced p"
  shows "business_error err"
proof -
  from assms(1) consider (resolve) "resolveUpTo p bf = Inl err"
    | (updates) p' where "resolveUpTo p bf = Inr p'" "VolumeUpdates p' = Inl err"
    by (auto simp: resolve_updates_def bindE_Inl_iff split: if_splits)
  then show ?thesis
  proof cases
    case resolve
    then show ?thesis by (simp add: resolveUpTo_def resolve_from_fails)
  next
    case updates
    then have "all_amounts p'"
      using assms(2) resolved_amounts resolve_from_resolved unfolding resolveUpTo_def by blast
    with updates priced_VolumeUpdates all_amounts_priced show ?thesis by fastforce
  qed
qed

lemma touched_registered:
  assumes "\<forall>x\<in>set p. is_registered d l (PAsset x)" and "k \<in> touched p"
  shows "is_registered d l (snd k)"
  using assms by (auto simp: touched_def)

lemma updates_fit:
  assumes "locked_view l d (touched ps) bf" and "updates_for ps us" and "checkBalances bf us = Inr ()"
    and "nonneg ps"
  shows "\<forall>u\<in>set us. update_fits l d u"
proof
  fix u assume u: "u \<in> set us"
  then have k: "update_key u \<in> touched ps" using assms(2) by (auto simp: updates_for_def)
  then obtain r where r: "map_of (accounts_volumes d) (l, update_key u) = Some r"
    and "map_of bf (update_key u) = Some ((locked_row r)\<lparr>lk_closed := account_closed d l (fst (update_key u))\<rparr>)"
    using assms(1) unfolding locked_view_def by blast
  then have "within_bounds (locked_row r) u"
    using assms(3) u by (auto simp: checkBalances_ok within_bounds_def locked_row_def)
  moreover have "0 \<le> UInput u" "0 \<le> UOutput u"
    using assms(2) u flow_nonneg [OF assms(4)] by (auto simp: updates_for_def)
  ultimately show "update_fits l d u" using r by (auto simp: update_fits_def)
qed

lemma queueMoves_total:
  assumes "all_amounts (TPostings t)"
    and "map_of (transactions d) (l, TxID t) \<noteq> None"
    and "\<forall>x\<in>set (TPostings t). is_registered d l (PAsset x)"
  shows "\<exists>d'. queueMoves l t bf eff us d = Inr d'"
proof -
  from build_moves_total [OF assms(1)] obtain ms where
    ms: "build_moves l t (sides (TPostings t)) (copyLocked bf) eff = Inr ms" by blast
  have "map_of (transactions d) (mv_ledger m, mv_tx_id m) \<noteq> None \<and>
      is_registered d (mv_ledger m) (snd (mv_key m))" if "m \<in> set ms" for m
  proof -
    from that build_moves_sides [OF ms] obtain x where "x \<in> set (sides (TPostings t))" "side_of l t x m"
      by (metis list_all2_conv_all_nth in_set_conv_nth)
    then show ?thesis
      using assms(2) touched_registered [OF assms(3)] sides_touched by (auto simp: side_of_def)
  qed
  with insert_moves_total [of ms d] ms show ?thesis by (auto simp: queueMoves_def)
qed


lemma resolved_assets:
  "list_all2 resolved_as p ps \<Longrightarrow> \<forall>x\<in>set p. Q (PAsset x) \<Longrightarrow> \<forall>x\<in>set ps. Q (PAsset x)"
  by (induction rule: list_all2_induct) (auto simp: resolved_as_fields)

lemma apply_writes_fail:
  assumes err: "bindE (allocate l d2) (\<lambda>(d3, a).
        bindE (insertTransaction l e
                 \<lparr>TxID = transactionID a, TPostings = ps, Timestamp = ts, InsertedAt = 0,
                  RevertedAt = None, TReference = ref, TMetadata = md, TPostCommitVolumes = pcv\<rparr> d3) (\<lambda>(d4, t).
        bindE (queueMoves l t bf eff us (queueAccounts l e us ts d4)) (\<lambda>d5. Inr (d5, t, a)))) = Inl err"
    and amounts: "all_amounts ps" and reg: "\<forall>x\<in>set ps. is_registered d2 l (PAsset x)"
  shows "business_error err"
proof (cases "allocate l d2")
  case (Inl x)
  with err allocate_fails show ?thesis by auto
next
  case (Inr y)
  then obtain d3 a where al: "allocate l d2 = Inr (d3, a)" by (cases y) auto
  let ?t = "\<lparr>TxID = transactionID a, TPostings = ps, Timestamp = ts, InsertedAt = 0,
    RevertedAt = None, TReference = ref, TMetadata = md, TPostCommitVolumes = pcv\<rparr>"
  show ?thesis
  proof (cases "insertTransaction l e ?t d3")
    case (Inl x)
    with err al insertTransaction_fails show ?thesis by auto
  next
    case (Inr y)
    then obtain d4 t where it: "insertTransaction l e ?t d3 = Inr (d4, t)" by (cases y) auto
    let ?d = "queueAccounts l e us ts d4"
    have t: "t = ?t\<lparr>InsertedAt := db_now e\<rparr>"
      and d4: "transactions d4 = transactions d3 @ [((l, TxID ?t), row_of_transaction e ?t)]" "assets d4 = assets d3"
      using it by (simp_all add: insertTransaction_Inr)
    have same: "assets ?d = assets d2" "transactions ?d = transactions d4"
      using al d4 by (subst queueAccounts_frame, auto simp: allocate_Inr)+
    have "\<exists>d'. queueMoves l t bf eff us ?d = Inr d'"
      using amounts reg by (intro queueMoves_total)
        (simp_all add: t same d4 map_of_eq_None_iff is_registered_def)
    with err al it show ?thesis by auto
  qed
qed

text \<open>A validated transaction on registered assets is applied or refused for a reason the code
  names: never by a trigger, a foreign key or a nil pointer.\<close>

lemma applyTransaction_fails:
  assumes err: "applyTransaction l e p opts d = Inl err"
    and valid: "list_all valid_posting p" and wk: "well_keyed d"
    and reg: "\<forall>x\<in>set p. is_registered d l (PAsset x)"
  shows "business_error err"
proof -
  from priced_VolumeUpdates [OF valid_priced [OF valid]] obtain us0 where us0: "VolumeUpdates p = Inr us0" by blast
  have K0: "update_key ` set us0 = touched p"
    using VolumeUpdates_spec [OF us0] by (simp add: updates_for_def)
  have "\<forall>u\<in>set us0. is_registered d l (UAsset u)"
    using touched_registered [OF reg] K0 by (force simp: update_key_def)
  from materialise_total [OF this] obtain d1 bf where lock: "lockVolumes l us0 d = Inr (d1, bf)"
    by (auto simp: lockVolumes_def)
  note lk = lockVolumes_spec [OF lock wk, unfolded K0]
  note mf = materialised_frame [OF lk(1)]
  show ?thesis
  proof (cases "resolve_updates p us0 bf")
    case (Inl x)
    with err us0 lock have "x = err" by (simp add: applyTransaction_def)
    with Inl valid_priced [OF valid] resolve_updates_fails show ?thesis by blast
  next
    case (Inr y)
    then obtain ps us where res: "resolve_updates p us0 bf = Inr (ps, us)" by (cases y) auto
    note r = resolve_updates_spec [OF res us0]
    note uf = VolumeUpdates_spec [OF r(2)]
    note lv = lk(2) [folded resolved_touched [OF r(1)]]
    have present: "\<forall>u\<in>set us. map_of bf (update_key u) \<noteq> None"
      using lv uf by (force simp: locked_view_def updates_for_def)
    have amounts: "all_amounts ps" and nn: "nonneg ps"
      using resolved_amounts [OF r(1)] resolved_nonneg [OF r(1)] valid_priced [OF valid] valid_nonneg [OF valid] by blast+
    obtain pcv where pcv: "postCommitVolumes bf us = Inr pcv"
      using post_commit_volumes_total [OF present] by (auto simp: postCommitVolumes_def)
    show ?thesis
    proof (cases "checkClosed bf us = Inr () \<and> checkBalances bf us = Inr ()")
      case False
      then have "checkClosed bf us = Inl err \<or> checkBalances bf us = Inl err"
        using err us0 lock res by (cases "checkClosed bf us"; cases "checkBalances bf us") (auto simp: applyTransaction_def)
      then show ?thesis using checkClosed_fails checkBalances_fails present by blast
    next
      case True
      have "distinct (map update_key us)" using uf by (simp add: updates_for_def)
      with updates_fit [OF lv uf _ nn] True applyVolumes_total obtain d2 where
        d2: "applyVolumes l us d1 = Inr d2" by blast
      have "frame_volumes d d2"
        using applyVolumes_bumped [OF d2 mf(2)] mf(1) frame_volumes_trans unfolding volumes_bumped_def by blast
      then have "\<forall>x\<in>set ps. is_registered d2 l (PAsset x)"
        using resolved_assets [OF r(1) reg] by (simp add: frame_volumes_def is_registered_def)
      with err us0 lock res True d2 pcv amounts show ?thesis
        by (intro apply_writes_fail [of l d2 e ps]) (auto simp: applyTransaction_def Let_def)
    qed
  qed
qed

end
