(* ===== verification/Storage_Effective.thy ===== *)
theory Storage_Effective
  imports Storage_Apply
begin

text \<open>
  The two volume histories carried by the moves (\<open>src/storage/moves.go\<close>). \<open>pcv\<close> follows insertion
  order and \<open>pcev\<close> follows effective order; both are maintained incrementally by the write
  path. The lemmas show that after every transaction, backdated or not, each is the sum of
  the moves that precede it in its order, and that the volumes are the sum of all moves.
\<close>

subsection \<open>The histories a move carries\<close>

definition seq_ok :: "db \<Rightarrow> bool" where
  "seq_ok d \<longleftrightarrow> 0 < next_seq d \<and> sorted_wrt (\<lambda>m m'. mv_seq m < mv_seq m') (moves d) \<and>
     (\<forall>m\<in>set (moves d). 0 < mv_seq m \<and> mv_seq m < next_seq d)"

definition pcev_ok :: "db \<Rightarrow> bool" where
  "pcev_ok d \<longleftrightarrow>
     (\<forall>m\<in>set (moves d). mv_pcev m =
        moves_vol (mv_ledger m) (mv_key m) (filter (\<lambda>m'. eff_key m' \<le> eff_key m) (moves d)))"

definition pcv_ok :: "db \<Rightarrow> bool" where
  "pcv_ok d \<longleftrightarrow>
     (\<forall>ys m zs. moves d = ys @ m # zs \<longrightarrow> mv_pcv m = moves_vol (mv_ledger m) (mv_key m) (ys @ [m]))"

definition proj_ok :: "db \<Rightarrow> bool" where
  "proj_ok d \<longleftrightarrow> (\<forall>l k. vol d l k = moves_vol l k (moves d))"

lemma latest_None [simp]: "latest ms = None \<longleftrightarrow> ms = []"
  by (induction ms) (auto split: option.splits)

lemma latest_Some:
  "latest ms = Some m \<Longrightarrow> m \<in> set ms \<and> (\<forall>m'\<in>set ms. eff_key m' \<le> eff_key m)"
proof (induction ms arbitrary: m)
  case (Cons x ms)
  show ?case
  proof (cases "latest ms")
    case None
    with Cons.prems show ?thesis by auto
  next
    case (Some y)
    from Cons.IH [OF this] Cons.prems Some show ?thesis
      by (auto simp: not_less split: if_splits intro: order.trans less_imp_le)
  qed
qed simp

lemma moves_vol_filter_cong:
  "(\<And>m. m \<in> set ms \<Longrightarrow> mv_ledger m = l \<Longrightarrow> mv_key m = k \<Longrightarrow> P m = Q m) \<Longrightarrow>
     moves_vol l k (filter P ms) = moves_vol l k (filter Q ms)"
  by (induction ms) auto

text \<open>The write path reads one snapshot instead of summing the history; they agree.\<close>

lemma effective_volume_at_sum:
  assumes "pcev_ok d"
  shows "effective_volume_at l k at d = moves_vol l k (filter (\<lambda>m. mv_effective_date m \<le> at) (moves d))"
proof (cases "latest (filter (\<lambda>m. mv_effective_date m \<le> at) (key_moves d l k))")
  case None
  then have "moves_vol l k (filter (\<lambda>m. mv_effective_date m \<le> at) (moves d)) =
      moves_vol l k (filter (\<lambda>m. False) (moves d))"
    by (intro moves_vol_filter_cong) (auto simp: key_moves_def filter_empty_conv)
  with None show ?thesis by (simp add: effective_volume_at_def)
next
  case (Some m)
  note lt = latest_Some [OF this]
  then have m: "m \<in> set (moves d)" "mv_ledger m = l" "mv_key m = k" "mv_effective_date m \<le> at"
    by (auto simp: key_moves_def)
  have "moves_vol l k (filter (\<lambda>m'. eff_key m' \<le> eff_key m) (moves d)) =
      moves_vol l k (filter (\<lambda>m. mv_effective_date m \<le> at) (moves d))"
  proof (rule moves_vol_filter_cong)
    fix m' assume m': "m' \<in> set (moves d)" "mv_ledger m' = l" "mv_key m' = k"
    show "(eff_key m' \<le> eff_key m) = (mv_effective_date m' \<le> at)"
    proof
      assume "eff_key m' \<le> eff_key m"
      then show "mv_effective_date m' \<le> at" using m(4) by (auto simp: eff_key_def)
    next
      assume "mv_effective_date m' \<le> at"
      with m' lt show "eff_key m' \<le> eff_key m" by (simp add: key_moves_def)
    qed
  qed
  with assms m Some show ?thesis by (simp add: effective_volume_at_def pcev_ok_def)
qed

subsection \<open>Preservation\<close>

lemma set_number:
  "m \<in> set (number n ms) \<Longrightarrow> n \<le> mv_seq m \<and> mv_seq m < n + int (length ms)"
  by (induction ms arbitrary: n) fastforce+

lemma number_sorted: "sorted_wrt (\<lambda>m m'. mv_seq m < mv_seq m') (number n ms)"
proof (induction ms arbitrary: n)
  case (Cons m ms)
  then show ?case using set_number [of _ "n + 1" ms] by fastforce
qed simp

lemma number_append: "number n (xs @ ys) = number n xs @ number (n + int (length xs)) ys"
  by (induction xs arbitrary: n) (auto simp: algebra_simps)

lemma number_split:
  assumes "number n ms = ys @ m # zs"
  obtains ys' m' zs' where "ms = ys' @ m' # zs'" "ys = number n ys'" "m = m'\<lparr>mv_seq := n + int (length ys')\<rparr>"
proof -
  let ?i = "length ys"
  have len: "?i < length ms" using arg_cong [OF assms, of length] by simp
  have ms: "ms = take ?i ms @ ms ! ?i # drop (Suc ?i) ms" using len by (rule id_take_nth_drop)
  have "ys @ m # zs = number n (take ?i ms @ ms ! ?i # drop (Suc ?i) ms)"
    using assms ms by simp
  then have "ys = number n (take ?i ms) \<and> m = (ms ! ?i)\<lparr>mv_seq := n + int (length (take ?i ms))\<rparr>"
    using len by (simp only: number_append number.simps) (simp add: append_eq_append_conv)
  with ms show thesis by (intro that) auto
qed

lemma seq_ok_step:
  assumes "seq_ok d" and "moves d' = map f (moves d) @ number (next_seq d) ms"
    and "next_seq d' = next_seq d + int (length ms)" and "\<And>m. mv_seq (f m) = mv_seq m"
  shows "seq_ok d'"
  unfolding seq_ok_def
proof (intro conjI)
  show "0 < next_seq d'" using assms(1, 3) by (simp add: seq_ok_def)
  show "sorted_wrt (\<lambda>m m'. mv_seq m < mv_seq m') (moves d')"
    using assms(1, 4) number_sorted set_number
    by (fastforce simp: assms(2) sorted_wrt_append sorted_wrt_map seq_ok_def)
  show "\<forall>m\<in>set (moves d'). 0 < mv_seq m \<and> mv_seq m < next_seq d'"
    using assms(1, 4) set_number by (fastforce simp: assms(2, 3) seq_ok_def)
qed


lemma moves_vol_map_same:
  assumes "\<And>m. same_side m (f m)" "\<And>m. P (f m) = P m"
  shows "moves_vol l k (filter P (map f ms)) = moves_vol l k (filter P ms)"
proof -
  have "filter P (map f ms) = map f (filter P ms)"
    using assms(2) by (simp add: filter_map comp_def)
  moreover have "list_all2 same_side (filter P ms) (map f (filter P ms))"
    using assms(1) by (simp add: list_all2_conv_all_nth)
  ultimately show ?thesis using moves_vol_same_side by metis
qed

lemma shift_same_side: "same_side m (shift_move l at us m)"
  by (simp add: same_side_def)

lemma number_moves_vol: "moves_vol l k (number n ms) = moves_vol l k ms"
  by (rule moves_vol_same_side [OF number_same_side])

lemma moves_vol_flows:
  assumes "list_all2 (side_of l t) (sides ps) ms"
  shows "moves_vol l' k ms = (if l' = l then \<lparr>Input = inflow ps k, Output = outflow ps k\<rparr> else NewVolumes)"
  using sides_moves_vol [OF assms] sides_other_ledger [OF assms] by auto

lemma number_field:
  "m \<in> set (number n ms) \<Longrightarrow> \<exists>m'\<in>set ms. m = m'\<lparr>mv_seq := mv_seq m\<rparr>"
  by (induction ms arbitrary: n) fastforce+

lemma new_moves_fields:
  assumes "list_all2 (side_of l t) xs ms" and "m \<in> set (number n ms)"
  shows "mv_ledger m = l" "mv_effective_date m = Timestamp t" "mv_tx_id m = TxID t"
proof -
  from number_field [OF assms(2)] obtain m' where m': "m' \<in> set ms" "m = m'\<lparr>mv_seq := mv_seq m\<rparr>" by blast
  from m'(1) assms(1) have "mv_ledger m' = l \<and> mv_effective_date m' = Timestamp t \<and> mv_tx_id m' = TxID t"
    by (auto simp: list_all2_conv_all_nth in_set_conv_nth side_of_def)
  with arg_cong [OF m'(2), of mv_ledger] arg_cong [OF m'(2), of mv_effective_date]
    arg_cong [OF m'(2), of mv_tx_id]
  show "mv_ledger m = l" "mv_effective_date m = Timestamp t" "mv_tx_id m = TxID t" by simp_all
qed

text \<open>An old move sees the new ones exactly when it lies strictly later.\<close>

lemma pcev_old:
  assumes inv: "pcev_ok d" "seq_ok d" and us: "updates_for (TPostings t) us"
    and ms: "list_all2 (side_of l t) (sides (TPostings t)) ms" and m: "m \<in> set (moves d)"
  shows "mv_pcev (shift_move l (Timestamp t) us m) =
    moves_vol (mv_ledger m) (mv_key m)
      (filter (\<lambda>m'. eff_key m' \<le> eff_key m)
        (map (shift_move l (Timestamp t) us) (moves d) @ number (next_seq d) ms))"
proof -
  let ?l = "mv_ledger m" and ?k = "mv_key m"
  have "eff_key n \<le> eff_key m \<longleftrightarrow> Timestamp t < mv_effective_date m" if "n \<in> set (number (next_seq d) ms)" for n
    using set_number [OF that] new_moves_fields(2) [OF ms that] inv(2) m
    by (auto simp: eff_key_def seq_ok_def)
  then have "filter (\<lambda>n. eff_key n \<le> eff_key m) (number (next_seq d) ms) =
      (if Timestamp t < mv_effective_date m then number (next_seq d) ms else [])"
    by (auto simp: filter_empty_conv filter_id_conv)
  moreover have "moves_vol ?l ?k (filter (\<lambda>m'. eff_key m' \<le> eff_key m) (map (shift_move l (Timestamp t) us) (moves d))) = mv_pcev m"
    using inv(1) m by (subst moves_vol_map_same) (simp_all add: shift_same_side eff_key_def pcev_ok_def)
  ultimately show ?thesis
    using updates_for_flow [OF us, of ?k] moves_vol_flows [OF ms, of ?l ?k]
    by (auto simp: moves_vol_append number_moves_vol shift_move_def NewVolumes_def)
qed

text \<open>A new move sees everything up to its date, and the moves of its own transaction before it.\<close>

lemma pcev_new:
  assumes inv: "pcev_ok d" "seq_ok d"
    and ms: "list_all2 (side_of l t) (sides (TPostings t)) ms" "ms = ys @ m # zs"
    and n: "n = m\<lparr>mv_seq := next_seq d + int (length ys)\<rparr>"
    and pcev: "mv_pcev m = add_flow (effective_volume_at l (mv_key m) (Timestamp t) d)
                 (Input (moves_vol l (mv_key m) (ys @ [m]))) (Output (moves_vol l (mv_key m) (ys @ [m])))"
  shows "mv_pcev n = moves_vol l (mv_key n)
      (filter (\<lambda>m'. eff_key m' \<le> eff_key n)
        (map (shift_move l (Timestamp t) us) (moves d) @ number (next_seq d) ms))"
proof -
  let ?s = "next_seq d + int (length ys)"
  have num: "number (next_seq d) ms = number (next_seq d) ys @ n # number (?s + 1) zs"
    by (simp add: ms(2) number_append n)
  have nf: "mv_effective_date n = Timestamp t"
    by (rule new_moves_fields(2) [OF ms(1), where n = "next_seq d"]) (simp add: num)
  have "eff_key m' \<le> eff_key n \<longleftrightarrow> mv_effective_date m' \<le> Timestamp t" if "m' \<in> set (moves d)" for m'
    using inv(2) that nf by (auto simp: eff_key_def seq_ok_def n)
  then have old: "moves_vol l (mv_key n) (filter (\<lambda>m'. eff_key m' \<le> eff_key n) (map (shift_move l (Timestamp t) us) (moves d)))
      = effective_volume_at l (mv_key n) (Timestamp t) d"
    unfolding effective_volume_at_sum [OF inv(1)]
    by (subst moves_vol_map_same) (auto simp: shift_same_side eff_key_def intro: moves_vol_filter_cong)
  have date: "mv_effective_date m' = Timestamp t" if "m' \<in> set (number (next_seq d) ms)" for m'
    by (rule new_moves_fields(2) [OF ms(1) that])
  have key: "eff_key n = (Timestamp t, ?s)" using nf by (simp add: eff_key_def n)
  have "eff_key m' \<le> eff_key n" if "m' \<in> set (number (next_seq d) ys)" for m'
    using date [of m'] set_number [OF that] that key by (simp add: num eff_key_def)
  then have "filter (\<lambda>m'. eff_key m' \<le> eff_key n) (number (next_seq d) ys) = number (next_seq d) ys"
    by (simp add: filter_id_conv)
  moreover have "\<not> eff_key m' \<le> eff_key n" if "m' \<in> set (number (?s + 1) zs)" for m'
    using date [of m'] set_number [OF that] that key by (simp add: num eff_key_def)
  then have "filter (\<lambda>m'. eff_key m' \<le> eff_key n) (number (?s + 1) zs) = []"
    by (simp add: filter_empty_conv)
  ultimately have new: "filter (\<lambda>m'. eff_key m' \<le> eff_key n) (number (next_seq d) ms) = number (next_seq d) (ys @ [m])"
    by (simp add: num number_append n)
  show ?thesis
    unfolding filter_append new
    unfolding moves_vol_append [of l "mv_key n" "filter _ (map _ _)"] old number_moves_vol
    using pcev by (simp add: n)
qed


text \<open>What a transaction does to the moves keeps all three histories and the projection.\<close>

lemma moves_effect_histories:
  assumes eff: "moves_effect l d d' t us" and us: "updates_for (TPostings t) us"
    and inv: "seq_ok d" "pcev_ok d"
  shows "seq_ok d'" "pcev_ok d'"
proof -
  from eff obtain ms where ms: "list_all2 (side_of l t) (sides (TPostings t)) ms"
    and mv: "moves d' = map (shift_move l (Timestamp t) us) (moves d) @ number (next_seq d) ms"
    and seq: "next_seq d' = next_seq d + int (length ms)"
    and run: "\<And>ys m zs. ms = ys @ m # zs \<Longrightarrow>
           mv_pcev m = add_flow (effective_volume_at l (mv_key m) (Timestamp t) d)
                        (Input (moves_vol l (mv_key m) (ys @ [m])))
                        (Output (moves_vol l (mv_key m) (ys @ [m])))"
    unfolding moves_effect_def by blast
  show "seq_ok d'" by (rule seq_ok_step [OF inv(1) mv seq]) simp
  show "pcev_ok d'"
    unfolding pcev_ok_def
  proof
    fix n assume "n \<in> set (moves d')"
    then consider (old) m where "m \<in> set (moves d)" "n = shift_move l (Timestamp t) us m"
      | (new) "n \<in> set (number (next_seq d) ms)" unfolding mv by auto
    then show "mv_pcev n = moves_vol (mv_ledger n) (mv_key n) (filter (\<lambda>m'. eff_key m' \<le> eff_key n) (moves d'))"
    proof cases
      case old
      have "eff_key n = eff_key m" by (simp add: old eff_key_def)
      then show ?thesis using pcev_old [OF inv(2, 1) us ms old(1)] by (simp add: mv old(2))
    next
      case new
      then obtain as bs where "number (next_seq d) ms = as @ n # bs" by (meson split_list)
      then obtain ys m zs where sp: "ms = ys @ m # zs" "n = m\<lparr>mv_seq := next_seq d + int (length ys)\<rparr>"
        by (rule number_split)
      show ?thesis
        using pcev_new [OF inv(2, 1) ms sp run [OF sp(1)]] new_moves_fields(1) [OF ms new] by (simp add: mv)
    qed
  qed
qed

lemma pcv_new_suffix:
  assumes "moves d = xs" "proj_ok d" and v: "mv_pcv m = add_flow (vol d l k) (Input (moves_vol l k ws)) (Output (moves_vol l k ws))"
  shows "mv_pcv m = moves_vol l k (xs @ ws)"
  using assms by (simp add: moves_vol_append proj_ok_def)

lemma moves_effect_pcv:
  assumes eff: "moves_effect l d d' t us" and inv: "pcv_ok d" "proj_ok d"
  shows "pcv_ok d'"
  unfolding pcv_ok_def
proof (intro allI impI)
  fix ys n zs assume split: "moves d' = ys @ n # zs"
  let ?f = "shift_move l (Timestamp t) us"
  from eff obtain ms where ms: "list_all2 (side_of l t) (sides (TPostings t)) ms"
    and mv: "moves d' = map ?f (moves d) @ number (next_seq d) ms"
    and run: "\<And>ys m zs. ms = ys @ m # zs \<Longrightarrow>
           mv_pcv m = add_flow (vol d l (mv_key m)) (Input (moves_vol l (mv_key m) (ys @ [m])))
                        (Output (moves_vol l (mv_key m) (ys @ [m])))"
    unfolding moves_effect_def by blast
  from split mv have "ys @ n # zs = map ?f (moves d) @ number (next_seq d) ms" by simp
  then consider (old) us' where "ys @ n # us' = map ?f (moves d)"
    | (new) us' where "ys = map ?f (moves d) @ us'" "number (next_seq d) ms = us' @ n # zs"
    by (auto simp: append_eq_append_conv2 Cons_eq_append_conv)
  then show "mv_pcv n = moves_vol (mv_ledger n) (mv_key n) (ys @ [n])"
  proof cases
    case old
    then obtain as m bs where sp: "moves d = as @ m # bs" "ys = map ?f as" "n = ?f m"
      by (auto simp: append_eq_map_conv Cons_eq_map_conv)
    have "ys @ [n] = map ?f (as @ [m])" by (simp add: sp)
    then have "moves_vol (mv_ledger n) (mv_key n) (ys @ [n]) = moves_vol (mv_ledger n) (mv_key n) (as @ [m])"
      using moves_vol_same_side [OF map_shift_same_side] by metis
    moreover have "mv_pcv m = moves_vol (mv_ledger m) (mv_key m) (as @ [m])"
      using inv(1) sp(1) unfolding pcv_ok_def by blast
    ultimately show ?thesis by (simp add: sp(3))
  next
    case new
    from new(2) obtain as m bs where sp: "ms = as @ m # bs" "us' = number (next_seq d) as"
      "n = m\<lparr>mv_seq := next_seq d + int (length as)\<rparr>" by (rule number_split)
    have lk: "mv_ledger n = l" "mv_key n = mv_key m"
      using new_moves_fields(1) [OF ms, of n "next_seq d"] new(2) sp(3) by simp_all
    have "us' @ [n] = number (next_seq d) (as @ [m])" by (simp add: sp number_append)
    then have "moves_vol l k (ys @ [n]) = moves_vol l k (moves d @ as @ [m])" for k
      unfolding new(1) by (simp add: moves_vol_append number_moves_vol
          moves_vol_same_side [OF map_shift_same_side])
    moreover have "mv_pcv n = mv_pcv m" by (simp add: sp(3))
    ultimately show ?thesis
      using pcv_new_suffix [OF refl inv(2) run [OF sp(1)]] by (simp only: lk)
  qed
qed

lemma apply_effect_projection:
  assumes "moves_effect l d d' t us" "volumes_effect l d d' (TPostings t)" "proj_ok d"
  shows "proj_ok d'"
proof -
  from assms(1) obtain ms where ms: "list_all2 (side_of l t) (sides (TPostings t)) ms"
    and mv: "moves d' = map (shift_move l (Timestamp t) us) (moves d) @ number (next_seq d) ms"
    unfolding moves_effect_def by blast
  have "vol d' l' k = moves_vol l' k (moves d')" for l' k
  proof -
    have "moves_vol l' k (map (shift_move l (Timestamp t) us) (moves d)) = vol d l' k"
      using assms(3) by (simp add: proj_ok_def moves_vol_same_side [OF map_shift_same_side])
    then show ?thesis
      using volumes_effect_vol [OF assms(2), of l' k] moves_vol_flows [OF ms, of l' k]
      by (simp add: mv moves_vol_append number_moves_vol NewVolumes_def)
  qed
  then show ?thesis by (simp add: proj_ok_def)
qed

end
