(* ===== verification/Storage_Log.thy ===== *)
theory Storage_Log
  imports Storage_Effective
begin

text \<open>
  The hash-chained log (\<open>src/storage/log.go\<close>, \<open>allocate.go\<close>): \<open>VerifyLog\<close>, and that appending an
  entry at the next id, or behind a gap that a RECOVERY entry declares, keeps a verifiable
  chain verifiable up to the new tip.
\<close>

subsection \<open>Verifying the chain\<close>

text \<open>The result of a walk: the hash to chain onto, the id expected next, the entries checked.\<close>

type_synonym walk = "string \<times> int \<times> nat"

definition declaredGap :: "log_row \<Rightarrow> RecoveryPayload option res" where
  "declaredGap r =
     (if lg_type r \<noteq> LogRecovery then Inr None
      else (case unmarshalRecovery (lg_data r) of
              None \<Rightarrow> Inl (ErrChainBroken 0 0)
            | Some p \<Rightarrow> Inr (Some p)))"

definition gap_declared :: "RecoveryPayload option \<Rightarrow> int \<Rightarrow> int \<Rightarrow> bool" where
  "gap_declared declared expected i \<longleftrightarrow>
     (case declared of
        None \<Rightarrow> False
      | Some p \<Rightarrow> ResumedFrom p = expected - 1 \<and> SkippedThrough p = i - 1)"

definition verify_entry :: "int \<times> log_row \<Rightarrow> walk \<Rightarrow> walk res" where
  "verify_entry x w =
     (case x of (i, r) \<Rightarrow> case w of (previous, expectedID, checked) \<Rightarrow>
        bindE (if i \<noteq> expectedID
               then bindE (declaredGap r) (\<lambda>declared.
                      guardE (gap_declared declared expectedID i) (ErrChainBroken expectedID i))
               else Inr ()) (\<lambda>_.
        if ChainHash previous (log_text (lg_data r)) \<noteq> lg_hash r then Inl (ErrChainBroken i i)
        else Inr (lg_hash r, i + 1, Suc checked)))"

definition walk_start :: walk where "walk_start = ([], 1, 0)"

text \<open>The count is of the entries that passed, also when one did not.\<close>

definition VerifyLog :: "Store \<Rightarrow> db \<Rightarrow> nat \<times> error option" where
  "VerifyLog s d = scanE verify_entry (ledger_logs d (ledger s)) walk_start 0"

subsection \<open>Appending keeps the chain verifiable\<close>

text \<open>Every log id lies between one and the ledger's counter, and the walk over a ledger's entries
  ends at its tip.\<close>

definition log_ids_ok :: "db \<Rightarrow> bool" where
  "log_ids_ok d \<longleftrightarrow>
     (\<forall>l i. (l, i) \<in> set (keys (logs d)) \<longrightarrow>
        (\<exists>r. map_of (ledgers d) l = Some r \<and> 1 \<le> i \<and> i \<le> last_log_id r))"

definition chain_ok :: "db \<Rightarrow> bool" where
  "chain_ok d \<longleftrightarrow>
     (\<forall>l r. map_of (ledgers d) l = Some r \<longrightarrow>
        0 \<le> last_log_id r \<and> last_log_id r \<le> max_bigint \<and>
        foldE verify_entry (ledger_logs d l) walk_start =
          Inr (hash_bytes (last_log_hash r), last_log_id r + 1, length (ledger_logs d l)))"

definition log_ok :: "db \<Rightarrow> bool" where
  "log_ok d \<longleftrightarrow> unique_keys (logs d) \<and> log_ids_ok d \<and> chain_ok d"

definition log_appended :: "string \<Rightarrow> db \<Rightarrow> db \<Rightarrow> ledger_row \<Rightarrow> ledger_row \<Rightarrow> int \<Rightarrow> log_row \<Rightarrow> bool" where
  "log_appended l d d' r r' i row \<longleftrightarrow>
     map_of (ledgers d) l = Some r \<and> ledgers d' = AList.update l r' (ledgers d) \<and>
     last_log_id r' = i \<and> last_log_hash r' = Some (lg_hash row) \<and>
     lg_hash row = ChainHash (hash_bytes (last_log_hash r)) (log_text (lg_data row)) \<and>
     last_log_id r < i \<and> i \<le> max_bigint \<and>
     (i = last_log_id r + 1 \<or>
      lg_type row = LogRecovery \<and>
      (\<exists>note. lg_data row =
         RecoveryData \<lparr>ResumedFrom = last_log_id r, SkippedThrough = i - 1, Note = note\<rparr>)) \<and>
     logs d' = logs d @ [((l, i), row)]"

lemma sort_key_snoc:
  assumes "\<forall>y\<in>set xs. f y < f x"
  shows "sort_key f (xs @ [x]) = sort_key f xs @ [x]"
proof (rule properties_for_sort_key)
  show "mset (sort_key f xs @ [x]) = mset (xs @ [x])" by simp
  show "filter (\<lambda>y. f k = f y) (sort_key f xs @ [x]) = filter (\<lambda>y. f k = f y) (xs @ [x])" for k
    using sort_key_stable [of f "f k" xs] by (simp add: eq_commute [of "f k"])
  show "sorted (map f (sort_key f xs @ [x]))"
    using assms by (auto simp: sorted_append)
qed

lemma ledger_logs_append:
  assumes "logs d' = logs d @ [((l, i), row)]"
    and "\<forall>j. (l, j) \<in> set (keys (logs d)) \<longrightarrow> j < i"
  shows "ledger_logs d' l' = (if l' = l then ledger_logs d l @ [(i, row)] else ledger_logs d l')"
proof (cases "l' = l")
  case True
  have "fst y < i" if "y \<in> set (map (\<lambda>((_, i), r). (i, r)) (filter (\<lambda>((l', _), _). l' = l) (logs d)))" for y
    using that assms(2) by force
  then show ?thesis
    using sort_key_snoc [of "map (\<lambda>((_, i), r). (i, r)) (filter (\<lambda>((l', _), _). l' = l) (logs d))" fst "(i, row)"]
    by (simp add: True ledger_logs_def assms(1))
qed (simp add: ledger_logs_def assms(1))

lemma log_appended_ok:
  assumes "log_ok d" and app: "log_appended l d d' r r' i row"
  shows "log_ok d'"
proof -
  from app have r: "map_of (ledgers d) l = Some r" and led: "ledgers d' = AList.update l r' (ledgers d)"
    and lg: "logs d' = logs d @ [((l, i), row)]" and i: "last_log_id r < i" "last_log_id r' = i"
    by (auto simp: log_appended_def)
  have fresh: "j < i" if "(l, j) \<in> set (keys (logs d))" for j
    using assms(1) that r i unfolding log_ok_def log_ids_ok_def by fastforce
  have ids: "log_ids_ok d'"
    unfolding log_ids_ok_def
  proof (intro allI impI)
    fix l' j assume j: "(l', j) \<in> set (keys (logs d'))"
    have pos: "1 \<le> i" using assms(1) r i by (force simp: log_ok_def chain_ok_def)
    show "\<exists>q. map_of (ledgers d') l' = Some q \<and> 1 \<le> j \<and> j \<le> last_log_id q"
    proof (cases "(l', j) \<in> set (keys (logs d))")
      case True
      with assms(1) obtain q where q: "map_of (ledgers d) l' = Some q" "1 \<le> j" "j \<le> last_log_id q"
        unfolding log_ok_def log_ids_ok_def by blast
      then show ?thesis using fresh [of j] True i led by (cases "l' = l") auto
    next
      case False
      then have "l' = l" "j = i" using j lg by auto
      then show ?thesis using pos i led by simp
    qed
  qed
  have chain: "chain_ok d'"
    unfolding chain_ok_def
  proof (intro allI impI)
    fix l' q assume q: "map_of (ledgers d') l' = Some q"
    note ll = ledger_logs_append [OF lg, of l']
    show "0 \<le> last_log_id q \<and> last_log_id q \<le> max_bigint \<and> foldE verify_entry (ledger_logs d' l') walk_start =
        Inr (hash_bytes (last_log_hash q), last_log_id q + 1, length (ledger_logs d' l'))"
    proof (cases "l' = l")
      case False
      then have "map_of (ledgers d) l' = Some q" using q led by simp
      with assms(1) False fresh ll show ?thesis by (auto simp: log_ok_def chain_ok_def)
    next
      case True
      with q led have "q = r'" by simp
      moreover have "0 \<le> last_log_id r" and "foldE verify_entry (ledger_logs d l) walk_start =
          Inr (hash_bytes (last_log_hash r), last_log_id r + 1, length (ledger_logs d l))"
        using assms(1) r by (auto simp: log_ok_def chain_ok_def)
      moreover have "verify_entry (i, row) (hash_bytes (last_log_hash r), last_log_id r + 1, n) =
          Inr (lg_hash row, i + 1, Suc n)" for n
        using app by (auto simp: verify_entry_def log_appended_def declaredGap_def gap_declared_def)
      ultimately show ?thesis
        using True fresh ll app i by (simp add: foldE_append log_appended_def hash_bytes_def)
    qed
  qed
  have "unique_keys (logs d')"
    using assms(1) fresh [of i] by (auto simp: log_ok_def lg)
  with ids chain show ?thesis by (simp add: log_ok_def)
qed

lemma VerifyLog_ok:
  assumes "log_ok d" and "map_of (ledgers d) (ledger s) = Some r"
  shows "VerifyLog s d = (length (ledger_logs d (ledger s)), None)"
  using assms by (simp add: VerifyLog_def log_ok_def chain_ok_def scanE_count)

lemma log_ok_cong: "logs d' = logs d \<Longrightarrow> ledgers d' = ledgers d \<Longrightarrow> log_ok d' = log_ok d"
  by (simp add: log_ok_def log_ids_ok_def chain_ok_def ledger_logs_def)

text \<open>What \<open>appendLogEntry\<close> writes after one of the two allocations.\<close>

lemma insertLog_Inr:
  assumes "insertLog l lg d = Inr d'" and "map_of (ledgers d) l = Some r"
  shows "d' = d\<lparr>logs := logs d @ [((l, LogID lg),
           \<lparr>lg_type = LType lg, lg_data = LData lg, lg_date = LDate lg, lg_hash = LHash lg,
            lg_key = (if IdempotencyKey lg \<noteq> [] then Some (IdempotencyKey lg) else None),
            lg_key_hash = (if IdempotencyKey lg \<noteq> [] then Some (IdempotencyHash lg) else None)\<rparr>)],
         ledgers := AList.update l (r\<lparr>last_log_hash := Some (LHash lg)\<rparr>) (ledgers d)\<rparr>"
  using assms
  by (auto simp: insertLog_def Let_def bindE_Inr_iff insert_log_row_def update_ledger_row_def
      split: if_splits option.splits)

definition entry_row :: "allocation \<Rightarrow> LogType \<Rightarrow> log_data \<Rightarrow> time \<Rightarrow> string \<Rightarrow> string \<Rightarrow> log_row" where
  "entry_row a typ payload date ik ikHash =
     \<lparr>lg_type = typ, lg_data = payload, lg_date = date,
      lg_hash = ChainHash (previousHash a) (log_text payload),
      lg_key = (if ik \<noteq> [] then Some ik else None),
      lg_key_hash = (if ik \<noteq> [] then Some ikHash else None)\<rparr>"

lemma appendLogEntry_Inr:
  assumes "appendLogEntry l a typ payload date ik ikHash d = Inr d'" and "map_of (ledgers d) l = Some r"
  shows "d' = d\<lparr>logs := logs d @ [((l, logID a), entry_row a typ payload date ik ikHash)],
     ledgers := AList.update l (r\<lparr>last_log_hash := Some (ChainHash (previousHash a) (log_text payload))\<rparr>) (ledgers d)\<rparr>"
    and "marshals payload"
    and "ik \<noteq> [] \<Longrightarrow> \<not> key_taken d l ik"
  using assms insertLog_Inr
  by (auto simp: appendLogEntry_def entry_row_def insertLog_def Let_def bindE_Inr_iff insert_log_row_def
      update_ledger_row_def split: if_splits option.splits)

end
