(* ===== verification/Storage_Book.thy ===== *)
theory Storage_Book
  imports Storage_Log
begin

text \<open>
  The invariant of the books. \<open>book_ok\<close> collects what the write path maintains over all ledgers:
  primary keys, conservation, both volume histories, the projection from moves, the verifiable
  log, the agreement of the log's transactions with the tables, and the id counters. The main
  lemma: a transaction that is applied and then logged keeps all of it, so the conservation
  check that COMMIT runs always passes.
\<close>

subsection \<open>The transactions the log carries\<close>

fun log_tx :: "log_row \<Rightarrow> Transaction option" where
  "log_tx r =
     (case lg_type r of
        LogNewTransaction \<Rightarrow> unmarshalTransaction (lg_data r)
      | LogRevertedTransaction \<Rightarrow> Option.bind (unmarshalReverted (lg_data r)) RevTransaction
      | _ \<Rightarrow> None)"

declare log_tx.simps [simp del]

definition moves_value :: "log_row \<Rightarrow> bool" where
  "moves_value r \<longleftrightarrow> lg_type r = LogNewTransaction \<or> lg_type r = LogRevertedTransaction"

definition logged :: "db \<Rightarrow> string \<Rightarrow> Transaction list" where
  "logged d l = List.map_filter log_tx (map snd (ledger_logs d l))"

definition flows :: "Transaction list \<Rightarrow> key \<Rightarrow> Volumes" where
  "flows ts k = \<lparr>Input = (\<Sum>t\<leftarrow>ts. inflow (TPostings t) k), Output = (\<Sum>t\<leftarrow>ts. outflow (TPostings t) k)\<rparr>"

lemma flows_simps [simp]:
  "flows [] k = NewVolumes"
  "flows (ts @ [t]) k = add_flow (flows ts k) (inflow (TPostings t) k) (outflow (TPostings t) k)"
  by (simp_all add: flows_def NewVolumes_def add_flow_def)

definition replay_ok :: "db \<Rightarrow> bool" where
  "replay_ok d \<longleftrightarrow>
     (\<forall>x\<in>set (logs d). moves_value (snd x) \<longrightarrow> log_tx (snd x) \<noteq> None) \<and>
     (\<forall>l. distinct (map TxID (logged d l)) \<and>
          TxID ` set (logged d l) = {i. (l, i) \<in> set (keys (transactions d))} \<and>
          (\<forall>t\<in>set (logged d l). all_amounts (TPostings t) \<and>
             (\<forall>k\<in>touched (TPostings t). map_of (accounts_volumes d) (l, k) \<noteq> None)) \<and>
          (\<forall>k. vol d l k = flows (logged d l) k))"

definition tx_ids_ok :: "db \<Rightarrow> bool" where
  "tx_ids_ok d \<longleftrightarrow>
     (\<forall>l r. map_of (ledgers d) l = Some r \<longrightarrow> 0 \<le> last_tx_id r) \<and>
     (\<forall>l i. (l, i) \<in> set (keys (transactions d)) \<longrightarrow>
        0 < i \<and> (\<exists>r. map_of (ledgers d) l = Some r \<and> i \<le> last_tx_id r))"

definition conserved :: "db \<Rightarrow> bool" where
  "conserved d \<longleftrightarrow> (\<forall>l s. drift d l s = 0)"

text \<open>Everything the write path maintains.\<close>

definition book_ok :: "db \<Rightarrow> bool" where
  "book_ok d \<longleftrightarrow>
     well_keyed d \<and> conserved d \<and> seq_ok d \<and> pcev_ok d \<and> pcv_ok d \<and> proj_ok d \<and>
     log_ok d \<and> replay_ok d \<and> tx_ids_ok d"

lemma map_filter_append: "List.map_filter f (xs @ ys) = List.map_filter f xs @ List.map_filter f ys"
  by (simp add: List.map_filter_def)

lemma logged_appended:
  assumes "log_ok d" "log_appended l d d' r r' i row"
  shows "logged d' l' =
    (if l' = l then logged d l @ (case log_tx row of None \<Rightarrow> [] | Some t \<Rightarrow> [t]) else logged d l')"
proof -
  have "logs d' = logs d @ [((l, i), row)]" and r: "map_of (ledgers d) l = Some r" "last_log_id r < i"
    using assms(2) by (auto simp: log_appended_def)
  moreover have "j < i" if "(l, j) \<in> set (keys (logs d))" for j
    using assms(1) that r unfolding log_ok_def log_ids_ok_def by fastforce
  ultimately have "ledger_logs d' l' = (if l' = l then ledger_logs d l @ [(i, row)] else ledger_logs d l')"
    by (intro ledger_logs_append) auto
  then show ?thesis
    by (auto simp: logged_def map_filter_append List.map_filter_simps split: option.splits)
qed

text \<open>The columns of a transaction that nothing may change: all but its metadata and the mark of a
  revert.\<close>

definition tx_fixed ::
  "tx_row \<Rightarrow> time \<times> time \<times> string option \<times> Postings \<times> string list \<times> string list \<times> PostCommitVolumes" where
  "tx_fixed r =
     (tx_timestamp r, tx_inserted_at r, tx_reference r, tx_postings r, tx_sources r, tx_destinations r, tx_pc_volumes r)"

text \<open>A transaction that was applied and then logged, with nothing else changed but the columns of
  transaction rows that may change.\<close>

definition tx_logged ::
  "string \<Rightarrow> db \<Rightarrow> db \<Rightarrow> db \<Rightarrow> Transaction \<Rightarrow> allocation \<Rightarrow> log_row \<Rightarrow> bool" where
  "tx_logged l d d1 d2 t a row \<longleftrightarrow>
     (\<exists>e p opts. apply_effect l e p opts d d1 t a \<and> priced p) \<and>
     ledgers d2 = AList.update l ((the (map_of (ledgers d1) l))\<lparr>last_log_hash := Some (lg_hash row)\<rparr>) (ledgers d1) \<and>
     lg_hash row = ChainHash (previousHash a) (log_text (lg_data row)) \<and>
     (\<exists>t'. log_tx row = Some t' \<and> TxID t' = TxID t \<and> TPostings t' = TPostings t) \<and>
     logs d2 = logs d1 @ [((l, logID a), row)] \<and>
     keys (transactions d2) = keys (transactions d1) \<and>
     (\<forall>k. map_option tx_fixed (map_of (transactions d2) k) = map_option tx_fixed (map_of (transactions d1) k)) \<and>
     accounts_volumes d2 = accounts_volumes d1 \<and> moves d2 = moves d1 \<and> next_seq d2 = next_seq d1 \<and>
     assets d2 = assets d1 \<and> accounts d2 = accounts d1"

lemma tx_logged_appended:
  assumes "tx_logged l d d1 d2 t a row"
  obtains r where "map_of (ledgers d) l = Some r"
    and "log_appended l d d2 r
      (r\<lparr>last_tx_id := last_tx_id r + 1, last_log_id := last_log_id r + 1, last_log_hash := Some (lg_hash row)\<rparr>)
      (last_log_id r + 1) row"
    and "TxID t = last_tx_id r + 1"
proof -
  from assms obtain r where r: "map_of (ledgers d) l = Some r"
    and led: "ledgers d1 = AList.update l
           (r\<lparr>last_tx_id := last_tx_id r + 1, last_log_id := last_log_id r + 1\<rparr>) (ledgers d)"
    and a: "a = \<lparr>transactionID = last_tx_id r + 1, logID = last_log_id r + 1,
             previousHash = hash_bytes (last_log_hash r)\<rparr>" and t: "TxID t = transactionID a" and lg: "logs d1 = logs d"
    and lim: "last_log_id r < max_bigint"
    by (auto simp: tx_logged_def apply_effect_def ledger_effect_def)
  have "AList.update l x (AList.update l y m) = AList.update l x m" for x y :: ledger_row and m
    by (induction m) auto
  then have "log_appended l d d2 r
      (r\<lparr>last_tx_id := last_tx_id r + 1, last_log_id := last_log_id r + 1, last_log_hash := Some (lg_hash row)\<rparr>)
      (last_log_id r + 1) row"
    using assms r led a lg lim by (auto simp: tx_logged_def log_appended_def)
  with r t a show ?thesis by (intro that) auto
qed


lemma histories_cong:
  assumes "moves d' = moves d" "next_seq d' = next_seq d" "accounts_volumes d' = accounts_volumes d"
  shows "seq_ok d' = seq_ok d" "pcev_ok d' = pcev_ok d" "pcv_ok d' = pcv_ok d" "proj_ok d' = proj_ok d"
    "conserved d' = conserved d"
  using assms vol_cong [OF assms(3)] drift_cong [OF assms(3)]
  by (simp_all add: seq_ok_def pcev_ok_def pcv_ok_def proj_ok_def conserved_def)

lemma apply_effect_histories:
  assumes "apply_effect l e p opts d d1 t a" and "book_ok d"
  shows "seq_ok d1" "pcev_ok d1" "pcv_ok d1" "proj_ok d1" "conserved d1"
proof -
  from assms obtain us where us: "updates_for (TPostings t) us" "moves_effect l d d1 t us"
    and ve: "volumes_effect l d d1 (TPostings t)"
    by (auto simp: apply_effect_def)
  from assms(2) have inv: "seq_ok d" "pcev_ok d" "pcv_ok d" "proj_ok d" "conserved d"
    by (simp_all add: book_ok_def)
  show "seq_ok d1" "pcev_ok d1" using moves_effect_histories [OF us(2, 1) inv(1, 2)] by simp_all
  show "pcv_ok d1" by (rule moves_effect_pcv [OF us(2) inv(3, 4)])
  show "proj_ok d1" by (rule apply_effect_projection [OF us(2) ve inv(4)])
  show "conserved d1" using inv(5) volumes_effect_drift [OF ve] by (simp add: conserved_def)
qed

lemma tx_logged_keyed:
  assumes "tx_logged l d d1 d2 t a row" and "book_ok d" and "log_ok d2"
  shows "well_keyed d2"
proof -
  from assms(1) obtain e p opts where ae: "apply_effect l e p opts d d1 t a"
    by (auto simp: tx_logged_def)
  have "unique_keys (ledgers d2)" "unique_keys (assets d2)" "unique_keys (accounts d2)"
    using assms ae by (auto simp: tx_logged_def apply_effect_def ledger_effect_def book_ok_def well_keyed_def)
  moreover have "unique_keys (accounts_volumes d2)"
    using assms(1) ae by (simp add: tx_logged_def apply_effect_def volumes_effect_def)
  moreover have "keys (transactions d2) = keys (transactions d) @ [(l, TxID t)]"
    "(l, TxID t) \<notin> set (keys (transactions d))"
    using assms(1) ae by (auto simp: tx_logged_def apply_effect_def map_of_eq_None_iff)
  then have "unique_keys (transactions d2)"
    using assms(2) by (simp add: book_ok_def well_keyed_def)
  ultimately show ?thesis using assms(3) by (simp add: well_keyed_def log_ok_def)
qed

lemma tx_logged_ids:
  assumes tl: "tx_logged l d d1 d2 t a row" and "tx_ids_ok d"
  shows "tx_ids_ok d2"
proof -
  from tl obtain r where r: "map_of (ledgers d) l = Some r" and t: "TxID t = last_tx_id r + 1"
    and app: "log_appended l d d2 r (r\<lparr>last_tx_id := last_tx_id r + 1, last_log_id := last_log_id r + 1,
      last_log_hash := Some (lg_hash row)\<rparr>) (last_log_id r + 1) row" by (rule tx_logged_appended)
  have k: "keys (transactions d2) = keys (transactions d) @ [(l, TxID t)]"
    using tl by (auto simp: tx_logged_def apply_effect_def)
  have led: "ledgers d2 = AList.update l (r\<lparr>last_tx_id := last_tx_id r + 1, last_log_id := last_log_id r + 1,
      last_log_hash := Some (lg_hash row)\<rparr>) (ledgers d)" using app by (simp add: log_appended_def)
  have pos: "0 \<le> last_tx_id q" if "map_of (ledgers d) l' = Some q" for l' q
    using assms(2) that by (simp add: tx_ids_ok_def)
  have "0 < i \<and> (\<exists>q. map_of (ledgers d2) l' = Some q \<and> i \<le> last_tx_id q)"
    if "(l', i) \<in> set (keys (transactions d2))" for l' i
  proof (cases "(l', i) \<in> set (keys (transactions d))")
    case True
    with assms(2) obtain q where "0 < i" "map_of (ledgers d) l' = Some q" "i \<le> last_tx_id q"
      unfolding tx_ids_ok_def by blast
    with r led show ?thesis by (cases "l' = l") auto
  next
    case False
    then have "l' = l" "i = TxID t" using that k by auto
    with led t pos [OF r] show ?thesis by simp
  qed
  moreover have "0 \<le> last_tx_id q" if "map_of (ledgers d2) l' = Some q" for l' q
    using that led pos r by (cases "l' = l") force+
  ultimately show ?thesis unfolding tx_ids_ok_def by blast
qed

lemma tx_logged_replay:
  assumes tl: "tx_logged l d d1 d2 t a row" and inv: "book_ok d"
  shows "replay_ok d2"
proof -
  from tl obtain r r' i where app: "log_appended l d d2 r r' i row" by (rule tx_logged_appended)
  from inv have lok: "log_ok d" and rep: "replay_ok d" by (simp_all add: book_ok_def)
  from tl obtain t' where t': "log_tx row = Some t'" "TxID t' = TxID t" "TPostings t' = TPostings t"
    by (auto simp: tx_logged_def)
  from tl obtain e p opts where ae: "apply_effect l e p opts d d1 t a" and pr: "priced p"
    by (auto simp: tx_logged_def)
  have lg: "logged d2 l' = (if l' = l then logged d l @ [t'] else logged d l')" for l'
    using logged_appended [OF lok app, of l'] t'(1) by simp
  have ve: "volumes_effect l d d1 (TPostings t)" using ae by (simp add: apply_effect_def)
  have av: "accounts_volumes d2 = accounts_volumes d1" using tl by (simp add: tx_logged_def)
  have am: "all_amounts (TPostings t)"
    using ae pr resolved_amounts by (auto simp: apply_effect_def)
  have k: "keys (transactions d2) = keys (transactions d) @ [(l, TxID t)]"
    "(l, TxID t) \<notin> set (keys (transactions d))"
    using tl ae by (auto simp: tx_logged_def apply_effect_def map_of_eq_None_iff)
  have rows: "map_of (accounts_volumes d2) x \<noteq> None" if "map_of (accounts_volumes d) x \<noteq> None" for x
    using that ve av unfolding volumes_effect_def by fastforce
  have "\<forall>x\<in>set (logs d2). moves_value (snd x) \<longrightarrow> log_tx (snd x) \<noteq> None"
    using rep app t'(1) by (auto simp: replay_ok_def log_appended_def)
  moreover have "distinct (map TxID (logged d2 l'))"
    "TxID ` set (logged d2 l') = {i. (l', i) \<in> set (keys (transactions d2))}" for l'
    using rep k t'(2) by (auto simp: lg replay_ok_def)
  moreover have "all_amounts (TPostings x) \<and> (\<forall>k\<in>touched (TPostings x). map_of (accounts_volumes d2) (l', k) \<noteq> None)"
    if "x \<in> set (logged d2 l')" for x l'
  proof (cases "x \<in> set (logged d l')")
    case True
    then show ?thesis using rep rows unfolding replay_ok_def by blast
  next
    case False
    then have "x = t'" "l' = l" using that by (auto simp: lg split: if_splits)
    then show ?thesis using ve am t'(3) av unfolding volumes_effect_def by fastforce
  qed
  moreover have "vol d2 l' k = flows (logged d2 l') k" for l' k
    using rep volumes_effect_vol [OF ve, of l' k] t'(3) vol_cong [OF av] by (simp add: lg replay_ok_def)
  ultimately show ?thesis unfolding replay_ok_def by blast
qed

lemma tx_logged_book_ok:
  assumes tl: "tx_logged l d d1 d2 t a row" and inv: "book_ok d"
  shows "book_ok d2"
proof -
  from tl obtain r r' i where app: "log_appended l d d2 r r' i row" by (rule tx_logged_appended)
  have lok: "log_ok d2" using inv app log_appended_ok by (auto simp: book_ok_def)
  from tl obtain e p opts where ae: "apply_effect l e p opts d d1 t a" by (auto simp: tx_logged_def)
  have "moves d2 = moves d1" "next_seq d2 = next_seq d1" "accounts_volumes d2 = accounts_volumes d1"
    using tl by (simp_all add: tx_logged_def)
  note hc = histories_cong [OF this]
  show ?thesis
    unfolding book_ok_def hc
    using apply_effect_histories [OF ae inv] lok tx_logged_keyed [OF tl inv lok] tx_logged_replay [OF tl inv]
      tx_logged_ids [OF tl] inv by (simp add: book_ok_def)
qed

lemma conserved_commits: "conserved d \<Longrightarrow> db_commit d = Inr (d\<lparr>deferred := []\<rparr>)"
  by (simp add: db_commit_def conserved_def list_all_iff case_prod_unfold)

lemma book_ok_deferred [simp]: "book_ok (d\<lparr>deferred := q\<rparr>) = book_ok d"
  by (simp add: book_ok_def well_keyed_def conserved_def seq_ok_def pcev_ok_def pcv_ok_def proj_ok_def
      replay_ok_def tx_ids_ok_def logged_def ledger_logs_def log_ok_def log_ids_ok_def chain_ok_def)

lemma empty_book_ok: "book_ok empty_db"
  by (simp add: empty_db_def book_ok_def well_keyed_def conserved_def drift_def seq_ok_def pcev_ok_def
      pcv_ok_def proj_ok_def vol_def log_ok_def log_ids_ok_def chain_ok_def replay_ok_def tx_ids_ok_def
      logged_def ledger_logs_def List.map_filter_simps)

end
