(* ===== verification/Storage_Commit_Props.thy ===== *)
theory Storage_Commit_Props
  imports Storage_Book
begin

text \<open>
  \<open>commitOnce\<close> and \<open>CommitTransaction\<close> (\<open>src/storage/commit.go\<close>): what the retry loop can
  return, what a committed attempt has done, the closed list of reasons a call can fail for,
  replays under an idempotency key, and dry runs.
\<close>

subsection \<open>The retry loop\<close>

lemma retry_loop_restarts: "fst (retry_loop l envs once n a) \<le> n"
proof (induction n arbitrary: a)
  case (Suc n)
  show ?case using Suc [of "Suc a"] by (auto split: sum.splits option.splits prod.splits)
qed simp

lemma retry_loop_Inr:
  "snd (retry_loop l envs once n a) = Inr x \<Longrightarrow>
     \<exists>i. a \<le> i \<and> i < a + n \<and> once i = Inr x \<and> fst (retry_loop l envs once n a) = i - a \<and>
         (\<forall>j. a \<le> j \<and> j < i \<longrightarrow> (\<exists>err. once j = Inl err \<and> retryable err))"
proof (induction n arbitrary: a)
  case (Suc n)
  show ?case
  proof (cases "once a")
    case (Inr y)
    with Suc.prems show ?thesis by (intro exI [of _ a]) auto
  next
    case (Inl err)
    with Suc.prems have re: "retryable err" "backoff (envs a) = None"
      and rest: "snd (retry_loop l envs once n (Suc a)) = Inr x"
      by (auto split: if_splits option.splits prod.splits)
    from Suc.IH [OF rest] obtain i where i: "Suc a \<le> i" "i < Suc a + n" "once i = Inr x"
      "fst (retry_loop l envs once n (Suc a)) = i - Suc a"
      "\<And>j. Suc a \<le> j \<Longrightarrow> j < i \<Longrightarrow> \<exists>err. once j = Inl err \<and> retryable err" by blast
    have "\<exists>err. once j = Inl err \<and> retryable err" if "a \<le> j" "j < i" for j
      using that i(5) [of j] Inl re by (cases "j = a") auto
    with i Inl re show ?thesis
      by (intro exI [of _ i]) (auto split: prod.splits)
  qed
qed simp

lemma retry_loop_Inl:
  "snd (retry_loop l envs once n a) = Inl err \<Longrightarrow>
     (\<exists>i. a \<le> i \<and> i < a + n \<and> (once i = Inl err \<and> \<not> retryable err \<or> ctx_err (envs i) = Some err)) \<or>
     (err = ErrGaveUp maxAttempts l \<and> (\<forall>i. a \<le> i \<and> i < a + n \<longrightarrow> (\<exists>x. once i = Inl x \<and> retryable x)))"
proof (induction n arbitrary: a)
  case (Suc n)
  show ?case
  proof (cases "once a")
    case (Inr y)
    with Suc.prems show ?thesis by auto
  next
    case (Inl e1)
    consider "\<not> retryable e1" | "retryable e1" "ctx_err (envs a) \<noteq> None"
      | "retryable e1" "ctx_err (envs a) = None" by blast
    then show ?thesis
    proof cases
      case 3
      with Inl Suc.prems have "snd (retry_loop l envs once n (Suc a)) = Inl err"
        by (auto simp: backoff_def split: prod.splits)
      note ih = Suc.IH [OF this]
      have "\<exists>x. once i = Inl x \<and> retryable x"
        if "\<forall>i. Suc a \<le> i \<and> i < Suc a + n \<longrightarrow> (\<exists>x. once i = Inl x \<and> retryable x)" "a \<le> i" "i < a + Suc n" for i
        using that Inl 3 by (cases "i = a") auto
      with ih show ?thesis by (metis Suc_leD add_Suc_right add_Suc)
    qed (use Inl Suc.prems in \<open>auto simp: backoff_def intro!: exI [of _ a]\<close>)
  qed
qed auto

text \<open>Whatever every attempt guarantees of its result, the loop guarantees.\<close>

locale retried =
  fixes once :: "nat \<Rightarrow> 'r res" and good :: "'r \<Rightarrow> bool"
  assumes attempt: "once i = Inr x \<Longrightarrow> good x"
begin

lemma loop:
  assumes "snd (retry_loop l envs once n a) = Inr x"
  shows "good x"
proof -
  from retry_loop_Inr [OF assms] obtain i where "once i = Inr x" by blast
  then show ?thesis by (rule attempt)
qed

end

subsection \<open>One attempt\<close>

definition apply_opts :: "CommitOptions \<Rightarrow> applyOptions" where
  "apply_opts opts =
     \<lparr>ATimestamp = OTimestamp opts, AReference = OReference opts, AMetadata = OMetadata opts\<rparr>"

lemma commitOnce_cases:
  assumes "commitOnce s e seen d p opts h n = Inr (d', t)"
  obtains (replay) "d' = d" "OIdempotencyKey opts \<noteq> []"
      "findByIdempotencyKey (ledger s) seen (OIdempotencyKey opts) h = Inr (Some t) \<or>
       findByIdempotencyKey (ledger s) d (OIdempotencyKey opts) h = Inr (Some t)"
    | (dry) d1 a d2 where "ODryRun opts" "d' = d"
      "applyTransaction (ledger s) e p (apply_opts opts) d = Inr (d1, t, a)"
      "appendLog (ledger s) t a (OIdempotencyKey opts) h d1 = Inr d2" "beforeCommit s n = None"
    | (commit) d1 a d2 where "\<not> ODryRun opts" "db_commit d2 = Inr d'"
      "applyTransaction (ledger s) e p (apply_opts opts) d = Inr (d1, t, a)"
      "appendLog (ledger s) t a (OIdempotencyKey opts) h d1 = Inr d2" "beforeCommit s n = None"
      "replay_lookup (ledger s) seen (OIdempotencyKey opts) h = Inr None"
proof -
  from assms obtain existing where look: "replay_lookup (ledger s) seen (OIdempotencyKey opts) h = Inr existing"
    by (auto simp: commitOnce_def bindE_Inr_iff)
  show thesis
  proof (cases existing)
    case (Some x)
    with assms look show ?thesis
      by (intro replay) (auto simp: commitOnce_def replay_lookup_def split: if_splits)
  next
    case None
    note eqs = assms [unfolded commitOnce_def apply_opts_def [symmetric] look None, simplified]
    from eqs obtain d1 t1 a where ap: "applyTransaction (ledger s) e p (apply_opts opts) d = Inr (d1, t1, a)"
      by (auto simp: bindE_Inr_iff)
    show ?thesis
    proof (cases "appendLog (ledger s) t1 a (OIdempotencyKey opts) h d1")
      case (Inl err)
      with eqs ap obtain t' where "idempotencyRace (ledger s) d (OIdempotencyKey opts) h err = Inr (Some t')" "t' = t" "d' = d"
        by (auto simp: bindE_Inr_iff split: option.splits)
      then show ?thesis by (intro replay) (auto simp: idempotencyRace_def split: if_splits)
    next
      case (Inr d2)
      with eqs ap have "beforeCommit s n = None" "t1 = t"
        "if ODryRun opts then d' = d else db_commit d2 = Inr d'"
        by (auto simp: bindE_Inr_iff split: option.splits if_splits)
      with Inr ap look None show ?thesis by (cases "ODryRun opts") (auto intro: dry commit)
    qed
  qed
qed

lemma appendLog_tx_logged:
  assumes ap: "applyTransaction l e p opts d = Inr (d1, t, a)" and wk: "well_keyed d"
    and pr: "priced p" and lg: "appendLog l t a ik h d1 = Inr d2"
  shows "tx_logged l d d1 d2 t a (entry_row a LogNewTransaction (TxData t) (InsertedAt t) ik h)"
proof -
  note ae = applyTransaction_effect [OF ap wk]
  from ae obtain r where r: "map_of (ledgers d1) l = Some r"
    by (auto simp: apply_effect_def ledger_effect_def)
  note d2 = appendLogEntry_Inr(1) [OF lg [unfolded appendLog_def] r]
  show ?thesis
    unfolding tx_logged_def using ae pr r
    by (auto simp: d2 entry_row_def log_tx.simps json_roundtrip_def)
qed

lemma commitOnce_keeps_book:
  assumes "commitOnce s e seen d p opts h n = Inr (d', t)" and "book_ok d" and "priced p"
  shows "book_ok d'"
  using assms(1)
proof (cases rule: commitOnce_cases)
  case (commit d1 a d2)
  have "well_keyed d" using assms(2) by (simp add: book_ok_def)
  from tx_logged_book_ok [OF appendLog_tx_logged [OF commit(3) this assms(3) commit(4)] assms(2)]
  show ?thesis using commit(2) by (auto simp: db_commit_Inr)
qed (use assms(2) in simp_all)


text \<open>What a committed attempt has done, as one fact.\<close>

definition commit_effect ::
  "Store \<Rightarrow> env \<Rightarrow> db \<Rightarrow> Postings \<Rightarrow> CommitOptions \<Rightarrow> string \<Rightarrow> db \<Rightarrow> Transaction \<Rightarrow> bool" where
  "commit_effect s e d p opts h d' t \<longleftrightarrow>
     (\<exists>d1 d2 a. apply_effect (ledger s) e p (apply_opts opts) d d1 t a \<and>
        tx_logged (ledger s) d d1 d2 t a
          (entry_row a LogNewTransaction (TxData t) (InsertedAt t) (OIdempotencyKey opts) h) \<and>
        d' = d2\<lparr>deferred := []\<rparr>)"

lemma commit_case_effect:
  assumes "db_commit d2 = Inr d'" "applyTransaction (ledger s) e p (apply_opts opts) d = Inr (d1, t, a)"
    and "appendLog (ledger s) t a (OIdempotencyKey opts) h d1 = Inr d2" and "well_keyed d" "priced p"
  shows "commit_effect s e d p opts h d' t"
  using assms appendLog_tx_logged [OF assms(2, 4, 5, 3)] applyTransaction_effect [OF assms(2, 4)]
  unfolding commit_effect_def db_commit_Inr by blast

interpretation commit_book: retried "\<lambda>i. commitOnce s (envs i) d d p opts h i" "\<lambda>x. book_ok d \<and> priced p \<longrightarrow> book_ok (fst x)"
  for s envs d p opts h
proof
  fix i x assume "commitOnce s (envs i) d d p opts h i = Inr x"
  then show "book_ok d \<and> priced p \<longrightarrow> book_ok (fst x)"
    using commitOnce_keeps_book [of s "envs i" d d p opts h i "fst x" "snd x"] by simp
qed


subsection \<open>The whole call\<close>

lemma validate_request_None: "validate_request p = None \<longleftrightarrow> p \<noteq> [] \<and> list_all valid_posting p"
  using validate_from_None [of 0 p] by (auto simp: validate_request_def Validate_def split: option.splits)

text \<open>A call that returns a transaction has passed the checks, and one of its attempts returned it.\<close>

lemma CommitTransaction_Inr:
  assumes "CommitTransaction envs s d p opts = (s', Inr (d', t))"
  obtains s1 h i where "p \<noteq> []" "list_all valid_posting p" "checkAssets s d p = (s1, None)"
    and "idempotencyHash p opts = Inr h" "i < maxAttempts" "s' = add_retries i s1"
    and "commitOnce s1 (envs i) d d p opts h i = Inr (d', t)"
    and "\<forall>j<i. \<exists>err. commitOnce s1 (envs j) d d p opts h j = Inl err \<and> retryable err"
proof -
  from assms obtain s1 h r where v: "validate_request p = None" and ca: "checkAssets s d p = (s1, None)"
    and h: "idempotencyHash p opts = Inr h"
    and loop: "retry_loop (ledger s1) envs (\<lambda>i. commitOnce s1 (envs i) d d p opts h i) maxAttempts 0 = (r, Inr (d', t))"
    and s': "s' = add_retries r s1"
    by (auto simp: CommitTransaction_def split: option.splits prod.splits sum.splits)
  from retry_loop_Inr [of "ledger s1" envs "\<lambda>i. commitOnce s1 (envs i) d d p opts h i" maxAttempts 0 "(d', t)"] loop
  obtain i where "i < maxAttempts" "commitOnce s1 (envs i) d d p opts h i = Inr (d', t)" "r = i"
    "\<forall>j<i. \<exists>err. commitOnce s1 (envs j) d d p opts h j = Inl err \<and> retryable err" by auto
  with v ca h s' show ?thesis by (intro that) (auto simp: validate_request_None)
qed

lemma CommitTransaction_keeps_book:
  assumes "CommitTransaction envs s d p opts = (s', Inr (d', t))" and "book_ok d"
  shows "book_ok d'"
proof -
  from assms(1) obtain s1 h i where "list_all valid_posting p"
    and "commitOnce s1 (envs i) d d p opts h i = Inr (d', t)" by (rule CommitTransaction_Inr)
  with commitOnce_keeps_book assms(2) valid_priced show ?thesis by blast
qed

text \<open>A key that no entry of the ledger carries is not a replay.\<close>

definition fresh_key :: "db \<Rightarrow> string \<Rightarrow> string \<Rightarrow> bool" where
  "fresh_key d l ik \<longleftrightarrow> ik = [] \<or> log_with_key d l ik = None"

lemma fresh_key_lookup: "fresh_key d l ik \<Longrightarrow> ik = [] \<or> findByIdempotencyKey l d ik h = Inr None"
  by (auto simp: fresh_key_def findByIdempotencyKey_def)

lemma CommitTransaction_effect:
  assumes ct: "CommitTransaction envs s d p opts = (s', Inr (d', t))"
    and inv: "book_ok d" and fresh: "fresh_key d (ledger s) (OIdempotencyKey opts)" and "\<not> ODryRun opts"
  obtains i h where "i < maxAttempts" "idempotencyHash p opts = Inr h" "commit_effect s (envs i) d p opts h d' t"
proof -
  from ct obtain s1 h i where v: "list_all valid_posting p" and ca: "checkAssets s d p = (s1, None)"
    and h: "idempotencyHash p opts = Inr h" "i < maxAttempts"
    and once: "commitOnce s1 (envs i) d d p opts h i = Inr (d', t)" by (rule CommitTransaction_Inr)
  have l: "ledger s1 = ledger s" using checkAssets_ledger [of s d p] ca by simp
  have wk: "well_keyed d" using inv by (simp add: book_ok_def)
  from once have "commit_effect s1 (envs i) d p opts h d' t"
  proof (cases rule: commitOnce_cases)
    case replay
    with fresh_key_lookup [OF fresh] show ?thesis by (auto simp: l)
  next
    case (dry d1 a d2)
    with assms(4) show ?thesis by simp
  next
    case (commit d1 a d2)
    then show ?thesis using commit_case_effect [OF commit(2-4) wk valid_priced [OF v]] by simp
  qed
  then have "commit_effect s (envs i) d p opts h d' t" by (simp add: commit_effect_def l)
  with h show ?thesis by (intro that)
qed

lemma commit_effect_volumes:
  assumes "commit_effect s e d p opts h d' t"
  shows "vol d' l k = (if l = ledger s then add_flow (vol d l k) (inflow (TPostings t) k) (outflow (TPostings t) k)
                       else vol d l k)"
    and "list_all2 resolved_as p (TPostings t)"
proof -
  from assms obtain d1 d2 a where ae: "apply_effect (ledger s) e p (apply_opts opts) d d1 t a"
    and av: "accounts_volumes d2 = accounts_volumes d1" and d': "d' = d2\<lparr>deferred := []\<rparr>"
    by (auto simp: commit_effect_def tx_logged_def)
  have "volumes_effect (ledger s) d d1 (TPostings t)" using ae by (simp add: apply_effect_def)
  from volumes_effect_vol [OF this, of l k]
  show "vol d' l k = (if l = ledger s then add_flow (vol d l k) (inflow (TPostings t) k) (outflow (TPostings t) k)
                       else vol d l k)"
    using vol_cong [OF av] by (simp add: d')
  show "list_all2 resolved_as p (TPostings t)" using ae by (simp add: apply_effect_def)
qed

lemma resolved_no_ceiling:
  assumes "list_all2 resolved_as p q" "\<not> HasUpTo p"
  shows "q = p"
  using assms by (induction rule: list_all2_induct) (auto simp: resolved_as_def split: if_splits)


subsection \<open>How a call can fail\<close>

text \<open>The refusals of a commit: the reasons \<open>business_error\<close> names, a key used with other inputs, a
  key or an instant the columns cannot hold, an entry under the key that is no transaction, and
  what the seam before COMMIT injects.\<close>

definition commit_refusal :: "Store \<Rightarrow> error \<Rightarrow> bool" where
  "commit_refusal s err \<longleftrightarrow>
     business_error err \<or> (\<exists>ik g w. err = ErrIdempotencyMismatch ik g w) \<or>
     err = PgError stringTooLong \<or> (\<exists>txt. err = ErrText txt) \<or> (\<exists>n. beforeCommit s n = Some err)"

lemma findByIdempotencyKey_fails:
  "findByIdempotencyKey l d ik h = Inl err \<Longrightarrow> commit_refusal s err"
  by (auto simp: findByIdempotencyKey_def commit_refusal_def split: option.splits if_splits)

lemma key_taken_found: "key_taken d l ik \<Longrightarrow> log_with_key d l ik \<noteq> None"
  by (auto simp: key_taken_def log_with_key_def list_ex_iff filter_empty_conv split: list.splits prod.splits)

lemma appendLog_fails:
  assumes err: "appendLog l t a ik h d1 = Inl err" and ae: "apply_effect l e p opts d d1 t a" and inv: "book_ok d"
  shows "commit_refusal s err \<or> (err = PgError uniqueViolation \<and> ik \<noteq> [] \<and> key_taken d l ik)"
proof -
  from ae obtain r where r: "map_of (ledgers d) l = Some r" and a: "logID a = last_log_id r + 1"
    and led: "ledgers d1 = AList.update l (r\<lparr>last_tx_id := last_tx_id r + 1, last_log_id := last_log_id r + 1\<rparr>) (ledgers d)"
    and mx: "last_tx_id r < max_bigint" "last_log_id r < max_bigint" and lg: "logs d1 = logs d"
    by (auto simp: apply_effect_def ledger_effect_def)
  have "(l, logID a) \<notin> set (keys (logs d))"
    using inv r a unfolding book_ok_def log_ok_def log_ids_ok_def by fastforce
  then have fresh: "map_of (logs d1) (l, logID a) = None" by (simp add: lg map_of_eq_None_iff)
  have "key_taken d1 l ik = key_taken d l ik" by (simp add: key_taken_def lg)
  then show ?thesis
    using err fresh led mx
    by (auto simp: appendLog_def appendLogEntry_def insertLog_def Let_def bindE_Inl_iff insert_log_row_def
        update_ledger_row_def commit_refusal_def split: if_splits option.splits)
qed

lemma commitOnce_fails:
  assumes err: "commitOnce s e d d p opts h n = Inl err" and inv: "book_ok d"
    and valid: "list_all valid_posting p" and reg: "assets_ok d (ledger s) p"
  shows "commit_refusal s err"
proof -
  let ?l = "ledger s" and ?ik = "OIdempotencyKey opts"
  have wk: "well_keyed d" using inv by (simp add: book_ok_def)
  show ?thesis
  proof (cases "replay_lookup ?l d ?ik h")
    case (Inl x)
    with err have "x = err" by (simp add: commitOnce_def)
    with Inl findByIdempotencyKey_fails show ?thesis by (auto simp: replay_lookup_def split: if_splits)
  next
    case (Inr existing)
    with err have none: "existing = None" by (cases existing) (auto simp: commitOnce_def)
    with Inr have look: "?ik \<noteq> [] \<Longrightarrow> findByIdempotencyKey ?l d ?ik h = Inr None"
      by (auto simp: replay_lookup_def split: if_splits)
    show ?thesis
    proof (cases "applyTransaction ?l e p (apply_opts opts) d")
      case (Inl x)
      with err Inr none have "x = err" by (simp add: commitOnce_def apply_opts_def)
      with Inl applyTransaction_fails [OF _ valid wk] reg show ?thesis
        by (auto simp: commit_refusal_def assets_ok_def)
    next
      case (Inr y)
      then obtain d1 t a where ap: "applyTransaction ?l e p (apply_opts opts) d = Inr (d1, t, a)" by (cases y) auto
      note ae = applyTransaction_effect [OF ap wk]
      show ?thesis
      proof (cases "appendLog ?l t a ?ik h d1")
        case (Inl x)
        note fl = appendLog_fails [OF this ae inv, of s]
        have "\<not> key_taken d ?l ?ik" if "?ik \<noteq> []"
          using look [OF that] key_taken_found [of d ?l ?ik]
          by (auto simp: findByIdempotencyKey_def split: option.splits if_splits)
        with fl have ref: "commit_refusal s x" by blast
        have "idempotencyRace ?l d ?ik h x = Inr None" using look by (auto simp: idempotencyRace_def)
        with err ap Inl \<open>replay_lookup ?l d ?ik h = Inr existing\<close> none have "x = err"
          by (simp add: commitOnce_def apply_opts_def)
        with ref show ?thesis by simp
      next
        case (Inr d2)
        have "conserved d2"
          using tx_logged_book_ok [OF appendLog_tx_logged [OF ap wk valid_priced [OF valid] Inr] inv]
          by (simp add: book_ok_def)
        with err ap Inr \<open>replay_lookup ?l d ?ik h = Inr existing\<close> none show ?thesis
          by (auto simp: commitOnce_def apply_opts_def commit_refusal_def conserved_commits
              split: option.splits if_splits)
      qed
    qed
  qed
qed


lemma CommitTransaction_fails:
  assumes err: "CommitTransaction envs s d p opts = (s', Inl err)" and inv: "book_ok d" and cs: "cache_sound s d"
  shows "validate_request p = Some err \<or> \<not> assets_ok d (ledger s) p \<or> idempotencyHash p opts = Inl err \<or>
         err = ErrGaveUp maxAttempts (ledger s) \<or> (\<exists>i. ctx_err (envs i) = Some err) \<or> commit_refusal s err"
proof (cases "validate_request p")
  case (Some x)
  with err show ?thesis by (simp add: CommitTransaction_def)
next
  case None
  then have valid: "list_all valid_posting p" by (simp add: validate_request_None)
  obtain s1 ca where c: "checkAssets s d p = (s1, ca)" by (cases "checkAssets s d p")
  have s1: "ledger s1 = ledger s" "beforeCommit s1 = beforeCommit s"
    using checkAssets_ledger [of s d p] checkAssets_other(2) [of s d p] c by simp_all
  show ?thesis
  proof (cases "assets_ok d (ledger s) p")
    case True
    with checkAssets_None_iff [OF cs, of p] c have "ca = None" by simp
    show ?thesis
    proof (cases "idempotencyHash p opts")
      case (Inl x)
      with err None c \<open>ca = None\<close> show ?thesis by (simp add: CommitTransaction_def)
    next
      case (Inr h)
      let ?once = "\<lambda>i. commitOnce s1 (envs i) d d p opts h i"
      have "snd (retry_loop (ledger s1) envs ?once maxAttempts 0) = Inl err"
        using err None c \<open>ca = None\<close> Inr by (auto simp: CommitTransaction_def split: prod.splits)
      from retry_loop_Inl [OF this] consider i where "?once i = Inl err" | i where "ctx_err (envs i) = Some err"
        | "err = ErrGaveUp maxAttempts (ledger s1)" by blast
      then show ?thesis
      proof cases
        case (1 i)
        have "assets_ok d (ledger s1) p" using True s1 by simp
        from commitOnce_fails [OF 1 inv valid this] s1 have "commit_refusal s err"
          by (simp add: commit_refusal_def)
        then show ?thesis by blast
      qed (use s1 in auto)
    qed
  qed simp
qed

subsection \<open>Replays and dry runs\<close>

lemma log_with_key_logs: "logs d' = logs d \<Longrightarrow> log_with_key d' l ik = log_with_key d l ik"
  by (simp add: log_with_key_def)

lemma log_with_key_append:
  assumes "logs d' = logs d @ [((l, i), row)]" "lg_key row = Some ik" "log_with_key d l ik = None"
  shows "log_with_key d' l ik = Some row"
proof -
  have "filter (\<lambda>((l', _), r). l' = l \<and> lg_key r = Some ik) (logs d) = []"
    using assms(3) by (auto simp: log_with_key_def split: list.splits)
  then show ?thesis using assms(1, 2) by (simp add: log_with_key_def)
qed

lemma log_with_key_stays:
  assumes "logs d' = logs d @ xs" "log_with_key d l ik = Some row"
  shows "log_with_key d' l ik = Some row"
  using assms by (auto simp: log_with_key_def split: list.splits)

lemma commit_effect_entry:
  assumes ce: "commit_effect s e d p opts h d' t" and fresh: "fresh_key d (ledger s) (OIdempotencyKey opts)"
    and ik: "OIdempotencyKey opts \<noteq> []"
  obtains row where "log_with_key d' (ledger s) (OIdempotencyKey opts) = Some row"
    and "lg_data row = TxData t" "lg_key_hash row = Some h"
proof -
  from ce obtain d1 d2 a where tl: "tx_logged (ledger s) d d1 d2 t a
      (entry_row a LogNewTransaction (TxData t) (InsertedAt t) (OIdempotencyKey opts) h)"
    and d': "d' = d2\<lparr>deferred := []\<rparr>" by (auto simp: commit_effect_def)
  then have "logs d' = logs d @ [((ledger s, logID a),
      entry_row a LogNewTransaction (TxData t) (InsertedAt t) (OIdempotencyKey opts) h)]"
    by (auto simp: tx_logged_def apply_effect_def)
  from log_with_key_append [OF this] fresh ik
  show ?thesis by (intro that) (auto simp: entry_row_def fresh_key_def)
qed

lemma CommitTransaction_first:
  assumes ok: "p \<noteq> []" "list_all valid_posting p" "assets_ok d (ledger s) p" "cache_sound s d"
    and h: "idempotencyHash p opts = Inr h"
    and once: "\<And>s1. ledger s1 = ledger s \<Longrightarrow> commitOnce s1 (envs 0) d d p opts h 0 = res"
    and "\<And>err. res = Inl err \<Longrightarrow> \<not> retryable err"
  shows "\<exists>s'. CommitTransaction envs s d p opts = (s', res)"
proof -
  obtain s1 where c: "checkAssets s d p = (s1, None)"
    using checkAssets_None_iff [OF ok(4), of p] ok(3) by (cases "checkAssets s d p") auto
  have "ledger s1 = ledger s" using checkAssets_ledger [of s d p] c by simp
  then have "commitOnce s1 (envs 0) d d p opts h 0 = res" by (rule once)
  moreover have "validate_request p = None" using ok by (simp add: validate_request_None)
  ultimately show ?thesis
    using c h assms(7) by (cases res) (simp_all add: CommitTransaction_def maxAttempts_def numeral_eq_Suc)
qed

text \<open>On any later state of the database, the same request is answered with the recorded
  transaction and changes nothing.\<close>

lemma CommitTransaction_replay:
  assumes row: "log_with_key d (ledger s) (OIdempotencyKey opts) = Some row"
    and data: "lg_data row = TxData t" "lg_key_hash row = Some h"
    and ik: "OIdempotencyKey opts \<noteq> []" and h: "idempotencyHash p opts = Inr h"
    and ok: "p \<noteq> []" "list_all valid_posting p" "assets_ok d (ledger s) p" "cache_sound s d"
  shows "\<exists>s'. CommitTransaction envs s d p opts = (s', Inr (d, json_roundtrip t))"
  by (rule CommitTransaction_first [OF ok h])
    (use row data ik in \<open>simp_all add: commitOnce_def replay_lookup_def findByIdempotencyKey_def\<close>)

lemma CommitTransaction_mismatch:
  assumes row: "log_with_key d (ledger s) (OIdempotencyKey opts) = Some row" "lg_key_hash row = Some g"
    and ik: "OIdempotencyKey opts \<noteq> []" and h: "idempotencyHash p opts = Inr h" "g \<noteq> h"
    and ok: "p \<noteq> []" "list_all valid_posting p" "assets_ok d (ledger s) p" "cache_sound s d"
  shows "\<exists>s'. CommitTransaction envs s d p opts = (s', Inl (ErrIdempotencyMismatch (OIdempotencyKey opts) g h))"
  by (rule CommitTransaction_first [OF ok h(1)])
    (use row ik h in \<open>simp_all add: commitOnce_def replay_lookup_def findByIdempotencyKey_def\<close>)

text \<open>A dry run is the same computation without the COMMIT, and COMMIT cannot fail.\<close>

lemma commitOnce_dry_run:
  assumes inv: "book_ok d" and pr: "priced p"
  shows "commitOnce s e seen d p (opts\<lparr>ODryRun := True\<rparr>) h n =
    map_sum id (\<lambda>(_, t). (d, t)) (commitOnce s e seen d p (opts\<lparr>ODryRun := False\<rparr>) h n)"
proof -
  have wk: "well_keyed d" using inv by (simp add: book_ok_def)
  have commits: "db_commit d2 = Inr (d2\<lparr>deferred := []\<rparr>)"
    if "applyTransaction (ledger s) e p ao d = Inr (d1, t, a)" "appendLog (ledger s) t a ik h d1 = Inr d2"
    for ao d1 t a ik d2
    using tx_logged_book_ok [OF appendLog_tx_logged [OF that(1) wk pr that(2)] inv]
    by (simp add: book_ok_def conserved_commits)
  show ?thesis
    by (simp add: commitOnce_def bindE_def commits split: sum.splits option.splits prod.splits)
qed

end
