(* ===== verification/Storage_Revert.thy ===== *)
theory Storage_Revert
  imports Storage_Commit_Props
begin

text \<open>
  Reverting (\<open>src/storage/revert.go\<close>): the inverse postings are applied as a transaction of their
  own, the original row is marked, and one log entry records both. A revert keeps the books,
  moves every amount back, and happens at most once.
\<close>

subsection \<open>Reading and marking a transaction\<close>

definition hydrateTransaction :: "int \<Rightarrow> tx_row \<Rightarrow> Transaction" where
  "hydrateTransaction i r =
     \<lparr>TxID = i, TPostings = tx_postings r, Timestamp = tx_timestamp r, InsertedAt = tx_inserted_at r,
      RevertedAt = tx_reverted_at r,
      TReference = (case tx_reference r of None \<Rightarrow> [] | Some ref \<Rightarrow> ref),
      TMetadata = Some (tx_metadata r), TPostCommitVolumes = tx_pc_volumes r\<rparr>"

definition lockTransaction :: "string \<Rightarrow> int \<Rightarrow> db \<Rightarrow> Transaction res" where
  "lockTransaction l i d =
     (case map_of (transactions d) (l, i) of
        None \<Rightarrow> Inl (ErrNotFound (json_int i))
      | Some r \<Rightarrow> Inr (hydrateTransaction i r))"

definition update_tx_row :: "string \<Rightarrow> int \<Rightarrow> (tx_row \<Rightarrow> tx_row) \<Rightarrow> db \<Rightarrow> db" where
  "update_tx_row l i f d =
     d\<lparr>transactions := map (\<lambda>(k, r). (k, if k = (l, i) then f r else r)) (transactions d)\<rparr>"

record RevertOptions =
  AtEffectiveDate :: bool

record Reversal =
  ROriginal :: Transaction
  RReversal :: Transaction

definition revertOnce :: "Store \<Rightarrow> env \<Rightarrow> db \<Rightarrow> int \<Rightarrow> RevertOptions \<Rightarrow> (db \<times> Reversal) res" where
  "revertOnce s e d i opts =
     bindE (lockTransaction (ledger s) i d) (\<lambda>original.
     case RevertedAt original of
       Some at \<Rightarrow> Inl (ErrAlreadyReverted i at)
     | None \<Rightarrow>
         let timestamp = (if AtEffectiveDate opts then Timestamp original else go_now e)
         in bindE (Reverse (TPostings original)) (\<lambda>inverse.
            bindE (applyTransaction (ledger s) e inverse
                     \<lparr>ATimestamp = timestamp, AReference = [],
                      AMetadata = Some [(RevertsKey, json_int i)]\<rparr> d) (\<lambda>(d1, reversal, alloc).
            let revertedAt = Timestamp reversal;
                d2 = update_tx_row (ledger s) i (\<lambda>r. r\<lparr>tx_reverted_at := Some revertedAt\<rparr>) d1
            in bindE (appendLogEntry (ledger s) alloc LogRevertedTransaction
                        (RevertedData \<lparr>RevertedTransactionID = i, RevTransaction = Some reversal\<rparr>)
                        (InsertedAt reversal) [] [] d2) (\<lambda>d3.
               bindE (db_commit d3) (\<lambda>d4.
                 Inr (d4, \<lparr>ROriginal = original\<lparr>RevertedAt := Some revertedAt\<rparr>,
                           RReversal = reversal\<rparr>))))))"

definition RevertTransaction ::
  "(nat \<Rightarrow> env) \<Rightarrow> Store \<Rightarrow> db \<Rightarrow> int \<Rightarrow> RevertOptions \<Rightarrow> Store \<times> (db \<times> Reversal) res" where
  "RevertTransaction envs s d i opts =
     (case retry_loop (ledger s) envs (\<lambda>n. revertOnce s (envs n) d i opts) maxAttempts 0 of
        (r, res) \<Rightarrow> (add_retries r s, res))"

subsection \<open>What a revert does\<close>

lemma keys_update_tx_row [simp]: "keys (transactions (update_tx_row l i f d)) = keys (transactions d)"
  by (simp add: update_tx_row_def case_prod_unfold comp_def)

lemma map_of_update_tx_row:
  "map_of (transactions (update_tx_row l i f d)) k =
     (if k = (l, i) then map_option f (map_of (transactions d) k) else map_of (transactions d) k)"
proof -
  have "map_of (map (\<lambda>(k, r). (k, if k = (l, i) then f r else r)) t) k =
     (if k = (l, i) then map_option f (map_of t k) else map_of t k)" for t
    by (induction t) auto
  then show ?thesis by (simp add: update_tx_row_def)
qed

lemma update_tx_row_frame [simp]:
  "ledgers (update_tx_row l i f d) = ledgers d" "assets (update_tx_row l i f d) = assets d"
  "accounts (update_tx_row l i f d) = accounts d" "accounts_volumes (update_tx_row l i f d) = accounts_volumes d"
  "moves (update_tx_row l i f d) = moves d" "next_seq (update_tx_row l i f d) = next_seq d"
  "logs (update_tx_row l i f d) = logs d" "verification_runs (update_tx_row l i f d) = verification_runs d"
  "deferred (update_tx_row l i f d) = deferred d"
  by (simp_all add: update_tx_row_def)

definition revert_effect :: "Store \<Rightarrow> env \<Rightarrow> db \<Rightarrow> int \<Rightarrow> RevertOptions \<Rightarrow> db \<Rightarrow> Reversal \<Rightarrow> bool" where
  "revert_effect s e d i opts d' rv \<longleftrightarrow>
     (\<exists>r inverse ts d1 d3 a row.
        map_of (transactions d) (ledger s, i) = Some r \<and> tx_reverted_at r = None \<and>
        Reverse (tx_postings r) = Inr inverse \<and>
        apply_effect (ledger s) e inverse \<lparr>ATimestamp = ts, AReference = [],
          AMetadata = Some [(RevertsKey, json_int i)]\<rparr> d d1 (RReversal rv) a \<and>
        tx_logged (ledger s) d d1 d3 (RReversal rv) a row \<and>
        transactions d3 = transactions (update_tx_row (ledger s) i
          (\<lambda>r. r\<lparr>tx_reverted_at := Some (Timestamp (RReversal rv))\<rparr>) d1) \<and>
        ROriginal rv = (hydrateTransaction i r)\<lparr>RevertedAt := Some (Timestamp (RReversal rv))\<rparr> \<and>
        d' = d3\<lparr>deferred := []\<rparr>)"

lemma Reverse_priced: "Reverse ps = Inr qs \<Longrightarrow> priced qs"
  by (auto simp: Reverse_eq priced_def)

lemma revertOnce_effect:
  assumes "revertOnce s e d i opts = Inr (d', rv)" and wk: "well_keyed d"
  shows "revert_effect s e d i opts d' rv"
proof -
  let ?l = "ledger s"
  from assms(1) obtain original where lk: "lockTransaction ?l i d = Inr original"
    by (auto simp: revertOnce_def bindE_Inr_iff)
  then obtain r where r: "map_of (transactions d) (?l, i) = Some r" and o: "original = hydrateTransaction i r"
    by (auto simp: lockTransaction_def split: option.splits)
  from assms(1) lk have none: "RevertedAt original = None"
    by (auto simp: revertOnce_def split: option.splits)
  define ts where "ts = (if AtEffectiveDate opts then Timestamp original else go_now e)"
  from assms(1) lk none obtain inverse d1 rev a d3 where
    rv: "Reverse (TPostings original) = Inr inverse"
    and ap: "applyTransaction ?l e inverse \<lparr>ATimestamp = ts, AReference = [],
          AMetadata = Some [(RevertsKey, json_int i)]\<rparr> d = Inr (d1, rev, a)"
    and lg: "appendLogEntry ?l a LogRevertedTransaction
        (RevertedData \<lparr>RevertedTransactionID = i, RevTransaction = Some rev\<rparr>) (InsertedAt rev) [] []
        (update_tx_row ?l i (\<lambda>r. r\<lparr>tx_reverted_at := Some (Timestamp rev)\<rparr>) d1) = Inr d3"
    and cm: "db_commit d3 = Inr d'"
    and res: "rv = \<lparr>ROriginal = original\<lparr>RevertedAt := Some (Timestamp rev)\<rparr>, RReversal = rev\<rparr>"
    by (auto simp: revertOnce_def bindE_Inr_iff Let_def ts_def)
  note ae = applyTransaction_effect [OF ap wk]
  from ae obtain lr where lr: "map_of (ledgers d1) ?l = Some lr"
    by (auto simp: apply_effect_def ledger_effect_def)
  note d3 = appendLogEntry_Inr(1) [OF lg, simplified, OF lr]
  let ?row = "entry_row a LogRevertedTransaction
        (RevertedData \<lparr>RevertedTransactionID = i, RevTransaction = Some rev\<rparr>) (InsertedAt rev) [] []"
  have tl: "tx_logged ?l d d1 d3 rev a ?row"
    unfolding tx_logged_def using ae Reverse_priced [OF rv] lr
    by (auto simp: d3 entry_row_def log_tx.simps json_roundtrip_def map_of_update_tx_row option.map_comp comp_def tx_fixed_def [abs_def])
  have "transactions d3 = transactions (update_tx_row ?l i (\<lambda>r. r\<lparr>tx_reverted_at := Some (Timestamp rev)\<rparr>) d1)"
    by (simp add: d3)
  moreover have "Reverse (tx_postings r) = Inr inverse" "tx_reverted_at r = None"
    using rv none by (simp_all add: o hydrateTransaction_def)
  ultimately show ?thesis
    unfolding revert_effect_def using r ae tl cm
    by (intro exI [of _ r] exI [of _ inverse] exI [of _ ts] exI [of _ d1] exI [of _ d3] exI [of _ a] exI [of _ ?row])
      (simp add: res o db_commit_Inr)
qed

lemma revertOnce_keeps_book:
  assumes "revertOnce s e d i opts = Inr (d', rv)" and "book_ok d"
  shows "book_ok d'"
proof -
  have "well_keyed d" using assms(2) by (simp add: book_ok_def)
  from revertOnce_effect [OF assms(1) this] tx_logged_book_ok [OF _ assms(2)]
  show ?thesis by (auto simp: revert_effect_def)
qed


text \<open>The reversal moves every amount back, and the original is marked.\<close>

lemma revert_effect_volumes:
  assumes "revert_effect s e d i opts d' rv" and "map_of (transactions d) (ledger s, i) = Some r"
  shows "vol d' l k = (if l = ledger s then add_flow (vol d l k) (outflow (tx_postings r) k) (inflow (tx_postings r) k)
                       else vol d l k)"
proof -
  from assms obtain inverse ts d1 d3 a where rv: "Reverse (tx_postings r) = Inr inverse"
    and ae: "apply_effect (ledger s) e inverse \<lparr>ATimestamp = ts, AReference = [],
          AMetadata = Some [(RevertsKey, json_int i)]\<rparr> d d1 (RReversal rv) a"
    and av: "accounts_volumes d3 = accounts_volumes d1" and d': "d' = d3\<lparr>deferred := []\<rparr>"
    by (auto simp: revert_effect_def tx_logged_def)
  have up: "\<not> HasUpTo inverse" using rv by (auto simp: Reverse_eq HasUpTo_iff)
  have "volumes_effect (ledger s) d d1 (TPostings (RReversal rv))" "list_all2 resolved_as inverse (TPostings (RReversal rv))"
    using ae by (simp_all add: apply_effect_def)
  with resolved_no_ceiling up have "volumes_effect (ledger s) d d1 inverse" by metis
  from volumes_effect_vol [OF this, of l k] Reverse_flow [OF rv, of k] vol_cong [OF av]
  show ?thesis by (simp add: d')
qed

lemma revert_effect_marks:
  assumes "revert_effect s e d i opts d' rv" and "map_of (transactions d) (ledger s, i) = Some r"
  shows "map_of (transactions d') (ledger s, i) = Some (r\<lparr>tx_reverted_at := Some (Timestamp (RReversal rv))\<rparr>)"
proof -
  from assms obtain e' p' o' d1 d3 a where ae: "apply_effect (ledger s) e' p' o' d d1 (RReversal rv) a"
    and tx: "transactions d3 = transactions (update_tx_row (ledger s) i
          (\<lambda>r. r\<lparr>tx_reverted_at := Some (Timestamp (RReversal rv))\<rparr>) d1)" and d': "d' = d3\<lparr>deferred := []\<rparr>"
    by (auto simp: revert_effect_def)
  have "transactions d1 = transactions d @ [((ledger s, TxID (RReversal rv)), row_of_transaction e' (RReversal rv))]"
    using ae by (simp add: apply_effect_def)
  then have "map_of (transactions d1) (ledger s, i) = Some r" using assms(2) by simp
  with tx d' show ?thesis by (simp add: map_of_update_tx_row)
qed

interpretation revert_loop: retried "\<lambda>n. revertOnce s (envs n) d i opts"
    "\<lambda>x. \<exists>e. revertOnce s e d i opts = Inr x"
  for s envs d i opts
  by unfold_locales blast

lemma RevertTransaction_once:
  assumes "RevertTransaction envs s d i opts = (s', Inr x)"
  obtains e where "revertOnce s e d i opts = Inr x"
  using assms revert_loop.loop [of "ledger s" envs s envs d i opts maxAttempts 0 x]
  by (auto simp: RevertTransaction_def split: prod.splits)

lemma RevertTransaction_already:
  assumes "map_of (transactions d) (ledger s, i) = Some r" "tx_reverted_at r = Some at"
  shows "RevertTransaction envs s d i opts = (s, Inl (ErrAlreadyReverted i at))"
  using assms
  by (simp add: RevertTransaction_def maxAttempts_def numeral_eq_Suc revertOnce_def lockTransaction_def
      hydrateTransaction_def add_retries_def)

lemma RevertTransaction_missing:
  assumes "map_of (transactions d) (ledger s, i) = None"
  shows "RevertTransaction envs s d i opts = (s, Inl (ErrNotFound (json_int i)))"
  using assms
  by (simp add: RevertTransaction_def maxAttempts_def numeral_eq_Suc revertOnce_def lockTransaction_def
      add_retries_def)

end
