(* ===== verification/Storage_Read.thy ===== *)
theory Storage_Read
  imports Storage_Revert
begin

text \<open>
  The read path (\<open>src/storage/read.go\<close>, \<open>src/storage/page.go\<close>, \<open>src/storage/statement.go\<close> and the
  reads of \<open>src/storage/effective.go\<close>): balances, aggregates, accounts, and the three paged lists.
  The lists share one contract, stated as the locale \<open>keyset\<close> and interpreted for transactions,
  log entries and moves: following the cursors returns every row exactly once, in order, while
  rows are appended between the pages.
\<close>

subsection \<open>LIKE\<close>

text \<open>The pattern language of SQL's \<open>LIKE\<close>: any sequence, any one character, the escape.\<close>

fun like :: "string \<Rightarrow> string \<Rightarrow> bool" where
  "like [] s = (s = [])"
| "like (p # ps) [] = (p = CHR ''%'' \<and> like ps [])"
| "like (p # ps) (c # s) =
     (if p = CHR ''%'' then like ps (c # s) \<or> like (p # ps) s
      else if p = CHR ''_'' then like ps s
      else if p = CHR 0x5C then (case ps of [] \<Rightarrow> False | q # ps' \<Rightarrow> q = c \<and> like ps' s)
      else p = c \<and> like ps s)"

definition under_prefix :: "string \<Rightarrow> string \<Rightarrow> bool" where
  "under_prefix prefix a \<longleftrightarrow> prefix = [] \<or> like (prefix @ ''%'') a"

definition literal_char :: "char \<Rightarrow> bool" where
  "literal_char c \<longleftrightarrow> c \<noteq> CHR ''%'' \<and> c \<noteq> CHR ''_'' \<and> c \<noteq> CHR 0x5C"

lemma like_percent: "like ''%'' s"
  by (induction s) auto

lemma like_literal:
  "list_all literal_char prefix \<Longrightarrow> like (prefix @ ''%'') s \<longleftrightarrow> take (length prefix) s = prefix"
proof (induction prefix arbitrary: s)
  case Nil
  then show ?case using like_percent by simp
next
  case (Cons c prefix)
  then show ?case by (cases s) (auto simp: literal_char_def)
qed

subsection \<open>Single reads\<close>

definition account_rows :: "db \<Rightarrow> string \<Rightarrow> Address \<Rightarrow> (Asset \<times> volume_row) list" where
  "account_rows d l a =
     sort_key fst (map (\<lambda>((_, _, s), r). (s, r))
       (filter (\<lambda>((l', a', _), _). l' = l \<and> a' = a) (accounts_volumes d)))"

definition GetBalances :: "Store \<Rightarrow> db \<Rightarrow> Address \<Rightarrow> (Asset, int) table" where
  "GetBalances s d a = map (\<lambda>(x, r). (x, vr_input r - vr_output r)) (account_rows d (ledger s) a)"

definition GetVolumes :: "Store \<Rightarrow> db \<Rightarrow> Address \<Rightarrow> (Asset, Volumes) table" where
  "GetVolumes s d a =
     map (\<lambda>(x, r). (x, \<lparr>Input = vr_input r, Output = vr_output r\<rparr>)) (account_rows d (ledger s) a)"

text \<open>\<open>group by asset order by asset\<close>: one entry per asset that has a row under the prefix.\<close>

definition AggregateBalances :: "Store \<Rightarrow> db \<Rightarrow> string \<Rightarrow> (Asset, int) table" where
  "AggregateBalances s d prefix =
     (let rows = filter (\<lambda>((l, a, _), _). l = ledger s \<and> under_prefix prefix a) (accounts_volumes d);
          assets = sort (remdups (map (\<lambda>((_, _, x), _). x) rows))
      in map (\<lambda>x. (x, tab_sum (row_net (ledger s) x) rows)) assets)"

definition effective_reads :: "Store \<Rightarrow> db \<Rightarrow> Address \<Rightarrow> time \<Rightarrow> (Asset, Volumes) table" where
  "effective_reads s d a at =
     (let ms = filter (\<lambda>m. mv_ledger m = ledger s \<and> fst (mv_key m) = a \<and> mv_effective_date m \<le> at) (moves d);
          assets = sort (remdups (map (\<lambda>m. snd (mv_key m)) ms))
      in map (\<lambda>x. (x, effective_volume_at (ledger s) (a, x) at d)) assets)"

definition GetEffectiveVolumesAt :: "Store \<Rightarrow> db \<Rightarrow> Address \<Rightarrow> time \<Rightarrow> (Asset, Volumes) table" where
  "GetEffectiveVolumesAt s d a at = effective_reads s d a at"

definition GetBalancesAt :: "Store \<Rightarrow> db \<Rightarrow> Address \<Rightarrow> time \<Rightarrow> (Asset, int) table" where
  "GetBalancesAt s d a at = map (\<lambda>(x, v). (x, Balance v)) (effective_reads s d a at)"

record accountOptions =
  ao_volumes :: bool
  ao_effectiveVolumes :: bool
  ao_at :: time

definition no_account_options :: accountOptions where
  "no_account_options = \<lparr>ao_volumes = False, ao_effectiveVolumes = False, ao_at = 0\<rparr>"

definition WithVolumes :: "accountOptions \<Rightarrow> accountOptions" where
  "WithVolumes o1 = o1\<lparr>ao_volumes := True\<rparr>"

definition WithEffectiveVolumes :: "time \<Rightarrow> accountOptions \<Rightarrow> accountOptions" where
  "WithEffectiveVolumes at o1 = o1\<lparr>ao_effectiveVolumes := True, ao_at := at\<rparr>"

definition GetAccount ::
  "env \<Rightarrow> Store \<Rightarrow> db \<Rightarrow> Address \<Rightarrow> (accountOptions \<Rightarrow> accountOptions) list \<Rightarrow> GAccount res" where
  "GetAccount e s d a opts =
     (let o1 = fold (\<lambda>f. f) opts no_account_options
      in case map_of (accounts d) (ledger s, a) of
           None \<Rightarrow> Inl (ErrNotFound a)
         | Some r \<Rightarrow>
             Inr \<lparr>GAddress = a, GMetadata = acc_metadata r, FirstUsage = first_usage r,
                  InsertionDate = insertion_date r, UpdatedAt = updated_at r,
                  GVolumes = (if ao_volumes o1 then Some (GetVolumes s d a) else None),
                  GEffectiveVolumes =
                    (if ao_effectiveVolumes o1
                     then Some (GetEffectiveVolumesAt s d a (if ao_at o1 = 0 then go_now e else ao_at o1))
                     else None)\<rparr>)"


subsection \<open>Pages\<close>

definition DefaultPageSize :: int where "DefaultPageSize = 25"
definition MaxPageSize :: int where "MaxPageSize = 100"

definition clampLimit :: "int \<Rightarrow> int" where
  "clampLimit n = (if n \<le> 0 then DefaultPageSize else if n > MaxPageSize then MaxPageSize else n)"

text \<open>The text of a cursor is opaque to callers: none, bytes that are not base64, base64 that is
  not a cursor's JSON, or the text of a cursor, which \<open>encodeCursor\<close> wrote.\<close>

record 'f cursor =
  CFilter :: 'f
  After :: int
  CLimit :: int
  AfterDate :: "time option"

datatype 'f cursor_text = NoCursor | NotBase64 | NotJson | CursorText "'f cursor"

record ('a, 'f) Page =
  Items :: "'a list"
  Next :: "'f cursor_text"

definition encodeCursor :: "'f cursor \<Rightarrow> 'f cursor_text" where
  "encodeCursor c = CursorText c"

definition decodeCursor :: "'f cursor_text \<Rightarrow> 'f cursor res" where
  "decodeCursor t =
     (case t of
        CursorText c \<Rightarrow>
          if CLimit c \<le> 0 \<or> CLimit c > MaxPageSize then Inl (ErrInvalidCursor ''bad limit'') else Inr c
      | NotBase64 \<Rightarrow> Inl (ErrInvalidCursor ''not valid base64'')
      | _ \<Rightarrow> Inl (ErrInvalidCursor ''not a valid cursor''))"

definition start_cursor :: "'f \<Rightarrow> int \<Rightarrow> 'f cursor_text \<Rightarrow> 'f cursor res" where
  "start_cursor f limit t =
     (if t = NoCursor then Inr \<lparr>CFilter = f, After = 0, CLimit = clampLimit limit, AfterDate = None\<rparr>
      else decodeCursor t)"

text \<open>Trim the extra row and continue after the last item returned.\<close>

definition finish_at ::
  "'f cursor \<Rightarrow> ('a \<Rightarrow> int) \<Rightarrow> ('a \<Rightarrow> time option) \<Rightarrow> 'a list \<Rightarrow> ('a, 'f) Page" where
  "finish_at c ident date items =
     (if int (length items) \<le> CLimit c then \<lparr>Items = items, Next = NoCursor\<rparr>
      else let shown = take (nat (CLimit c)) items
           in \<lparr>Items = shown,
               Next = encodeCursor \<lparr>CFilter = CFilter c, After = ident (last shown), CLimit = CLimit c,
                           AfterDate = date (last shown)\<rparr>\<rparr>)"

definition finish :: "'f cursor \<Rightarrow> ('a \<Rightarrow> int) \<Rightarrow> 'a list \<Rightarrow> ('a, 'f) Page" where
  "finish c ident items = finish_at c ident (\<lambda>_. None) items"

text \<open>The rows a query returns: those beyond the cursor, one more than the page holds.\<close>

definition fetch_rows :: "'f cursor \<Rightarrow> ('a \<Rightarrow> bool) \<Rightarrow> 'a list \<Rightarrow> 'a list" where
  "fetch_rows c beyond rows = take (nat (CLimit c + 1)) (filter beyond rows)"

text \<open>A client following the cursors: page \<open>i\<close> is read from the database as it is then, for at
  most \<open>n\<close> pages. It returns the items, and which page was the last.\<close>

fun follow :: "(nat \<Rightarrow> 'f cursor_text \<Rightarrow> ('a, 'f) Page res) \<Rightarrow> nat \<Rightarrow> nat \<Rightarrow> 'f cursor_text \<Rightarrow> ('a list \<times> nat) option" where
  "follow fetch 0 i t = None"
| "follow fetch (Suc n) i t =
     (case fetch i t of
        Inl _ \<Rightarrow> None
      | Inr p \<Rightarrow>
          if Next p = NoCursor then Some (Items p, i)
          else (case follow fetch n (Suc i) (Next p) of
                  None \<Rightarrow> None
                | Some (xs, k) \<Rightarrow> Some (Items p @ xs, k)))"

subsection \<open>Keyset pagination\<close>

text \<open>
  What makes a walk complete: rows in strictly ascending order of a position, a query that
  returns the first rows beyond a position, a cursor that resumes after the last row shown,
  and a table in which rows only ever appear behind the ones already there.
\<close>

locale keyset =
  fixes inv :: bool and rows :: "nat \<Rightarrow> 'f \<Rightarrow> 'a list" and pos :: "'a \<Rightarrow> 'k::linorder"
    and beyond :: "'f cursor \<Rightarrow> 'a \<Rightarrow> bool" and ident :: "'a \<Rightarrow> int" and date :: "'a \<Rightarrow> time option"
    and fetch :: "nat \<Rightarrow> 'f cursor_text \<Rightarrow> ('a, 'f) Page res" and start :: "'f cursor"
  assumes ordered: "inv \<Longrightarrow> sorted_wrt (<) (map pos (rows i f))"
    and grows: "inv \<Longrightarrow> \<exists>zs. map pos (rows (Suc i) f) = map pos (rows i f) @ zs"
    and resumes: "inv \<Longrightarrow> x \<in> set (rows i f) \<Longrightarrow> y \<in> set (rows j f) \<Longrightarrow>
      beyond \<lparr>CFilter = f, After = ident x, CLimit = n, AfterDate = date x\<rparr> y \<longleftrightarrow> pos x < pos y"
    and fetches: "decodeCursor t = Inr c \<Longrightarrow>
      fetch i t = Inr (finish_at c ident date (fetch_rows c (beyond c) (rows i (CFilter c))))"
    and starts: "fetch i NoCursor = fetch i (encodeCursor start)"
    and start_ok: "decodeCursor (encodeCursor start) = Inr start"
    and start_all: "inv \<Longrightarrow> x \<in> set (rows i (CFilter start)) \<Longrightarrow> beyond start x"
begin

lemma rest_after:
  assumes "sorted_wrt (<) (map pos xs)" "map pos xs = E @ R" "E \<noteq> []"
    and "\<And>y. y \<in> set xs \<Longrightarrow> P y \<longleftrightarrow> last E < pos y"
  shows "map pos (filter P xs) = R"
proof -
  have "map pos (filter P xs) = map pos (filter ((\<lambda>q. last E < q) \<circ> pos) xs)"
    using assms(4) by (intro arg_cong [of _ _ "map pos"] filter_cong) auto
  also have "\<dots> = filter (\<lambda>q. last E < q) (E @ R)" by (simp only: filter_map [symmetric] assms(2))
  also have "\<dots> = R"
  proof -
    have sw: "sorted_wrt (<) ((butlast E @ [last E]) @ R)" using assms(1-3) by simp
    then have "\<forall>q\<in>set (butlast E @ [last E]). \<not> last E < q" "\<forall>q\<in>set R. last E < q"
      by (auto simp: sorted_wrt_append)
    then show ?thesis using assms(3) by (simp add: filter_id_conv filter_empty_conv)
  qed
  finally show ?thesis .
qed

lemma page_step:
  assumes inv and dec: "decodeCursor t = Inr c"
    and at: "map pos (rows i (CFilter c)) = E @ map pos (filter (beyond c) (rows i (CFilter c)))"
  shows "\<exists>p. fetch i t = Inr p \<and>
    (Next p = NoCursor \<and> E @ map pos (Items p) = map pos (rows i (CFilter c)) \<or>
     (\<exists>c'. Next p = CursorText c' \<and> decodeCursor (Next p) = Inr c' \<and> CFilter c' = CFilter c \<and> Items p \<noteq> [] \<and>
        map pos (rows (Suc i) (CFilter c)) =
          (E @ map pos (Items p)) @ map pos (filter (beyond c') (rows (Suc i) (CFilter c)))))"
proof -
  let ?f = "CFilter c" and ?n = "nat (CLimit c)"
  let ?r = "filter (beyond c) (rows i ?f)" let ?p = "finish_at c ident date (take (Suc ?n) ?r)"
  have lim: "0 < CLimit c" "CLimit c \<le> MaxPageSize"
    using dec by (auto simp: decodeCursor_def split: cursor_text.splits if_splits)
  have ft: "fetch i t = Inr ?p"
    using lim by (simp add: fetches [OF dec] fetch_rows_def nat_add_distrib)
  show ?thesis
  proof (cases "length ?r \<le> ?n")
    case True
    then have "int (length ?r) \<le> CLimit c" "take (Suc ?n) ?r = ?r" using lim by auto
    then have "?p = \<lparr>Items = ?r, Next = NoCursor\<rparr>" by (simp only: finish_at_def if_True)
    then show ?thesis using at ft by (intro exI [of _ ?p] conjI disjI1) (simp_all only: Page.simps at [symmetric])
  next
    case False
    let ?shown = "take ?n ?r" let ?x = "last ?shown"
    let ?c' = "\<lparr>CFilter = ?f, After = ident ?x, CLimit = CLimit c, AfterDate = date ?x\<rparr>"
    have ne: "?shown \<noteq> []" using False lim by auto
    then have x: "?x \<in> set (rows i ?f)" by (meson filter_is_subset in_set_takeD last_in_set subsetD)
    have pg: "Items ?p = ?shown" "Next ?p = CursorText ?c'"
      using False lim by (simp_all add: finish_at_def encodeCursor_def Let_def)
    obtain zs where zs: "map pos (rows (Suc i) ?f) = map pos (rows i ?f) @ zs"
      using grows [OF assms(1)] by blast
    have tk: "map pos ?r = map pos ?shown @ map pos (drop ?n ?r)"
      by (metis append_take_drop_id map_append)
    have split: "map pos (rows (Suc i) ?f) = (E @ map pos ?shown) @ map pos (drop ?n ?r) @ zs"
      using trans [OF at arg_cong [OF tk, of "append E"]] by (simp only: zs append_assoc)
    have "map pos (filter (beyond ?c') (rows (Suc i) ?f)) = map pos (drop ?n ?r) @ zs"
      using ne by (intro rest_after [OF ordered [OF assms(1)] split]) (simp_all add: last_map resumes [OF assms(1) x])
    with split have "map pos (rows (Suc i) ?f) = (E @ map pos ?shown) @ map pos (filter (beyond ?c') (rows (Suc i) ?f))"
      by simp
    moreover have "decodeCursor (CursorText ?c') = Inr ?c'" using lim by (simp add: decodeCursor_def)
    ultimately show ?thesis
      using ft pg ne by (intro exI [of _ ?p] conjI disjI2 exI [of _ ?c']) simp_all
  qed
qed

lemma follow_from:
  assumes inv and dec: "decodeCursor t = Inr c"
    and "map pos (rows i (CFilter c)) = E @ map pos (filter (beyond c) (rows i (CFilter c)))"
    and bound: "\<And>j. length (rows j (CFilter c)) < n + length E"
  shows "\<exists>xs k. follow fetch n i t = Some (xs, k) \<and> E @ map pos xs = map pos (rows k (CFilter c))"
  using assms(2-4)
proof (induction n arbitrary: t c i E)
  case 0
  from arg_cong [OF 0(2), of length] 0(3) [of i] show ?case by simp
next
  case (Suc n)
  from page_step [OF assms(1) Suc.prems(1, 2)] obtain p where p: "fetch i t = Inr p" and
    "Next p = NoCursor \<and> E @ map pos (Items p) = map pos (rows i (CFilter c)) \<or>
     (\<exists>c'. Next p = CursorText c' \<and> decodeCursor (Next p) = Inr c' \<and> CFilter c' = CFilter c \<and> Items p \<noteq> [] \<and>
        map pos (rows (Suc i) (CFilter c)) =
          (E @ map pos (Items p)) @ map pos (filter (beyond c') (rows (Suc i) (CFilter c))))" by blast
  then consider (last) "Next p = NoCursor" "E @ map pos (Items p) = map pos (rows i (CFilter c))"
    | (more) c' where "Next p = CursorText c'" "decodeCursor (Next p) = Inr c'" "CFilter c' = CFilter c" "Items p \<noteq> []"
      "map pos (rows (Suc i) (CFilter c)) =
          (E @ map pos (Items p)) @ map pos (filter (beyond c') (rows (Suc i) (CFilter c)))" by blast
  then show ?case
  proof cases
    case last
    then show ?thesis using p by simp
  next
    case more
    have "length (rows j (CFilter c')) < n + length (E @ map pos (Items p))" for j
      using Suc.prems(3) [of j] more(3, 4) by (cases "Items p") auto
    from Suc.IH [OF more(2) _ this, of "Suc i"] more(3, 5) obtain xs k
      where "follow fetch n (Suc i) (Next p) = Some (xs, k)"
        "(E @ map pos (Items p)) @ map pos xs = map pos (rows k (CFilter c))" by auto
    with p more(1) show ?thesis by auto
  qed
qed

text \<open>A walk from the start terminates and returns, in order and exactly once, every row there is
  when its last page is read.\<close>

lemma follow_complete:
  assumes inv and "\<And>j. length (rows j (CFilter start)) \<le> n"
  shows "\<exists>xs k. follow fetch (Suc n) 0 NoCursor = Some (xs, k) \<and> map pos xs = map pos (rows k (CFilter start))"
proof -
  have "filter (beyond start) (rows 0 (CFilter start)) = rows 0 (CFilter start)"
    using start_all [OF assms(1)] by (simp add: filter_id_conv)
  then have "\<exists>xs k. follow fetch (Suc n) 0 (encodeCursor start) = Some (xs, k) \<and>
      [] @ map pos xs = map pos (rows k (CFilter start))"
    using assms(2) by (intro follow_from [OF assms(1) start_ok]) (auto simp: less_Suc_eq_le)
  then show ?thesis by (simp add: starts)
qed

end

subsection \<open>Lists\<close>

definition GetTransaction :: "Store \<Rightarrow> db \<Rightarrow> int \<Rightarrow> Transaction res" where
  "GetTransaction s d i =
     (case map_of (transactions d) (ledger s, i) of
        None \<Rightarrow> Inl (ErrNotFound (json_int i))
      | Some r \<Rightarrow> Inr (hydrateTransaction i r))"

record TransactionFilter =
  FAccount :: Address
  FAccountPrefix :: string
  FReference :: string

record ListTransactionsQuery =
  TQFilter :: TransactionFilter
  TQLimit :: int
  TQCursor :: "TransactionFilter cursor_text"

text \<open>The rows of one ledger's table in the order of their ids.\<close>

definition ledger_txs :: "db \<Rightarrow> string \<Rightarrow> (int \<times> tx_row) list" where
  "ledger_txs d l =
     sort_key fst (map (\<lambda>((_, i), r). (i, r)) (filter (\<lambda>((l', _), _). l' = l) (transactions d)))"

definition tx_matches :: "TransactionFilter \<Rightarrow> int \<times> tx_row \<Rightarrow> bool" where
  "tx_matches f x \<longleftrightarrow>
     (FAccount f = [] \<or> FAccount f \<in> set (tx_sources (snd x)) \<or> FAccount f \<in> set (tx_destinations (snd x))) \<and>
     (FAccountPrefix f = [] \<or>
      list_ex (like (FAccountPrefix f @ ''%'')) (tx_sources (snd x) @ tx_destinations (snd x))) \<and>
     (FReference f = [] \<or> tx_reference (snd x) = Some (FReference f))"

definition matching_txs :: "Store \<Rightarrow> db \<Rightarrow> TransactionFilter \<Rightarrow> Transaction list" where
  "matching_txs s d f =
     map (\<lambda>(i, r). hydrateTransaction i r) (filter (tx_matches f) (ledger_txs d (ledger s)))"

definition after_id :: "('a \<Rightarrow> int) \<Rightarrow> 'f cursor \<Rightarrow> 'a \<Rightarrow> bool" where
  "after_id ident c x \<longleftrightarrow> After c = 0 \<or> ident x > After c"

definition ListTransactions ::
  "Store \<Rightarrow> db \<Rightarrow> ListTransactionsQuery \<Rightarrow> (Transaction, TransactionFilter) Page res" where
  "ListTransactions s d q =
     bindE (start_cursor (TQFilter q) (TQLimit q) (TQCursor q)) (\<lambda>c.
       Inr (finish c TxID (fetch_rows c (after_id TxID c) (matching_txs s d (CFilter c)))))"

record ListLogsQuery =
  LQLimit :: int
  LQCursor :: "unit cursor_text"

definition scan_log :: "int \<times> log_row \<Rightarrow> Log" where
  "scan_log x =
     \<lparr>LogID = fst x, LType = lg_type (snd x), LDate = lg_date (snd x), LData = lg_data (snd x),
      LHash = lg_hash (snd x),
      IdempotencyKey = (case lg_key (snd x) of None \<Rightarrow> [] | Some ik \<Rightarrow> ik),
      IdempotencyHash = (case lg_key_hash (snd x) of None \<Rightarrow> [] | Some h \<Rightarrow> h)\<rparr>"

definition ListLogs :: "Store \<Rightarrow> db \<Rightarrow> ListLogsQuery \<Rightarrow> (Log, unit) Page res" where
  "ListLogs s d q =
     bindE (start_cursor () (LQLimit q) (LQCursor q)) (\<lambda>c.
       Inr (finish c LogID (fetch_rows c (after_id LogID c) (map scan_log (ledger_logs d (ledger s))))))"

record MoveFilter =
  MFAddress :: Address
  MFAsset :: Asset
  MFFrom :: "time option"
  MFTo :: "time option"

record ListMovesQuery =
  MQFilter :: MoveFilter
  MQLimit :: int
  MQCursor :: "MoveFilter cursor_text"

record Move =
  Seq :: int
  MTransactionID :: int
  MAsset :: Asset
  MAmount :: int
  Incoming :: bool
  MEffectiveDate :: time
  MInsertionDate :: time
  MVolumes :: Volumes
  MEffectiveVolumes :: "Volumes option"

definition scan_move :: "move_row \<Rightarrow> Move" where
  "scan_move m =
     \<lparr>Seq = mv_seq m, MTransactionID = mv_tx_id m, MAsset = snd (mv_key m), MAmount = mv_amount m,
      Incoming = (\<not> mv_is_source m), MEffectiveDate = mv_effective_date m,
      MInsertionDate = mv_insertion_date m, MVolumes = mv_pcv m, MEffectiveVolumes = Some (mv_pcev m)\<rparr>"

definition move_matches :: "string \<Rightarrow> MoveFilter \<Rightarrow> move_row \<Rightarrow> bool" where
  "move_matches l f m \<longleftrightarrow>
     mv_ledger m = l \<and> fst (mv_key m) = MFAddress f \<and>
     (MFAsset f = [] \<or> snd (mv_key m) = MFAsset f) \<and>
     (case MFFrom f of None \<Rightarrow> True | Some t \<Rightarrow> mv_effective_date m \<ge> t) \<and>
     (case MFTo f of None \<Rightarrow> True | Some t \<Rightarrow> mv_effective_date m \<le> t)"

definition statement_rows :: "Store \<Rightarrow> db \<Rightarrow> MoveFilter \<Rightarrow> Move list" where
  "statement_rows s d f = map scan_move (sort_key eff_key (filter (move_matches (ledger s) f) (moves d)))"

definition move_pos :: "Move \<Rightarrow> time \<times> int" where
  "move_pos m = (MEffectiveDate m, Seq m)"

definition after_move :: "MoveFilter cursor \<Rightarrow> Move \<Rightarrow> bool" where
  "after_move c m \<longleftrightarrow>
     After c = 0 \<or> move_pos m > ((case AfterDate c of None \<Rightarrow> 0 | Some t \<Rightarrow> t), After c)"

definition ListMoves :: "Store \<Rightarrow> db \<Rightarrow> ListMovesQuery \<Rightarrow> (Move, MoveFilter) Page res" where
  "ListMoves s d q =
     bindE (start_cursor (MQFilter q) (MQLimit q) (MQCursor q)) (\<lambda>c.
       Inr (finish_at c Seq (\<lambda>m. Some (MEffectiveDate m))
              (fetch_rows c (after_move c) (statement_rows s d (CFilter c)))))"


subsection \<open>The lists are keyset pages\<close>

text \<open>The rows of one ledger, read in the order of their ids.\<close>

lemma ledger_part_ordered:
  assumes "unique_keys t"
  shows "sorted_wrt (<) (map fst (sort_key fst
    (map (\<lambda>((_, i), r). (i :: int, r)) (filter (\<lambda>((l', _), _). l' = l) t))))"
proof -
  let ?xs = "map (\<lambda>((_, i), r). (i, r)) (filter (\<lambda>((l', _), _). l' = l) t)"
  have "unique_keys ?xs"
    using unique_ledger_part [OF assms, of "\<lambda>r. r" l "\<lambda>_. True"] by (simp add: case_prod_unfold)
  then have "unique_keys (sort_key fst ?xs)" by (rule unique_keys_mset [rotated]) simp
  then show ?thesis by (simp add: strict_sorted_iff)
qed

lemma set_ledger_txs: "(i, r) \<in> set (ledger_txs d l) \<longleftrightarrow> ((l, i), r) \<in> set (transactions d)"
  by (force simp: ledger_txs_def)

lemma set_ledger_logs: "(i, r) \<in> set (ledger_logs d l) \<longleftrightarrow> ((l, i), r) \<in> set (logs d)"
  by (force simp: ledger_logs_def)

lemma TxID_hydrate [simp]: "TxID (hydrateTransaction i r) = i"
  by (simp add: hydrateTransaction_def)

lemma LogID_scan [simp]: "LogID (scan_log x) = fst x"
  by (simp add: scan_log_def)

lemma matching_txs_ids:
  "map TxID (matching_txs s d f) = map fst (filter (tx_matches f) (ledger_txs d (ledger s)))"
  by (simp add: matching_txs_def comp_def case_prod_unfold)

lemma sorted_wrt_map_filter: "sorted_wrt R (map f xs) \<Longrightarrow> sorted_wrt R (map f (filter P xs))"
  by (simp add: sorted_wrt_map sorted_wrt_filter)

lemma matching_txs_ordered: "book_ok d \<Longrightarrow> sorted_wrt (<) (map TxID (matching_txs s d f))"
  unfolding matching_txs_ids ledger_txs_def
  by (intro sorted_wrt_map_filter ledger_part_ordered) (simp add: book_ok_def well_keyed_def)

lemma matching_txs_pos:
  assumes "book_ok d" "t \<in> set (matching_txs s d f)"
  shows "0 < TxID t"
proof -
  from assms(2) have "(ledger s, TxID t) \<in> set (keys (transactions d))"
    by (force simp: matching_txs_def set_ledger_txs)
  with assms(1) show ?thesis unfolding book_ok_def tx_ids_ok_def by blast
qed

lemma scanned_logs_ordered: "book_ok d \<Longrightarrow> sorted_wrt (<) (map LogID (map scan_log (ledger_logs d l)))"
proof -
  assume "book_ok d"
  then have "sorted_wrt (<) (map fst (ledger_logs d l))"
    unfolding ledger_logs_def by (intro ledger_part_ordered) (simp add: book_ok_def well_keyed_def)
  then show ?thesis by (simp add: comp_def)
qed

lemma scanned_logs_pos:
  assumes "book_ok d" "x \<in> set (map scan_log (ledger_logs d l))"
  shows "0 < LogID x"
proof -
  from assms(2) have "(l, LogID x) \<in> set (keys (logs d))" by (force simp: set_ledger_logs)
  with assms(1) show ?thesis unfolding book_ok_def log_ok_def log_ids_ok_def by force
qed

lemma clampLimit_bounds [simp]: "0 < clampLimit n" "clampLimit n \<le> MaxPageSize"
  by (simp_all add: clampLimit_def DefaultPageSize_def MaxPageSize_def)

lemma decode_fresh:
  "decodeCursor (encodeCursor \<lparr>CFilter = f, After = 0, CLimit = clampLimit n, AfterDate = None\<rparr>) =
     Inr \<lparr>CFilter = f, After = 0, CLimit = clampLimit n, AfterDate = None\<rparr>"
  using clampLimit_bounds [of n] by (simp add: decodeCursor_def encodeCursor_def not_le not_less)

lemma decode_start:
  "decodeCursor t = Inr c \<Longrightarrow> start_cursor f n t = Inr c"
  "start_cursor f n NoCursor = Inr \<lparr>CFilter = f, After = 0, CLimit = clampLimit n, AfterDate = None\<rparr>"
  by (auto simp: start_cursor_def decodeCursor_def)

lemmas page_laws = decode_start decode_fresh finish_def after_id_def

definition tx_history :: "Store \<Rightarrow> (nat \<Rightarrow> db) \<Rightarrow> bool" where
  "tx_history s ds \<longleftrightarrow> (\<forall>i. book_ok (ds i)) \<and>
     (\<forall>i f. \<exists>zs. map TxID (matching_txs s (ds (Suc i)) f) = map TxID (matching_txs s (ds i) f) @ zs)"

definition log_history :: "Store \<Rightarrow> (nat \<Rightarrow> db) \<Rightarrow> bool" where
  "log_history s ds \<longleftrightarrow> (\<forall>i. book_ok (ds i)) \<and>
     (\<forall>i. \<exists>zs. ledger_logs (ds (Suc i)) (ledger s) = ledger_logs (ds i) (ledger s) @ zs)"

interpretation tx_pages: keyset "tx_history s ds" "\<lambda>i f. matching_txs s (ds i) f" TxID
    "after_id TxID" TxID "\<lambda>_. None" "\<lambda>i t. ListTransactions s (ds i) (q\<lparr>TQCursor := t\<rparr>)"
    "\<lparr>CFilter = TQFilter q, After = 0, CLimit = clampLimit (TQLimit q), AfterDate = None\<rparr>" for s ds q
proof
  fix x y i j f n assume "tx_history s ds" and x: "x \<in> set (matching_txs s (ds i) f)"
  then show "after_id TxID \<lparr>CFilter = f, After = TxID x, CLimit = n, AfterDate = None\<rparr> y \<longleftrightarrow> TxID x < TxID y"
    using matching_txs_pos [OF _ x] by (auto simp: after_id_def tx_history_def)
qed (auto simp: tx_history_def matching_txs_ordered ListTransactions_def page_laws)

interpretation log_pages: keyset "log_history s ds" "\<lambda>i _. map scan_log (ledger_logs (ds i) (ledger s))" LogID
    "after_id LogID" LogID "\<lambda>_. None" "\<lambda>i t. ListLogs s (ds i) (q\<lparr>LQCursor := t\<rparr>)"
    "\<lparr>CFilter = (), After = 0, CLimit = clampLimit (LQLimit q), AfterDate = None\<rparr>" for s ds q
proof
  fix x y i j n and f :: unit assume h: "log_history s ds" and x: "x \<in> set (map scan_log (ledger_logs (ds i) (ledger s)))"
  then show "after_id LogID \<lparr>CFilter = f, After = LogID x, CLimit = n, AfterDate = None\<rparr> y \<longleftrightarrow> LogID x < LogID y"
    using scanned_logs_pos [OF _ x] by (auto simp: after_id_def log_history_def)
next
  fix i assume "log_history s ds"
  then obtain zs where "ledger_logs (ds (Suc i)) (ledger s) = ledger_logs (ds i) (ledger s) @ zs"
    by (auto simp: log_history_def)
  then show "\<exists>zs. map LogID (map scan_log (ledger_logs (ds (Suc i)) (ledger s))) =
      map LogID (map scan_log (ledger_logs (ds i) (ledger s))) @ zs" by simp
next
  fix i assume "log_history s ds"
  then show "sorted_wrt (<) (map LogID (map scan_log (ledger_logs (ds i) (ledger s))))"
    by (intro scanned_logs_ordered) (simp add: log_history_def)
qed (auto simp: ListLogs_def page_laws)

text \<open>A statement is paged over one state: a backdated move may land behind the cursor.\<close>

lemma scan_move_simps [simp]: "move_pos (scan_move m) = eff_key m" "Seq (scan_move m) = mv_seq m"
  "MEffectiveDate (scan_move m) = mv_effective_date m"
  by (simp_all add: move_pos_def eff_key_def scan_move_def)

lemma statement_ordered: 
  assumes "book_ok d"
  shows "sorted_wrt (<) (map move_pos (statement_rows s d f))"
proof -
  have "sorted_wrt (\<lambda>m m'. mv_seq m < mv_seq m') (moves d)" using assms by (simp add: book_ok_def seq_ok_def)
  then have "distinct (map mv_seq (filter (move_matches (ledger s) f) (moves d)))"
    by (metis sorted_wrt_filter sorted_wrt_map strict_sorted_iff)
  then have "distinct (map eff_key (filter (move_matches (ledger s) f) (moves d)))"
    by (auto simp: distinct_map inj_on_def eff_key_def)
  then have "distinct (map eff_key (sort_key eff_key (filter (move_matches (ledger s) f) (moves d))))"
    by (simp add: distinct_map)
  then show ?thesis by (simp add: statement_rows_def comp_def strict_sorted_iff)
qed

interpretation statement_pages: keyset "book_ok d" "\<lambda>i f. statement_rows s d f" move_pos
    after_move Seq "\<lambda>m. Some (MEffectiveDate m)" "\<lambda>i t. ListMoves s d (q\<lparr>MQCursor := t\<rparr>)"
    "\<lparr>CFilter = MQFilter q, After = 0, CLimit = clampLimit (MQLimit q), AfterDate = None\<rparr>" for s d q
proof
  fix x y f n assume "book_ok d" and x: "x \<in> set (statement_rows s d f)"
  then have "0 < Seq x" by (auto simp: statement_rows_def book_ok_def seq_ok_def)
  then show "after_move \<lparr>CFilter = f, After = Seq x, CLimit = n, AfterDate = Some (MEffectiveDate x)\<rparr> y \<longleftrightarrow>
      move_pos x < move_pos y"
    by (simp add: after_move_def move_pos_def)
qed (auto simp: statement_ordered ListMoves_def page_laws after_move_def)

end
