(* ===== verification/Storage_Metadata.thy ===== *)
theory Storage_Metadata
  imports Storage_Read
begin

text \<open>
  Metadata (\<open>src/storage/metadata.go\<close>): merging into and deleting from the metadata of a transaction
  or an account. Each of the four operations is one change of one row and, when something
  changed, one log entry; the locale \<open>metadata_change\<close> states that contract and proves once that
  such an operation keeps the books, moves no money, and is repeatable.
\<close>

subsection \<open>Entries that move nothing\<close>

text \<open>Appending an entry that carries no transaction, and changing nothing but columns outside the
  books, keeps them.\<close>

definition entry_logged :: "string \<Rightarrow> db \<Rightarrow> db \<Rightarrow> ledger_row \<Rightarrow> ledger_row \<Rightarrow> int \<Rightarrow> log_row \<Rightarrow> bool" where
  "entry_logged l d d' r r' i row \<longleftrightarrow>
     log_appended l d d' r r' i row \<and> \<not> moves_value row \<and> last_tx_id r \<le> last_tx_id r' \<and>
     keys (transactions d') = keys (transactions d) \<and> accounts_volumes d' = accounts_volumes d \<and>
     moves d' = moves d \<and> next_seq d' = next_seq d \<and> assets d' = assets d \<and> unique_keys (accounts d')"

lemma moves_nothing: "\<not> moves_value row \<Longrightarrow> log_tx row = None"
  by (cases "lg_type row") (simp_all add: moves_value_def log_tx.simps)

lemma entry_logged_book_ok:
  assumes el: "entry_logged l d d' r r' i row" and inv: "book_ok d"
  shows "book_ok d'"
proof -
  have app: "log_appended l d d' r r' i row" and mv: "\<not> moves_value row"
    and k: "keys (transactions d') = keys (transactions d)"
    and same: "moves d' = moves d" "next_seq d' = next_seq d" "accounts_volumes d' = accounts_volumes d"
    using el by (auto simp: entry_logged_def)
  from app have r: "map_of (ledgers d) l = Some r" and led: "ledgers d' = AList.update l r' (ledgers d)"
    and lg: "logs d' = logs d @ [((l, i), row)]" by (auto simp: log_appended_def)
  have lok: "log_ok d" and "log_ok d'" using inv log_appended_ok [OF _ app] by (auto simp: book_ok_def)
  have "logged d' l' = logged d l'" for l'
    using logged_appended [OF lok app, of l'] moves_nothing [OF mv] by simp
  then have "replay_ok d'"
    using inv mv unfolding book_ok_def replay_ok_def k same vol_cong [OF same(3)] lg by auto
  moreover have "tx_ids_ok d'"
  proof -
    have "last_tx_id r \<le> last_tx_id r'" using el by (simp add: entry_logged_def)
    moreover have "tx_ids_ok d" using inv by (simp add: book_ok_def)
    ultimately show ?thesis
      using r unfolding tx_ids_ok_def k led by (auto split: if_splits) (force+)?
  qed
  moreover have "unique_keys (transactions d')" using inv unfolding k by (simp add: book_ok_def well_keyed_def)
  then have "well_keyed d'"
    using inv el \<open>log_ok d'\<close> unfolding well_keyed_def by (auto simp: led entry_logged_def book_ok_def well_keyed_def log_ok_def)
  ultimately show ?thesis
    using inv \<open>log_ok d'\<close> by (simp add: book_ok_def histories_cong [OF same])
qed

lemma allocated_entry:
  assumes "allocateLogID l d = Inr (d1, a)" and "appendLogEntry l a typ payload date [] [] d1 = Inr d2"
  obtains r where "log_appended l d d2 r
      (r\<lparr>last_log_id := last_log_id r + 1, last_log_hash := Some (ChainHash (previousHash a) (log_text payload))\<rparr>)
      (last_log_id r + 1) (entry_row a typ payload date [] [])"
    and "d2 = d\<lparr>logs := logs d2, ledgers := ledgers d2\<rparr>"
proof -
  from assms(1) obtain r where r: "map_of (ledgers d) l = Some r" and lim: "last_log_id r < max_bigint"
    and d1: "d1 = d\<lparr>ledgers := AList.update l (r\<lparr>last_log_id := last_log_id r + 1\<rparr>) (ledgers d)\<rparr>"
    and a: "a = \<lparr>transactionID = 0, logID = last_log_id r + 1, previousHash = hash_bytes (last_log_hash r)\<rparr>"
    by (auto simp: allocateLogID_Inr)
  have "map_of (ledgers d1) l = Some (r\<lparr>last_log_id := last_log_id r + 1\<rparr>)" by (simp add: d1)
  note d2 = appendLogEntry_Inr(1) [OF assms(2) this]
  have upd: "AList.update l x (AList.update l y m) = AList.update l x m" for x y :: ledger_row and m
    by (induction m) auto
  show thesis
  proof (rule that)
    show "log_appended l d d2 r
      (r\<lparr>last_log_id := last_log_id r + 1, last_log_hash := Some (ChainHash (previousHash a) (log_text payload))\<rparr>)
      (last_log_id r + 1) (entry_row a typ payload date [] [])"
      using r lim by (simp add: log_appended_def d2 d1 a upd entry_row_def)
    show "d2 = d\<lparr>logs := logs d2, ledgers := ledgers d2\<rparr>" by (simp add: d2 d1)
  qed
qed

subsection \<open>Metadata as jsonb\<close>

text \<open>On a flat object of strings: \<open>@>\<close>, \<open>||\<close>, \<open>-\<close>.\<close>

definition contains_meta :: "Metadata \<Rightarrow> Metadata \<Rightarrow> bool" where
  "contains_meta m x \<longleftrightarrow> list_all (\<lambda>(k, v). map_of m k = Some v) x"

definition merge_meta :: "Metadata \<Rightarrow> Metadata \<Rightarrow> Metadata" where
  "merge_meta m x = fold (\<lambda>(k, v). AList.update k v) x m"

definition remove_meta :: "string \<Rightarrow> Metadata \<Rightarrow> Metadata" where
  "remove_meta k m = filter (\<lambda>(k', _). k' \<noteq> k) m"

lemma map_of_merge: "unique_keys x \<Longrightarrow> map_of (merge_meta m x) k =
    (case map_of x k of Some v \<Rightarrow> Some v | None \<Rightarrow> map_of m k)"
proof (induction x arbitrary: m)
  case (Cons kv x)
  then have "map_of x (fst kv) = None" by (simp add: map_of_eq_None_iff)
  with Cons show ?case by (cases kv) (auto simp: merge_meta_def split: option.splits)
qed (simp add: merge_meta_def)

lemma map_of_remove: "map_of (remove_meta k m) k' = (if k' = k then None else map_of m k')"
  by (induction m) (auto simp: remove_meta_def)

lemma contains_merge: "unique_keys x \<Longrightarrow> contains_meta (merge_meta m x) x"
  by (auto simp: contains_meta_def list_all_iff map_of_merge split: option.splits)

subsection \<open>The operations\<close>

text \<open>The row a change is aimed at: the code passes the table and column names.\<close>

datatype target = TransactionsRow int | AccountsRow Address

fun target_metadata :: "string \<Rightarrow> target \<Rightarrow> db \<Rightarrow> Metadata option" where
  "target_metadata l (TransactionsRow i) d = map_option tx_metadata (map_of (transactions d) (l, i))"
| "target_metadata l (AccountsRow a) d = map_option acc_metadata (map_of (accounts d) (l, a))"

fun target_name :: "target \<Rightarrow> string" where
  "target_name (TransactionsRow i) = ''transactions '' @ json_int i"
| "target_name (AccountsRow a) = ''accounts '' @ a"

definition update_account_row :: "string \<Rightarrow> Address \<Rightarrow> (account_row \<Rightarrow> account_row) \<Rightarrow> db \<Rightarrow> db" where
  "update_account_row l a f d =
     d\<lparr>accounts := map (\<lambda>(k, r). (k, if k = (l, a) then f r else r)) (accounts d)\<rparr>"

text \<open>Only accounts carry \<open>updated_at\<close> (\<open>touchUpdatedAt\<close>).\<close>

fun update_target :: "string \<Rightarrow> env \<Rightarrow> target \<Rightarrow> (Metadata \<Rightarrow> Metadata) \<Rightarrow> db \<Rightarrow> db" where
  "update_target l e (TransactionsRow i) f d =
     update_tx_row l i (\<lambda>r. r\<lparr>tx_metadata := f (tx_metadata r)\<rparr>) d"
| "update_target l e (AccountsRow a) f d =
     update_account_row l a (\<lambda>r. r\<lparr>acc_metadata := f (acc_metadata r), updated_at := db_now e\<rparr>) d"

definition lockTarget :: "string \<Rightarrow> target \<Rightarrow> db \<Rightarrow> Metadata res" where
  "lockTarget l tgt d =
     (case target_metadata l tgt d of None \<Rightarrow> Inl (ErrNotFound (target_name tgt)) | Some m \<Rightarrow> Inr m)"

definition lockAndMerge :: "string \<Rightarrow> env \<Rightarrow> target \<Rightarrow> Metadata \<Rightarrow> db \<Rightarrow> (db \<times> bool) res" where
  "lockAndMerge l e tgt m d =
     bindE (lockTarget l tgt d) (\<lambda>old.
       if \<not> contains_meta old m then Inr (update_target l e tgt (\<lambda>x. merge_meta x m) d, True)
       else Inr (d, False))"

definition lockAndDeleteKey :: "string \<Rightarrow> env \<Rightarrow> target \<Rightarrow> string \<Rightarrow> db \<Rightarrow> (db \<times> bool) res" where
  "lockAndDeleteKey l e tgt k d =
     bindE (lockTarget l tgt d) (\<lambda>old.
       if map_of old k \<noteq> None then Inr (update_target l e tgt (remove_meta k) d, True)
       else Inr (d, False))"

definition upsertAccountMetadata :: "string \<Rightarrow> env \<Rightarrow> Address \<Rightarrow> Metadata \<Rightarrow> db \<Rightarrow> (db \<times> bool) res" where
  "upsertAccountMetadata l e a m d =
     (let now = truncate_us (go_now e)
      in case map_of (accounts d) (l, a) of
           None \<Rightarrow>
             Inr (d\<lparr>accounts := AList.update (l, a)
                      \<lparr>address_array = Address_Segments a, acc_metadata = m, first_usage = now,
                       insertion_date = now, updated_at = now, closed = False\<rparr> (accounts d)\<rparr>, True)
         | Some r \<Rightarrow>
             if \<not> contains_meta (acc_metadata r) m
             then Inr (update_account_row l a
                         (\<lambda>r. r\<lparr>acc_metadata := merge_meta (acc_metadata r) m, updated_at := now\<rparr>) d, True)
             else Inr (d, False))"

definition mutateMetadata ::
  "string \<Rightarrow> env \<Rightarrow> (db \<Rightarrow> (db \<times> bool) res) \<Rightarrow> LogType \<Rightarrow> log_data \<Rightarrow> db \<Rightarrow> (db \<times> bool) res" where
  "mutateMetadata l e apply1 typ payload d =
     bindE (apply1 d) (\<lambda>(d1, changed).
     bindE (if changed
            then bindE (allocateLogID l d1) (\<lambda>(d2, a).
                   appendLogEntry l a typ payload (truncate_us (go_now e)) [] [] d2)
            else Inr d1) (\<lambda>d3.
     bindE (db_commit d3) (\<lambda>d4. Inr (d4, changed))))"

definition validateMetadata :: "Metadata \<Rightarrow> error option" where
  "validateMetadata m = (if m = [] then Some ErrEmptyMetadata else Metadata_Validate m)"

definition SetTransactionMetadata :: "Store \<Rightarrow> env \<Rightarrow> db \<Rightarrow> int \<Rightarrow> Metadata \<Rightarrow> (db \<times> Transaction) res" where
  "SetTransactionMetadata s e d i m =
     (case validateMetadata m of
        Some err \<Rightarrow> Inl err
      | None \<Rightarrow>
          bindE (mutateMetadata (ledger s) e (lockAndMerge (ledger s) e (TransactionsRow i) m) LogSetMetadata
                   (SetMetadataData \<lparr>SetTargetType = TargetTransaction, SetTargetID = json_int i, SetMetadata = m\<rparr>) d)
            (\<lambda>(d', _). bindE (GetTransaction s d' i) (\<lambda>t. Inr (d', t))))"

definition DeleteTransactionMetadataKey :: "Store \<Rightarrow> env \<Rightarrow> db \<Rightarrow> int \<Rightarrow> string \<Rightarrow> (db \<times> Transaction) res" where
  "DeleteTransactionMetadataKey s e d i k =
     (if k = [] then Inl ErrEmptyMetadataKey
      else
        bindE (mutateMetadata (ledger s) e (lockAndDeleteKey (ledger s) e (TransactionsRow i) k) LogDeleteMetadata
                 (DeleteMetadataData \<lparr>DelTargetType = TargetTransaction, DelTargetID = json_int i, DelKey = k\<rparr>) d)
          (\<lambda>(d', _). bindE (GetTransaction s d' i) (\<lambda>t. Inr (d', t))))"

definition SetAccountMetadata :: "Store \<Rightarrow> env \<Rightarrow> db \<Rightarrow> Address \<Rightarrow> Metadata \<Rightarrow> (db \<times> GAccount) res" where
  "SetAccountMetadata s e d a m =
     (if \<not> Address_Valid a then Inl ErrInvalidSourceAddress
      else case validateMetadata m of
        Some err \<Rightarrow> Inl err
      | None \<Rightarrow>
          bindE (mutateMetadata (ledger s) e (upsertAccountMetadata (ledger s) e a m) LogSetMetadata
                   (SetMetadataData \<lparr>SetTargetType = TargetAccount, SetTargetID = a, SetMetadata = m\<rparr>) d)
            (\<lambda>(d', _). bindE (GetAccount e s d' a []) (\<lambda>acc. Inr (d', acc))))"

definition DeleteAccountMetadataKey :: "Store \<Rightarrow> env \<Rightarrow> db \<Rightarrow> Address \<Rightarrow> string \<Rightarrow> (db \<times> GAccount) res" where
  "DeleteAccountMetadataKey s e d a k =
     (if k = [] then Inl ErrEmptyMetadataKey
      else
        bindE (mutateMetadata (ledger s) e (lockAndDeleteKey (ledger s) e (AccountsRow a) k) LogDeleteMetadata
                 (DeleteMetadataData \<lparr>DelTargetType = TargetAccount, DelTargetID = a, DelKey = k\<rparr>) d)
          (\<lambda>(d', _). bindE (GetAccount e s d' a []) (\<lambda>acc. Inr (d', acc))))"


subsection \<open>What a change of metadata does\<close>

text \<open>Nothing outside the metadata, the accounts table and the log is touched.\<close>

definition same_books :: "db \<Rightarrow> db \<Rightarrow> bool" where
  "same_books d d' \<longleftrightarrow>
     ledgers d' = ledgers d \<and> logs d' = logs d \<and> assets d' = assets d \<and>
     accounts_volumes d' = accounts_volumes d \<and> moves d' = moves d \<and> next_seq d' = next_seq d \<and>
     verification_runs d' = verification_runs d \<and> deferred d' = deferred d \<and>
     keys (transactions d') = keys (transactions d) \<and>
     (\<forall>k. map_option tx_fixed (map_of (transactions d') k) = map_option tx_fixed (map_of (transactions d) k)) \<and>
     (unique_keys (accounts d) \<longrightarrow> unique_keys (accounts d')) \<and> account_closed d' = account_closed d"

lemma keys_update_account_row [simp]: "keys (accounts (update_account_row l a f d)) = keys (accounts d)"
  by (simp add: update_account_row_def case_prod_unfold comp_def)

lemma map_of_update_account_row:
  "map_of (accounts (update_account_row l a f d)) k =
     (if k = (l, a) then map_option f (map_of (accounts d) k) else map_of (accounts d) k)"
proof -
  have "map_of (map (\<lambda>(k, r). (k, if k = (l, a) then f r else r)) t) k =
     (if k = (l, a) then map_option f (map_of t k) else map_of t k)" for t
    by (induction t) auto
  then show ?thesis by (simp add: update_account_row_def)
qed

lemma update_account_row_frame [simp]:
  "ledgers (update_account_row l a f d) = ledgers d" "assets (update_account_row l a f d) = assets d"
  "transactions (update_account_row l a f d) = transactions d"
  "accounts_volumes (update_account_row l a f d) = accounts_volumes d"
  "moves (update_account_row l a f d) = moves d" "next_seq (update_account_row l a f d) = next_seq d"
  "logs (update_account_row l a f d) = logs d" "verification_runs (update_account_row l a f d) = verification_runs d"
  "deferred (update_account_row l a f d) = deferred d"
  by (simp_all add: update_account_row_def)

lemma account_closed_update_row:
  "(\<And>r. closed (f r) = closed r) \<Longrightarrow> account_closed (update_account_row l a f d) = account_closed d"
  by (auto simp: fun_eq_iff account_closed_def map_of_update_account_row split: option.splits)

lemma update_target_frame: "same_books d (update_target l e tgt f d)"
proof (cases tgt)
  case (AccountsRow a)
  then show ?thesis using account_closed_update_row by (simp add: same_books_def)
qed (simp add: same_books_def account_closed_def fun_eq_iff map_of_update_tx_row option.map_comp comp_def tx_fixed_def [abs_def])

lemma same_books_refl [simp]: "same_books d d"
  by (simp add: same_books_def)

lemma metadata_frames:
  "lockAndMerge l e tgt m d = Inr (d', ch) \<Longrightarrow> same_books d d' \<and> (\<not> ch \<longrightarrow> d' = d)"
  "lockAndDeleteKey l e tgt k d = Inr (d', ch) \<Longrightarrow> same_books d d' \<and> (\<not> ch \<longrightarrow> d' = d)"
  "upsertAccountMetadata l e a m d = Inr (d', ch) \<Longrightarrow> same_books d d' \<and> (\<not> ch \<longrightarrow> d' = d)"
proof -
  show "lockAndMerge l e tgt m d = Inr (d', ch) \<Longrightarrow> same_books d d' \<and> (\<not> ch \<longrightarrow> d' = d)"
    using update_target_frame by (auto simp: lockAndMerge_def bindE_Inr_iff split: if_splits)
  show "lockAndDeleteKey l e tgt k d = Inr (d', ch) \<Longrightarrow> same_books d d' \<and> (\<not> ch \<longrightarrow> d' = d)"
    using update_target_frame by (auto simp: lockAndDeleteKey_def bindE_Inr_iff split: if_splits)
  show "same_books d d' \<and> (\<not> ch \<longrightarrow> d' = d)" if "upsertAccountMetadata l e a m d = Inr (d', ch)"
  proof (cases "map_of (accounts d) (l, a)")
    case None
    then have "account_closed d' = account_closed d"
      using that by (auto simp: upsertAccountMetadata_def account_closed_def fun_eq_iff Let_def split: if_splits)
    then show ?thesis using that None by (auto simp: upsertAccountMetadata_def same_books_def Let_def)
  next
    case (Some r)
    then show ?thesis using that account_closed_update_row
      by (auto simp: upsertAccountMetadata_def same_books_def Let_def split: if_splits)
  qed
qed

text \<open>A change is one entry in the log; what changes nothing writes nothing.\<close>

lemma mutateMetadata_Inr:
  assumes "mutateMetadata l e ap typ payload d = Inr (d', ch)"
    and frame: "\<And>d1 c. ap d = Inr (d1, c) \<Longrightarrow> same_books d d1 \<and> (\<not> c \<longrightarrow> d1 = d)"
    and ty: "typ = LogSetMetadata \<or> typ = LogDeleteMetadata" and wk: "well_keyed d"
  obtains d1 where "ap d = Inr (d1, ch)" "same_books d d1" "accounts d' = accounts d1" "transactions d' = transactions d1"
    "\<not> ch \<Longrightarrow> d' = d\<lparr>deferred := []\<rparr>"
    "ch \<Longrightarrow> \<exists>r r' row. entry_logged l d d' r r' (last_log_id r + 1) row \<and> lg_type row = typ \<and> lg_data row = payload"
proof -
  from assms(1) obtain d1 d3 where ap: "ap d = Inr (d1, ch)" and d': "d' = d3\<lparr>deferred := []\<rparr>"
    and step: "(if ch then bindE (allocateLogID l d1) (\<lambda>(d2, a).
                   appendLogEntry l a typ payload (truncate_us (go_now e)) [] [] d2) else Inr d1) = Inr d3"
    by (auto simp: mutateMetadata_def bindE_Inr_iff db_commit_Inr)
  note sb = frame [OF ap]
  show thesis
  proof (cases ch)
    case False
    then show ?thesis using ap sb step by (intro that [of d1]) (simp_all add: d')
  next
    case True
    with step obtain d2 a where al: "allocateLogID l d1 = Inr (d2, a)"
      and lg: "appendLogEntry l a typ payload (truncate_us (go_now e)) [] [] d2 = Inr d3"
      by (auto simp: bindE_Inr_iff)
    from allocated_entry [OF al lg] obtain r where
      app: "log_appended l d1 d3 r (r\<lparr>last_log_id := last_log_id r + 1,
        last_log_hash := Some (ChainHash (previousHash a) (log_text payload))\<rparr>) (last_log_id r + 1)
        (entry_row a typ payload (truncate_us (go_now e)) [] [])"
      and d3: "d3 = d1\<lparr>logs := logs d3, ledgers := ledgers d3\<rparr>" by blast
    let ?row = "entry_row a typ payload (truncate_us (go_now e)) [] []"
    have fs: "accounts d3 = accounts d1" "transactions d3 = transactions d1" "accounts_volumes d3 = accounts_volumes d1"
      "moves d3 = moves d1" "next_seq d3 = next_seq d1" "assets d3 = assets d1"
      by (subst d3, simp)+
    have "log_appended l d d' r (r\<lparr>last_log_id := last_log_id r + 1,
        last_log_hash := Some (ChainHash (previousHash a) (log_text payload))\<rparr>) (last_log_id r + 1) ?row"
      using app sb by (simp add: log_appended_def d' same_books_def)
    then have "entry_logged l d d' r (r\<lparr>last_log_id := last_log_id r + 1,
        last_log_hash := Some (ChainHash (previousHash a) (log_text payload))\<rparr>) (last_log_id r + 1) ?row"
      using ty sb wk by (auto simp: entry_logged_def moves_value_def entry_row_def d' fs same_books_def well_keyed_def)
    moreover have "lg_type ?row = typ" "lg_data ?row = payload" by (simp_all add: entry_row_def)
    ultimately show ?thesis using ap sb True by (intro that [of d1]) (auto simp: d' fs)
  qed
qed


subsection \<open>The contract of a metadata operation\<close>

text \<open>
  All four operations run one change of one row through \<open>mutateMetadata\<close>. \<open>ok\<close> is what makes the
  change repeatable: a Go map has each key once.
\<close>

locale metadata_change =
  fixes run :: "db \<Rightarrow> (db \<times> 'o) res" and l :: string and e :: env
    and change :: "db \<Rightarrow> (db \<times> bool) res" and kind :: LogType and payload :: log_data and ok :: bool
  assumes runs: "run d = Inr (d', x) \<Longrightarrow> \<exists>ch. mutateMetadata l e change kind payload d = Inr (d', ch)"
    and frame: "change d = Inr (d1, c) \<Longrightarrow> same_books d d1 \<and> (\<not> c \<longrightarrow> d1 = d)"
    and kinds: "kind = LogSetMetadata \<or> kind = LogDeleteMetadata"
    and repeatable: "ok \<Longrightarrow> change d = Inr (d1, c) \<Longrightarrow> accounts d2 = accounts d1 \<Longrightarrow>
      transactions d2 = transactions d1 \<Longrightarrow> change d2 = Inr (d2, False)"
begin

lemma effect:
  assumes "run d = Inr (d', x)" and "book_ok d"
  obtains d1 ch where "change d = Inr (d1, ch)" "accounts d' = accounts d1" "transactions d' = transactions d1"
    "same_books d d1" "\<not> ch \<Longrightarrow> d' = d\<lparr>deferred := []\<rparr>"
    "ch \<Longrightarrow> \<exists>r r' row. entry_logged l d d' r r' (last_log_id r + 1) row \<and> lg_type row = kind \<and> lg_data row = payload"
proof -
  from runs [OF assms(1)] obtain ch where m: "mutateMetadata l e change kind payload d = Inr (d', ch)" by blast
  have "well_keyed d" using assms(2) by (simp add: book_ok_def)
  from mutateMetadata_Inr [OF m frame kinds this] that show thesis by metis
qed

lemma keeps_book:
  assumes "run d = Inr (d', x)" and "book_ok d"
  shows "book_ok d'"
proof -
  from effect [OF assms] obtain ch where same: "\<not> ch \<Longrightarrow> d' = d\<lparr>deferred := []\<rparr>"
    and entry: "ch \<Longrightarrow> \<exists>r r' row. entry_logged l d d' r r' (last_log_id r + 1) row" by metis
  show ?thesis
  proof (cases ch)
    case True
    then show ?thesis using entry entry_logged_book_ok [OF _ assms(2)] by blast
  qed (use same assms(2) in simp)
qed

lemma keeps_closed:
  assumes "run d = Inr (d', x)" and "book_ok d"
  shows "account_closed d' = account_closed d"
proof -
  from effect [OF assms] obtain d1 where "accounts d' = accounts d1" "same_books d d1" by blast
  then show ?thesis by (simp add: same_books_def account_closed_def fun_eq_iff)
qed

lemma keeps_money:
  assumes "run d = Inr (d', x)" and "book_ok d"
  shows "accounts_volumes d' = accounts_volumes d \<and> moves d' = moves d \<and> next_seq d' = next_seq d \<and>
    keys (transactions d') = keys (transactions d) \<and> assets d' = assets d"
proof -
  from effect [OF assms] obtain ch where "\<not> ch \<Longrightarrow> d' = d\<lparr>deferred := []\<rparr>"
    "ch \<Longrightarrow> \<exists>r r' row. entry_logged l d d' r r' (last_log_id r + 1) row" by metis
  then show ?thesis by (cases ch) (auto simp: entry_logged_def)
qed

text \<open>The trail records changes, not attempts: an identical second request leaves the database
  as it is.\<close>

lemma repeated:
  assumes "run d = Inr (d', x)" and "book_ok d" and ok and "run d' = Inr (d'', y)"
  shows "d'' = d'"
proof -
  from effect [OF assms(1, 2)] obtain d1 ch where 1: "change d = Inr (d1, ch)" "accounts d' = accounts d1"
    "transactions d' = transactions d1" and cl: "\<not> ch \<Longrightarrow> d' = d\<lparr>deferred := []\<rparr>" by blast
  from runs [OF assms(1)] have df: "deferred d' = []"
    by (auto simp: mutateMetadata_def bindE_Inr_iff db_commit_Inr)
  have "change d' = Inr (d', False)" using repeatable [OF assms(3) 1] .
  moreover obtain d2 ch2 where "change d' = Inr (d2, ch2)" "\<not> ch2 \<Longrightarrow> d'' = d'\<lparr>deferred := []\<rparr>"
    using effect [OF assms(4) keeps_book [OF assms(1, 2)]] by blast
  ultimately have "d'' = d'\<lparr>deferred := []\<rparr>" by simp
  with df show ?thesis by simp
qed

end

lemma target_metadata_update:
  "target_metadata l tgt (update_target l e tgt f d) = map_option f (target_metadata l tgt d)"
  by (cases tgt) (simp_all add: map_of_update_tx_row map_of_update_account_row option.map_comp comp_def)

lemma target_metadata_cong:
  "accounts d2 = accounts d1 \<Longrightarrow> transactions d2 = transactions d1 \<Longrightarrow> target_metadata l tgt d2 = target_metadata l tgt d1"
  by (cases tgt) simp_all

lemma merge_repeatable:
  assumes "unique_keys m" "lockAndMerge l e tgt m d = Inr (d1, c)"
    and "accounts d2 = accounts d1" "transactions d2 = transactions d1"
  shows "lockAndMerge l e tgt m d2 = Inr (d2, False)"
proof -
  have "\<exists>x. target_metadata l tgt d2 = Some x \<and> contains_meta x m"
    using assms(2) target_metadata_cong [OF assms(3, 4), of l tgt] contains_merge [OF assms(1)]
    by (auto simp: lockAndMerge_def lockTarget_def bindE_Inr_iff target_metadata_update split: option.splits if_splits)
  then show ?thesis by (auto simp: lockAndMerge_def lockTarget_def)
qed

lemma delete_repeatable:
  assumes "lockAndDeleteKey l e tgt k d = Inr (d1, c)"
    and "accounts d2 = accounts d1" "transactions d2 = transactions d1"
  shows "lockAndDeleteKey l e tgt k d2 = Inr (d2, False)"
proof -
  have "\<exists>x. target_metadata l tgt d2 = Some x \<and> map_of x k = None"
    using assms(1) target_metadata_cong [OF assms(2, 3), of l tgt]
    by (auto simp: lockAndDeleteKey_def lockTarget_def bindE_Inr_iff target_metadata_update map_of_remove
        split: option.splits if_splits)
  then show ?thesis by (auto simp: lockAndDeleteKey_def lockTarget_def)
qed

lemma upsert_repeatable:
  assumes "unique_keys m" "upsertAccountMetadata l e a m d = Inr (d1, c)" and "accounts d2 = accounts d1"
  shows "upsertAccountMetadata l e a m d2 = Inr (d2, False)"
proof -
  have "contains_meta m m"
    using assms(1) by (auto simp: contains_meta_def list_all_iff)
  then show ?thesis
    using assms contains_merge [OF assms(1)]
    by (auto simp: upsertAccountMetadata_def Let_def map_of_update_account_row split: option.splits if_splits)
qed

interpretation set_tx_meta: metadata_change "\<lambda>d. SetTransactionMetadata s e d i m" "ledger s" e
    "lockAndMerge (ledger s) e (TransactionsRow i) m" LogSetMetadata
    "SetMetadataData \<lparr>SetTargetType = TargetTransaction, SetTargetID = json_int i, SetMetadata = m\<rparr>" "unique_keys m"
  for s e i m
proof
  show "SetTransactionMetadata s e d i m = Inr (d', x) \<Longrightarrow> \<exists>ch. mutateMetadata (ledger s) e
      (lockAndMerge (ledger s) e (TransactionsRow i) m) LogSetMetadata
      (SetMetadataData \<lparr>SetTargetType = TargetTransaction, SetTargetID = json_int i, SetMetadata = m\<rparr>) d = Inr (d', ch)"
    for d d' x
    by (auto simp: SetTransactionMetadata_def bindE_Inr_iff split: option.splits)
qed (use metadata_frames(1) merge_repeatable in blast)+

interpretation delete_tx_meta: metadata_change "\<lambda>d. DeleteTransactionMetadataKey s e d i k" "ledger s" e
    "lockAndDeleteKey (ledger s) e (TransactionsRow i) k" LogDeleteMetadata
    "DeleteMetadataData \<lparr>DelTargetType = TargetTransaction, DelTargetID = json_int i, DelKey = k\<rparr>" True
  for s e i k
proof
  show "DeleteTransactionMetadataKey s e d i k = Inr (d', x) \<Longrightarrow> \<exists>ch. mutateMetadata (ledger s) e
      (lockAndDeleteKey (ledger s) e (TransactionsRow i) k) LogDeleteMetadata
      (DeleteMetadataData \<lparr>DelTargetType = TargetTransaction, DelTargetID = json_int i, DelKey = k\<rparr>) d = Inr (d', ch)"
    for d d' x
    by (auto simp: DeleteTransactionMetadataKey_def bindE_Inr_iff split: if_splits)
qed (use metadata_frames(2) delete_repeatable in blast)+

interpretation set_acc_meta: metadata_change "\<lambda>d. SetAccountMetadata s e d a m" "ledger s" e
    "upsertAccountMetadata (ledger s) e a m" LogSetMetadata
    "SetMetadataData \<lparr>SetTargetType = TargetAccount, SetTargetID = a, SetMetadata = m\<rparr>" "unique_keys m"
  for s e a m
proof
  show "SetAccountMetadata s e d a m = Inr (d', x) \<Longrightarrow> \<exists>ch. mutateMetadata (ledger s) e
      (upsertAccountMetadata (ledger s) e a m) LogSetMetadata
      (SetMetadataData \<lparr>SetTargetType = TargetAccount, SetTargetID = a, SetMetadata = m\<rparr>) d = Inr (d', ch)"
    for d d' x
    by (auto simp: SetAccountMetadata_def bindE_Inr_iff split: option.splits if_splits)
qed (use metadata_frames(3) upsert_repeatable in blast)+

interpretation delete_acc_meta: metadata_change "\<lambda>d. DeleteAccountMetadataKey s e d a k" "ledger s" e
    "lockAndDeleteKey (ledger s) e (AccountsRow a) k" LogDeleteMetadata
    "DeleteMetadataData \<lparr>DelTargetType = TargetAccount, DelTargetID = a, DelKey = k\<rparr>" True
  for s e a k
proof
  show "DeleteAccountMetadataKey s e d a k = Inr (d', x) \<Longrightarrow> \<exists>ch. mutateMetadata (ledger s) e
      (lockAndDeleteKey (ledger s) e (AccountsRow a) k) LogDeleteMetadata
      (DeleteMetadataData \<lparr>DelTargetType = TargetAccount, DelTargetID = a, DelKey = k\<rparr>) d = Inr (d', ch)"
    for d d' x
    by (auto simp: DeleteAccountMetadataKey_def bindE_Inr_iff split: if_splits)
qed (use metadata_frames(2) delete_repeatable in blast)+

text \<open>What is read back after a merge: the new value where one was given, the old one elsewhere.\<close>

lemma SetTransactionMetadata_merges:
  assumes "SetTransactionMetadata s e d i m = Inr (d', t)" and "book_ok d" and "unique_keys m"
    and "map_of (transactions d) (ledger s, i) = Some r"
  shows "\<exists>m'. TMetadata t = Some m' \<and>
    (\<forall>k. map_of m' k = (case map_of m k of Some v \<Rightarrow> Some v | None \<Rightarrow> map_of (tx_metadata r) k))"
proof -
  from set_tx_meta.effect [OF assms(1, 2)] obtain d1 ch where
    ch: "lockAndMerge (ledger s) e (TransactionsRow i) m d = Inr (d1, ch)" and tx: "transactions d' = transactions d1"
    by metis
  from assms(1) obtain r' where r': "map_of (transactions d') (ledger s, i) = Some r'" "t = hydrateTransaction i r'"
    by (auto simp: SetTransactionMetadata_def GetTransaction_def bindE_Inr_iff split: option.splits)
  have "map_of (tx_metadata r') k = (case map_of m k of Some v \<Rightarrow> Some v | None \<Rightarrow> map_of (tx_metadata r) k)" for k
  proof (cases "contains_meta (tx_metadata r) m")
    case True
    then have "r' = r" using ch assms(4) r' tx by (auto simp: lockAndMerge_def lockTarget_def)
    moreover have "map_of (tx_metadata r) k = Some v" if "map_of m k = Some v" for v
      using True that by (force simp: contains_meta_def list_all_iff dest: map_of_SomeD)
    ultimately show ?thesis by (auto split: option.splits)
  next
    case False
    then have "tx_metadata r' = merge_meta (tx_metadata r) m"
      using ch assms(4) r' tx by (auto simp: lockAndMerge_def lockTarget_def map_of_update_tx_row)
    then show ?thesis using map_of_merge [OF assms(3)] by simp
  qed
  then show ?thesis by (simp add: r'(2) hydrateTransaction_def)
qed

end
