(* ===== verification/Storage_Policy.thy ===== *)
theory Storage_Policy
  imports Storage_Metadata
begin

text \<open>
  Bounds and closure (\<open>src/storage/policy.go\<close>, \<open>src/storage/closure.go\<close>): the flags that say
  whether a balance may leave zero downwards or upwards, closing and reopening an account, and
  the two detectors. Setting flags moves no money; commits and reverts put no row outside its
  bounds and nothing on a closed account; the detectors report exactly the violations.
\<close>

subsection \<open>Bounds of an account\<close>

text \<open>\<open>insert ... on conflict do update\<close> of one flag, in a transaction of its own.\<close>

definition upsert_flag :: "string \<Rightarrow> key \<Rightarrow> (volume_row \<Rightarrow> volume_row) \<Rightarrow> db \<Rightarrow> db res" where
  "upsert_flag l k f d =
     bindE (case map_of (accounts_volumes d) (l, k) of
              None \<Rightarrow> insert_volume_row l k
                (f \<lparr>vr_input = 0, vr_output = 0, allow_negative = False, allow_positive = True\<rparr>) d
            | Some _ \<Rightarrow> bindE (update_volume_row l k f d) (\<lambda>x. case x of None \<Rightarrow> Inr d | Some d' \<Rightarrow> Inr d'))
       db_commit"

definition SetAllowNegative :: "Store \<Rightarrow> db \<Rightarrow> Address \<Rightarrow> Asset \<Rightarrow> bool \<Rightarrow> db res" where
  "SetAllowNegative s d a x allow =
     (if \<not> Address_Valid a then Inl (ErrText ''invalid account address'')
      else if \<not> Asset_Valid x then Inl (ErrText ''invalid asset'')
      else if a = WorldAccount \<and> \<not> allow then Inl ErrWorldMustAllowNegative
      else upsert_flag (ledger s) (a, x) (\<lambda>r. r\<lparr>allow_negative := allow\<rparr>) d)"

definition SetAllowPositive :: "Store \<Rightarrow> db \<Rightarrow> Address \<Rightarrow> Asset \<Rightarrow> bool \<Rightarrow> db res" where
  "SetAllowPositive s d a x allow =
     (if \<not> Address_Valid a then Inl (ErrText ''invalid account address'')
      else if \<not> Asset_Valid x then Inl (ErrText ''invalid asset'')
      else if a = WorldAccount \<and> \<not> allow then Inl ErrWorldMustAllowNegative
      else upsert_flag (ledger s) (a, x) (\<lambda>r. r\<lparr>allow_positive := allow\<rparr>) d)"

definition AllowsNegative :: "Store \<Rightarrow> db \<Rightarrow> Address \<Rightarrow> Asset \<Rightarrow> bool" where
  "AllowsNegative s d a x =
     (case map_of (accounts_volumes d) (ledger s, (a, x)) of
        None \<Rightarrow> a = WorldAccount
      | Some r \<Rightarrow> allow_negative r)"

record AssetPolicy =
  PolAsset :: Asset
  PolBalance :: int
  PolAllowNegative :: bool
  PolAllowPositive :: bool

definition Policy :: "Store \<Rightarrow> db \<Rightarrow> Address \<Rightarrow> AssetPolicy list res" where
  "Policy s d a =
     (if \<not> Address_Valid a then Inl (ErrText ''invalid account address'')
      else Inr (map (\<lambda>(x, r). \<lparr>PolAsset = x, PolBalance = vr_input r - vr_output r,
                              PolAllowNegative = allow_negative r, PolAllowPositive = allow_positive r\<rparr>)
                  (account_rows d (ledger s) a)))"

record UnpermittedNegative =
  UNAccount :: Address
  UNAsset :: Asset
  UNBalance :: int

definition out_of_bounds :: "volume_row \<Rightarrow> bool" where
  "out_of_bounds r \<longleftrightarrow>
     (\<not> allow_negative r \<and> vr_input r < vr_output r) \<or> (\<not> allow_positive r \<and> vr_input r > vr_output r)"

definition ledger_volumes :: "db \<Rightarrow> string \<Rightarrow> (key \<times> volume_row) list" where
  "ledger_volumes d l = map (\<lambda>((_, k), r). (k, r)) (filter (\<lambda>((l', _), _). l' = l) (accounts_volumes d))"

definition VerifyBalancePermissions :: "Store \<Rightarrow> db \<Rightarrow> nat \<times> UnpermittedNegative list" where
  "VerifyBalancePermissions s d =
     (length (ledger_volumes d (ledger s)),
      map (\<lambda>((a, x), r). \<lparr>UNAccount = a, UNAsset = x, UNBalance = vr_input r - vr_output r\<rparr>)
        (sort_key fst (filter (\<lambda>(_, r). out_of_bounds r) (ledger_volumes d (ledger s)))))"

subsection \<open>Closing\<close>

definition CloseAccount :: "Store \<Rightarrow> env \<Rightarrow> db \<Rightarrow> Address \<Rightarrow> db res" where
  "CloseAccount s e d a =
     (if \<not> Address_Valid a then Inl (ErrText ''invalid account address'')
      else if a = WorldAccount then Inl ErrAccountClosureRefused
      else
        let held = map (\<lambda>(x, r). (x, vr_input r - vr_output r))
                     (filter (\<lambda>(_, r). vr_input r \<noteq> vr_output r) (account_rows d (ledger s) a))
        in if held \<noteq> [] then Inl (ErrAccountNotEmpty a held)
           else db_commit (d\<lparr>accounts := AList.update (ledger s, a)
                  (case map_of (accounts d) (ledger s, a) of
                     None \<Rightarrow> \<lparr>address_array = Address_Segments a, acc_metadata = [], first_usage = db_now e,
                              insertion_date = db_now e, updated_at = db_now e, closed = True\<rparr>
                   | Some r \<Rightarrow> r\<lparr>closed := True, updated_at := db_now e\<rparr>) (accounts d)\<rparr>))"

definition IsClosed :: "Store \<Rightarrow> db \<Rightarrow> Address \<Rightarrow> bool" where
  "IsClosed s d a = (case map_of (accounts d) (ledger s, a) of None \<Rightarrow> False | Some r \<Rightarrow> closed r)"

definition ReopenAccount :: "Store \<Rightarrow> env \<Rightarrow> db \<Rightarrow> Address \<Rightarrow> db res" where
  "ReopenAccount s e d a =
     (if \<not> Address_Valid a then Inl (ErrText ''invalid account address'')
      else if \<not> IsClosed s d a then Inl (ErrText (a @ '' is not closed''))
      else db_commit (update_account_row (ledger s) a (\<lambda>r. r\<lparr>closed := False, updated_at := db_now e\<rparr>) d))"

record ClosedAccountHoldsBalance =
  CHAccount :: Address
  CHAsset :: Asset
  CHBalance :: int

definition VerifyClosedAccounts :: "Store \<Rightarrow> db \<Rightarrow> nat \<times> ClosedAccountHoldsBalance list" where
  "VerifyClosedAccounts s d =
     (length (filter (\<lambda>((l, _), r). l = ledger s \<and> closed r) (accounts d)),
      map (\<lambda>((a, x), r). \<lparr>CHAccount = a, CHAsset = x, CHBalance = vr_input r - vr_output r\<rparr>)
        (sort_key fst (filter (\<lambda>((a, _), r). IsClosed s d a \<and> vr_input r \<noteq> vr_output r)
           (ledger_volumes d (ledger s)))))"

subsection \<open>Flags move no money\<close>

text \<open>Rows may appear at zero and flags may change; every volume stays.\<close>

definition same_volumes :: "db \<Rightarrow> db \<Rightarrow> bool" where
  "same_volumes d d' \<longleftrightarrow>
     vol d' = vol d \<and> drift d' = drift d \<and> unique_keys (accounts_volumes d') \<and>
     (\<forall>x. map_of (accounts_volumes d) x \<noteq> None \<longrightarrow> map_of (accounts_volumes d') x \<noteq> None) \<and>
     ledgers d' = ledgers d \<and> assets d' = assets d \<and> transactions d' = transactions d \<and> moves d' = moves d \<and>
     next_seq d' = next_seq d \<and> logs d' = logs d \<and> unique_keys (accounts d')"

lemma same_volumes_book_ok:
  assumes "same_volumes d d'" and "book_ok d"
  shows "book_ok d'"
proof -
  have eq: "vol d' = vol d" "drift d' = drift d" "moves d' = moves d" "next_seq d' = next_seq d"
    "transactions d' = transactions d" "logs d' = logs d" "ledgers d' = ledgers d"
    and rows: "\<And>x. map_of (accounts_volumes d) x \<noteq> None \<Longrightarrow> map_of (accounts_volumes d') x \<noteq> None"
    using assms(1) by (auto simp: same_volumes_def)
  have lg: "logged d' = logged d" by (simp add: logged_def ledger_logs_def fun_eq_iff eq)
  have rep: "replay_ok d" using assms(2) by (simp add: book_ok_def)
  have "map_of (accounts_volumes d') (l, k) \<noteq> None" if "t \<in> set (logged d l)" "k \<in> touched (TPostings t)" for l t k
    using rep rows that unfolding replay_ok_def by blast
  with rep have "replay_ok d'" by (simp add: replay_ok_def eq lg)
  moreover have "log_ok d'" using assms(2) log_ok_cong [OF eq(6, 7)] by (simp add: book_ok_def)
  moreover have "well_keyed d'" using assms by (simp add: same_volumes_def well_keyed_def book_ok_def)
  moreover have "tx_ids_ok d'" using assms(2) by (simp add: book_ok_def tx_ids_ok_def eq)
  ultimately show ?thesis
    using assms(2) by (simp add: book_ok_def seq_ok_def pcev_ok_def pcv_ok_def proj_ok_def conserved_def eq)
qed

lemma upsert_flag_Inr:
  assumes "upsert_flag l k f d = Inr d'" and wk: "well_keyed d"
    and f: "\<And>r. vr_input (f r) = vr_input r \<and> vr_output (f r) = vr_output r"
  shows "same_volumes d d'"
    and "map_of (accounts_volumes d') (l, k) =
      Some (f (case map_of (accounts_volumes d) (l, k) of
                 None \<Rightarrow> \<lparr>vr_input = 0, vr_output = 0, allow_negative = False, allow_positive = True\<rparr>
               | Some r \<Rightarrow> r))"
    and "accounts d' = accounts d"
    and "x \<noteq> (l, k) \<Longrightarrow> map_of (accounts_volumes d') x = map_of (accounts_volumes d) x"
proof -
  let ?new = "\<lparr>vr_input = 0, vr_output = 0, allow_negative = False, allow_positive = True\<rparr>"
  define r where "r = (case map_of (accounts_volumes d) (l, k) of None \<Rightarrow> ?new | Some r \<Rightarrow> r)"
  have d': "d' = d\<lparr>accounts_volumes := AList.update (l, k) (f r) (accounts_volumes d), deferred := []\<rparr>"
    using assms(1)
    by (cases "map_of (accounts_volumes d) (l, k)")
      (simp_all add: upsert_flag_def insert_volume_row_def update_volume_row_def db_commit_Inr r_def split: if_splits)
  have uk: "unique_keys (accounts_volumes d)" using wk by (simp add: well_keyed_def)
  have zero: "vr_input (f r) - vr_output (f r) = bal d l k"
    by (simp add: f bal_def vol_def r_def Balance_def NewVolumes_def split: option.splits)
  have "vol d' = vol d"
  proof (intro ext)
    fix l' k' show "vol d' l' k' = vol d l' k'"
      using f [of r] by (auto simp: d' vol_def r_def NewVolumes_def split: option.splits)
  qed
  moreover have "drift d' = drift d"
  proof (intro ext)
    fix l' s show "drift d' l' s = drift d l' s"
      using drift_update [OF uk, of l k "f r" l' s] zero
      by (simp add: d' drift_def tab_sum_def)
  qed
  ultimately show "same_volumes d d'"
    using uk wk unfolding same_volumes_def by (simp add: d' well_keyed_def)
  show "map_of (accounts_volumes d') (l, k) = Some (f (case map_of (accounts_volumes d) (l, k) of
                 None \<Rightarrow> ?new | Some r \<Rightarrow> r))" by (simp add: d' r_def)
  show "accounts d' = accounts d" by (simp add: d')
  show "x \<noteq> (l, k) \<Longrightarrow> map_of (accounts_volumes d') x = map_of (accounts_volumes d) x" by (simp add: d')
qed

lemma SetAllow_upsert:
  "SetAllowNegative s d a x b = Inr d' \<Longrightarrow> upsert_flag (ledger s) (a, x) (\<lambda>r. r\<lparr>allow_negative := b\<rparr>) d = Inr d'"
  "SetAllowPositive s d a x b = Inr d' \<Longrightarrow> upsert_flag (ledger s) (a, x) (\<lambda>r. r\<lparr>allow_positive := b\<rparr>) d = Inr d'"
  by (auto simp: SetAllowNegative_def SetAllowPositive_def split: if_splits)

lemma SetAllow_same_volumes:
  assumes "well_keyed d"
  shows "SetAllowNegative s d a x b = Inr d' \<Longrightarrow> same_volumes d d'"
    and "SetAllowPositive s d a x b = Inr d' \<Longrightarrow> same_volumes d d'"
  using upsert_flag_Inr(1) [OF SetAllow_upsert(1) assms] upsert_flag_Inr(1) [OF SetAllow_upsert(2) assms] by simp_all

subsection \<open>A closed account holds nothing\<close>

definition closed_ok :: "db \<Rightarrow> bool" where
  "closed_ok d \<longleftrightarrow> (\<forall>l a x. account_closed d l a \<longrightarrow> bal d l (a, x) = 0)"

lemma IsClosed_eq: "IsClosed s d a = account_closed d (ledger s) a"
  by (simp add: IsClosed_def account_closed_def)

lemma account_rows_mem:
  assumes "well_keyed d"
  shows "(x, r) \<in> set (account_rows d l a) \<longleftrightarrow> map_of (accounts_volumes d) (l, (a, x)) = Some r"
proof -
  have "map_of (accounts_volumes d) (l, (a, x)) = Some r \<longleftrightarrow> ((l, (a, x)), r) \<in> set (accounts_volumes d)"
    by (rule map_of_eq_Some_iff) (use assms in \<open>simp add: well_keyed_def\<close>)
  then show ?thesis by (force simp: account_rows_def)
qed

lemma ledger_volumes_mem:
  assumes "well_keyed d"
  shows "(k, r) \<in> set (ledger_volumes d l) \<longleftrightarrow> map_of (accounts_volumes d) (l, k) = Some r"
proof -
  have "map_of (accounts_volumes d) (l, k) = Some r \<longleftrightarrow> ((l, k), r) \<in> set (accounts_volumes d)"
    by (rule map_of_eq_Some_iff) (use assms in \<open>simp add: well_keyed_def\<close>)
  then show ?thesis by (force simp: ledger_volumes_def)
qed

lemma CloseAccount_Inr:
  assumes "CloseAccount s e d a = Inr d'" and wk: "well_keyed d"
  shows "same_volumes d d'" and "account_closed d' l a' \<longleftrightarrow> account_closed d l a' \<or> (l = ledger s \<and> a' = a)"
    and "bal d (ledger s) (a, x) = 0" and "accounts_volumes d' = accounts_volumes d"
proof -
  from assms(1) obtain row where
    d': "d' = d\<lparr>accounts := AList.update (ledger s, a) row (accounts d), deferred := []\<rparr>" and cl: "closed row"
    and empty: "filter (\<lambda>(_, r). vr_input r \<noteq> vr_output r) (account_rows d (ledger s) a) = []"
    by (auto simp: CloseAccount_def Let_def db_commit_Inr split: if_splits option.splits)
  show "same_volumes d d'"
    using wk vol_cong [of d' d] drift_cong [of d' d] by (simp add: same_volumes_def d' well_keyed_def)
  show "account_closed d' l a' \<longleftrightarrow> account_closed d l a' \<or> (l = ledger s \<and> a' = a)"
    using cl by (auto simp: account_closed_def d')
  show "bal d (ledger s) (a, x) = 0"
    using empty account_rows_mem [OF wk, of x _ "ledger s" a]
    by (force simp: bal_def vol_def Balance_def NewVolumes_def filter_empty_conv split: option.splits)
  show "accounts_volumes d' = accounts_volumes d" by (simp add: d')
qed

lemma ReopenAccount_Inr:
  assumes "ReopenAccount s e d a = Inr d'" and wk: "well_keyed d"
  shows "same_volumes d d'" and "account_closed d' l a' \<longleftrightarrow> account_closed d l a' \<and> \<not> (l = ledger s \<and> a' = a)"
proof -
  from assms(1) have d': "d' = (update_account_row (ledger s) a (\<lambda>r. r\<lparr>closed := False, updated_at := db_now e\<rparr>) d)\<lparr>deferred := []\<rparr>"
    by (auto simp: ReopenAccount_def db_commit_Inr split: if_splits)
  have "unique_keys (accounts d')" using wk by (simp add: d' well_keyed_def)
  then show "same_volumes d d'"
    using wk vol_cong [of d' d] drift_cong [of d' d] by (simp add: same_volumes_def d' well_keyed_def)
  show "account_closed d' l a' \<longleftrightarrow> account_closed d l a' \<and> \<not> (l = ledger s \<and> a' = a)"
    by (auto simp: account_closed_def d' map_of_update_account_row split: option.splits)
qed


subsection \<open>What a transaction may not do\<close>

text \<open>Writing a transaction puts no row outside its bounds and no money on a closed account: a row
  that is out of bounds afterwards was already, untouched.\<close>

definition guards_kept :: "db \<Rightarrow> db \<Rightarrow> bool" where
  "guards_kept d d' \<longleftrightarrow>
     (closed_ok d \<longrightarrow> closed_ok d') \<and> account_closed d' = account_closed d \<and>
     (\<forall>x r. map_of (accounts_volumes d') x = Some r \<and> out_of_bounds r \<longrightarrow> map_of (accounts_volumes d) x = Some r)"

lemma guards_kept_refl [simp]: "guards_kept d d"
  by (simp add: guards_kept_def)

lemma guards_kept_trans: "guards_kept d d1 \<Longrightarrow> guards_kept d1 d2 \<Longrightarrow> guards_kept d d2"
  by (simp add: guards_kept_def)

lemma closed_ok_cong: "vol d' = vol d \<Longrightarrow> account_closed d' = account_closed d \<Longrightarrow> closed_ok d' = closed_ok d"
  by (simp add: closed_ok_def bal_def)

lemma guards_kept_same:
  "accounts_volumes d' = accounts_volumes d \<Longrightarrow> account_closed d' = account_closed d \<Longrightarrow> guards_kept d d'"
  using closed_ok_cong [of d' d] vol_cong [of d' d] by (simp add: guards_kept_def)

lemma volumes_effect_row:
  assumes ve: "volumes_effect l d d' ps" and row: "map_of (accounts_volumes d') x = Some r"
    and out: "\<not> (fst x = l \<and> snd x \<in> touched ps)"
  shows "map_of (accounts_volumes d) x = Some r"
proof (cases "map_of (accounts_volumes d) x")
  case None
  with ve row out show ?thesis unfolding volumes_effect_def by blast
next
  case (Some q)
  from ve have "\<forall>x r. map_of (accounts_volumes d) x = Some r \<longrightarrow>
      (\<exists>i out. map_of (accounts_volumes d') x = Some (bump i out r))" unfolding volumes_effect_def by blast
  with Some row obtain i o' where r: "r = bump i o' q" by (metis option.inject)
  have "vol d' (fst x) (snd x) = vol d (fst x) (snd x)"
    using ve out flow_untouched [of "snd x" ps] by (auto simp: volumes_effect_def)
  with Some row r have "i = 0" "o' = 0" by (auto simp: vol_def)
  with Some r show ?thesis by (simp add: bump_def)
qed

lemma apply_effect_guards:
  assumes ae: "apply_effect l e p opts d d' t a"
  shows "guards_kept d d'"
proof -
  have ve: "volumes_effect l d d' (TPostings t)" and ac: "account_closed d' = account_closed d"
    and tp: "touched (TPostings t) = touched p" and open1: "\<forall>k\<in>touched p. \<not> account_closed d l (fst k)"
    using ae resolved_touched by (auto simp: apply_effect_def)
  have "bal d' l' (a', x) = bal d l' (a', x)" if "account_closed d l' a'" for l' a' x
  proof -
    have "l' = l \<Longrightarrow> (a', x) \<notin> touched (TPostings t)" using that open1 tp by force
    then show ?thesis using volumes_effect_vol [OF ve, of l' "(a', x)"] flow_untouched by (auto simp: bal_def)
  qed
  then have "closed_ok d \<longrightarrow> closed_ok d'" by (simp add: closed_ok_def ac)
  moreover have "map_of (accounts_volumes d) x = Some r"
    if "map_of (accounts_volumes d') x = Some r" "out_of_bounds r" for x r
  proof (rule volumes_effect_row [OF ve that(1)])
    show "\<not> (fst x = l \<and> snd x \<in> touched (TPostings t))"
      using ve that unfolding volumes_effect_def out_of_bounds_def
      by (metis option.inject prod.collapse)
  qed
  ultimately show ?thesis by (simp add: guards_kept_def ac)
qed

lemma tx_logged_guards:
  assumes "tx_logged l d d1 d2 t a row"
  shows "guards_kept d d2"
proof -
  from assms obtain e p opts where "apply_effect l e p opts d d1 t a" by (auto simp: tx_logged_def)
  then have "guards_kept d d1" by (rule apply_effect_guards)
  moreover have "guards_kept d1 d2"
    using assms by (intro guards_kept_same) (simp_all add: tx_logged_def account_closed_def fun_eq_iff)
  ultimately show ?thesis by (rule guards_kept_trans)
qed

lemma guards_kept_deferred [simp]: "guards_kept d (d'\<lparr>deferred := q\<rparr>) = guards_kept d d'"
  by (simp add: guards_kept_def closed_ok_def bal_def account_closed_def fun_eq_iff)

lemma CommitTransaction_guards:
  assumes "CommitTransaction envs s d p opts = (s', Inr (d', t))" and "book_ok d"
  shows "guards_kept d d'"
proof -
  from assms(1) obtain s1 h i where v: "list_all valid_posting p"
    and once: "commitOnce s1 (envs i) d d p opts h i = Inr (d', t)" by (rule CommitTransaction_Inr)
  from once show ?thesis
  proof (cases rule: commitOnce_cases)
    case (commit d1 a d2)
    have "well_keyed d" using assms(2) by (simp add: book_ok_def)
    from commit_case_effect [OF commit(2-4) this valid_priced [OF v]] show ?thesis
      using tx_logged_guards by (auto simp: commit_effect_def)
  qed simp_all
qed

lemma RevertTransaction_guards:
  assumes "RevertTransaction envs s d i opts = (s', Inr (d', rv))" and "book_ok d"
  shows "guards_kept d d'"
proof -
  from assms(1) obtain e where "revertOnce s e d i opts = Inr (d', rv)" by (rule RevertTransaction_once)
  moreover have "well_keyed d" using assms(2) by (simp add: book_ok_def)
  ultimately have "revert_effect s e d i opts d' rv" by (rule revertOnce_effect)
  then show ?thesis using tx_logged_guards by (auto simp: revert_effect_def)
qed

subsection \<open>The detectors report exactly the violations\<close>

lemma VerifyBalancePermissions_exact:
  assumes "well_keyed d"
  shows "e \<in> set (snd (VerifyBalancePermissions s d)) \<longleftrightarrow>
    (\<exists>r. map_of (accounts_volumes d) (ledger s, (UNAccount e, UNAsset e)) = Some r \<and> out_of_bounds r \<and>
       e = \<lparr>UNAccount = UNAccount e, UNAsset = UNAsset e, UNBalance = vr_input r - vr_output r\<rparr>)"
  using ledger_volumes_mem [OF assms, of _ _ "ledger s"]
  by (cases e) (force simp: VerifyBalancePermissions_def)

lemma VerifyClosedAccounts_exact:
  assumes "well_keyed d"
  shows "e \<in> set (snd (VerifyClosedAccounts s d)) \<longleftrightarrow>
    account_closed d (ledger s) (CHAccount e) \<and> CHBalance e = bal d (ledger s) (CHAccount e, CHAsset e) \<and> CHBalance e \<noteq> 0"
proof -
  have "e \<in> set (snd (VerifyClosedAccounts s d)) \<longleftrightarrow>
    (\<exists>r. map_of (accounts_volumes d) (ledger s, (CHAccount e, CHAsset e)) = Some r \<and>
      account_closed d (ledger s) (CHAccount e) \<and> vr_input r \<noteq> vr_output r \<and> CHBalance e = vr_input r - vr_output r)"
    using ledger_volumes_mem [OF assms, of _ _ "ledger s"]
    by (cases e) (force simp: VerifyClosedAccounts_def IsClosed_eq)
  then show ?thesis
    by (auto simp: bal_def vol_def Balance_def NewVolumes_def split: option.splits)
qed

text \<open>The answer about an account nothing has touched is the flag its row is created with.\<close>

lemma AllowsNegative_untouched:
  assumes "map_of (accounts_volumes d) (ledger s, (a, x)) = None"
    and "insert_volume_row (ledger s) (a, x) (new_volume_row a) d = Inr d'"
  shows "AllowsNegative s d' a x = AllowsNegative s d a x"
  using assms by (auto simp: AllowsNegative_def insert_volume_row_def new_volume_row_def split: if_splits)

text \<open>The flag can be lost: raising world's upper bound in an asset it was never used in creates
  its row with the column defaults, and the next deposit is refused.\<close>

lemma SetAllowPositive_world_blocks:
  assumes "map_of (accounts_volumes d) (ledger s, (WorldAccount, x)) = None" and "well_keyed d"
    and "SetAllowPositive s d WorldAccount x True = Inr d'"
  shows "AllowsNegative s d WorldAccount x \<and> \<not> AllowsNegative s d' WorldAccount x"
  using upsert_flag_Inr(2) [OF SetAllow_upsert(2) [OF assms(3)] assms(2)] assms(1)
  by (simp add: AllowsNegative_def)

end
