(* ===== verification/Go_Text.thy ===== *)
theory Go_Text
  imports Go_Json
begin

text \<open>
  What the code uses of Go's \<open>strconv\<close> and \<open>encoding/base64\<close> to read back what it printed:
  decimal integers in the range of int64, and unpadded URL base64. Both round trip. And what it uses of
  \<open>strings\<close>: suffixes, and the trimming of spaces.
\<close>

subsection \<open>Decimal integers\<close>

text \<open>\<open>strconv.ParseInt(s, 10, 64)\<close>: an optional sign, at least one digit, the range of int64.\<close>

definition ParseInt64 :: "string \<Rightarrow> int option" where
  "ParseInt64 s =
     (let neg = (take 1 s = ''-'');
          ds = (if neg \<or> take 1 s = ''+'' then drop 1 s else s);
          un = int (digits_value ds)
      in if ds = [] \<or> \<not> list_all is_digit ds then None
         else if neg then (if un > 2 ^ 63 then None else Some (- un))
         else if un \<ge> 2 ^ 63 then None else Some un)"

lemma digits_value_foldl:
  "int (foldl (\<lambda>n c. 10 * n + digit_value c) n s) = foldl (\<lambda>v c. 10 * v + int (digit_value c)) (int n) s"
  by (induction s arbitrary: n) (simp_all add: algebra_simps)

text \<open>Evaluated on integers.\<close>

lemma ParseInt64_code [code]:
  "ParseInt64 s =
     (let neg = (take 1 s = ''-'');
          ds = (if neg \<or> take 1 s = ''+'' then drop 1 s else s);
          un = foldl (\<lambda>v c. 10 * v + int (digit_value c)) 0 ds
      in if ds = [] \<or> \<not> list_all is_digit ds then None
         else if neg then (if un > 2 ^ 63 then None else Some (- un))
         else if un \<ge> 2 ^ 63 then None else Some un)"
  using digits_value_foldl [of 0] by (simp add: ParseInt64_def digits_value_def)

lemma digit_chars:
  "char_of (48 :: int) = CHR ''0''" "char_of (49 :: int) = CHR ''1''" "char_of (50 :: int) = CHR ''2''"
  "char_of (51 :: int) = CHR ''3''" "char_of (52 :: int) = CHR ''4''" "char_of (53 :: int) = CHR ''5''"
  "char_of (54 :: int) = CHR ''6''" "char_of (55 :: int) = CHR ''7''" "char_of (56 :: int) = CHR ''8''"
  "char_of (57 :: int) = CHR ''9''"
  by (simp_all add: char_of_def)

lemma digit_char:
  assumes "0 \<le> n" "n < (10 :: int)"
  shows "is_digit (char_of (48 + n))" "digit_value (char_of (48 + n)) = nat n"
proof -
  from assms have "n \<in> set [0, 1, 2, 3, 4, 5, 6, 7, 8, 9]" by (simp, presburger)
  then show "is_digit (char_of (48 + n))" "digit_value (char_of (48 + n)) = nat n"
    by (auto simp: is_digit_def less_eq_char_def digit_value_def digit_chars)
qed

lemma dec_digits_acc: "dec_digits fuel n acc = dec_digits fuel n [] @ acc"
proof (induction fuel arbitrary: n acc)
  case (Suc fuel)
  show ?case
    using Suc [of "n div 10" "char_of (48 + n mod 10) # acc"] Suc [of "n div 10" "[char_of (48 + n mod 10)]"]
    by (simp add: Let_def)
qed simp

lemma digits_value_snoc: "digits_value (s @ [c]) = 10 * digits_value s + digit_value c"
  by (simp add: digits_value_def)

lemma dec_digits_value:
  "0 \<le> n \<Longrightarrow> n < 10 ^ fuel \<Longrightarrow>
     list_all is_digit (dec_digits fuel n []) \<and> int (digits_value (dec_digits fuel n [])) = n"
proof (induction fuel arbitrary: n)
  case (Suc fuel)
  have m: "0 \<le> n mod 10" "n mod 10 < 10" by simp_all
  note dc = digit_char [OF m]
  show ?case
  proof (cases "n < 10")
    case True
    then show ?thesis using Suc.prems dc by (simp add: digits_value_def)
  next
    case False
    have "list_all is_digit (dec_digits fuel (n div 10) []) \<and> int (digits_value (dec_digits fuel (n div 10) [])) = n div 10"
      using Suc.prems by (intro Suc.IH) (auto simp: pos_imp_zdiv_nonneg_iff)
    moreover have "dec_digits (Suc fuel) n [] = dec_digits fuel (n div 10) [] @ [char_of (48 + n mod 10)]"
      using False by (simp add: Let_def) (rule dec_digits_acc)
    ultimately show ?thesis using dc by (simp add: digits_value_snoc)
  qed
qed (simp add: digits_value_def)

lemma dec_digits_nonempty: "dec_digits (Suc fuel) n [] \<noteq> []"
  using dec_digits_acc [of fuel "n div 10" "[char_of (48 + n mod 10)]"] by (simp add: Let_def)

lemma abs_below_ten_power: "\<bar>n\<bar> < 10 ^ Suc (BitLen n)"
proof -
  have "\<bar>n\<bar> < 2 ^ BitLen n" using BitLen_le_iff [of n "BitLen n"] by simp
  also have "(2 :: int) ^ BitLen n \<le> 10 ^ BitLen n" by (rule power_mono) simp_all
  also have "\<dots> \<le> 10 ^ Suc (BitLen n)" by simp
  finally show ?thesis .
qed

lemma json_int_nonneg:
  assumes "0 \<le> n"
  shows "list_all is_digit (json_int n)" "int (digits_value (json_int n)) = n" "json_int n \<noteq> []"
  using dec_digits_value [OF assms, of "Suc (BitLen n)"] abs_below_ten_power [of n] assms dec_digits_nonempty
  by (simp_all add: json_int_def)

lemma ParseInt64_json_int:
  assumes "- (2 ^ 63) \<le> n" "n < 2 ^ 63"
  shows "ParseInt64 (json_int n) = Some n"
proof (cases "n < 0")
  case True
  define ds where "ds = dec_digits (Suc (BitLen n)) (- n) []"
  have ds: "list_all is_digit ds" "int (digits_value ds) = - n" "ds \<noteq> []"
    using dec_digits_value [of "- n" "Suc (BitLen n)"] abs_below_ten_power [of n] True dec_digits_nonempty
    by (simp_all add: ds_def)
  have "json_int n = CHR ''-'' # ds" using True by (simp add: json_int_def ds_def)
  then show ?thesis using ds assms by (simp add: ParseInt64_def Let_def)
next
  case False
  note j = json_int_nonneg [of n]
  have "\<not> is_digit CHR ''-''" "\<not> is_digit CHR ''+''" by (simp_all add: is_digit_def less_eq_char_def)
  then have "take 1 (json_int n) \<noteq> ''-''" "take 1 (json_int n) \<noteq> ''+''"
    using j False by (cases "json_int n"; auto)+
  then show ?thesis using j False assms by (simp add: ParseInt64_def Let_def)
qed

lemma json_int_no_colon: "CHR '':'' \<notin> set (json_int n)"
proof (cases "n < 0")
  case True
  then have "list_all is_digit (dec_digits (Suc (BitLen n)) (- n) [])"
    using dec_digits_value [of "- n" "Suc (BitLen n)"] abs_below_ten_power [of n] by simp
  then show ?thesis using True by (auto simp: json_int_def list_all_iff is_digit_def less_eq_char_def)
next
  case False
  then show ?thesis using json_int_nonneg(1) [of n] by (auto simp: list_all_iff is_digit_def less_eq_char_def)
qed

subsection \<open>Unpadded URL base64\<close>

definition base64url :: string where
  "base64url = ''ABCDEFGHIJKLMNOPQRSTUVWXYZabcdefghijklmnopqrstuvwxyz0123456789-_''"

definition b64_char :: "nat \<Rightarrow> char" where
  "b64_char n = base64url ! (n mod 64)"

fun b64_encode :: "nat list \<Rightarrow> string" where
  "b64_encode [] = []"
| "b64_encode [a] = [b64_char (a div 4), b64_char (a mod 4 * 16)]"
| "b64_encode [a, b] = [b64_char (a div 4), b64_char (a mod 4 * 16 + b div 16), b64_char (b mod 16 * 4)]"
| "b64_encode (a # b # c # xs) =
     [b64_char (a div 4), b64_char (a mod 4 * 16 + b div 16), b64_char (b mod 16 * 4 + c div 64), b64_char (c mod 64)]
     @ b64_encode xs"

definition EncodeToString :: "string \<Rightarrow> string" where
  "EncodeToString s = b64_encode (map of_char s)"

fun b64_index :: "string \<Rightarrow> char \<Rightarrow> nat option" where
  "b64_index [] c = None"
| "b64_index (a # as) c = (if a = c then Some 0 else map_option Suc (b64_index as c))"

fun b64_values :: "string \<Rightarrow> nat list option" where
  "b64_values [] = Some []"
| "b64_values (c # s) =
     (case b64_index base64url c of
        None \<Rightarrow> None
      | Some v \<Rightarrow> (case b64_values s of None \<Rightarrow> None | Some vs \<Rightarrow> Some (v # vs)))"

text \<open>A last group of one character is corrupt; the unused low bits of a short group are ignored.\<close>

fun b64_decode :: "nat list \<Rightarrow> nat list option" where
  "b64_decode [] = Some []"
| "b64_decode [p] = None"
| "b64_decode [p, q] = Some [(p * 4 + q div 16) mod 256]"
| "b64_decode [p, q, r] = Some [(p * 4 + q div 16) mod 256, (q * 16 + r div 4) mod 256]"
| "b64_decode (p # q # r # t # xs) =
     map_option (\<lambda>ys. (p * 4 + q div 16) mod 256 # (q * 16 + r div 4) mod 256 # (r * 64 + t) mod 256 # ys) (b64_decode xs)"

text \<open>Line breaks are skipped.\<close>

definition DecodeString :: "string \<Rightarrow> string option" where
  "DecodeString s =
     (case b64_values (filter (\<lambda>c. c \<noteq> CHR 0x0A \<and> c \<noteq> CHR 0x0D) s) of
        None \<Rightarrow> None
      | Some vs \<Rightarrow> map_option (map char_of) (b64_decode vs))"

lemma b64_index_nth:
  "distinct as \<Longrightarrow> i < length as \<Longrightarrow> b64_index as (as ! i) = Some i"
proof (induction as arbitrary: i)
  case (Cons a as)
  then show ?case by (cases i) auto
qed simp

lemma base64url_facts: "length base64url = 64" "distinct base64url"
  "CHR 0x0A \<notin> set base64url" "CHR 0x0D \<notin> set base64url" "CHR '':'' \<notin> set base64url"
  by (code_simp)+

lemma b64_char_facts [simp]: "b64_index base64url (b64_char n) = Some (n mod 64)" "b64_char n \<in> set base64url"
  by (simp_all add: b64_char_def base64url_facts b64_index_nth)

lemma b64_encode_chars: "set (b64_encode xs) \<subseteq> set base64url"
  by (induction xs rule: b64_encode.induct) auto

text \<open>The three bytes of a group from its four sextets.\<close>

lemma split_byte: "x < (256 :: nat) \<Longrightarrow> 0 < k \<Longrightarrow> m * k = 256 \<Longrightarrow> x div k < m"
  by (simp add: div_less_iff_less_mult)

lemma b64_bytes:
  assumes "a < (256 :: nat)" "b < 256" "c < 256"
  shows "(a div 4 mod 64 * 4 + (a mod 4 * 16 + b div 16) mod 64 div 16) mod 256 = a"
    and "((a mod 4 * 16 + b div 16) mod 64 * 16 + (b mod 16 * 4 + c div 64) mod 64 div 4) mod 256 = b"
    and "((b mod 16 * 4 + c div 64) mod 64 * 64 + c mod 64) mod 256 = c"
proof -
  have lt: "a div 4 < 64" "b div 16 < 16" "c div 64 < 4" using assms by (simp_all add: split_byte)
  have "a mod 4 < 4" "b mod 16 < 16" by simp_all
  with lt have s: "a mod 4 * 16 + b div 16 < 64" "b mod 16 * 4 + c div 64 < 64" by linarith+
  have d: "(a mod 4 * 16 + b div 16) div 16 = a mod 4" "(b mod 16 * 4 + c div 64) div 4 = b mod 16"
    using lt by simp_all
  show "(a div 4 mod 64 * 4 + (a mod 4 * 16 + b div 16) mod 64 div 16) mod 256 = a"
    using lt s d assms by simp
  have "(a mod 4 * 16 + b div 16) * 16 + b mod 16 = a mod 4 * 256 + b" by simp
  then show "((a mod 4 * 16 + b div 16) mod 64 * 16 + (b mod 16 * 4 + c div 64) mod 64 div 4) mod 256 = b"
    using s d assms by simp
  have "(b mod 16 * 4 + c div 64) * 64 + c mod 64 = b mod 16 * 256 + c" by simp
  then show "((b mod 16 * 4 + c div 64) mod 64 * 64 + c mod 64) mod 256 = c"
    using s assms by simp
qed

lemma b64_roundtrip:
  "\<forall>x\<in>set xs. x < 256 \<Longrightarrow> Option.bind (b64_values (b64_encode xs)) b64_decode = Some xs"
proof (induction xs rule: b64_encode.induct)
  case (2 a)
  then show ?case using b64_bytes(1) [of a 0 0] by simp
next
  case (3 a b)
  then have ab: "a < 256" "b < 256" "(0 :: nat) < 256" by simp_all
  have "(b mod 16 * 4 + 0 div 64) mod 64 = b mod 16 * 4 mod 64" by simp
  with b64_bytes(1, 2) [OF ab] show ?case
    by (simp only: b64_encode.simps b64_values.simps b64_char_facts option.case bind.simps b64_decode.simps)
next
  case (4 a b c xs)
  then obtain vs where vs: "b64_values (b64_encode xs) = Some vs" "b64_decode vs = Some xs"
    by (auto simp: bind_eq_Some_conv)
  have "a < 256" "b < 256" "c < 256" using 4 by auto
  with vs b64_bytes [of a b c] show ?case by simp
qed simp

lemma DecodeString_EncodeToString: "DecodeString (EncodeToString s) = Some s"
proof -
  have "filter (\<lambda>c. c \<noteq> CHR 0x0A \<and> c \<noteq> CHR 0x0D) (EncodeToString s) = EncodeToString s"
    using b64_encode_chars [of "map of_char s"] base64url_facts
    by (auto simp: EncodeToString_def filter_id_conv)
  moreover have "Option.bind (b64_values (EncodeToString s)) b64_decode = Some (map of_char s)"
    unfolding EncodeToString_def by (rule b64_roundtrip) auto
  ultimately show ?thesis
    by (auto simp: DecodeString_def bind_eq_Some_conv comp_def)
qed

lemma EncodeToString_no_colon: "CHR '':'' \<notin> set (EncodeToString s)"
  using b64_encode_chars [of "map of_char s"] base64url_facts by (auto simp: EncodeToString_def)

subsection \<open>Prefixes, suffixes and spaces\<close>

definition has_suffix :: "string \<Rightarrow> string \<Rightarrow> bool" where
  "has_suffix s p \<longleftrightarrow> length p \<le> length s \<and> drop (length s - length p) s = p"

text \<open>The encodings of the characters \<open>unicode.IsSpace\<close> holds of.\<close>

definition space_encodings :: "string list" where
  "space_encodings =
     [[CHR 0x09], [CHR 0x0A], [CHR 0x0B], [CHR 0x0C], [CHR 0x0D], [CHR 0x20],
      [CHR 0xC2, CHR 0x85], [CHR 0xC2, CHR 0xA0], [CHR 0xE1, CHR 0x9A, CHR 0x80],
      [CHR 0xE2, CHR 0x80, CHR 0x80], [CHR 0xE2, CHR 0x80, CHR 0x81], [CHR 0xE2, CHR 0x80, CHR 0x82],
      [CHR 0xE2, CHR 0x80, CHR 0x83], [CHR 0xE2, CHR 0x80, CHR 0x84], [CHR 0xE2, CHR 0x80, CHR 0x85],
      [CHR 0xE2, CHR 0x80, CHR 0x86], [CHR 0xE2, CHR 0x80, CHR 0x87], [CHR 0xE2, CHR 0x80, CHR 0x88],
      [CHR 0xE2, CHR 0x80, CHR 0x89], [CHR 0xE2, CHR 0x80, CHR 0x8A], [CHR 0xE2, CHR 0x80, CHR 0xA8],
      [CHR 0xE2, CHR 0x80, CHR 0xA9], [CHR 0xE2, CHR 0x80, CHR 0xAF], [CHR 0xE2, CHR 0x81, CHR 0x9F],
      [CHR 0xE3, CHR 0x80, CHR 0x80]]"

definition starts_with :: "string \<Rightarrow> string \<Rightarrow> bool" where
  "starts_with s p \<longleftrightarrow> take (length p) s = p"

text \<open>Dropping one encoding at a time from the front; each has at least one byte.\<close>

fun trim_front :: "nat \<Rightarrow> string list \<Rightarrow> string \<Rightarrow> string" where
  "trim_front 0 ps s = s"
| "trim_front (Suc n) ps s =
     (case find (starts_with s) ps of None \<Rightarrow> s | Some p \<Rightarrow> trim_front n ps (drop (length p) s))"

definition TrimSpace :: "string \<Rightarrow> string" where
  "TrimSpace s =
     (let t = trim_front (length s) space_encodings s
      in rev (trim_front (length t) (map rev space_encodings) (rev t)))"

lemma trim_front_subset: "set (trim_front n ps s) \<subseteq> set s"
proof (induction n arbitrary: s)
  case (Suc n)
  show ?case
  proof (cases "find (starts_with s) ps")
    case (Some p)
    then show ?thesis using Suc [of "drop (length p) s"] set_drop_subset [of "length p" s] by auto
  qed simp
qed simp

lemma TrimSpace_subset: "set (TrimSpace s) \<subseteq> set s"
  unfolding TrimSpace_def Let_def set_rev using trim_front_subset by (metis (no_types, lifting) set_rev subset_trans)

end
