(* ===== verification/Storage_Recovery.thy ===== *)
theory Storage_Recovery
  imports Storage_Policy Go_Text
begin

text \<open>
  Surviving a restore (\<open>src/storage/recovery.go\<close>): the tip of a ledger and its text form, the check
  against a recorded tip, and the RECOVERY entry that resumes above a watermark. Tips round
  trip through their text; recovering keeps the books and the chain verifiable, and no id up to
  the watermark is issued again.
\<close>

subsection \<open>Tips\<close>

record Tip =
  TipLedger :: string
  TipTxID :: int
  TipLogID :: int
  TipHash :: string

definition Tip_String :: "Tip \<Rightarrow> string" where
  "Tip_String t =
     (if TipLogID t = 0 then TipLedger t @ '':0:''
      else TipLedger t @ '':'' @ json_int (TipLogID t) @ '':'' @ EncodeToString (TipHash t))"

definition ParseTip :: "string \<Rightarrow> Tip res" where
  "ParseTip s =
     (case split_on CHR '':'' s of
        [name, num, code] \<Rightarrow>
          (case ParseInt64 num of
             None \<Rightarrow> Inl (ErrText ''malformed tip: log id'')
           | Some i \<Rightarrow>
               (case DecodeString code of
                  None \<Rightarrow> Inl (ErrText ''malformed tip: hash'')
                | Some h \<Rightarrow> Inr \<lparr>TipLedger = name, TipTxID = 0, TipLogID = i, TipHash = h\<rparr>))
      | _ \<Rightarrow> Inl (ErrText ''malformed tip, want ledger:logID:hash''))"

definition ChainTip :: "Store \<Rightarrow> db \<Rightarrow> Tip res" where
  "ChainTip s d =
     (case map_of (ledgers d) (ledger s) of
        None \<Rightarrow> Inl (ErrLedgerNotFound (ledger s))
      | Some r \<Rightarrow> Inr \<lparr>TipLedger = ledger s, TipTxID = last_tx_id r, TipLogID = last_log_id r,
                       TipHash = hash_bytes (last_log_hash r)\<rparr>)"

text \<open>The kind of a \<open>TipMismatch\<close>, with the ids it reports.\<close>

definition CheckTip :: "Store \<Rightarrow> db \<Rightarrow> Tip \<Rightarrow> unit res" where
  "CheckTip s d expected =
     bindE (ChainTip s d) (\<lambda>actual.
       if TipLogID expected = 0 then Inr ()
       else (case map_of (logs d) (ledger s, TipLogID expected) of
               None \<Rightarrow> Inl (ErrChainBehind (TipLogID expected) (TipLogID actual))
             | Some r \<Rightarrow>
                 if lg_hash r \<noteq> TipHash expected then Inl (ErrChainForked (TipLogID expected)) else Inr ()))"

text \<open>Go's int64 arithmetic wraps.\<close>

definition int64 :: "int \<Rightarrow> int" where
  "int64 x = sint (word_of_int x :: 64 word)"

definition max64 :: "int \<Rightarrow> int \<Rightarrow> int" where
  "max64 a b = (if a > b then a else b)"

definition RecordRecovery :: "Store \<Rightarrow> env \<Rightarrow> db \<Rightarrow> Tip \<Rightarrow> string \<Rightarrow> db res" where
  "RecordRecovery s e d watermark note =
     bindE (ChainTip s d) (\<lambda>current.
       if TipLogID current \<ge> TipLogID watermark \<and> TipTxID current \<ge> TipTxID watermark then Inr d
       else
         let lastTx = TipTxID current; lastLog = TipLogID current; previous = TipHash current;
             payload = RecoveryData \<lparr>ResumedFrom = lastLog, SkippedThrough = TipLogID watermark, Note = note\<rparr>;
             entry = \<lparr>LogID = int64 (max64 lastLog (TipLogID watermark) + 1), LType = LogRecovery,
                      LDate = truncate_us (go_now e), LData = payload,
                      LHash = ChainHash previous (log_text payload), IdempotencyKey = [], IdempotencyHash = []\<rparr>
         in bindE (update_ledger_row (ledger s)
                     (\<lambda>r. r\<lparr>last_tx_id := max (last_tx_id r) (max64 lastTx (TipTxID watermark)),
                            last_log_id := LogID entry\<rparr>) d) (\<lambda>x.
            case x of
              None \<Rightarrow> Inl (ErrLedgerNotFound (ledger s))
            | Some (d1, _) \<Rightarrow> bindE (insertLog (ledger s) entry d1) db_commit))"

subsection \<open>Tips are what they print\<close>

lemma ParseTip_String:
  assumes "CHR '':'' \<notin> set (TipLedger t)" "- (2 ^ 63) \<le> TipLogID t" "TipLogID t < 2 ^ 63"
    and "TipLogID t = 0 \<Longrightarrow> TipHash t = []"
  shows "ParseTip (Tip_String t) = Inr (t\<lparr>TipTxID := 0\<rparr>)"
proof (cases "TipLogID t = 0")
  case True
  have "Tip_String t = TipLedger t @ CHR '':'' # ''0'' @ CHR '':'' # []" using True by (simp add: Tip_String_def)
  then have "split_on CHR '':'' (Tip_String t) = [TipLedger t, ''0'', []]"
    using assms(1) split_on_append [of "CHR '':''" "TipLedger t" "''0:''"] by simp
  moreover have "ParseInt64 ''0'' = Some 0" "DecodeString [] = Some []" by (code_simp)+
  ultimately show ?thesis using True assms(4) by (simp add: ParseTip_def)
next
  case False
  have "Tip_String t = TipLedger t @ CHR '':'' # json_int (TipLogID t) @ CHR '':'' # EncodeToString (TipHash t)"
    using False by (simp add: Tip_String_def)
  then have "split_on CHR '':'' (Tip_String t) = [TipLedger t, json_int (TipLogID t), EncodeToString (TipHash t)]"
    using assms(1) by (simp only: split_on_append split_on_single json_int_no_colon EncodeToString_no_colon
        not_False_eq_True)
  then show ?thesis
    using ParseInt64_json_int [OF assms(2, 3)] by (simp add: ParseTip_def DecodeString_EncodeToString)
qed

text \<open>A ledger whose name contains a colon cannot be named in a tip.\<close>

lemma length_split_on: "length (split_on c s) = Suc (count_list s c)"
proof (induction s)
  case (Cons x s)
  then show ?case by (cases "split_on c s") auto
qed simp

lemma ParseTip_colon:
  assumes "CHR '':'' \<in> set (TipLedger t)"
  shows "\<exists>err. ParseTip (Tip_String t) = Inl err"
proof -
  have "0 < count_list (TipLedger t) CHR '':''" using assms count_list_0_iff [of "TipLedger t" "CHR '':''"] by simp
  then have "3 < length (split_on CHR '':'' (Tip_String t))"
    by (simp add: length_split_on Tip_String_def count_list_append)
  then show ?thesis by (auto simp: ParseTip_def split: list.splits)
qed

subsection \<open>Recovering\<close>

lemma int64_small: "- (2 ^ 63) \<le> x \<Longrightarrow> x < 2 ^ 63 \<Longrightarrow> int64 x = x"
  by (simp add: int64_def signed_of_int signed_take_bit_int_eq_self)

lemma int64_overflow: "int64 (2 ^ 63) = - (2 ^ 63)"
  by (simp add: int64_def)

lemma RecordRecovery_noop:
  assumes "map_of (ledgers d) (ledger s) = Some r"
    and "TipLogID w \<le> last_log_id r" "TipTxID w \<le> last_tx_id r"
  shows "RecordRecovery s e d w note = Inr d"
  using assms by (simp add: RecordRecovery_def ChainTip_def)

lemma RecordRecovery_entry:
  assumes "RecordRecovery s e d w note = Inr d'" and r: "map_of (ledgers d) (ledger s) = Some r"
    and behind: "\<not> (TipLogID w \<le> last_log_id r \<and> TipTxID w \<le> last_tx_id r)" and inv: "book_ok d"
    and range: "TipLogID w < 2 ^ 63"
  defines "i \<equiv> max (last_log_id r) (TipLogID w) + 1"
  shows "\<exists>row r'. entry_logged (ledger s) d d' r r' i row \<and> lg_type row = LogRecovery \<and>
    last_tx_id r' = max (last_tx_id r) (TipTxID w) \<and> last_log_id r' = i \<and>
    transactions d' = transactions d \<and> accounts d' = accounts d \<and>
    lg_data row = RecoveryData \<lparr>ResumedFrom = last_log_id r, SkippedThrough = TipLogID w, Note = note\<rparr>"
proof -
  let ?l = "ledger s"
  have pos: "0 \<le> last_log_id r" "last_log_id r < 2 ^ 63"
    using inv r by (fastforce simp: book_ok_def log_ok_def chain_ok_def max_bigint_def)+
  have mx: "max64 (last_log_id r) (TipLogID w) = max (last_log_id r) (TipLogID w)"
    "max (last_tx_id r) (max64 (last_tx_id r) (TipTxID w)) = max (last_tx_id r) (TipTxID w)"
    by (simp_all add: max64_def)
  define n where "n = int64 i"
  let ?data = "RecoveryData \<lparr>ResumedFrom = last_log_id r, SkippedThrough = TipLogID w, Note = note\<rparr>"
  let ?h = "ChainHash (hash_bytes (last_log_hash r)) (log_text ?data)"
  let ?r1 = "r\<lparr>last_tx_id := max (last_tx_id r) (TipTxID w), last_log_id := n\<rparr>"
  let ?row = "\<lparr>lg_type = LogRecovery, lg_data = ?data, lg_date = truncate_us (go_now e), lg_hash = ?h,
    lg_key = None, lg_key_hash = None\<rparr>"
  let ?lg = "\<lparr>LogID = n, LType = LogRecovery, LDate = truncate_us (go_now e), LData = ?data, LHash = ?h,
    IdempotencyKey = [], IdempotencyHash = []\<rparr>"
  from assms(1) r behind obtain d1 d2 where
    up: "last_log_id r \<le> n \<and> n \<le> max_bigint" "d1 = d\<lparr>ledgers := AList.update ?l ?r1 (ledgers d)\<rparr>"
    and ins: "insertLog ?l ?lg d1 = Inr d2" and d': "d' = d2\<lparr>deferred := []\<rparr>"
    by (auto simp: RecordRecovery_def ChainTip_def Let_def update_ledger_row_def bindE_Inr_iff mx n_def i_def
        db_commit_Inr split: if_splits)
  have "n = i"
  proof (rule ccontr)
    assume "n \<noteq> i"
    moreover have "i \<le> 2 ^ 63" "- (2 ^ 63) \<le> i" using range pos by (simp_all add: i_def)
    ultimately have "i = 2 ^ 63" using int64_small [of i] by (force simp: n_def)
    then have "n = - (2 ^ 63)" by (simp only: n_def int64_overflow)
    with up(1) pos show False by simp
  qed
  have "map_of (ledgers d1) ?l = Some ?r1" by (simp add: up(2))
  note d2 = insertLog_Inr [OF ins this]
  have upd: "AList.update ?l x (AList.update ?l y m) = AList.update ?l x m" for x y :: ledger_row and m
    by (induction m) auto
  have "log_appended ?l d d' r (?r1\<lparr>last_log_hash := Some ?h\<rparr>) i ?row"
    using r \<open>n = i\<close> up(1) by (auto simp: log_appended_def d' d2 up(2) upd i_def max_def)
  then have "entry_logged ?l d d' r (?r1\<lparr>last_log_hash := Some ?h\<rparr>) i ?row"
    using inv by (auto simp: entry_logged_def moves_value_def d' d2 up(2) book_ok_def well_keyed_def)
  then show ?thesis
    by (intro exI [of _ ?row] exI [of _ "?r1\<lparr>last_log_hash := Some ?h\<rparr>"]) (simp add: \<open>n = i\<close> d' d2 up(2))
qed


lemma RecordRecovery_keeps_book:
  assumes "RecordRecovery s e d w note = Inr d'" and "book_ok d"
    and "TipLogID w < 2 ^ 63"
  shows "book_ok d'"
proof -
  from assms(1) obtain r where r: "map_of (ledgers d) (ledger s) = Some r"
    by (auto simp: RecordRecovery_def ChainTip_def split: option.splits)
  show ?thesis
  proof (cases "TipLogID w \<le> last_log_id r \<and> TipTxID w \<le> last_tx_id r")
    case True
    with RecordRecovery_noop [OF r] assms(1, 2) show ?thesis by simp
  next
    case False
    from RecordRecovery_entry [OF assms(1) r False assms(2, 3)]
    show ?thesis using entry_logged_book_ok [OF _ assms(2)] by blast
  qed
qed

text \<open>Afterwards the counters stand above the watermark, so no id up to it is ever issued again.\<close>

lemma RecordRecovery_above:
  assumes "RecordRecovery s e d w note = Inr d'" and "book_ok d" and r: "map_of (ledgers d) (ledger s) = Some r"
    and "TipLogID w < 2 ^ 63"
  obtains r' where "map_of (ledgers d') (ledger s) = Some r'" "TipLogID w \<le> last_log_id r'" "TipTxID w \<le> last_tx_id r'"
proof (cases "TipLogID w \<le> last_log_id r \<and> TipTxID w \<le> last_tx_id r")
  case True
  with RecordRecovery_noop [OF r] assms(1) r show ?thesis by (intro that [of r]) auto
next
  case False
  from RecordRecovery_entry [OF assms(1) r False assms(2, 4)] obtain row r' where
    "entry_logged (ledger s) d d' r r' (max (last_log_id r) (TipLogID w) + 1) row"
    "last_tx_id r' = max (last_tx_id r) (TipTxID w)" "last_log_id r' = max (last_log_id r) (TipLogID w) + 1" by blast
  then show ?thesis by (intro that [of r']) (auto simp: entry_logged_def log_appended_def)
qed

text \<open>The tip of a ledger passes its own check, and keeps passing while entries are appended.\<close>

lemma walk_tip:
  assumes "foldE verify_entry xs w = Inr (h, n, c)" "xs \<noteq> []"
  shows "h = lg_hash (snd (last xs)) \<and> n = fst (last xs) + 1"
proof -
  obtain ys x where xs: "xs = ys @ [x]" using assms(2) by (cases xs rule: rev_cases) auto
  then obtain w' where "verify_entry (fst x, snd x) w' = Inr (h, n, c)"
    using assms(1) by (auto simp: foldE_append bindE_Inr_iff)
  then show ?thesis
    unfolding xs by (cases w'; cases x) (auto simp: bindE_Inr_iff verify_entry_def split: if_splits)
qed

lemma tip_entry:
  assumes inv: "book_ok d" and r: "map_of (ledgers d) l = Some r" and "last_log_id r \<noteq> 0"
  obtains row where "map_of (logs d) (l, last_log_id r) = Some row" "lg_hash row = hash_bytes (last_log_hash r)"
proof -
  have w: "foldE verify_entry (ledger_logs d l) walk_start =
      Inr (hash_bytes (last_log_hash r), last_log_id r + 1, length (ledger_logs d l))"
    using inv r by (simp add: book_ok_def log_ok_def chain_ok_def)
  have ne: "ledger_logs d l \<noteq> []" using w assms(3) by (auto simp: walk_start_def)
  obtain i row where last: "last (ledger_logs d l) = (i, row)" by (cases "last (ledger_logs d l)")
  with walk_tip [OF w ne] have eq: "lg_hash row = hash_bytes (last_log_hash r)" "i = last_log_id r" by auto
  have "((l, i), row) \<in> set (logs d)" using last_in_set [OF ne] last set_ledger_logs by metis
  moreover have "unique_keys (logs d)" using inv by (simp add: book_ok_def well_keyed_def)
  ultimately show thesis using eq that by (simp add: map_of_eq_Some_iff)
qed

lemma CheckTip_self:
  assumes "book_ok d" and "ChainTip s d = Inr t"
  shows "CheckTip s d t = Inr ()"
proof -
  from assms(2) obtain r where r: "map_of (ledgers d) (ledger s) = Some r"
    and t: "t = \<lparr>TipLedger = ledger s, TipTxID = last_tx_id r, TipLogID = last_log_id r, TipHash = hash_bytes (last_log_hash r)\<rparr>"
    by (auto simp: ChainTip_def split: option.splits)
  show ?thesis
  proof (cases "last_log_id r = 0")
    case False
    with tip_entry [OF assms(1) r] obtain row where
      "map_of (logs d) (ledger s, last_log_id r) = Some row" "lg_hash row = hash_bytes (last_log_hash r)" by blast
    then show ?thesis by (simp add: CheckTip_def assms(2)) (simp add: t)
  qed (simp add: CheckTip_def assms(2) t [symmetric], simp add: t)
qed

lemma CheckTip_stays:
  assumes "CheckTip s d t = Inr ()" and "logs d' = logs d @ extra" and "ChainTip s d' = Inr t'"
  shows "CheckTip s d' t = Inr ()"
  using assms by (auto simp: CheckTip_def bindE_Inr_iff map_add_def split: option.splits if_splits)

text \<open>A restore that comes back short of the tip is reported as behind it.\<close>

lemma CheckTip_behind:
  assumes "book_ok d" "map_of (ledgers d) (ledger s) = Some r" "last_log_id r < TipLogID t" "TipLogID t \<noteq> 0"
  shows "CheckTip s d t = Inl (ErrChainBehind (TipLogID t) (last_log_id r))"
proof -
  have "map_of (logs d) (ledger s, TipLogID t) = None"
  proof (rule ccontr)
    assume "map_of (logs d) (ledger s, TipLogID t) \<noteq> None"
    then have "(ledger s, TipLogID t) \<in> set (keys (logs d))" by (metis map_of_eq_None_iff set_map)
    with assms(1-3) show False unfolding book_ok_def log_ok_def log_ids_ok_def by fastforce
  qed
  then show ?thesis using assms(2, 4) by (simp add: CheckTip_def ChainTip_def)
qed

end
