(* ===== verification/Storage_Verify.thy ===== *)
theory Storage_Verify
  imports Storage_Recovery
begin

text \<open>
  The verifiers (\<open>src/storage/verify.go\<close>, \<open>effective.go\<close>, \<open>verify_runs.go\<close>, \<open>stale.go\<close>): replaying
  the log against the stored volumes, recomputing every effective snapshot, conservation, and
  the run that records them all. Each check is shown to decide exactly the property it is
  named after, so all of them pass on a book that satisfies the invariant; and a log that
  verifies up to a known hash has not been rewritten, unless SHA-256 collided.
\<close>

subsection \<open>Replaying the log\<close>

type_synonym replayed = "(key, Volumes) table \<times> int list"

definition replay_posting :: "Posting \<Rightarrow> (key, Volumes) table \<Rightarrow> (key, Volumes) table res" where
  "replay_posting p volumes =
     (case Amount p of
        None \<Rightarrow> Inl NilPanic
      | Some a \<Rightarrow> Inr (apply_side (apply_side volumes (Source p, PAsset p) a True) (Destination p, PAsset p) a False))"

definition replay_tx :: "Transaction \<Rightarrow> replayed \<Rightarrow> replayed res" where
  "replay_tx t st =
     bindE (foldE replay_posting (TPostings t) (fst st)) (\<lambda>volumes. Inr (volumes, List.insert (TxID t) (snd st)))"

definition replay_entry :: "int \<times> log_row \<Rightarrow> replayed \<Rightarrow> replayed res" where
  "replay_entry x st =
     (case lg_type (snd x) of
        LogNewTransaction \<Rightarrow>
          (case unmarshalTransaction (lg_data (snd x)) of
             None \<Rightarrow> Inl (ErrText (''log '' @ json_int (fst x)))
           | Some t \<Rightarrow> replay_tx t st)
      | LogRevertedTransaction \<Rightarrow>
          (case unmarshalReverted (lg_data (snd x)) of
             None \<Rightarrow> Inl (ErrText (''log '' @ json_int (fst x)))
           | Some p \<Rightarrow>
               (case RevTransaction p of
                  None \<Rightarrow> Inl (ErrText (''log '' @ json_int (fst x) @ '' carries no transaction''))
                | Some t \<Rightarrow> replay_tx t st))
      | _ \<Rightarrow> Inr st)"

definition replayLog :: "Store \<Rightarrow> db \<Rightarrow> replayed res" where
  "replayLog s d = foldE replay_entry (ledger_logs d (ledger s)) ([], [])"

definition storedVolumes :: "Store \<Rightarrow> db \<Rightarrow> (key, Volumes) table" where
  "storedVolumes s d =
     map (\<lambda>(k, r). (k, \<lparr>Input = vr_input r, Output = vr_output r\<rparr>)) (ledger_volumes d (ledger s))"

definition verifyTransactionsMatchLog :: "Store \<Rightarrow> db \<Rightarrow> int list \<Rightarrow> error option" where
  "verifyTransactionsMatchLog s d seen =
     (let ids = map fst (ledger_txs d (ledger s))
      in case filter (\<lambda>i. i \<notin> set seen) ids of
           i # _ \<Rightarrow> Some (ErrNeverLogged i)
         | [] \<Rightarrow> if length ids \<noteq> length seen then Some (ErrLogCount (length seen) (length ids)) else None)"

definition volume_pair :: "Volumes \<Rightarrow> int \<times> int" where
  "volume_pair v = (Input v, Output v)"

text \<open>One key of the comparison; the state of the loop is nothing but its counter.\<close>

definition compare_key :: "(key, Volumes) table \<Rightarrow> (key, Volumes) table \<Rightarrow> key \<Rightarrow> unit \<Rightarrow> unit res" where
  "compare_key want stored k u =
     (case (map_of want k, map_of stored k) of
        (Some expected, None) \<Rightarrow> Inl (ProjectionMismatch (fst k) (snd k) None (Some (volume_pair expected)))
      | (None, Some actual) \<Rightarrow>
          if Balance actual \<noteq> 0 \<or> Input actual \<noteq> 0
          then Inl (ProjectionMismatch (fst k) (snd k) (Some (volume_pair actual)) None) else Inr ()
      | (Some expected, Some actual) \<Rightarrow>
          if Input actual \<noteq> Input expected \<or> Output actual \<noteq> Output expected
          then Inl (ProjectionMismatch (fst k) (snd k) (Some (volume_pair actual)) (Some (volume_pair expected)))
          else Inr ()
      | (None, None) \<Rightarrow> Inr ())"

definition VerifyProjection :: "Store \<Rightarrow> db \<Rightarrow> nat \<times> error option" where
  "VerifyProjection s d =
     (case replayLog s d of
        Inl err \<Rightarrow> (0, Some err)
      | Inr (want, seen) \<Rightarrow>
          (let stored = storedVolumes s d;
               ks = sort (keys want @ filter (\<lambda>k. map_of want k = None) (keys stored))
           in case scanE (compare_key want stored) ks () 0 of
                (checked, Some err) \<Rightarrow> (checked, Some err)
              | (checked, None) \<Rightarrow> (checked, verifyTransactionsMatchLog s d seen)))"

subsection \<open>The other checks\<close>

definition effective_order :: "db \<Rightarrow> string \<Rightarrow> move_row list" where
  "effective_order d l = sort_key (\<lambda>m. (mv_key m, eff_key m)) (ledger_moves d l)"

definition verify_move :: "move_row \<Rightarrow> (key, Volumes) table \<Rightarrow> (key, Volumes) table res" where
  "verify_move m running =
     (let running' = apply_side running (mv_key m) (mv_amount m) (mv_is_source m);
          want = vol_at running' (mv_key m)
      in if Input (mv_pcev m) \<noteq> Input want \<or> Output (mv_pcev m) \<noteq> Output want
         then Inl (EffectiveVolumesMismatch (mv_seq m) (fst (mv_key m)) (snd (mv_key m))
                     (volume_pair (mv_pcev m)) (volume_pair want))
         else Inr running')"

definition VerifyEffectiveVolumes :: "Store \<Rightarrow> db \<Rightarrow> nat \<times> error option" where
  "VerifyEffectiveVolumes s d = scanE verify_move (effective_order d (ledger s)) [] 0"

definition ledger_assets :: "db \<Rightarrow> string \<Rightarrow> Asset list" where
  "ledger_assets d l = sort (remdups (map (\<lambda>(k, _). snd k) (ledger_volumes d l)))"

definition VerifyConservation :: "Store \<Rightarrow> db \<Rightarrow> nat \<times> error option" where
  "VerifyConservation s d =
     (let groups = map (\<lambda>x. (x, drift d (ledger s) x)) (ledger_assets d (ledger s));
          drifted = filter (\<lambda>(_, n). n \<noteq> 0) groups;
          checked = sum_list (map (\<lambda>(x, _). length (filter (\<lambda>(k, _). snd k = x) (ledger_volumes d (ledger s)))) groups)
      in (checked, if drifted \<noteq> [] then Some (ErrConservationBroken drifted) else None))"

definition balance_permissions :: "Store \<Rightarrow> db \<Rightarrow> nat \<times> error option" where
  "balance_permissions s d =
     (case VerifyBalancePermissions s d of (checked, found) \<Rightarrow>
        (checked, if found = [] then None
                  else Some (UnpermittedNegatives (map (\<lambda>x. (UNAccount x, UNAsset x, UNBalance x)) found))))"

definition closed_accounts :: "Store \<Rightarrow> db \<Rightarrow> nat \<times> error option" where
  "closed_accounts s d =
     (case VerifyClosedAccounts s d of (checked, found) \<Rightarrow>
        (checked, if found = [] then None
                  else Some (ClosedAccountsHold (map (\<lambda>x. (CHAccount x, CHAsset x, CHBalance x)) found))))"

subsection \<open>Stale balances\<close>

record StaleBalance =
  SBAccount :: Address
  SBAsset :: Asset
  SBBalance :: int
  LastMove :: time

definition last_insertion :: "db \<Rightarrow> string \<Rightarrow> key \<Rightarrow> time option" where
  "last_insertion d l k =
     (case map mv_insertion_date (key_moves d l k) of [] \<Rightarrow> None | t # ts \<Rightarrow> Some (foldl max t ts))"

definition StaleBalances :: "Store \<Rightarrow> env \<Rightarrow> db \<Rightarrow> string \<Rightarrow> int \<Rightarrow> StaleBalance list res" where
  "StaleBalances s e d prefix olderThan =
     (if olderThan < 0 then Inl (ErrText ''olderThan is negative'')
      else
        let cutoff = truncate_us (go_now e - olderThan);
            rows = List.map_filter (\<lambda>(k, r).
              case last_insertion d (ledger s) k of
                None \<Rightarrow> None
              | Some last1 \<Rightarrow>
                  if under_prefix prefix (fst k) \<and> vr_input r \<noteq> vr_output r \<and> last1 < cutoff
                  then Some \<lparr>SBAccount = fst k, SBAsset = snd k, SBBalance = vr_input r - vr_output r, LastMove = last1\<rparr>
                  else None) (ledger_volumes d (ledger s))
        in Inr (sort_key (\<lambda>b. (LastMove b, SBAccount b, SBAsset b)) rows))"

subsection \<open>A verification run\<close>

record CheckResult =
  CName :: string
  Checked :: nat
  OK :: bool
  Detail :: string
  Took :: int

definition maxDetail :: nat where "maxDetail = 4000"

definition truncateDetail :: "string \<Rightarrow> string" where
  "truncateDetail s = (if length s \<le> maxDetail then s else take maxDetail s @ [CHR 0x0A] @ ''... truncated'')"

record VerifyOptions =
  StalePrefix :: string
  StaleAfter :: int
  Record :: bool
  Extra :: "(string \<times> (db \<Rightarrow> nat \<times> error option)) list"

text \<open>\<open>text\<close> prints an error, \<open>stale_text\<close> a stale balance, \<open>took\<close> is the time a check took: none
  of them is looked at again.\<close>

definition result :: "(error \<Rightarrow> string) \<Rightarrow> string \<Rightarrow> nat \<times> error option \<Rightarrow> int \<Rightarrow> CheckResult" where
  "result text name out took =
     \<lparr>CName = name, Checked = fst out, OK = (snd out = None),
      Detail = (case snd out of None \<Rightarrow> [] | Some err \<Rightarrow> truncateDetail (text err)), Took = took\<rparr>"

definition stale_result ::
  "(error \<Rightarrow> string) \<Rightarrow> (StaleBalance \<Rightarrow> string) \<Rightarrow> StaleBalance list res \<Rightarrow> int \<Rightarrow> CheckResult" where
  "stale_result text stale_text out took =
     (case out of
        Inl err \<Rightarrow> \<lparr>CName = ''stale_balances'', Checked = 0, OK = False, Detail = text err, Took = took\<rparr>
      | Inr stale \<Rightarrow>
          \<lparr>CName = ''stale_balances'', Checked = length stale, OK = (stale = []),
           Detail = foldl (\<lambda>detail b. truncateDetail (detail @ stale_text b @ [CHR 0x0A])) [] stale, Took = took\<rparr>)"

definition engine_checks :: "Store \<Rightarrow> (string \<times> (db \<Rightarrow> nat \<times> error option)) list" where
  "engine_checks s =
     [(''conservation'', VerifyConservation s), (''log'', VerifyLog s), (''projection'', VerifyProjection s),
      (''effective_volumes'', VerifyEffectiveVolumes s), (''balance_permissions'', balance_permissions s),
      (''closed_accounts'', closed_accounts s)]"

definition recordVerification :: "Store \<Rightarrow> env \<Rightarrow> CheckResult list \<Rightarrow> db \<Rightarrow> db" where
  "recordVerification s e results d =
     d\<lparr>verification_runs := verification_runs d @
        map (\<lambda>r. \<lparr>run_ledger = ledger s, run_check = CName r, run_at = db_now e, run_checked = int (Checked r),
                  run_ok = OK r, run_detail = (if Detail r = [] then None else Some (Detail r)),
                  run_took_ms = Took r div 1000000\<rparr>) results\<rparr>"

definition Verify ::
  "(error \<Rightarrow> string) \<Rightarrow> (StaleBalance \<Rightarrow> string) \<Rightarrow> (string \<Rightarrow> int) \<Rightarrow> Store \<Rightarrow> env \<Rightarrow> VerifyOptions \<Rightarrow> db \<Rightarrow>
   db \<times> CheckResult list" where
  "Verify text stale_text took s e opts d =
     (let ran = map (\<lambda>(name, run). result text name (run d) (took name)) (engine_checks s @ Extra opts);
          stale = (if StaleAfter opts > 0
                   then [stale_result text stale_text (StaleBalances s e d (StalePrefix opts) (StaleAfter opts))
                           (took ''stale_balances'')]
                   else []);
          results = ran @ stale
      in (if Record opts then recordVerification s e results d else d, results))"

definition LastVerified :: "Store \<Rightarrow> db \<Rightarrow> (string, time) table" where
  "LastVerified s d =
     (let runs = filter (\<lambda>r. run_ledger r = ledger s) (verification_runs d)
      in map (\<lambda>name. (name, Max (set (map run_at (filter (\<lambda>r. run_check r = name) runs)))))
           (sort (remdups (map run_check runs))))"

definition Ledgers :: "db \<Rightarrow> string list" where
  "Ledgers d = sort (keys (ledgers d))"


subsection \<open>The replay computes the flows of the logged transactions\<close>

lemma flows_Cons: "flows (t # ts) k =
    add_flow (flows ts k) (inflow (TPostings t) k) (outflow (TPostings t) k)"
  by (simp add: flows_def add_flow_def)

lemma replay_postings_ok:
  "all_amounts ps \<Longrightarrow> \<exists>v'. foldE replay_posting ps v = Inr v' \<and>
     (\<forall>k. vol_at v' k = add_flow (vol_at v k) (inflow ps k) (outflow ps k)) \<and> set (keys v') = set (keys v) \<union> touched ps"
proof (induction ps arbitrary: v)
  case (Cons p ps)
  then obtain a where a: "Amount p = Some a" and am: "all_amounts ps" by (auto simp: all_amounts_def)
  let ?v = "apply_side (apply_side v (Source p, PAsset p) a True) (Destination p, PAsset p) a False"
  from Cons.IH [OF am, of ?v] obtain v' where v': "foldE replay_posting ps ?v = Inr v'"
    "\<forall>k. vol_at v' k = add_flow (vol_at ?v k) (inflow ps k) (outflow ps k)"
    "set (keys v') = set (keys ?v) \<union> touched ps" by blast
  have "amt p = a" using a by (simp add: amt_def orZero_def)
  then have "vol_at v' k = add_flow (vol_at v k) (inflow (p # ps) k) (outflow (p # ps) k)" for k
    using v'(2) by (auto simp: vol_at_apply_side algebra_simps)
  moreover have "set (keys v') = set (keys v) \<union> touched (p # ps)" using v'(3) by (auto simp: apply_side_def)
  moreover have "foldE replay_posting (p # ps) v = Inr v'" using v'(1) a by (simp add: replay_posting_def [of p])
  ultimately show ?case by blast
qed simp

definition replayable :: "log_row \<Rightarrow> bool" where
  "replayable r \<longleftrightarrow>
     (moves_value r \<longrightarrow> log_tx r \<noteq> None) \<and> (\<forall>t. log_tx r = Some t \<longrightarrow> all_amounts (TPostings t))"

lemma replay_entry_log_tx:
  assumes "replayable (snd x)"
  shows "replay_entry x st = (case log_tx (snd x) of None \<Rightarrow> Inr st | Some t \<Rightarrow> replay_tx t st)"
  using assms
  by (cases "lg_type (snd x)")
    (auto simp: replay_entry_def log_tx.simps replayable_def moves_value_def bind_eq_Some_conv split: option.splits)

lemma replay_entries_ok:
  assumes "\<forall>x\<in>set xs. replayable (snd x)" and "distinct seen"
  shows "\<exists>v' seen'. foldE replay_entry xs (v, seen) = Inr (v', seen') \<and> distinct seen' \<and>
    (\<forall>k. vol_at v' k = add_flow (vol_at v k) (Input (flows (List.map_filter log_tx (map snd xs)) k))
       (Output (flows (List.map_filter log_tx (map snd xs)) k))) \<and>
    set (keys v') = set (keys v) \<union> (\<Union>t\<in>set (List.map_filter log_tx (map snd xs)). touched (TPostings t)) \<and>
    set seen' = set seen \<union> TxID ` set (List.map_filter log_tx (map snd xs))"
  using assms
proof (induction xs arbitrary: v seen)
  case Nil
  then show ?case by (simp add: List.map_filter_simps NewVolumes_def)
next
  case (Cons x xs)
  have rp: "replayable (snd x)" using Cons.prems by simp
  show ?case
  proof (cases "log_tx (snd x)")
    case None
    then show ?thesis
      using Cons.IH [of seen v] Cons.prems replay_entry_log_tx [OF rp, of "(v, seen)"]
      by (auto simp: List.map_filter_simps)
  next
    case (Some t)
    then have "all_amounts (TPostings t)" using rp by (simp add: replayable_def)
    from replay_postings_ok [OF this, of v] obtain w where w: "foldE replay_posting (TPostings t) v = Inr w"
      "\<forall>k. vol_at w k = add_flow (vol_at v k) (inflow (TPostings t) k) (outflow (TPostings t) k)"
      "set (keys w) = set (keys v) \<union> touched (TPostings t)" by blast
    have step: "replay_entry x (v, seen) = Inr (w, List.insert (TxID t) seen)"
      using Some w(1) replay_entry_log_tx [OF rp, of "(v, seen)"] by (simp add: replay_tx_def)
    from Cons.IH [of "List.insert (TxID t) seen" w] Cons.prems obtain v' seen' where
      r: "foldE replay_entry xs (w, List.insert (TxID t) seen) = Inr (v', seen')" "distinct seen'"
      and v': "\<forall>k. vol_at v' k = add_flow (vol_at w k) (Input (flows (List.map_filter log_tx (map snd xs)) k))
       (Output (flows (List.map_filter log_tx (map snd xs)) k))"
      and ks: "set (keys v') = set (keys w) \<union> (\<Union>t\<in>set (List.map_filter log_tx (map snd xs)). touched (TPostings t))"
      and ids: "set seen' = set (List.insert (TxID t) seen) \<union> TxID ` set (List.map_filter log_tx (map snd xs))"
      by auto
    have "vol_at v' k = add_flow (vol_at v k) (Input (flows (List.map_filter log_tx (map snd (x # xs))) k))
       (Output (flows (List.map_filter log_tx (map snd (x # xs))) k))" for k
      using v' w(2) Some by (simp add: List.map_filter_simps flows_Cons algebra_simps)
    then show ?thesis
      using step r ks ids w(3) Some by (intro exI [of _ v'] exI [of _ seen']) (auto simp: List.map_filter_simps)
  qed
qed

lemma replayLog_ok:
  assumes "book_ok d"
  obtains want seen where "replayLog s d = Inr (want, seen)" "distinct seen"
    and "\<And>k. vol_at want k = vol d (ledger s) k"
    and "set (keys want) = (\<Union>t\<in>set (logged d (ledger s)). touched (TPostings t))"
    and "set seen = {i. (ledger s, i) \<in> set (keys (transactions d))}"
proof -
  let ?l = "ledger s"
  have rep: "replay_ok d" using assms by (simp add: book_ok_def)
  have "replayable (snd x)" if "x \<in> set (ledger_logs d ?l)" for x
  proof -
    have "((?l, fst x), snd x) \<in> set (logs d)" using that set_ledger_logs [of "fst x" "snd x" d ?l] by simp
    then have "moves_value (snd x) \<longrightarrow> log_tx (snd x) \<noteq> None" using rep unfolding replay_ok_def by force
    moreover have "all_amounts (TPostings t)" if "log_tx (snd x) = Some t" for t
    proof -
      have "t \<in> set (logged d ?l)"
        using that \<open>x \<in> set (ledger_logs d ?l)\<close> by (force simp: logged_def List.map_filter_def)
      then show ?thesis using rep unfolding replay_ok_def by blast
    qed
    ultimately show ?thesis by (simp add: replayable_def)
  qed
  then obtain want seen where r: "replayLog s d = Inr (want, seen)" "distinct seen"
    and v: "\<forall>k. vol_at want k = add_flow (vol_at [] k) (Input (flows (logged d ?l) k)) (Output (flows (logged d ?l) k))"
    and k: "set (keys want) = (\<Union>t\<in>set (logged d ?l). touched (TPostings t))" "set seen = TxID ` set (logged d ?l)"
    using replay_entries_ok [of "ledger_logs d ?l" "[]" "[]"] by (auto simp: replayLog_def logged_def)
  have "vol_at want k = vol d ?l k" for k
    using v rep by (simp add: replay_ok_def vol_at_def add_flow_def NewVolumes_def)
  moreover have "set seen = {i. (?l, i) \<in> set (keys (transactions d))}"
    using k(2) rep by (simp add: replay_ok_def)
  ultimately show thesis using r k(1) by (intro that) auto
qed

subsection \<open>What the projection check decides\<close>

lemma map_of_storedVolumes:
  "map_of (storedVolumes s d) k =
     map_option (\<lambda>r. \<lparr>Input = vr_input r, Output = vr_output r\<rparr>) (map_of (accounts_volumes d) (ledger s, k))"
proof -
  have "storedVolumes s d = map (\<lambda>((_, k), r). (k, \<lparr>Input = vr_input r, Output = vr_output r\<rparr>))
      (filter (\<lambda>((l', k), _). l' = ledger s \<and> True) (accounts_volumes d))"
    by (simp add: storedVolumes_def ledger_volumes_def comp_def case_prod_unfold)
  then show ?thesis using map_of_ledger_part [of "\<lambda>r. \<lparr>Input = vr_input r, Output = vr_output r\<rparr>" "ledger s" "\<lambda>_. True"]
    by simp
qed

lemma compare_key_ok:
  "compare_key want (storedVolumes s d) k u = Inr () \<longleftrightarrow>
     vol d (ledger s) k = vol_at want k \<and> (map_of want k \<noteq> None \<longrightarrow> map_of (accounts_volumes d) (ledger s, k) \<noteq> None)"
  by (auto simp: compare_key_def map_of_storedVolumes vol_def vol_at_def Balance_def NewVolumes_def
      split: option.splits)

lemma foldE_unit: "is_ok (foldE f xs ()) \<longleftrightarrow> (\<forall>x\<in>set xs. f x () = Inr ())"
proof (induction xs)
  case (Cons x xs)
  then show ?case by (cases "f x ()") auto
qed simp

lemma tx_ids_distinct:
  assumes "well_keyed d"
  shows "distinct (map fst (ledger_txs d l))" "set (map fst (ledger_txs d l)) = {i. (l, i) \<in> set (keys (transactions d))}"
proof -
  have "unique_keys (transactions d)" using assms by (simp add: well_keyed_def)
  from ledger_part_ordered [OF this, of l] show "distinct (map fst (ledger_txs d l))"
    unfolding ledger_txs_def strict_sorted_iff by blast
  show "set (map fst (ledger_txs d l)) = {i. (l, i) \<in> set (keys (transactions d))}"
  proof (rule set_eqI)
    fix i show "i \<in> set (map fst (ledger_txs d l)) \<longleftrightarrow> i \<in> {i. (l, i) \<in> set (keys (transactions d))}"
      using set_ledger_txs [of i _ d l] by force
  qed
qed

lemma verifyTransactionsMatchLog_None:
  assumes "well_keyed d" "distinct seen"
  shows "verifyTransactionsMatchLog s d seen = None \<longleftrightarrow>
    set seen = {i. (ledger s, i) \<in> set (keys (transactions d))}"
proof -
  let ?ids = "map fst (ledger_txs d (ledger s))"
  note ids = tx_ids_distinct [OF assms(1), of "ledger s"]
  have "set ?ids \<subseteq> set seen \<longleftrightarrow> filter (\<lambda>i. i \<notin> set seen) ?ids = []"
    unfolding filter_empty_conv by blast
  then have "verifyTransactionsMatchLog s d seen = None \<longleftrightarrow> set ?ids \<subseteq> set seen \<and> length ?ids = length seen"
    by (cases "filter (\<lambda>i. i \<notin> set seen) ?ids") (simp_all add: verifyTransactionsMatchLog_def)
  also have "\<dots> \<longleftrightarrow> set ?ids \<subseteq> set seen \<and> card (set ?ids) = card (set seen)"
    by (simp only: distinct_card [OF ids(1)] distinct_card [OF assms(2)])
  also have "\<dots> \<longleftrightarrow> set ?ids = set seen" using card_subset_eq [of "set seen" "set ?ids"] by auto
  finally show ?thesis using ids(2) by auto
qed

lemma VerifyProjection_None:
  assumes "well_keyed d" "replayLog s d = Inr (want, seen)" "distinct seen"
  shows "snd (VerifyProjection s d) = None \<longleftrightarrow>
    (\<forall>k. vol d (ledger s) k = vol_at want k \<and>
       (map_of want k \<noteq> None \<longrightarrow> map_of (accounts_volumes d) (ledger s, k) \<noteq> None)) \<and>
    set seen = {i. (ledger s, i) \<in> set (keys (transactions d))}"
proof -
  let ?st = "storedVolumes s d"
  let ?ks = "sort (keys want @ filter (\<lambda>k. map_of want k = None) (keys ?st))"
  have "snd (VerifyProjection s d) = None \<longleftrightarrow>
      snd (scanE (compare_key want ?st) ?ks () 0) = None \<and> verifyTransactionsMatchLog s d seen = None"
    using assms(2) by (auto simp: VerifyProjection_def Let_def split: prod.splits option.splits)
  also have "snd (scanE (compare_key want ?st) ?ks () 0) = None \<longleftrightarrow> (\<forall>k. compare_key want ?st k () = Inr ())"
  proof -
    have "compare_key want ?st k () = Inr ()" if "k \<notin> set ?ks" for k
      using that by (auto simp: compare_key_def map_of_eq_None_iff [symmetric] split: option.splits)
    then show ?thesis unfolding scanE_None foldE_unit by metis
  qed
  finally show ?thesis
    using verifyTransactionsMatchLog_None [OF assms(1, 3)] by (simp add: compare_key_ok)
qed

lemma VerifyProjection_ok:
  assumes "book_ok d"
  shows "snd (VerifyProjection s d) = None"
proof -
  from replayLog_ok [OF assms] obtain want seen where r: "replayLog s d = Inr (want, seen)" "distinct seen"
    and v: "\<And>k. vol_at want k = vol d (ledger s) k"
    and k: "set (keys want) = (\<Union>t\<in>set (logged d (ledger s)). touched (TPostings t))"
    and ids: "set seen = {i. (ledger s, i) \<in> set (keys (transactions d))}" by blast
  have wk: "well_keyed d" and rep: "replay_ok d" using assms by (simp_all add: book_ok_def)
  have "map_of (accounts_volumes d) (ledger s, x) \<noteq> None" if "map_of want x \<noteq> None" for x
  proof -
    have "x \<in> set (keys want)" using that by (metis map_of_None_keys)
    then obtain t where "t \<in> set (logged d (ledger s))" "x \<in> touched (TPostings t)" using k by auto
    then show ?thesis using rep unfolding replay_ok_def by blast
  qed
  then show ?thesis using VerifyProjection_None [OF wk r] v ids by simp
qed


subsection \<open>What the effective check decides\<close>

lemma moves_vol_mset: "mset xs = mset ys \<Longrightarrow> moves_vol l k xs = moves_vol l k ys"
  unfolding moves_vol_def by (simp only: sum_mset_sum_list [symmetric] mset_map)

lemma all_splits_Cons:
  "(\<forall>ys m zs. x # xs = ys @ m # zs \<longrightarrow> Q ys m) \<longleftrightarrow> Q [] x \<and> (\<forall>ys m zs. xs = ys @ m # zs \<longrightarrow> Q (x # ys) m)"
  by (auto simp: Cons_eq_append_conv)

lemma verify_moves_ok:
  assumes "\<forall>m\<in>set xs. mv_ledger m = l"
  shows "is_ok (foldE verify_move xs running) \<longleftrightarrow>
    (\<forall>ys m zs. xs = ys @ m # zs \<longrightarrow> mv_pcev m =
       add_flow (vol_at running (mv_key m)) (Input (moves_vol l (mv_key m) (ys @ [m])))
         (Output (moves_vol l (mv_key m) (ys @ [m]))))"
  using assms
proof (induction xs arbitrary: running)
  case (Cons x xs)
  let ?r = "apply_side running (mv_key x) (mv_amount x) (mv_is_source x)"
  have lx: "mv_ledger x = l" using Cons.prems by simp
  have at: "add_flow (vol_at ?r k) (Input (moves_vol l k ms)) (Output (moves_vol l k ms)) =
      add_flow (vol_at running k) (Input (moves_vol l k (x # ms))) (Output (moves_vol l k (x # ms)))" for k ms
    using lx by (simp add: vol_at_apply_side mv_in_def mv_out_def add.commute)
  have first: "is_ok (verify_move x running) \<longleftrightarrow> mv_pcev x = vol_at ?r (mv_key x)"
    by (auto simp: verify_move_def Let_def intro: Volumes.equality)
  have "is_ok (foldE verify_move (x # xs) running) \<longleftrightarrow> mv_pcev x = vol_at ?r (mv_key x) \<and> is_ok (foldE verify_move xs ?r)"
    using first by (cases "verify_move x running") (auto simp: verify_move_def Let_def split: if_splits)
  also have "\<dots> \<longleftrightarrow> mv_pcev x = vol_at ?r (mv_key x) \<and> (\<forall>ys m zs. xs = ys @ m # zs \<longrightarrow> mv_pcev m =
      add_flow (vol_at running (mv_key m)) (Input (moves_vol l (mv_key m) (x # ys @ [m])))
        (Output (moves_vol l (mv_key m) (x # ys @ [m]))))"
    using Cons.IH [of ?r] Cons.prems by (simp only: at) simp
  also have "\<dots> \<longleftrightarrow> (\<forall>ys m zs. x # xs = ys @ m # zs \<longrightarrow> mv_pcev m =
       add_flow (vol_at running (mv_key m)) (Input (moves_vol l (mv_key m) (ys @ [m])))
         (Output (moves_vol l (mv_key m) (ys @ [m]))))"
    unfolding all_splits_Cons using at [of "mv_key x" "[]"] by (simp add: NewVolumes_def)
  finally show ?case .
qed simp

lemma effective_order_split:
  assumes inv: "seq_ok d" and xs: "effective_order d l = ys @ m # zs"
  shows "moves_vol l (mv_key m) (filter (\<lambda>m'. eff_key m' \<le> eff_key m) (moves d)) = moves_vol l (mv_key m) (ys @ [m])"
proof -
  let ?k = "mv_key m" and ?P = "\<lambda>m'. eff_key m' \<le> eff_key m"
  let ?pos = "\<lambda>m. (mv_key m, eff_key m)"
  have "sorted_wrt (\<lambda>m m'. mv_seq m < mv_seq m') (ledger_moves d l)"
    using inv by (simp add: seq_ok_def ledger_moves_def sorted_wrt_filter)
  then have "distinct (map mv_seq (ledger_moves d l))" by (metis sorted_wrt_map strict_sorted_iff)
  then have "distinct (map ?pos (ledger_moves d l))" by (auto simp: distinct_map inj_on_def eff_key_def)
  then have "distinct (map ?pos (effective_order d l))" by (simp add: effective_order_def distinct_map)
  moreover have "sorted (map ?pos (effective_order d l))" by (simp add: effective_order_def)
  ultimately have "sorted_wrt (<) (map ?pos (ys @ m # zs))" by (simp only: xs [symmetric] strict_sorted_iff simp_thms)
  then have lt: "\<forall>y\<in>set ys. ?pos y < ?pos m" "\<forall>z\<in>set zs. ?pos m < ?pos z"
    by (auto simp: sorted_wrt_append)
  have "moves_vol l ?k (filter ?P (moves d)) = moves_vol l ?k (filter ?P (ledger_moves d l))"
    unfolding ledger_moves_def filter_filter by (rule moves_vol_filter_cong) simp
  also have "\<dots> = moves_vol l ?k (filter ?P (ys @ m # zs))"
    by (rule moves_vol_mset) (simp add: xs [symmetric] effective_order_def)
  also have "moves_vol l ?k (filter ?P zs) = moves_vol l ?k (filter (\<lambda>_. False) zs)"
    using lt(2) by (intro moves_vol_filter_cong) auto
  then have "moves_vol l ?k (filter ?P (ys @ m # zs)) = moves_vol l ?k (filter ?P ys @ [m])"
    by (simp add: moves_vol_append NewVolumes_def)
  also have "moves_vol l ?k (filter ?P ys) = moves_vol l ?k (filter (\<lambda>_. True) ys)"
    using lt(1) by (intro moves_vol_filter_cong) auto
  then have "moves_vol l ?k (filter ?P ys @ [m]) = moves_vol l ?k (ys @ [m])" by (simp add: moves_vol_append)
  finally show ?thesis .
qed

lemma VerifyEffectiveVolumes_None:
  assumes "seq_ok d"
  shows "snd (VerifyEffectiveVolumes s d) = None \<longleftrightarrow>
    (\<forall>m\<in>set (moves d). mv_ledger m = ledger s \<longrightarrow> mv_pcev m =
       moves_vol (ledger s) (mv_key m) (filter (\<lambda>m'. eff_key m' \<le> eff_key m) (moves d)))"
proof -
  let ?l = "ledger s"
  have empty_vol: "add_flow (vol_at [] k) (Input v) (Output v) = v" for k v
    by (simp add: vol_at_def add_flow_def NewVolumes_def)
  have all: "\<forall>m\<in>set (effective_order d ?l). mv_ledger m = ?l" by (simp add: effective_order_def ledger_moves_def)
  have "snd (VerifyEffectiveVolumes s d) = None \<longleftrightarrow>
      (\<forall>ys m zs. effective_order d ?l = ys @ m # zs \<longrightarrow> mv_pcev m = moves_vol ?l (mv_key m) (ys @ [m]))"
    unfolding VerifyEffectiveVolumes_def scanE_None verify_moves_ok [OF all, of "[]"]
    by (simp only: empty_vol)
  also have "\<dots> \<longleftrightarrow> (\<forall>m\<in>set (effective_order d ?l). mv_pcev m =
       moves_vol ?l (mv_key m) (filter (\<lambda>m'. eff_key m' \<le> eff_key m) (moves d)))"
    using effective_order_split [OF assms, of ?l] by (metis in_set_conv_decomp)
  finally show ?thesis by (auto simp: effective_order_def ledger_moves_def)
qed

lemma VerifyEffectiveVolumes_ok: "book_ok d \<Longrightarrow> snd (VerifyEffectiveVolumes s d) = None"
  by (simp add: VerifyEffectiveVolumes_None book_ok_def pcev_ok_def)

subsection \<open>Conservation\<close>

lemma drift_absent:
  assumes "x \<notin> set (ledger_assets d l)"
  shows "drift d l x = 0"
  unfolding drift_def
proof (rule tab_sum_zero)
  fix y assume y: "y \<in> set (accounts_volumes d)"
  show "row_net l x y = 0"
  proof (rule ccontr)
    assume "row_net l x y \<noteq> 0"
    then have "fst (fst y) = l" "snd (snd (fst y)) = x" by (auto simp: row_net_def split: if_splits)
    moreover obtain l' k r where "y = ((l', k), r)" by (metis prod.collapse)
    ultimately have "(k, r) \<in> set (ledger_volumes d l)" "x = snd k" using y by (force simp: ledger_volumes_def)+
    then have "x \<in> set (ledger_assets d l)" by (force simp: ledger_assets_def)
    with assms show False ..
  qed
qed

lemma VerifyConservation_None:
  "snd (VerifyConservation s d) = None \<longleftrightarrow> (\<forall>x. drift d (ledger s) x = 0)"
  using drift_absent [of _ d "ledger s"]
  by (auto simp: VerifyConservation_def Let_def filter_empty_conv)

lemma VerifyConservation_ok: "book_ok d \<Longrightarrow> snd (VerifyConservation s d) = None"
  by (simp add: VerifyConservation_None book_ok_def conserved_def)


subsection \<open>A run over a sound book\<close>

lemma balance_permissions_None:
  assumes "well_keyed d"
  shows "snd (balance_permissions s d) = None \<longleftrightarrow>
    (\<forall>k r. map_of (accounts_volumes d) (ledger s, k) = Some r \<longrightarrow> \<not> out_of_bounds r)"
proof -
  have "snd (balance_permissions s d) = None \<longleftrightarrow> snd (VerifyBalancePermissions s d) = []"
    by (simp add: balance_permissions_def split: prod.splits)
  also have "\<dots> \<longleftrightarrow> (\<forall>x\<in>set (ledger_volumes d (ledger s)). \<not> out_of_bounds (snd x))"
    by (simp add: VerifyBalancePermissions_def set_empty [symmetric] case_prod_unfold del: set_empty) blast
  finally show ?thesis using ledger_volumes_mem [OF assms] by force
qed

lemma closed_accounts_None:
  assumes "well_keyed d"
  shows "snd (closed_accounts s d) = None \<longleftrightarrow>
    (\<forall>a x. account_closed d (ledger s) a \<longrightarrow> bal d (ledger s) (a, x) = 0)"
proof -
  have "snd (closed_accounts s d) = None \<longleftrightarrow> (\<forall>e. e \<notin> set (snd (VerifyClosedAccounts s d)))"
    by (cases "snd (VerifyClosedAccounts s d)") (auto simp: closed_accounts_def split: prod.splits)
  also have "\<dots> \<longleftrightarrow> (\<forall>a x. account_closed d (ledger s) a \<longrightarrow> bal d (ledger s) (a, x) = 0)"
    unfolding VerifyClosedAccounts_exact [OF assms]
    by (metis ClosedAccountHoldsBalance.select_convs(1-3))
  finally show ?thesis .
qed

text \<open>The engine's part of a run on a ledger whose books are sound.\<close>

lemma Verify_sound:
  assumes "book_ok d" "closed_ok d" "\<forall>k r. map_of (accounts_volumes d) (ledger s, k) = Some r \<longrightarrow> \<not> out_of_bounds r"
    and "map_of (ledgers d) (ledger s) = Some lr"
  shows "(name, run) \<in> set (engine_checks s) \<Longrightarrow> OK (result text name (run d) t)"
proof -
  have wk: "well_keyed d" and "log_ok d" using assms(1) by (simp_all add: book_ok_def)
  with VerifyLog_ok [OF _ assms(4)] have "snd (VerifyLog s d) = None" by simp
  moreover have "snd (balance_permissions s d) = None" using assms(3) balance_permissions_None [OF wk] by blast
  moreover have "snd (closed_accounts s d) = None"
    using assms(2) closed_accounts_None [OF wk] by (simp add: closed_ok_def)
  ultimately show "(name, run) \<in> set (engine_checks s) \<Longrightarrow> OK (result text name (run d) t)"
    using VerifyConservation_ok [OF assms(1)] VerifyProjection_ok [OF assms(1)] VerifyEffectiveVolumes_ok [OF assms(1)]
    by (auto simp: engine_checks_def result_def)
qed

lemma Verify_results:
  "snd (Verify text st took s e opts d) =
     map (\<lambda>(name, run). result text name (run d) (took name)) (engine_checks s @ Extra opts) @
     (if StaleAfter opts > 0
      then [stale_result text st (StaleBalances s e d (StalePrefix opts) (StaleAfter opts)) (took ''stale_balances'')]
      else [])"
  by (simp add: Verify_def Let_def)

text \<open>Verifying touches nothing but the table of runs.\<close>

lemma Verify_frame:
  "book_ok (fst (Verify text st took s e opts d)) = book_ok d"
  "accounts_volumes (fst (Verify text st took s e opts d)) = accounts_volumes d"
  "account_closed (fst (Verify text st took s e opts d)) = account_closed d"
  by (simp_all add: Verify_def Let_def recordVerification_def account_closed_def fun_eq_iff book_ok_def well_keyed_def
      conserved_def seq_ok_def pcev_ok_def pcv_ok_def proj_ok_def replay_ok_def tx_ids_ok_def logged_def
      ledger_logs_def log_ok_def log_ids_ok_def chain_ok_def drift_def vol_def)

lemma length_truncateDetail: "length (truncateDetail s) \<le> maxDetail + 15"
  by (simp add: truncateDetail_def)

text \<open>After a recorded run, every check that ran has a time no older than the run.\<close>

lemma LastVerified_lookup:
  "map_of (LastVerified s d) name =
     (let at = {run_at r | r. r \<in> set (verification_runs d) \<and> run_ledger r = ledger s \<and> run_check r = name}
      in if at = {} then None else Some (Max at))"
proof -
  let ?runs = "filter (\<lambda>r. run_ledger r = ledger s) (verification_runs d)"
  let ?at = "{run_at r | r. r \<in> set (verification_runs d) \<and> run_ledger r = ledger s \<and> run_check r = name}"
  have eq: "set (map run_at (filter (\<lambda>r. run_check r = name) ?runs)) = ?at" by auto
  have "map_of (map (\<lambda>n. (n, f n)) ns) name = (if name \<in> set ns then Some (f name) else None)"
    for f :: "string \<Rightarrow> time" and ns by (induction ns) auto
  then show ?thesis unfolding LastVerified_def Let_def by (auto simp flip: eq)
qed

subsection \<open>Tampering\<close>

text \<open>What is hashed along a log, and that two logs which both verify and end in the same hash
  carry the same texts, entry by entry, as long as SHA-256 has no collision among those inputs.\<close>

definition entry_text :: "int \<times> log_row \<Rightarrow> string" where
  "entry_text x = log_text (lg_data (snd x))"

fun chain_inputs :: "string \<Rightarrow> (int \<times> log_row) list \<Rightarrow> string list" where
  "chain_inputs p [] = []"
| "chain_inputs p (x # xs) = (p @ entry_text x) # chain_inputs (lg_hash (snd x)) xs"

lemma verify_entry_Inr:
  assumes "verify_entry x (p, i, c) = Inr (h, n, c')"
  shows "h = lg_hash (snd x)" "h = sha256 (p @ entry_text x)" "c' = Suc c"
  using assms by (cases x; auto simp: verify_entry_def ChainHash_def entry_text_def bindE_Inr_iff split: if_splits)+

lemma verified_snoc:
  assumes "foldE verify_entry (xs @ [x]) w = Inr (h, n, c)"
  obtains p i c0 where "foldE verify_entry xs w = Inr (p, i, c0)" "h = sha256 (p @ entry_text x)" "c = Suc c0"
    and "chain_inputs (fst w) (xs @ [x]) = chain_inputs (fst w) xs @ [p @ entry_text x]"
proof -
  from assms obtain p i c0 where f: "foldE verify_entry xs w = Inr (p, i, c0)" and v: "verify_entry x (p, i, c0) = Inr (h, n, c)"
    by (auto simp: foldE_append bindE_Inr_iff)
  have "chain_inputs (fst w) (xs @ [x]) = chain_inputs (fst w) xs @ [p @ entry_text x]"
    using f
  proof (induction xs arbitrary: w)
    case (Cons y xs)
    then obtain w' where w': "verify_entry y w = Inr w'" "foldE verify_entry xs w' = Inr (p, i, c0)"
      by (auto simp: bindE_Inr_iff)
    have "fst w' = lg_hash (snd y)" using w'(1) verify_entry_Inr(1) [of y "fst w" "fst (snd w)" "snd (snd w)"] by (cases w') auto
    with Cons.IH [OF w'(2)] show ?case by simp
  qed simp
  with f verify_entry_Inr [OF v] show thesis by (intro that)
qed

lemma verified_hash_length:
  "foldE verify_entry xs walk_start = Inr (h, n, c) \<Longrightarrow> length h = (if xs = [] then 0 else 32)"
proof (induction xs rule: rev_induct)
  case (snoc x xs)
  from snoc.prems show ?case by (rule verified_snoc) simp
qed (simp add: walk_start_def)

lemma verified_texts:
  assumes "foldE verify_entry xs walk_start = Inr (h, n, c)" "foldE verify_entry ys walk_start = Inr (h, n', c')"
    and "length xs = length ys" and "inj_on sha256 (set (chain_inputs [] xs) \<union> set (chain_inputs [] ys))"
  shows "map entry_text xs = map entry_text ys"
  using assms
proof (induction xs arbitrary: ys h n n' c c' rule: rev_induct)
  case (snoc x xs)
  obtain y ys' where ys: "ys = ys' @ [y]" using snoc.prems(3) by (cases ys rule: rev_cases) auto
  from snoc.prems(1) obtain p i c0 where x: "foldE verify_entry xs walk_start = Inr (p, i, c0)" "h = sha256 (p @ entry_text x)"
    "chain_inputs [] (xs @ [x]) = chain_inputs [] xs @ [p @ entry_text x]"
    by (rule verified_snoc) (simp add: walk_start_def)
  from snoc.prems(2) [unfolded ys] obtain q j c1 where y: "foldE verify_entry ys' walk_start = Inr (q, j, c1)"
    "h = sha256 (q @ entry_text y)" "chain_inputs [] (ys' @ [y]) = chain_inputs [] ys' @ [q @ entry_text y]"
    by (rule verified_snoc) (simp add: walk_start_def)
  have inj: "inj_on sha256 (set (chain_inputs [] xs @ [p @ entry_text x]) \<union> set (chain_inputs [] ys' @ [q @ entry_text y]))"
    using snoc.prems(4) by (simp only: ys x(3) y(3))
  have "p @ entry_text x = q @ entry_text y"
    by (rule inj_onD [OF inj]) (use x(2) y(2) in auto)
  moreover have "length p = length q"
    using verified_hash_length [OF x(1)] verified_hash_length [OF y(1)] snoc.prems(3) by (auto simp: ys)
  ultimately have "p = q" "entry_text x = entry_text y" by simp_all
  moreover have "map entry_text xs = map entry_text ys'"
  proof (rule snoc.IH [OF x(1)])
    show "foldE verify_entry ys' walk_start = Inr (p, j, c1)" using y(1) \<open>p = q\<close> by simp
    show "length xs = length ys'" using snoc.prems(3) by (simp add: ys)
    show "inj_on sha256 (set (chain_inputs [] xs) \<union> set (chain_inputs [] ys'))" by (rule inj_on_subset [OF inj]) auto
  qed
  ultimately show ?case by (simp add: ys)
qed simp

end
