(* ===== verification/Storage_Bulk.thy ===== *)
theory Storage_Bulk
  imports Storage_Verify
begin

text \<open>
  Committing several transactions as one (\<open>src/storage/bulk.go\<close>). A call that returns has applied
  every item or none: the new state is a chain of logged transactions, one per item, so the
  books are kept, volumes move by the sum of the items, and the log grows by one entry each.
\<close>

subsection \<open>The request\<close>

definition MaxBatchSize :: nat where "MaxBatchSize = 100"

record BatchItem =
  BPostings :: Postings
  BTimestamp :: time
  BReference :: string
  BMetadata :: "Metadata option"

text \<open>A batch item has exactly the fields the idempotency hash of a commit covers.\<close>

definition item_text :: "BatchItem \<Rightarrow> string" where
  "item_text it =
     idempotency_text (BPostings it)
       \<lparr>OTimestamp = BTimestamp it, OReference = BReference it, OMetadata = BMetadata it,
        OIdempotencyKey = [], ODryRun = False\<rparr>"

definition batchIdempotencyHash :: "BatchItem list \<Rightarrow> CommitOptions \<Rightarrow> string res" where
  "batchIdempotencyHash items opts =
     (if OIdempotencyKey opts = [] then Inr []
      else if \<not> list_all (\<lambda>it. time_ok (BTimestamp it)) items
      then Inl (ErrText ''json: year outside of range [0,9999]'')
      else Inr (hexEncode (sha256 (json_arr (map item_text items)))))"

definition withBatchTag :: "Metadata option \<Rightarrow> string \<Rightarrow> Metadata" where
  "withBatchTag m hash = AList.update BatchKey hash (orEmpty m)"

fun checkItems :: "Store \<Rightarrow> db \<Rightarrow> nat \<Rightarrow> BatchItem list \<Rightarrow> Store \<times> error option" where
  "checkItems s d i [] = (s, None)"
| "checkItems s d i (it # items) =
     (if BPostings it = [] then (s, Some (BatchItemError i ErrNoPostings))
      else case Validate (BPostings it) of
        Some (j, err) \<Rightarrow> (s, Some (BatchItemError i (PostingError j err)))
      | None \<Rightarrow>
          (case checkAssets s d (BPostings it) of
             (s', Some err) \<Rightarrow> (s', Some (BatchItemError i err))
           | (s', None) \<Rightarrow> checkItems s' d (Suc i) items))"

subsection \<open>Locking a whole batch\<close>

fun batch_updates :: "nat \<Rightarrow> BatchItem list \<Rightarrow> key list \<Rightarrow> VolumeUpdate list res" where
  "batch_updates i [] seen = Inr []"
| "batch_updates i (it # items) seen =
     (case VolumeUpdates (BPostings it) of
        Inl err \<Rightarrow> Inl (BatchItemError i err)
      | Inr us \<Rightarrow>
          (let fresh = filter (\<lambda>u. update_key u \<notin> set seen) us
           in bindE (batch_updates (Suc i) items (map update_key fresh @ seen)) (\<lambda>rest. Inr (fresh @ rest))))"

definition lockBatch :: "string \<Rightarrow> BatchItem list \<Rightarrow> db \<Rightarrow> db res" where
  "lockBatch l items d =
     bindE (batch_updates 0 items []) (\<lambda>all.
     bindE (lockVolumes l (sort_key update_key all) d) (\<lambda>(d', _). Inr d'))"

subsection \<open>Replays\<close>

text \<open>\<open>Inr None\<close> is the nil slice: the key is unused, or no transaction carries the tag.\<close>

definition findBatchByIdempotencyKey :: "string \<Rightarrow> db \<Rightarrow> string \<Rightarrow> string \<Rightarrow> Transaction list option res" where
  "findBatchByIdempotencyKey l d ik wantHash =
     (case log_with_key d l ik of
        None \<Rightarrow> Inr None
      | Some r \<Rightarrow>
          (case lg_key_hash r of
             None \<Rightarrow> Inl (ErrText ''read idempotency key: cannot scan NULL'')
           | Some gotHash \<Rightarrow>
               if gotHash \<noteq> wantHash then Inl (ErrIdempotencyMismatch ik gotHash wantHash)
               else
                 (let out = map (\<lambda>(i, r). hydrateTransaction i r)
                              (filter (\<lambda>(_, r). map_of (tx_metadata r) BatchKey = Some wantHash) (ledger_txs d l))
                  in Inr (if out = [] then None else Some out))))"

definition batchIdempotencyRace :: "string \<Rightarrow> db \<Rightarrow> string \<Rightarrow> string \<Rightarrow> error \<Rightarrow> Transaction list option res" where
  "batchIdempotencyRace l d ik ikHash err =
     (if ik = [] then Inr None
      else if err \<noteq> PgError uniqueViolation then Inr None
      else findBatchByIdempotencyKey l d ik ikHash)"

subsection \<open>One attempt\<close>

datatype batch_end = Replayed "Transaction list" | Applied db "Transaction list"

text \<open>\<open>d0\<close> is the committed state, which the lookup after a lost race reads.\<close>

fun applyItems ::
  "Store \<Rightarrow> env \<Rightarrow> db \<Rightarrow> CommitOptions \<Rightarrow> string \<Rightarrow> nat \<Rightarrow> BatchItem list \<Rightarrow> db \<Rightarrow> batch_end res" where
  "applyItems s e d0 opts ikHash i [] d = Inr (Applied d [])"
| "applyItems s e d0 opts ikHash i (it # items) d =
     (case applyTransaction (ledger s) e (BPostings it)
             \<lparr>ATimestamp = BTimestamp it, AReference = BReference it,
              AMetadata = (if OIdempotencyKey opts \<noteq> [] then Some (withBatchTag (BMetadata it) ikHash)
                           else BMetadata it)\<rparr> d of
        Inl err \<Rightarrow> Inl (BatchItemError i err)
      | Inr (d1, t, alloc) \<Rightarrow>
          (case appendLog (ledger s) t alloc
                  (if i = 0 then OIdempotencyKey opts else []) (if i = 0 then ikHash else []) d1 of
             Inl err \<Rightarrow>
               bindE (batchIdempotencyRace (ledger s) d0 (OIdempotencyKey opts) ikHash err) (\<lambda>replayed.
                 case replayed of Some ts \<Rightarrow> Inr (Replayed ts) | None \<Rightarrow> Inl (BatchItemError i err))
           | Inr d2 \<Rightarrow>
               bindE (applyItems s e d0 opts ikHash (Suc i) items d2) (\<lambda>out.
                 Inr (case out of Replayed ts \<Rightarrow> Replayed ts | Applied d' ts \<Rightarrow> Applied d' (t # ts)))))"

definition commitBatchOnce ::
  "Store \<Rightarrow> env \<Rightarrow> db \<Rightarrow> db \<Rightarrow> BatchItem list \<Rightarrow> CommitOptions \<Rightarrow> string \<Rightarrow> nat \<Rightarrow> (db \<times> Transaction list) res" where
  "commitBatchOnce s e seen d items opts ikHash attempt =
     bindE (if OIdempotencyKey opts = [] then Inr None
            else findBatchByIdempotencyKey (ledger s) seen (OIdempotencyKey opts) ikHash) (\<lambda>existing.
     case existing of
       Some ts \<Rightarrow> Inr (d, ts)
     | None \<Rightarrow>
         bindE (lockBatch (ledger s) items d) (\<lambda>d1.
         bindE (applyItems s e d opts ikHash 0 items d1) (\<lambda>out.
         case out of
           Replayed ts \<Rightarrow> Inr (d, ts)
         | Applied d2 ts \<Rightarrow>
             (case beforeCommit s attempt of
                Some err \<Rightarrow> Inl err
              | None \<Rightarrow>
                  if ODryRun opts then Inr (d, ts)
                  else bindE (db_commit d2) (\<lambda>d3. Inr (d3, ts))))))"

definition CommitBatch ::
  "(nat \<Rightarrow> env) \<Rightarrow> Store \<Rightarrow> db \<Rightarrow> BatchItem list \<Rightarrow> CommitOptions \<Rightarrow> Store \<times> (db \<times> Transaction list) res" where
  "CommitBatch envs s d items opts =
     (if items = [] then (s, Inl ErrNoPostings)
      else if length items > MaxBatchSize then (s, Inl ErrBatchTooLarge)
      else case checkItems s d 0 items of
        (s', Some err) \<Rightarrow> (s', Inl err)
      | (s', None) \<Rightarrow>
          (case batchIdempotencyHash items opts of
             Inl err \<Rightarrow> (s', Inl err)
           | Inr ikHash \<Rightarrow>
               (case retry_loop (ledger s') envs
                       (\<lambda>i. commitBatchOnce s' (envs i) d d items opts ikHash i) maxAttempts 0 of
                  (r, res) \<Rightarrow> (add_retries r s', res))))"

subsection \<open>A batch is a chain of transactions\<close>

inductive tx_chain :: "string \<Rightarrow> db \<Rightarrow> db \<Rightarrow> Transaction list \<Rightarrow> bool" for l where
  chain_nil: "tx_chain l d d []"
| chain_step: "tx_logged l d d1 d2 t a row \<Longrightarrow> tx_chain l d2 d' ts \<Longrightarrow> tx_chain l d d' (t # ts)"

inductive_cases tx_chain_nilE: "tx_chain l d d' []"
inductive_cases tx_chain_consE: "tx_chain l d d' (t # ts)"

lemma tx_chain_keeps: "tx_chain l d d' ts \<Longrightarrow> book_ok d \<Longrightarrow> book_ok d' \<and> guards_kept d d'"
proof (induction rule: tx_chain.induct)
  case (chain_step d d1 d2 t a row d' ts)
  then show ?case
    using tx_logged_book_ok [OF chain_step(1)] tx_logged_guards [OF chain_step(1)] guards_kept_trans by blast
qed simp

lemma tx_logged_vol:
  assumes "tx_logged l d d1 d2 t a row"
  shows "vol d2 l' k = (if l' = l then add_flow (vol d l' k) (inflow (TPostings t) k) (outflow (TPostings t) k)
                        else vol d l' k)"
proof -
  from assms have "volumes_effect l d d1 (TPostings t)" and av: "accounts_volumes d2 = accounts_volumes d1"
    by (auto simp: tx_logged_def apply_effect_def)
  from volumes_effect_vol [OF this(1)] vol_cong [OF av] show ?thesis by simp
qed

lemma tx_logged_rows:
  assumes "tx_logged l d d1 d2 t a row"
  shows "keys (transactions d2) = keys (transactions d) @ [(l, TxID t)]"
    and "logs d2 = logs d @ [((l, logID a), row)]"
  using assms by (auto simp: tx_logged_def apply_effect_def)

lemma tx_chain_vol:
  "tx_chain l d d' ts \<Longrightarrow> vol d' l' k =
     (if l' = l then add_flow (vol d l' k) (Input (flows ts k)) (Output (flows ts k)) else vol d l' k)"
proof (induction rule: tx_chain.induct)
  case (chain_step d d1 d2 t a row d' ts)
  then show ?case using tx_logged_vol [OF chain_step(1)] by (simp add: flows_Cons add.commute)
qed (simp add: NewVolumes_def)

lemma tx_chain_rows:
  "tx_chain l d d' ts \<Longrightarrow> keys (transactions d') = keys (transactions d) @ map (\<lambda>t. (l, TxID t)) ts \<and>
     (\<exists>rows. logs d' = logs d @ rows \<and> length rows = length ts)"
proof (induction rule: tx_chain.induct)
  case (chain_step d d1 d2 t a row d' ts)
  from chain_step.IH obtain rows where "logs d' = logs d2 @ rows" "length rows = length ts" by blast
  with tx_logged_rows [OF chain_step(1)] chain_step.IH show ?case
    by (auto intro!: exI [of _ "((l, logID a), row) # rows"])
qed simp

lemma materialised_same_volumes:
  assumes "materialised l K d d'" "book_ok d"
  shows "book_ok d'" "guards_kept d d'"
proof -
  note fr = materialised_frame [OF assms(1)]
  have rows: "map_of (accounts_volumes d') x =
        (case map_of (accounts_volumes d) x of
           Some r \<Rightarrow> Some r
         | None \<Rightarrow> if fst x = l \<and> snd x \<in> K then Some (new_volume_row (fst (snd x))) else None)" for x
    using assms(1) by (simp add: materialised_def)
  have "same_volumes d d'"
    unfolding same_volumes_def using fr assms(2) rows
    by (auto simp: frame_volumes_def book_ok_def well_keyed_def)
  then show "book_ok d'" using assms(2) by (rule same_volumes_book_ok)
  have ac: "account_closed d' = account_closed d" using fr(1) by (simp add: frame_volumes_def account_closed_def fun_eq_iff)
  have "map_of (accounts_volumes d) x = Some r" if "map_of (accounts_volumes d') x = Some r" "out_of_bounds r" for x r
    using that rows [of x] by (auto simp: out_of_bounds_def new_volume_row_def split: option.splits if_splits)
  then show "guards_kept d d'" using closed_ok_cong [OF fr(3) ac] by (simp add: guards_kept_def ac)
qed

lemma lockBatch_materialised:
  assumes "lockBatch l items d = Inr d'" "well_keyed d"
  obtains K where "materialised l K d d'"
proof -
  from assms(1) obtain us b where "lockVolumes l us d = Inr (d', b)" by (auto simp: lockBatch_def bindE_Inr_iff)
  from lockVolumes_spec(1) [OF this assms(2)] that show thesis by blast
qed

lemma applyItems_chain:
  assumes "applyItems s e d0 opts h i items d = Inr (Applied d' ts)" and "book_ok d"
    and "\<forall>it\<in>set items. priced (BPostings it)"
  shows "tx_chain (ledger s) d d' ts \<and> length ts = length items \<and>
    list_all2 (\<lambda>it t. list_all2 resolved_as (BPostings it) (TPostings t) \<and> TReference t = BReference it) items ts"
  using assms
proof (induction items arbitrary: i d ts)
  case Nil
  then show ?case by (simp add: chain_nil)
next
  case (Cons it items)
  define ao where "ao = \<lparr>ATimestamp = BTimestamp it, AReference = BReference it,
              AMetadata = (if OIdempotencyKey opts \<noteq> [] then Some (withBatchTag (BMetadata it) h) else BMetadata it)\<rparr>"
  from Cons.prems(1) obtain d1 t a where ap: "applyTransaction (ledger s) e (BPostings it) ao d = Inr (d1, t, a)"
    by (auto simp: ao_def split: sum.splits)
  let ?ik = "if i = 0 then OIdempotencyKey opts else []" and ?h = "if i = 0 then h else []"
  from Cons.prems(1) ap obtain d2 where lg: "appendLog (ledger s) t a ?ik ?h d1 = Inr d2"
    by (auto simp: ao_def [symmetric] bindE_Inr_iff split: sum.splits option.splits)
  from Cons.prems(1) ap lg obtain ts' where rest: "applyItems s e d0 opts h (Suc i) items d2 = Inr (Applied d' ts')" and ts: "ts = t # ts'"
  proof -
    from Cons.prems(1) ap lg obtain out where "applyItems s e d0 opts h (Suc i) items d2 = Inr out"
      "Applied d' ts = (case out of Replayed ts \<Rightarrow> Replayed ts | Applied d' ts \<Rightarrow> Applied d' (t # ts))"
      by (auto simp: ao_def [symmetric] bindE_Inr_iff)
    then show thesis using that by (cases out) auto
  qed
  have wk: "well_keyed d" using Cons.prems(2) by (simp add: book_ok_def)
  have "priced (BPostings it)" using Cons.prems(3) by simp
  note tl = appendLog_tx_logged [OF ap wk this lg]
  have ae: "apply_effect (ledger s) e (BPostings it) ao d d1 t a" by (rule applyTransaction_effect [OF ap wk])
  from Cons.IH [OF rest tx_logged_book_ok [OF tl Cons.prems(2)]] Cons.prems(3) chain_step [OF tl]
  show ?case using ae by (auto simp: ts apply_effect_def ao_def)
qed


lemma checkItems_None:
  "snd (checkItems s d i items) = None \<Longrightarrow> list_all (\<lambda>it. BPostings it \<noteq> [] \<and> list_all valid_posting (BPostings it)) items"
proof (induction items arbitrary: s i)
  case (Cons it items)
  then have "validate_request (BPostings it) = None" "\<exists>s' j. snd (checkItems s' d j items) = None"
    by (auto simp: validate_request_def split: if_splits option.splits prod.splits)
  with Cons.IH show ?case by (auto simp: validate_request_None)
qed simp

lemma checkItems_ledger: "ledger (fst (checkItems s d i items)) = ledger s"
proof (induction items arbitrary: s i)
  case (Cons it items)
  obtain s1 err where ca: "checkAssets s d (BPostings it) = (s1, err)" by (cases "checkAssets s d (BPostings it)")
  then have "ledger s1 = ledger s" using checkAssets_ledger [of s d "BPostings it"] by simp
  with ca Cons.IH [of s1 "Suc i"] show ?case by (cases err) (auto split: option.splits)
qed simp

text \<open>What a call that returned transactions has done: nothing (a replay or a dry run), or all of it.\<close>

definition batch_effect :: "string \<Rightarrow> db \<Rightarrow> BatchItem list \<Rightarrow> db \<Rightarrow> Transaction list \<Rightarrow> bool" where
  "batch_effect l d items d' ts \<longleftrightarrow>
     (\<exists>K d1 d2. materialised l K d d1 \<and> tx_chain l d1 d2 ts \<and> d' = d2\<lparr>deferred := []\<rparr>) \<and>
     list_all2 (\<lambda>it t. list_all2 resolved_as (BPostings it) (TPostings t) \<and> TReference t = BReference it) items ts"

lemma applyItems_replayed:
  "applyItems s e d0 opts h i items d = Inr (Replayed ts) \<Longrightarrow> OIdempotencyKey opts \<noteq> []"
proof (induction items arbitrary: i d)
  case (Cons it items)
  show ?case
  proof
    assume "OIdempotencyKey opts = []"
    with Cons show False
      by (auto simp: bindE_def batchIdempotencyRace_def split: sum.splits option.splits batch_end.splits if_splits)
  qed
qed simp

lemma commitBatchOnce_Inr:
  assumes "commitBatchOnce s e seen d items opts h n = Inr (d', ts)" and "book_ok d"
    and "\<forall>it\<in>set items. priced (BPostings it)"
  shows "d' = d \<and> (ODryRun opts \<or> OIdempotencyKey opts \<noteq> []) \<or> batch_effect (ledger s) d items d' ts \<and> \<not> ODryRun opts"
proof -
  let ?l = "ledger s"
  have wk: "well_keyed d" using assms(2) by (simp add: book_ok_def)
  from assms(1) obtain existing where ex:
    "(if OIdempotencyKey opts = [] then Inr None
      else findBatchByIdempotencyKey ?l seen (OIdempotencyKey opts) h) = Inr existing"
    by (auto simp: commitBatchOnce_def bindE_Inr_iff)
  show ?thesis
  proof (cases existing)
    case (Some x)
    then have "OIdempotencyKey opts \<noteq> []" using ex by (auto split: if_splits)
    then show ?thesis using assms(1) ex Some by (auto simp: commitBatchOnce_def)
  next
    case None
    note eqs = assms(1) [unfolded commitBatchOnce_def ex None, simplified]
    from eqs obtain d1 out where lk: "lockBatch ?l items d = Inr d1" and ai: "applyItems s e d opts h 0 items d1 = Inr out"
      by (auto simp: bindE_Inr_iff)
    from lockBatch_materialised [OF lk wk] obtain K where m: "materialised ?l K d d1" .
    note bk = materialised_same_volumes(1) [OF m assms(2)]
    show ?thesis
    proof (cases out)
      case (Replayed ts')
      with ai applyItems_replayed have "OIdempotencyKey opts \<noteq> []" by blast
      then show ?thesis using eqs lk ai Replayed by simp
    next
      case (Applied d2 ts')
      then have "ts' = ts" "if ODryRun opts then d' = d else db_commit d2 = Inr d'"
        using eqs lk ai by (auto simp: bindE_Inr_iff split: option.splits if_splits)
      moreover have "tx_chain ?l d1 d2 ts'" "list_all2 (\<lambda>it t. list_all2 resolved_as (BPostings it) (TPostings t) \<and> TReference t = BReference it) items ts'"
        using applyItems_chain [OF ai [unfolded Applied] bk assms(3)] by simp_all
      ultimately show ?thesis using m by (auto simp: batch_effect_def db_commit_Inr split: if_splits)
    qed
  qed
qed

lemma CommitBatch_Inr:
  assumes "CommitBatch envs s d items opts = (s', Inr (d', ts))" and "book_ok d"
  shows "d' = d \<and> (ODryRun opts \<or> OIdempotencyKey opts \<noteq> []) \<or> batch_effect (ledger s) d items d' ts \<and> \<not> ODryRun opts"
proof -
  from assms(1) obtain s1 h r where ci: "checkItems s d 0 items = (s1, None)"
    and loop: "retry_loop (ledger s1) envs (\<lambda>i. commitBatchOnce s1 (envs i) d d items opts h i) maxAttempts 0 = (r, Inr (d', ts))"
    by (auto simp: CommitBatch_def split: if_splits option.splits prod.splits sum.splits)
  from retry_loop_Inr [of "ledger s1" envs "\<lambda>i. commitBatchOnce s1 (envs i) d d items opts h i" maxAttempts 0 "(d', ts)"] loop
  obtain i where once: "commitBatchOnce s1 (envs i) d d items opts h i = Inr (d', ts)" by auto
  have "\<forall>it\<in>set items. priced (BPostings it)"
    using checkItems_None [of s d 0 items] ci valid_priced by (simp add: list_all_iff)
  moreover have "ledger s1 = ledger s" using checkItems_ledger [of s d 0 items] ci by simp
  ultimately show ?thesis using commitBatchOnce_Inr [OF once assms(2)] by simp
qed

lemma batch_effect_vol:
  assumes "batch_effect l d items d' ts"
  shows "vol d' l' k = (if l' = l then add_flow (vol d l' k) (Input (flows ts k)) (Output (flows ts k)) else vol d l' k)"
proof -
  from assms obtain K d1 d2 where "materialised l K d d1" "tx_chain l d1 d2 ts" "d' = d2\<lparr>deferred := []\<rparr>"
    by (auto simp: batch_effect_def)
  then show ?thesis using tx_chain_vol [of l d1 d2 ts l' k] materialised_frame(3) by simp
qed

lemma batch_effect_rows:
  assumes "batch_effect l d items d' ts"
  shows "keys (transactions d') = keys (transactions d) @ map (\<lambda>t. (l, TxID t)) ts"
    and "\<exists>rows. logs d' = logs d @ rows \<and> length rows = length ts" and "length ts = length items"
proof -
  from assms obtain K d1 d2 where m: "materialised l K d d1" and c: "tx_chain l d1 d2 ts" and d': "d' = d2\<lparr>deferred := []\<rparr>"
    by (auto simp: batch_effect_def)
  have "transactions d1 = transactions d" "logs d1 = logs d"
    using materialised_frame(1) [OF m] by (simp_all add: frame_volumes_def)
  with tx_chain_rows [OF c] show "keys (transactions d') = keys (transactions d) @ map (\<lambda>t. (l, TxID t)) ts"
    "\<exists>rows. logs d' = logs d @ rows \<and> length rows = length ts" by (simp_all add: d')
  show "length ts = length items" using assms by (auto simp: batch_effect_def dest: list_all2_lengthD)
qed

lemma CommitBatch_keeps:
  assumes "CommitBatch envs s d items opts = (s', Inr (d', ts))" and "book_ok d"
  shows "book_ok d' \<and> guards_kept d d'"
  using CommitBatch_Inr [OF assms]
proof (elim disjE conjE)
  assume "batch_effect (ledger s) d items d' ts"
  then obtain K d1 d2 where m: "materialised (ledger s) K d d1" and c: "tx_chain (ledger s) d1 d2 ts" and d': "d' = d2\<lparr>deferred := []\<rparr>"
    by (auto simp: batch_effect_def)
  note mm = materialised_same_volumes [OF m assms(2)]
  from tx_chain_keeps [OF c mm(1)] mm(2) guards_kept_trans show ?thesis by (auto simp: d')
qed (use assms(2) in simp_all)

text \<open>The locks of a batch: every key it touches, each once, in ascending order.\<close>

lemma batch_updates_keys:
  assumes "batch_updates i items seen = Inr us" and "\<forall>it\<in>set items. \<exists>us. VolumeUpdates (BPostings it) = Inr us"
  shows "distinct (map update_key us)" "update_key ` set us \<inter> set seen = {}"
    "update_key ` set us \<union> set seen = (\<Union>it\<in>set items. touched (BPostings it)) \<union> set seen"
proof -
  have "distinct (map update_key us) \<and> update_key ` set us \<inter> set seen = {} \<and>
    update_key ` set us \<union> set seen = (\<Union>it\<in>set items. touched (BPostings it)) \<union> set seen"
    using assms(1)
  proof (induction items arbitrary: i seen us)
    case (Cons it items)
    then obtain vs rest where vs: "VolumeUpdates (BPostings it) = Inr vs"
      and rest: "batch_updates (Suc i) items (map update_key (filter (\<lambda>u. update_key u \<notin> set seen) vs) @ seen) = Inr rest"
      and us: "us = filter (\<lambda>u. update_key u \<notin> set seen) vs @ rest"
      by (auto simp: Let_def bindE_Inr_iff split: sum.splits)
    note ih = Cons.IH [OF rest]
    have v: "distinct (map update_key vs)" "update_key ` set vs = touched (BPostings it)"
      using VolumeUpdates_spec [OF vs] by (auto simp: updates_for_def)
    have "distinct (map update_key (filter (\<lambda>u. update_key u \<notin> set seen) vs))" using v(1) by (rule distinct_map_filter)
    moreover have "update_key ` set (filter (\<lambda>u. update_key u \<notin> set seen) vs) \<union> set seen = touched (BPostings it) \<union> set seen"
      unfolding v(2) [symmetric] by auto
    then have "update_key ` set us \<union> set seen = (\<Union>it\<in>set (it # items). touched (BPostings it)) \<union> set seen"
      using ih by (simp add: us image_Un Un_assoc Un_left_commute)
    ultimately show ?case using ih by (auto simp: us)
  qed simp
  then show "distinct (map update_key us)" "update_key ` set us \<inter> set seen = {}"
    "update_key ` set us \<union> set seen = (\<Union>it\<in>set items. touched (BPostings it)) \<union> set seen" by simp_all
qed

end
