(* ===== verification/Storage_System.thy ===== *)
theory Storage_System
  imports Storage_Bulk
begin

text \<open>The whole store as one state machine.  Every public operation of \<open>src/storage\<close> that writes is a step
of \<open>giro_step\<close>; the locale \<open>ledger_op\<close> is the contract each of them meets (the system invariant
\<open>sys_ok\<close> is kept and the history is only appended to), interpreted once per operation and once for the
step relation itself, so that what the contract gives (any number of steps, the verifiers) holds of every
reachable database.\<close>

subsection \<open>History is append only\<close>

text \<open>A movement keeps everything but the running balances that a backdated one shifts.\<close>

definition move_core :: "move_row \<Rightarrow> int \<times> string \<times> int \<times> key \<times> int \<times> bool \<times> time \<times> time" where
  "move_core m =
     (mv_seq m, mv_ledger m, mv_tx_id m, mv_key m, mv_amount m, mv_is_source m, mv_effective_date m, mv_insertion_date m)"

definition moves_kept :: "db \<Rightarrow> db \<Rightarrow> bool" where
  "moves_kept d d' \<longleftrightarrow> (\<exists>zs. map move_core (moves d') = map move_core (moves d) @ zs)"

lemma moves_kept_same [simp]: "moves d' = moves d \<Longrightarrow> moves_kept d d'"
  by (simp add: moves_kept_def)

lemma moves_kept_trans: "moves_kept d d1 \<Longrightarrow> moves_kept d1 d2 \<Longrightarrow> moves_kept d d2"
  unfolding moves_kept_def by (metis append.assoc)

lemma moves_kept_effect: "moves_effect l d d' t us \<Longrightarrow> moves_kept d d'"
  by (force simp: moves_effect_def moves_kept_def move_core_def shift_move_def)

definition logs_kept :: "db \<Rightarrow> db \<Rightarrow> bool" where
  "logs_kept d d' \<longleftrightarrow> (\<exists>zs. logs d' = logs d @ zs)"

lemma logs_kept_same [simp]: "logs d' = logs d \<Longrightarrow> logs_kept d d'"
  by (simp add: logs_kept_def)

lemma logs_kept_trans: "logs_kept d d1 \<Longrightarrow> logs_kept d1 d2 \<Longrightarrow> logs_kept d d2"
  unfolding logs_kept_def by (metis append.assoc)

lemma logs_kept_appended: "log_appended l d d' r r' i row \<Longrightarrow> logs_kept d d'"
  by (simp add: log_appended_def logs_kept_def)

text \<open>What no operation may do: unregister an asset or a ledger, edit or drop a log entry, change a
  fixed column of a transaction, issue an id at or below one already issued, or edit or drop a movement.\<close>

definition history_kept :: "db \<Rightarrow> db \<Rightarrow> bool" where
  "history_kept d d' \<longleftrightarrow>
     registry_grows d d' \<and>
     (\<forall>l. \<exists>zs. ledger_logs d' l = ledger_logs d l @ zs) \<and>
     (\<forall>k r. map_of (transactions d) k = Some r \<longrightarrow>
        (\<exists>r'. map_of (transactions d') k = Some r' \<and> tx_fixed r' = tx_fixed r)) \<and>
     (\<forall>l i j. map_of (transactions d) (l, i) = None \<and> map_of (transactions d') (l, i) \<noteq> None \<and>
        map_of (transactions d) (l, j) \<noteq> None \<longrightarrow> j < i) \<and>
     moves_kept d d' \<and> logs_kept d d'"

lemma history_kept_refl [simp]: "history_kept d d"
  by (auto simp: history_kept_def registry_grows_def)

lemma history_kept_trans:
  assumes 1: "history_kept d d1" and 2: "history_kept d1 d2"
  shows "history_kept d d2"
proof -
  have "registry_grows d d2" using assms unfolding history_kept_def registry_grows_def by metis
  moreover have "\<exists>zs. ledger_logs d2 l = ledger_logs d l @ zs" for l
    using assms unfolding history_kept_def by (metis append.assoc)
  moreover have "\<exists>r'. map_of (transactions d2) k = Some r' \<and> tx_fixed r' = tx_fixed r"
    if "map_of (transactions d) k = Some r" for k r
    using assms that unfolding history_kept_def by metis
  moreover have "j < i" if "map_of (transactions d) (l, i) = None" "map_of (transactions d2) (l, i) \<noteq> None"
    "map_of (transactions d) (l, j) \<noteq> None" for l i j
  proof (cases "map_of (transactions d1) (l, i) = None")
    case True
    moreover have "map_of (transactions d1) (l, j) \<noteq> None" using 1 that(3) unfolding history_kept_def by blast
    ultimately show ?thesis using 2 that(2) unfolding history_kept_def by blast
  next
    case False
    then show ?thesis using 1 that unfolding history_kept_def by blast
  qed
  moreover have "moves_kept d d2" "logs_kept d d2"
    using assms moves_kept_trans logs_kept_trans unfolding history_kept_def by blast+
  ultimately show ?thesis unfolding history_kept_def by blast
qed

lemma history_kept_cong:
  assumes "assets d' = assets d" "ledgers d' = ledgers d" "logs d' = logs d" "transactions d' = transactions d"
    "moves d' = moves d"
  shows "history_kept d d'"
  using assms by (auto simp: history_kept_def registry_grows_def is_registered_def ledger_logs_def)

lemma history_kept_deferred [simp]: "history_kept d (d'\<lparr>deferred := q\<rparr>) = history_kept d d'"
  by (simp add: history_kept_def registry_grows_def is_registered_def ledger_logs_def moves_kept_def logs_kept_def)

lemma appended_log:
  assumes "log_appended l d d' r r' i row" "book_ok d"
  shows "\<exists>zs. ledger_logs d' l' = ledger_logs d l' @ zs"
proof -
  from assms(1) have lg: "logs d' = logs d @ [((l, i), row)]" and "map_of (ledgers d) l = Some r" "last_log_id r < i"
    by (auto simp: log_appended_def)
  with assms(2) have "j < i" if "(l, j) \<in> set (keys (logs d))" for j
    using that unfolding book_ok_def log_ok_def log_ids_ok_def by fastforce
  with ledger_logs_append [OF lg, of l'] show ?thesis by (cases "l' = l") auto
qed

lemma appended_registry:
  assumes "log_appended l d d' r r' i row" "assets d' = assets d"
  shows "registry_grows d d'"
  using assms by (auto simp: registry_grows_def is_registered_def log_appended_def)

lemma tx_logged_history:
  assumes tl: "tx_logged l d d1 d2 t a row" and inv: "book_ok d"
  shows "history_kept d d2"
proof -
  from tl obtain r r' i where r: "map_of (ledgers d) l = Some r" and app: "log_appended l d d2 r r' i row"
    and t: "TxID t = last_tx_id r + 1" by (rule tx_logged_appended)
  from tl obtain e p opts where ae: "apply_effect l e p opts d d1 t a" by (auto simp: tx_logged_def)
  have tx1: "transactions d1 = transactions d @ [((l, TxID t), row_of_transaction e t)]"
    and as: "assets d2 = assets d" using ae tl by (auto simp: apply_effect_def tx_logged_def)
  have fixed: "map_option tx_fixed (map_of (transactions d2) k) = map_option tx_fixed (map_of (transactions d1) k)" for k
    using tl unfolding tx_logged_def by blast
  have "\<exists>r'. map_of (transactions d2) k = Some r' \<and> tx_fixed r' = tx_fixed q"
    if "map_of (transactions d) k = Some q" for k q
    using fixed [of k] that by (cases "map_of (transactions d2) k") (auto simp: tx1)
  moreover have "j < i'" if "map_of (transactions d) (l', i') = None" "map_of (transactions d2) (l', i') \<noteq> None"
    "map_of (transactions d) (l', j) \<noteq> None" for l' i' j
  proof -
    have "(l', i') = (l, TxID t)"
      using fixed [of "(l', i')"] that(1, 2) by (cases "map_of (transactions d1) (l', i')") (auto simp: tx1 map_add_def split: if_splits)
    moreover have "(l', j) \<in> set (keys (transactions d))" using that(3) by (metis map_of_None_keys)
    ultimately show ?thesis using inv r t unfolding book_ok_def tx_ids_ok_def by fastforce
  qed
  moreover have "moves_kept d d2" using moves_kept_effect ae tl unfolding apply_effect_def tx_logged_def moves_kept_def by metis
  ultimately show ?thesis
    using appended_log [OF app inv] appended_registry [OF app as] logs_kept_appended [OF app] unfolding history_kept_def by blast
qed

lemma entry_logged_history:
  assumes el: "entry_logged l d d' r r' i row" and inv: "book_ok d"
    and fixed: "\<And>k. map_option tx_fixed (map_of (transactions d') k) = map_option tx_fixed (map_of (transactions d) k)"
  shows "history_kept d d'"
proof -
  have app: "log_appended l d d' r r' i row" and as: "assets d' = assets d" and mv: "moves_kept d d'"
    using el by (auto simp: entry_logged_def)
  have "\<exists>r'. map_of (transactions d') k = Some r' \<and> tx_fixed r' = tx_fixed q"
    if "map_of (transactions d) k = Some q" for k q
    using fixed [of k] that by (cases "map_of (transactions d') k") auto
  moreover have "j < i" if "map_of (transactions d) (l, i) = None \<and> map_of (transactions d') (l, i) \<noteq> None \<and>
      map_of (transactions d) (l, j) \<noteq> None" for l i j
    using fixed [of "(l, i)"] that by simp
  ultimately show ?thesis
    unfolding history_kept_def using appended_log [OF app inv] appended_registry [OF app as] mv logs_kept_appended [OF app]
    by (intro conjI allI impI) assumption+
qed

lemma tx_chain_history: "tx_chain l d d' ts \<Longrightarrow> book_ok d \<Longrightarrow> history_kept d d'"
proof (induction rule: tx_chain.induct)
  case (chain_step d d1 d2 t a row d' ts)
  then show ?case using tx_logged_history [OF chain_step(1)] tx_logged_book_ok [OF chain_step(1)] history_kept_trans by blast
qed simp

subsection \<open>The lists only grow at their end\<close>

lemma strict_sorted_unique: "sorted_wrt (<) xs \<Longrightarrow> sorted_wrt (<) ys \<Longrightarrow> set xs = set ys \<Longrightarrow> xs = ys"
  for xs :: "'a::linorder list"
  by (rule strict_sorted_equal)

lemma matching_ids_set:
  assumes "well_keyed d"
  shows "set (map TxID (matching_txs s d f)) =
    {i. \<exists>r. map_of (transactions d) (ledger s, i) = Some r \<and> tx_matches f (i, r)}"
proof -
  have "map_of (transactions d) (ledger s, i) = Some r \<longleftrightarrow> (i, r) \<in> set (ledger_txs d (ledger s))" for i r
    unfolding set_ledger_txs by (rule map_of_eq_Some_iff) (use assms in \<open>simp add: well_keyed_def\<close>)
  moreover have "set (map fst (filter P xs)) = {i. \<exists>r. (i, r) \<in> set xs \<and> P (i, r)}" for P and xs :: "(int \<times> tx_row) list"
    by (force simp: image_iff)
  ultimately show ?thesis unfolding matching_txs_ids by simp
qed

lemma matching_txs_grow:
  assumes hk: "history_kept d d'" and "book_ok d" "book_ok d'"
  shows "\<exists>zs. map TxID (matching_txs s d' f) = map TxID (matching_txs s d f) @ zs"
proof -
  let ?A = "set (map TxID (matching_txs s d f))" and ?B = "set (map TxID (matching_txs s d' f))"
  let ?zs = "filter (\<lambda>i. i \<notin> ?A) (map TxID (matching_txs s d' f))"
  have wk: "well_keyed d" "well_keyed d'" using assms(2, 3) by (simp_all add: book_ok_def)
  note sets = matching_ids_set [OF wk(1), of s f] matching_ids_set [OF wk(2), of s f]
  have same: "tx_matches f (i, r') = tx_matches f (i, r)" if "tx_fixed r' = tx_fixed r" for i r r'
    using that by (simp add: tx_matches_def tx_fixed_def)
  have sub: "?A \<subseteq> ?B" unfolding sets using hk same unfolding history_kept_def by blast
  have new: "j < i" if "j \<in> ?A" "i \<in> ?B" "i \<notin> ?A" for i j
  proof -
    have "map_of (transactions d) (ledger s, i) = None"
    proof (rule ccontr)
      assume "map_of (transactions d) (ledger s, i) \<noteq> None"
      then obtain r where r: "map_of (transactions d) (ledger s, i) = Some r" by blast
      with hk obtain r' where r': "map_of (transactions d') (ledger s, i) = Some r'" "tx_fixed r' = tx_fixed r"
        unfolding history_kept_def by blast
      have "tx_matches f (i, r')" using that(2) r'(1) by (simp only: sets(2) mem_Collect_eq) simp
      then have "i \<in> ?A" using r same [OF r'(2)] by (simp only: sets(1) mem_Collect_eq) simp
      with that(3) show False ..
    qed
    moreover have "map_of (transactions d') (ledger s, i) \<noteq> None" "map_of (transactions d) (ledger s, j) \<noteq> None"
      using that(1, 2) by (simp only: sets mem_Collect_eq, force)+
    ultimately show ?thesis using hk unfolding history_kept_def by blast
  qed
  have "map TxID (matching_txs s d' f) = map TxID (matching_txs s d f) @ ?zs"
  proof (rule strict_sorted_unique)
    show "sorted_wrt (<) (map TxID (matching_txs s d' f))" by (rule matching_txs_ordered [OF assms(3)])
    then have "sorted_wrt (<) ?zs" by (rule sorted_wrt_filter)
    then show "sorted_wrt (<) (map TxID (matching_txs s d f) @ ?zs)"
      using matching_txs_ordered [OF assms(2)] new by (auto simp: sorted_wrt_append)
    show "?B = set (map TxID (matching_txs s d f) @ ?zs)" using sub by auto
  qed
  then show ?thesis by blast
qed


subsection \<open>The state of a running system\<close>

definition sys_ok :: "db \<Rightarrow> bool" where
  "sys_ok d \<longleftrightarrow> book_ok d \<and> closed_ok d \<and> one_scale d"

lemma one_scale_cong: "assets d' = assets d \<Longrightarrow> one_scale d' = one_scale d"
  by (simp add: one_scale_def is_registered_def)

lemma sys_ok_deferred [simp]: "sys_ok (d\<lparr>deferred := q\<rparr>) = sys_ok d"
  by (simp add: sys_ok_def closed_ok_def bal_def account_closed_def one_scale_def is_registered_def)

text \<open>The contract every operation of the store meets: it keeps the invariant and the history.
  \<open>run d d'\<close> holds when a call on state \<open>d\<close> returned and left \<open>d'\<close>.\<close>

locale ledger_op =
  fixes run :: "db \<Rightarrow> db \<Rightarrow> bool"
  assumes keeps: "run d d' \<Longrightarrow> sys_ok d \<Longrightarrow> sys_ok d' \<and> history_kept d d'"
begin

lemma many:
  assumes "run\<^sup>*\<^sup>* d d'" and "sys_ok d"
  shows "sys_ok d' \<and> history_kept d d'"
  using assms
proof (induction rule: rtranclp_induct)
  case (step y z)
  then show ?case using keeps [of y z] history_kept_trans by blast
qed simp

lemma checks_pass:
  assumes "run d d'" "sys_ok d" and "map_of (ledgers d') (ledger s) = Some r"
  shows "snd (VerifyConservation s d') = None" "snd (VerifyLog s d') = None" "snd (VerifyProjection s d') = None"
    "snd (VerifyEffectiveVolumes s d') = None" "snd (closed_accounts s d') = None"
proof -
  have ok: "book_ok d'" "closed_ok d'" using keeps [OF assms(1, 2)] by (simp_all add: sys_ok_def)
  then have wk: "well_keyed d'" and "log_ok d'" by (simp_all add: book_ok_def)
  show "snd (VerifyConservation s d') = None" by (rule VerifyConservation_ok [OF ok(1)])
  show "snd (VerifyLog s d') = None" using VerifyLog_ok [OF \<open>log_ok d'\<close> assms(3)] by simp
  show "snd (VerifyProjection s d') = None" by (rule VerifyProjection_ok [OF ok(1)])
  show "snd (VerifyEffectiveVolumes s d') = None" by (rule VerifyEffectiveVolumes_ok [OF ok(1)])
  show "snd (closed_accounts s d') = None" using ok(2) closed_accounts_None [OF wk] by (simp add: closed_ok_def)
qed

end

subsection \<open>Every operation meets it\<close>

lemma tx_logged_sys:
  assumes "tx_logged l d d1 d2 t a row" "sys_ok d"
  shows "sys_ok d2 \<and> history_kept d d2"
proof -
  have "assets d2 = assets d" using assms(1) by (auto simp: tx_logged_def apply_effect_def)
  then have "one_scale d2" using assms(2) one_scale_cong [of d2 d] by (simp add: sys_ok_def)
  moreover have bk: "book_ok d" and "closed_ok d" using assms(2) by (simp_all add: sys_ok_def)
  then have "closed_ok d2" using tx_logged_guards [OF assms(1)] by (simp add: guards_kept_def)
  ultimately show ?thesis
    using tx_logged_book_ok [OF assms(1) bk] tx_logged_history [OF assms(1) bk] by (simp add: sys_ok_def)
qed

lemma tx_logged_committed:
  assumes "tx_logged l d d1 d2 t a row" "d' = d2\<lparr>deferred := []\<rparr>" "sys_ok d"
  shows "sys_ok d' \<and> history_kept d d'"
  using tx_logged_sys [OF assms(1, 3)] by (simp add: assms(2))

lemma CommitTransaction_logged:
  assumes "CommitTransaction envs s d p opts = (s', Inr (d', t))" and "book_ok d"
  shows "d' = d \<or> (\<exists>d1 d2 a row. tx_logged (ledger s) d d1 d2 t a row \<and> d' = d2\<lparr>deferred := []\<rparr>)"
proof -
  from assms(1) obtain s1 h i where v: "list_all valid_posting p" and ca: "checkAssets s d p = (s1, None)"
    and once: "commitOnce s1 (envs i) d d p opts h i = Inr (d', t)" by (rule CommitTransaction_Inr)
  have l: "ledger s1 = ledger s" using checkAssets_ledger [of s d p] ca by simp
  from once show ?thesis
  proof (cases rule: commitOnce_cases)
    case (commit d1 a d2)
    have "well_keyed d" using assms(2) by (simp add: book_ok_def)
    from commit_case_effect [OF commit(2-4) this valid_priced [OF v]] show ?thesis
      by (auto simp: commit_effect_def l)
  qed simp_all
qed

interpretation commit_op: ledger_op "\<lambda>d d'. \<exists>envs s p opts s' t. CommitTransaction envs s d p opts = (s', Inr (d', t))"
proof
  fix d d' assume "\<exists>envs s p opts s' t. CommitTransaction envs s d p opts = (s', Inr (d', t))" and ok: "sys_ok d"
  then obtain envs s p opts s' t where ct: "CommitTransaction envs s d p opts = (s', Inr (d', t))" by blast
  have "book_ok d" using ok by (simp add: sys_ok_def)
  from CommitTransaction_logged [OF ct this] show "sys_ok d' \<and> history_kept d d'"
    using tx_logged_committed [OF _ _ ok] ok by auto
qed

interpretation revert_op: ledger_op "\<lambda>d d'. \<exists>envs s i opts s' rv. RevertTransaction envs s d i opts = (s', Inr (d', rv))"
proof
  fix d d' assume "\<exists>envs s i opts s' rv. RevertTransaction envs s d i opts = (s', Inr (d', rv))" and ok: "sys_ok d"
  then obtain envs s i opts s' rv where "RevertTransaction envs s d i opts = (s', Inr (d', rv))" by blast
  then obtain e where "revertOnce s e d i opts = Inr (d', rv)" by (rule RevertTransaction_once)
  moreover have "well_keyed d" using ok by (simp add: sys_ok_def book_ok_def)
  ultimately have "revert_effect s e d i opts d' rv" by (rule revertOnce_effect)
  then obtain d1 d3 a row where "tx_logged (ledger s) d d1 d3 (RReversal rv) a row" "d' = d3\<lparr>deferred := []\<rparr>"
    by (auto simp: revert_effect_def)
  then show "sys_ok d' \<and> history_kept d d'" using ok by (rule tx_logged_committed)
qed

interpretation batch_op: ledger_op "\<lambda>d d'. \<exists>envs s items opts s' ts. CommitBatch envs s d items opts = (s', Inr (d', ts))"
proof
  fix d d' assume "\<exists>envs s items opts s' ts. CommitBatch envs s d items opts = (s', Inr (d', ts))" and ok: "sys_ok d"
  then obtain envs s items opts s' ts where cb: "CommitBatch envs s d items opts = (s', Inr (d', ts))" by blast
  have bk: "book_ok d" using ok by (simp add: sys_ok_def)
  note kp = CommitBatch_keeps [OF cb bk]
  from CommitBatch_Inr [OF cb bk] consider "d' = d" | "batch_effect (ledger s) d items d' ts" by blast
  then show "sys_ok d' \<and> history_kept d d'"
  proof cases
    case 2
    then obtain K d1 d2 where m: "materialised (ledger s) K d d1" and c: "tx_chain (ledger s) d1 d2 ts" and d': "d' = d2\<lparr>deferred := []\<rparr>"
      by (auto simp: batch_effect_def)
    have "assets d2 = assets d1" using c
      by (induction rule: tx_chain.induct) (auto simp: tx_logged_def apply_effect_def)
    moreover have fr: "assets d1 = assets d" "ledgers d1 = ledgers d" "logs d1 = logs d" "transactions d1 = transactions d"
      "moves d1 = moves d"
      using materialised_frame(1) [OF m] by (simp_all add: frame_volumes_def)
    ultimately have "one_scale d2" using ok one_scale_cong [of d2 d] by (simp add: sys_ok_def)
    moreover have "history_kept d d2"
      using history_kept_trans history_kept_cong [OF fr] tx_chain_history [OF c materialised_same_volumes(1) [OF m bk]] by blast
    moreover have "book_ok d2" "closed_ok d2" using kp ok by (simp_all add: sys_ok_def d') (simp add: guards_kept_def)
    ultimately have "sys_ok d2 \<and> history_kept d d2" by (simp add: sys_ok_def)
    then show ?thesis by (simp add: d')
  qed (use ok in simp)
qed

lemma same_volumes_op:
  assumes "same_volumes d d'" "sys_ok d" "closed_ok d'"
  shows "sys_ok d' \<and> history_kept d d'"
  using assms same_volumes_book_ok [OF assms(1)] one_scale_cong [of d' d] history_kept_cong [of d' d]
  by (simp add: sys_ok_def same_volumes_def)

lemma same_closed_ok:
  assumes "same_volumes d d'" "closed_ok d" and "\<And>l a. account_closed d' l a \<Longrightarrow> account_closed d l a"
  shows "closed_ok d'"
  using assms by (simp add: closed_ok_def bal_def same_volumes_def)

interpretation flag_op: ledger_op "\<lambda>d d'. \<exists>s a x b. SetAllowNegative s d a x b = Inr d' \<or> SetAllowPositive s d a x b = Inr d'"
proof
  fix d d' assume run: "\<exists>s a x b. SetAllowNegative s d a x b = Inr d' \<or> SetAllowPositive s d a x b = Inr d'" and ok: "sys_ok d"
  have wk: "well_keyed d" using ok by (simp add: sys_ok_def book_ok_def)
  from run have sv: "same_volumes d d'" using SetAllow_same_volumes [OF wk] by blast
  from run have "accounts d' = accounts d"
    using upsert_flag_Inr(3) [OF SetAllow_upsert(1) wk] upsert_flag_Inr(3) [OF SetAllow_upsert(2) wk] by fastforce
  then have "account_closed d' = account_closed d" by (simp add: account_closed_def fun_eq_iff)
  with same_closed_ok [OF sv] ok have "closed_ok d'" by (simp add: sys_ok_def)
  with same_volumes_op [OF sv ok] show "sys_ok d' \<and> history_kept d d'" .
qed

interpretation close_op: ledger_op "\<lambda>d d'. \<exists>s e a. CloseAccount s e d a = Inr d'"
proof
  fix d d' assume "\<exists>s e a. CloseAccount s e d a = Inr d'" and ok: "sys_ok d"
  then obtain s e a where run: "CloseAccount s e d a = Inr d'" by blast
  have wk: "well_keyed d" using ok by (simp add: sys_ok_def book_ok_def)
  note c = CloseAccount_Inr [OF run wk]
  have "bal d' l (a', x) = 0" if "account_closed d' l a'" for l a' x
    using that ok c(1) c(3) [of x] unfolding c(2) by (auto simp: sys_ok_def closed_ok_def bal_def same_volumes_def)
  then have "closed_ok d'" by (simp add: closed_ok_def)
  with same_volumes_op [OF c(1) ok] show "sys_ok d' \<and> history_kept d d'" .
qed

interpretation reopen_op: ledger_op "\<lambda>d d'. \<exists>s e a. ReopenAccount s e d a = Inr d'"
proof
  fix d d' assume "\<exists>s e a. ReopenAccount s e d a = Inr d'" and ok: "sys_ok d"
  then obtain s e a where run: "ReopenAccount s e d a = Inr d'" by blast
  have wk: "well_keyed d" using ok by (simp add: sys_ok_def book_ok_def)
  note c = ReopenAccount_Inr [OF run wk]
  have "closed_ok d'" using same_closed_ok [OF c(1)] ok c(2) by (simp add: sys_ok_def)
  with same_volumes_op [OF c(1) ok] show "sys_ok d' \<and> history_kept d d'" .
qed


context metadata_change
begin

lemma keeps_sys:
  assumes r: "run d = Inr (d', x)" and ok: "sys_ok d"
  shows "sys_ok d' \<and> history_kept d d'"
proof -
  have bk: "book_ok d" using ok by (simp add: sys_ok_def)
  from effect [OF r bk] obtain d1 ch where tx: "transactions d' = transactions d1" and sb: "same_books d d1"
    and no: "\<not> ch \<Longrightarrow> d' = d\<lparr>deferred := []\<rparr>"
    and yes: "ch \<Longrightarrow> \<exists>q q' row. entry_logged l d d' q q' (last_log_id q + 1) row" by metis
  have "map_option tx_fixed (map_of (transactions d') k) = map_option tx_fixed (map_of (transactions d) k)" for k
    using sb unfolding tx same_books_def by blast
  then have "history_kept d d'" using no yes entry_logged_history [OF _ bk] by (cases ch) auto
  moreover have "closed_ok d'" using closed_ok_cong [of d' d] vol_cong [of d' d] keeps_money [OF r bk] keeps_closed [OF r bk] ok
    by (simp add: sys_ok_def)
  moreover have "one_scale d'" using one_scale_cong [of d' d] keeps_money [OF r bk] ok by (simp add: sys_ok_def)
  ultimately show ?thesis using keeps_book [OF r bk] by (simp add: sys_ok_def)
qed

end

definition metadata_run :: "db \<Rightarrow> db \<Rightarrow> bool" where
  "metadata_run d d' \<longleftrightarrow>
     (\<exists>s e i m t. SetTransactionMetadata s e d i m = Inr (d', t)) \<or>
     (\<exists>s e i k t. DeleteTransactionMetadataKey s e d i k = Inr (d', t)) \<or>
     (\<exists>s e a m x. SetAccountMetadata s e d a m = Inr (d', x)) \<or>
     (\<exists>s e a k x. DeleteAccountMetadataKey s e d a k = Inr (d', x))"

interpretation metadata_op: ledger_op metadata_run
proof
  fix d d' assume "metadata_run d d'" and ok: "sys_ok d"
  then show "sys_ok d' \<and> history_kept d d'"
    unfolding metadata_run_def
    by (elim disjE exE) (rule set_tx_meta.keeps_sys delete_tx_meta.keeps_sys set_acc_meta.keeps_sys
      delete_acc_meta.keeps_sys, assumption, rule ok)+
qed

text \<open>A watermark is a value of Go's \<open>int64\<close>.\<close>

interpretation recovery_op: ledger_op "\<lambda>d d'. \<exists>s e w nt. TipLogID w < 2 ^ 63 \<and> RecordRecovery s e d w nt = Inr d'"
proof
  fix d d' assume "\<exists>s e w nt. TipLogID w < 2 ^ 63 \<and> RecordRecovery s e d w nt = Inr d'" and ok: "sys_ok d"
  then obtain s e w nt where w: "TipLogID w < 2 ^ 63" and run: "RecordRecovery s e d w nt = Inr d'" by blast
  have bk: "book_ok d" using ok by (simp add: sys_ok_def)
  from run obtain r where r: "map_of (ledgers d) (ledger s) = Some r"
    by (auto simp: RecordRecovery_def ChainTip_def split: option.splits)
  show "sys_ok d' \<and> history_kept d d'"
  proof (cases "TipLogID w \<le> last_log_id r \<and> TipTxID w \<le> last_tx_id r")
    case True
    with RecordRecovery_noop [OF r] run ok show ?thesis by simp
  next
    case False
    from RecordRecovery_entry [OF run r False bk w] obtain row r' i where
      el: "entry_logged (ledger s) d d' r r' i row" and tx: "transactions d' = transactions d" and ac: "accounts d' = accounts d"
      by blast
    have av: "accounts_volumes d' = accounts_volumes d" and "assets d' = assets d" using el by (auto simp: entry_logged_def)
    moreover note vol_cong [OF av]
    moreover have "account_closed d' = account_closed d" by (simp add: account_closed_def fun_eq_iff ac)
    ultimately have "closed_ok d'" "one_scale d'"
      using ok closed_ok_cong [of d' d] one_scale_cong [of d' d] by (simp_all add: sys_ok_def)
    then show ?thesis
      using entry_logged_book_ok [OF el bk] entry_logged_history [OF el bk] by (simp add: sys_ok_def tx)
  qed
qed

lemma replay_ok_cong:
  assumes "logs d' = logs d" "transactions d' = transactions d" "accounts_volumes d' = accounts_volumes d"
  shows "replay_ok d' = replay_ok d"
proof -
  have "logged d' = logged d" by (simp add: logged_def ledger_logs_def assms(1) fun_eq_iff)
  then show ?thesis by (simp add: replay_ok_def assms vol_cong [OF assms(3)])
qed

lemma CreateLedger_book:
  assumes "CreateLedger e s d = Inr (d', info)" and inv: "book_ok d"
  shows "book_ok d'"
proof -
  let ?row = "\<lparr>added_at = db_now e, last_tx_id = 0, last_log_id = 0, last_log_hash = None\<rparr>"
  have fresh: "map_of (ledgers d) (ledger s) = None" and d': "d' = d\<lparr>ledgers := AList.update (ledger s) ?row (ledgers d)\<rparr>"
    using assms(1) by (auto simp: CreateLedger_def split: if_splits)
  have nolog: "(ledger s, i) \<notin> set (keys (logs d))" for i
    using inv fresh unfolding book_ok_def log_ok_def log_ids_ok_def by force
  then have "ledger_logs d (ledger s) = []"
    by (auto simp: ledger_logs_def set_empty [symmetric] simp del: set_empty) (metis fst_conv image_eqI set_map)
  moreover have ll: "ledger_logs d' l = ledger_logs d l" for l by (simp add: ledger_logs_def d')
  moreover have "chain_ok d" using inv by (simp add: book_ok_def log_ok_def)
  ultimately have "chain_ok d'"
    unfolding chain_ok_def ll by (auto simp: d' walk_start_def hash_bytes_def max_bigint_def)
  moreover have "log_ids_ok d'"
    unfolding log_ids_ok_def
  proof (intro allI impI)
    fix l i assume "(l, i) \<in> set (keys (logs d'))"
    then have i: "(l, i) \<in> set (keys (logs d))" by (simp add: d')
    with nolog have "l \<noteq> ledger s" by blast
    with inv i show "\<exists>r. map_of (ledgers d') l = Some r \<and> 1 \<le> i \<and> i \<le> last_log_id r"
      unfolding book_ok_def log_ok_def log_ids_ok_def d' by simp
  qed
  moreover have "tx_ids_ok d'"
  proof -
    have tx: "tx_ids_ok d" using inv by (simp add: book_ok_def)
    have "0 < i \<and> (\<exists>r. map_of (ledgers d') l = Some r \<and> i \<le> last_tx_id r)" if "(l, i) \<in> set (keys (transactions d'))" for l i
    proof -
      from that have "(l, i) \<in> set (keys (transactions d))" by (simp add: d')
      with tx obtain r where "0 < i" "map_of (ledgers d) l = Some r" "i \<le> last_tx_id r" unfolding tx_ids_ok_def by blast
      with fresh show ?thesis by (auto simp: d')
    qed
    with tx show ?thesis unfolding tx_ids_ok_def by (auto simp: d' split: if_splits)
  qed
  moreover have same: "moves d' = moves d" "next_seq d' = next_seq d" "accounts_volumes d' = accounts_volumes d"
    "logs d' = logs d" "transactions d' = transactions d" by (simp_all add: d')
  moreover have "well_keyed d'" using inv by (simp add: book_ok_def well_keyed_def d')
  ultimately show ?thesis
    using inv unfolding book_ok_def histories_cong [OF same(1-3)] replay_ok_cong [OF same(4, 5, 3)]
    by (simp add: log_ok_def)
qed


lemma assets_book:
  assumes "book_ok d" "unique_keys as"
  shows "book_ok (d\<lparr>assets := as\<rparr>)"
proof -
  let ?d = "d\<lparr>assets := as\<rparr>"
  have same: "moves ?d = moves d" "next_seq ?d = next_seq d" "accounts_volumes ?d = accounts_volumes d"
    "logs ?d = logs d" "transactions ?d = transactions d" "ledgers ?d = ledgers d" by simp_all
  have "well_keyed ?d" using assms by (simp add: book_ok_def well_keyed_def)
  then show ?thesis
    using assms(1) unfolding book_ok_def histories_cong [OF same(1-3)] replay_ok_cong [OF same(4, 5, 3)]
      log_ok_cong [OF same(4, 6)] by (simp add: tx_ids_ok_def)
qed

interpretation create_op: ledger_op "\<lambda>d d'. \<exists>e s info. CreateLedger e s d = Inr (d', info)"
proof
  fix d d' assume "\<exists>e s info. CreateLedger e s d = Inr (d', info)" and ok: "sys_ok d"
  then obtain e s info where run: "CreateLedger e s d = Inr (d', info)" by blast
  then obtain row where d': "d' = d\<lparr>ledgers := AList.update (ledger s) row (ledgers d)\<rparr>"
    by (auto simp: CreateLedger_def split: if_splits)
  have "history_kept d d'"
    using CreateLedger_grows [OF run] by (auto simp: history_kept_def d' ledger_logs_def)
  moreover have "closed_ok d'" using ok by (simp add: sys_ok_def d' closed_ok_def bal_def vol_def account_closed_def)
  moreover have "one_scale d'" using ok one_scale_cong [of d' d] by (simp add: sys_ok_def d')
  ultimately show "sys_ok d' \<and> history_kept d d'"
    using CreateLedger_book [OF run] ok by (simp add: sys_ok_def)
qed

interpretation asset_op: ledger_op "\<lambda>d d'. \<exists>e s x. RegisterAsset e s d x = Inr d'"
proof
  fix d d' assume "\<exists>e s x. RegisterAsset e s d x = Inr d'" and ok: "sys_ok d"
  then obtain e s x where run: "RegisterAsset e s d x = Inr d'" by blast
  then obtain as where d': "d' = d\<lparr>assets := as\<rparr>" and uk: "unique_keys as"
    using ok by (force simp: RegisterAsset_def sys_ok_def book_ok_def well_keyed_def split: if_splits)
  have "history_kept d d'"
    using RegisterAsset_grows [OF run] by (auto simp: history_kept_def d' ledger_logs_def)
  moreover have "closed_ok d'" using ok by (simp add: sys_ok_def d' closed_ok_def bal_def vol_def account_closed_def)
  moreover have "book_ok d'" unfolding d' using ok uk by (intro assets_book) (simp_all add: sys_ok_def)
  ultimately show "sys_ok d' \<and> history_kept d d'"
    using RegisterAsset_one_scale [OF run] ok by (simp add: sys_ok_def)
qed

interpretation verify_op: ledger_op "\<lambda>d d'. \<exists>jt et took s e opts. d' = fst (Verify jt et took s e opts d)"
proof
  fix d d' assume "\<exists>jt et took s e opts. d' = fst (Verify jt et took s e opts d)" and ok: "sys_ok d"
  then obtain jt et took s e opts where run: "d' = fst (Verify jt et took s e opts d)" by blast
  note fr = Verify_frame [of jt et took s e opts d, folded run]
  have same: "assets d' = assets d" "ledgers d' = ledgers d" "logs d' = logs d" "transactions d' = transactions d"
    "moves d' = moves d"
    by (simp_all add: run Verify_def Let_def recordVerification_def)
  show "sys_ok d' \<and> history_kept d d'"
    using ok fr closed_ok_cong [OF vol_cong [OF fr(2)] fr(3)] one_scale_cong [OF same(1)] history_kept_cong [OF same]
    by (simp add: sys_ok_def)
qed

subsection \<open>The system\<close>

text \<open>One operation after another, on any ledger, by any store.\<close>

inductive giro_step :: "db \<Rightarrow> db \<Rightarrow> bool" where
  create: "CreateLedger e s d = Inr (d', info) \<Longrightarrow> giro_step d d'"
| register: "RegisterAsset e s d x = Inr d' \<Longrightarrow> giro_step d d'"
| commit: "CommitTransaction envs s d p opts = (s', Inr (d', t)) \<Longrightarrow> giro_step d d'"
| revert: "RevertTransaction envs s d i ropts = (s', Inr (d', rv)) \<Longrightarrow> giro_step d d'"
| batch: "CommitBatch envs s d items opts = (s', Inr (d', ts)) \<Longrightarrow> giro_step d d'"
| set_tx_metadata: "SetTransactionMetadata s e d i m = Inr (d', t) \<Longrightarrow> giro_step d d'"
| delete_tx_metadata: "DeleteTransactionMetadataKey s e d i k = Inr (d', t) \<Longrightarrow> giro_step d d'"
| set_account_metadata: "SetAccountMetadata s e d a m = Inr (d', acc) \<Longrightarrow> giro_step d d'"
| delete_account_metadata: "DeleteAccountMetadataKey s e d a k = Inr (d', acc) \<Longrightarrow> giro_step d d'"
| allow_negative: "SetAllowNegative s d a x b = Inr d' \<Longrightarrow> giro_step d d'"
| allow_positive: "SetAllowPositive s d a x b = Inr d' \<Longrightarrow> giro_step d d'"
| close: "CloseAccount s e d a = Inr d' \<Longrightarrow> giro_step d d'"
| reopen: "ReopenAccount s e d a = Inr d' \<Longrightarrow> giro_step d d'"
| recover: "TipLogID w < 2 ^ 63 \<Longrightarrow> RecordRecovery s e d w nt = Inr d' \<Longrightarrow> giro_step d d'"
| verify: "d' = fst (Verify text st took s e vopts d) \<Longrightarrow> giro_step d d'"

lemma giro_step_keeps: "giro_step d d' \<Longrightarrow> sys_ok d \<Longrightarrow> sys_ok d' \<and> history_kept d d'"
proof (induction rule: giro_step.induct)
  case create
  then show ?case by (intro create_op.keeps) blast+
next
  case register
  then show ?case by (intro asset_op.keeps) blast+
next
  case commit
  then show ?case by (intro commit_op.keeps) blast+
next
  case revert
  then show ?case by (intro revert_op.keeps) blast+
next
  case batch
  then show ?case by (intro batch_op.keeps) blast+
next
  case set_tx_metadata
  then show ?case by (rule set_tx_meta.keeps_sys)
next
  case delete_tx_metadata
  then show ?case by (rule delete_tx_meta.keeps_sys)
next
  case set_account_metadata
  then show ?case by (rule set_acc_meta.keeps_sys)
next
  case delete_account_metadata
  then show ?case by (rule delete_acc_meta.keeps_sys)
next
  case allow_negative
  then show ?case by (intro flag_op.keeps) blast+
next
  case allow_positive
  then show ?case by (intro flag_op.keeps) blast+
next
  case close
  then show ?case by (intro close_op.keeps) blast+
next
  case reopen
  then show ?case by (intro reopen_op.keeps) blast+
next
  case recover
  then show ?case by (intro recovery_op.keeps) blast+
next
  case verify
  then show ?case by (intro verify_op.keeps) blast+
qed

interpretation giro: ledger_op giro_step
  by unfold_locales (rule giro_step_keeps)

definition reachable :: "db \<Rightarrow> bool" where
  "reachable d \<longleftrightarrow> giro_step\<^sup>*\<^sup>* empty_db d"

lemma empty_sys_ok: "sys_ok empty_db"
proof -
  have "closed_ok empty_db" by (simp add: closed_ok_def account_closed_def empty_db_def)
  moreover have "one_scale empty_db" by (simp add: one_scale_def is_registered_def empty_db_def)
  ultimately show ?thesis using empty_book_ok by (simp only: sys_ok_def)
qed

lemma reachable_sys_ok: "reachable d \<Longrightarrow> sys_ok d"
  unfolding reachable_def using giro.many [OF _ empty_sys_ok] by blast

lemma reachable_step: "reachable d \<Longrightarrow> giro_step d d' \<Longrightarrow> reachable d'"
  unfolding reachable_def by (rule rtranclp.rtrancl_into_rtrancl)

lemma reachable_many: "reachable d \<Longrightarrow> giro_step\<^sup>*\<^sup>* d d' \<Longrightarrow> reachable d'"
  unfolding reachable_def by (rule rtranclp_trans)

text \<open>A client that pages through a list while the system runs.\<close>

definition run_of :: "(nat \<Rightarrow> db) \<Rightarrow> bool" where
  "run_of ds \<longleftrightarrow> reachable (ds 0) \<and> (\<forall>i. giro_step\<^sup>*\<^sup>* (ds i) (ds (Suc i)))"

lemma run_of_reachable: "run_of ds \<Longrightarrow> reachable (ds i)"
  by (induction i) (auto simp: run_of_def intro: reachable_many)

lemma run_of_histories:
  assumes "run_of ds"
  shows "tx_history s ds" "log_history s ds"
proof -
  have ok: "sys_ok (ds i)" for i using reachable_sys_ok [OF run_of_reachable [OF assms]] .
  have hk: "history_kept (ds i) (ds (Suc i))" for i
    using giro.many [OF _ ok, of i "ds (Suc i)"] assms by (simp add: run_of_def)
  have bk: "book_ok (ds i)" for i using ok by (simp add: sys_ok_def)
  show "tx_history s ds" unfolding tx_history_def using bk matching_txs_grow [OF hk bk bk] by blast
  show "log_history s ds" unfolding log_history_def using bk hk unfolding history_kept_def by blast
qed

end
