(* ===== verification/Storage_Outcomes.thy ===== *)
theory Storage_Outcomes
  imports Storage_System
begin

text \<open>What the public operations of the store come to, drawn from the effects of their parts: what a sweep moves,
what a retry survives, what a dry run returns, what a reused idempotency key gets, what a revert undoes, and what
a balance as of a date is, and what a recorded tip of the log says about a restored database.\<close>

subsection \<open>Sweeps\<close>

lemma applyTransaction_sweeps:
  assumes ap: "applyTransaction l e p opts d = Inr (d', t, a)" and wk: "well_keyed d"
    and i: "i < length p" "UpTo (p ! i)" and k: "k = (Source (p ! i), PAsset (p ! i))"
  shows "amt (TPostings t ! i) = sweep (Amount (p ! i))
     (bal d l k + inflow (take i (TPostings t)) k - outflow (take i (TPostings t)) k)"
proof -
  obtain us0 d1 bf ps us where us0: "VolumeUpdates p = Inr us0" and lv: "lockVolumes l us0 d = Inr (d1, bf)"
    and rs: "resolve_updates p us0 bf = Inr (ps, us)" and t: "TPostings t = ps"
    using ap by (rule applyTransaction_steps) auto
  have "HasUpTo p" using i by (auto simp: HasUpTo_iff)
  then have res: "resolve_from bf (map (\<lambda>(k, v). (k, Balance (lk_volumes v))) bf) p = Inr ps"
    using rs by (auto simp: resolve_updates_def resolveUpTo_def res_simps)
  have keys: "update_key ` set us0 = touched p" using VolumeUpdates_spec [OF us0] by (simp add: updates_for_def)
  have view: "locked_view l d1 (touched p) bf" and vol: "vol d1 = vol d"
    using lockVolumes_spec [OF lv wk] materialised_frame by (simp_all add: keys)
  have "p ! i \<in> set p" using i(1) by simp
  then have kt: "k \<in> touched p" unfolding k touched_def by blast
  have "held_at (map (\<lambda>(k, v). (k, Balance (lk_volumes v))) bf) k = Balance (vol_at (copyLocked bf) k)"
    using view kt by (auto simp: held_at_def orZero_def vol_at_def copyLocked_def map_of_map locked_view_def)
  then have "held_at (map (\<lambda>(k, v). (k, Balance (lk_volumes v))) bf) k = bal d l k"
    by (simp add: vol_at_copyLocked [OF view kt] bal_def vol)
  then show ?thesis using resolve_from_sweeps [OF res i k] by (simp add: t)
qed


subsection \<open>Retries\<close>

lemma retry_loop_map:
  "retry_loop l envs (\<lambda>i. map_sum id f (once i)) n a =
     (fst (retry_loop l envs once n a), map_sum id f (snd (retry_loop l envs once n a)))"
  by (induction n arbitrary: a) (auto split: sum.splits option.splits prod.splits)

lemma retry_loop_recovers:
  assumes "\<And>j. a \<le> j \<Longrightarrow> j < a + i \<Longrightarrow> (\<exists>err. once j = Inl err \<and> retryable err) \<and> ctx_err (envs j) = None"
    and "once (a + i) = Inr x" and "i < n"
  shows "retry_loop l envs once n a = (i, Inr x)"
  using assms
proof (induction i arbitrary: a n)
  case 0
  then show ?case by (cases n) simp_all
next
  case (Suc i)
  obtain m where m: "n = Suc m" using Suc.prems(3) by (cases n) auto
  obtain err where err: "once a = Inl err" "retryable err" "ctx_err (envs a) = None" using Suc.prems(1) [of a] by auto
  have "retry_loop l envs once m (Suc a) = (i, Inr x)"
    by (rule Suc.IH) (use Suc.prems m in auto)
  then show ?case by (simp add: m err backoff_def)
qed

lemma retry_loop_gives_up:
  assumes "\<And>j. a \<le> j \<Longrightarrow> j < a + n \<Longrightarrow> (\<exists>err. once j = Inl err \<and> retryable err) \<and> ctx_err (envs j) = None"
  shows "retry_loop l envs once n a = (n, Inl (ErrGaveUp maxAttempts l))"
  using assms
proof (induction n arbitrary: a)
  case (Suc n)
  obtain err where err: "once a = Inl err" "retryable err" "ctx_err (envs a) = None" using Suc.prems [of a] by auto
  have "retry_loop l envs once n (Suc a) = (n, Inl (ErrGaveUp maxAttempts l))"
    by (rule Suc.IH) (use Suc.prems in auto)
  then show ?case by (simp add: err backoff_def)
qed simp

definition flaky :: "nat \<Rightarrow> Store \<Rightarrow> Store" where
  "flaky i s = s\<lparr>beforeCommit := (\<lambda>n. if n < i then Some (PgError deadlockDetected) else None)\<rparr>"

lemma flaky_simps [simp]: "ledger (flaky i s) = ledger s" "registered (flaky i s) = registered s"
  "ledgerSeen (flaky i s) = ledgerSeen s" "retries (flaky i s) = retries s"
  "beforeCommit (flaky i s) n = (if n < i then Some (PgError deadlockDetected) else None)"
  by (simp_all add: flaky_def)

lemma checkAssets_flaky: "checkAssets (flaky i s) d p = apfst (flaky i) (checkAssets s d p)"
  by (simp add: checkAssets_def Let_def flaky_def assetWithCodeOf_def split: list.splits)

lemma commitOnce_flaky:
  assumes once: "commitOnce s e d d p opts h m = Inr x" and fresh: "fresh_key d (ledger s) (OIdempotencyKey opts)"
    and hook: "beforeCommit s m = None"
  shows "commitOnce (flaky i s) e d d p opts h n = (if n < i then Inl (PgError deadlockDetected) else Inr x)"
proof -
  have miss: "replay_lookup (ledger s) d (OIdempotencyKey opts) h = Inr None"
    using fresh_key_lookup [OF fresh, of h] by (auto simp: replay_lookup_def)
  have race: "idempotencyRace (ledger s) d (OIdempotencyKey opts) h err = Inr None" for err
    using fresh_key_lookup [OF fresh, of h] by (auto simp: idempotencyRace_def)
  let ?ap = "applyTransaction (ledger s) e p (apply_opts opts) d"
  obtain d1 t1 a where ap: "?ap = Inr (d1, t1, a)"
    using once by (auto simp: commitOnce_def miss res_simps apply_opts_def)
  obtain d2 where ad: "appendLog (ledger s) t1 a (OIdempotencyKey opts) h d1 = Inr d2"
    using once ap by (cases "appendLog (ledger s) t1 a (OIdempotencyKey opts) h d1")
      (simp_all add: commitOnce_def miss race apply_opts_def)
  show ?thesis using once hook ap ad by (simp add: commitOnce_def miss apply_opts_def)
qed

lemma CommitTransaction_flaky:
  assumes ct: "CommitTransaction (\<lambda>_. e) s d p opts = (s', Inr (d', t))" and "ctx_err e = None"
    and hook: "\<forall>n. beforeCommit s n = None" and fresh: "fresh_key d (ledger s) (OIdempotencyKey opts)"
  shows "\<exists>s''. CommitTransaction (\<lambda>_. e) (flaky i s) d p opts =
      (s'', if i < maxAttempts then Inr (d', t) else Inl (ErrGaveUp maxAttempts (ledger s))) \<and>
    retries s'' = retries s + int (min i maxAttempts)"
proof -
  obtain s1 h m where v: "p \<noteq> []" "list_all valid_posting p" and ca: "checkAssets s d p = (s1, None)"
    and h: "idempotencyHash p opts = Inr h" and once: "commitOnce s1 e d d p opts h m = Inr (d', t)"
    using CommitTransaction_Inr [OF ct] by metis
  have s1: "ledger s1 = ledger s" "retries s1 = retries s" "beforeCommit s1 = beforeCommit s"
    using checkAssets_ledger [of s d p] checkAssets_other [of s d p] ca by simp_all
  have fl: "commitOnce (flaky i s1) e d d p opts h n = (if n < i then Inl (PgError deadlockDetected) else Inr (d', t))" for n
    by (rule commitOnce_flaky [OF once]) (simp_all add: s1 fresh hook)
  let ?loop = "retry_loop (ledger s) (\<lambda>_. e) (\<lambda>n. commitOnce (flaky i s1) e d d p opts h n) maxAttempts 0"
  have loop: "?loop = (min i maxAttempts, if i < maxAttempts then Inr (d', t) else Inl (ErrGaveUp maxAttempts (ledger s)))"
  proof (cases "i < maxAttempts")
    case True
    then have "?loop = (i, Inr (d', t))" by (intro retry_loop_recovers) (use assms(2) in \<open>simp_all add: fl\<close>)
    then show ?thesis using True by simp
  next
    case False
    then have "?loop = (maxAttempts, Inl (ErrGaveUp maxAttempts (ledger s)))"
      by (intro retry_loop_gives_up) (use assms(2) in \<open>simp add: fl\<close>)
    then show ?thesis using False by simp
  qed
  have "validate_request p = None" using v by (simp add: validate_request_None)
  then have "CommitTransaction (\<lambda>_. e) (flaky i s) d p opts = (add_retries (fst ?loop) (flaky i s1), snd ?loop)"
    by (simp add: CommitTransaction_def checkAssets_flaky ca h s1 split: prod.splits)
  then show ?thesis by (simp add: loop add_retries_def s1)
qed

subsection \<open>Dry runs\<close>

lemma idempotencyHash_dry [simp]: "idempotencyHash p (opts\<lparr>ODryRun := b\<rparr>) = idempotencyHash p opts"
  by (simp add: idempotencyHash_def idempotency_text_def)

lemma CommitTransaction_dry:
  assumes inv: "book_ok d"
  shows "CommitTransaction envs s d p (opts\<lparr>ODryRun := True\<rparr>) =
    map_prod id (map_sum id (\<lambda>(_, t). (d, t))) (CommitTransaction envs s d p (opts\<lparr>ODryRun := False\<rparr>))"
proof (cases "validate_request p")
  case (Some err)
  then show ?thesis by (simp add: CommitTransaction_def)
next
  case None
  then have "priced p" by (simp add: validate_request_None valid_priced)
  then have "(\<lambda>i. commitOnce s1 (envs i) d d p (opts\<lparr>ODryRun := True\<rparr>) h i) =
    (\<lambda>i. map_sum id (\<lambda>(_, t). (d, t)) (commitOnce s1 (envs i) d d p (opts\<lparr>ODryRun := False\<rparr>) h i))" for s1 h
    using commitOnce_dry_run [OF inv] by blast
  then show ?thesis
    by (simp add: CommitTransaction_def None retry_loop_map split: prod.splits option.splits sum.splits)
qed

subsection \<open>The same key again\<close>

lemma CommitTransaction_key_reused:
  assumes ct: "CommitTransaction envs s d p opts = (s', Inr (d', t))" and inv: "book_ok d"
    and fresh: "fresh_key d (ledger s) (OIdempotencyKey opts)" and "\<not> ODryRun opts" and ik: "OIdempotencyKey opts \<noteq> []"
    and later: "logs_kept d' d2"
    and s2: "ledger s2 = ledger s" "cache_sound s2 d2" and ik2: "OIdempotencyKey opts2 = OIdempotencyKey opts"
    and p2: "p2 \<noteq> []" "list_all valid_posting p2" "assets_ok d2 (ledger s) p2" and h2: "idempotencyHash p2 opts2 = Inr h2"
  shows "\<exists>s'' h. idempotencyHash p opts = Inr h \<and> CommitTransaction envs2 s2 d2 p2 opts2 =
    (s'', if h2 = h then Inr (d2, json_roundtrip t) else Inl (ErrIdempotencyMismatch (OIdempotencyKey opts) h h2))"
proof -
  obtain i h where h: "idempotencyHash p opts = Inr h" and ce: "commit_effect s (envs i) d p opts h d' t"
    using CommitTransaction_effect [OF ct inv fresh assms(4)] by metis
  obtain row where "log_with_key d' (ledger s) (OIdempotencyKey opts) = Some row"
    and data: "lg_data row = TxData t" "lg_key_hash row = Some h"
    using commit_effect_entry [OF ce fresh ik] by metis
  then have row: "log_with_key d2 (ledger s) (OIdempotencyKey opts) = Some row"
    using later log_with_key_stays unfolding logs_kept_def by blast
  show ?thesis
  proof (cases "h2 = h")
    case True
    then show ?thesis
      using CommitTransaction_replay [of d2 s2 opts2 row t h p2 envs2] row data ik s2 ik2 p2 h2 h by auto
  next
    case False
    then show ?thesis
      using CommitTransaction_mismatch [of d2 s2 opts2 row h p2 h2 envs2] row data ik s2 ik2 p2 h2 h by auto
  qed
qed

subsection \<open>Committed and reverted\<close>

lemma commit_effect_row:
  assumes "commit_effect s e d p opts h d' t"
  obtains r where "map_of (transactions d') (ledger s, TxID t) = Some r" "tx_postings r = TPostings t"
proof -
  obtain d1 d2 a row where ae: "apply_effect (ledger s) e p (apply_opts opts) d d1 t a"
    and tl: "tx_logged (ledger s) d d1 d2 t a row" and d': "d' = d2\<lparr>deferred := []\<rparr>"
    using assms by (auto simp: commit_effect_def)
  have "map_of (transactions d1) (ledger s, TxID t) = Some (row_of_transaction e t)"
  proof -
    have "transactions d1 = transactions d @ [((ledger s, TxID t), row_of_transaction e t)]"
      "map_of (transactions d) (ledger s, TxID t) = None" using ae unfolding apply_effect_def by blast+
    then show ?thesis by (simp add: map_add_def)
  qed
  moreover have "map_option tx_fixed (map_of (transactions d2) (ledger s, TxID t)) =
    map_option tx_fixed (map_of (transactions d1) (ledger s, TxID t))"
    using tl by (simp add: tx_logged_def)
  ultimately obtain r where "map_of (transactions d2) (ledger s, TxID t) = Some r" "tx_fixed r = tx_fixed (row_of_transaction e t)"
    by auto
  then show ?thesis using that [of r] by (simp add: d' tx_fixed_def row_of_transaction_def)
qed

lemma commit_then_revert:
  assumes ct: "CommitTransaction envs s d p opts = (s', Inr (d', t))" and inv: "book_ok d"
    and fresh: "fresh_key d (ledger s) (OIdempotencyKey opts)" and "\<not> ODryRun opts"
    and rv: "RevertTransaction envs2 s2 d' (TxID t) ropts = (s2', Inr (d'', rvl))" and "ledger s2 = ledger s"
  shows "bal d'' l k = bal d l k"
    and "\<exists>at. RevertTransaction envs3 s2 d'' (TxID t) ropts' = (s2, Inl (ErrAlreadyReverted (TxID t) at))"
proof -
  obtain i h where ce: "commit_effect s (envs i) d p opts h d' t"
    using CommitTransaction_effect [OF ct inv fresh assms(4)] by metis
  obtain r where r: "map_of (transactions d') (ledger s2, TxID t) = Some r" "tx_postings r = TPostings t"
    using commit_effect_row [OF ce] assms(6) by metis
  have inv': "book_ok d'" by (rule CommitTransaction_keeps_book [OF ct inv])
  obtain e where "revertOnce s2 e d' (TxID t) ropts = Inr (d'', rvl)" using rv by (rule RevertTransaction_once)
  then have re: "revert_effect s2 e d' (TxID t) ropts d'' rvl"
    by (rule revertOnce_effect) (use inv' in \<open>simp add: book_ok_def\<close>)
  show "bal d'' l k = bal d l k"
    using revert_effect_volumes [OF re r(1), of l k] commit_effect_volumes(1) [OF ce, of l k] r(2) assms(6)
    by (cases "l = ledger s") (simp_all add: bal_def)
  show "\<exists>at. RevertTransaction envs3 s2 d'' (TxID t) ropts' = (s2, Inl (ErrAlreadyReverted (TxID t) at))"
    using RevertTransaction_already [of d'' s2 "TxID t"] revert_effect_marks [OF re r(1)] by force
qed

subsection \<open>Balances as of a date\<close>

lemma map_of_map_key: "map_of (map (\<lambda>x. (x, f x)) xs) k = (if k \<in> set xs then Some (f k) else None)"
  by (induction xs) auto

lemma GetBalancesAt_replay:
  assumes "book_ok d"
  defines "bef s a x at \<equiv> filter (\<lambda>m. mv_effective_date m \<le> at) (key_moves d (ledger s) (a, x))"
  shows "map_of (GetBalancesAt s d a at) x =
    (if bef s a x at = [] then None else Some (Balance (moves_vol (ledger s) (a, x) (bef s a x at))))"
proof -
  have pe: "pcev_ok d" using assms(1) by (simp add: book_ok_def)
  have km: "moves_vol l k (filter P (key_moves d l k)) = moves_vol l k (filter P (moves d))" for l k P
  proof -
    have "moves_vol l k (filter P (filter (\<lambda>m. mv_ledger m = l \<and> mv_key m = k) ms)) = moves_vol l k (filter P ms)" for ms
      by (induction ms) auto
    then show ?thesis by (simp add: key_moves_def)
  qed
  have "map_of (GetBalancesAt s d a at) x = map_option Balance (map_of (effective_reads s d a at) x)"
    by (simp add: GetBalancesAt_def map_of_map)
  also have "\<dots> = (if bef s a x at = [] then None else Some (Balance (effective_volume_at (ledger s) (a, x) at d)))"
    by (auto simp: effective_reads_def Let_def map_of_map_key assms(2) key_moves_def filter_empty_conv) force+
  finally show ?thesis by (simp add: effective_volume_at_sum [OF pe] assms(2) km)
qed

subsection \<open>Tips of a ledger that moves on\<close>

lemma log_lookup:
  assumes "book_ok d"
  shows "map_of (logs d) (l, i) = Some row \<longleftrightarrow> (i, row) \<in> set (ledger_logs d l)"
proof -
  have "unique_keys (logs d)" using assms by (simp add: book_ok_def well_keyed_def)
  then show ?thesis by (simp add: set_ledger_logs map_of_eq_Some_iff)
qed

lemma log_kept:
  assumes "history_kept d d'" "book_ok d" "book_ok d'" "map_of (logs d) (l, i) = Some row"
  shows "map_of (logs d') (l, i) = Some row"
proof -
  obtain zs where "ledger_logs d' l = ledger_logs d l @ zs" using assms(1) unfolding history_kept_def by blast
  then show ?thesis using assms(4) by (simp add: log_lookup [OF assms(2)] log_lookup [OF assms(3)])
qed

lemma CheckTip_later:
  assumes inv: "book_ok d" "book_ok d'" and hk: "history_kept d d'" and tip: "ChainTip s d = Inr t"
  shows "CheckTip s d' t = Inr ()"
proof -
  obtain r where r: "map_of (ledgers d) (ledger s) = Some r"
    and t: "t = \<lparr>TipLedger = ledger s, TipTxID = last_tx_id r, TipLogID = last_log_id r, TipHash = hash_bytes (last_log_hash r)\<rparr>"
    using tip by (auto simp: ChainTip_def split: option.splits)
  obtain r' where r': "map_of (ledgers d') (ledger s) = Some r'"
    using hk r by (auto simp: history_kept_def registry_grows_def)
  show ?thesis
  proof (cases "last_log_id r = 0")
    case True
    then show ?thesis by (simp add: CheckTip_def ChainTip_def r' t)
  next
    case False
    obtain row where row: "map_of (logs d) (ledger s, last_log_id r) = Some row" "lg_hash row = hash_bytes (last_log_hash r)"
      by (rule tip_entry [OF inv(1) r False])
    show ?thesis using log_kept [OF hk inv row(1)] row(2) False by (simp add: CheckTip_def ChainTip_def r' t)
  qed
qed

lemma chain_walk:
  assumes "book_ok d" "map_of (ledgers d) l = Some r"
  shows "0 \<le> last_log_id r" "foldE verify_entry (ledger_logs d l) walk_start =
    Inr (hash_bytes (last_log_hash r), last_log_id r + 1, length (ledger_logs d l))"
  using assms by (simp_all add: book_ok_def log_ok_def chain_ok_def)

lemma tip_id_mono:
  assumes inv: "book_ok d" "book_ok d'" and hk: "history_kept d d'"
    and r: "map_of (ledgers d) l = Some r" "map_of (ledgers d') l = Some r'"
  shows "last_log_id r \<le> last_log_id r'" and "last_log_id r' \<le> last_log_id r \<Longrightarrow> ledger_logs d' l = ledger_logs d l"
proof -
  obtain zs where zs: "ledger_logs d' l = ledger_logs d l @ zs" using hk unfolding history_kept_def by blast
  have ch: "0 \<le> last_log_id r"
    "foldE verify_entry (ledger_logs d l) walk_start = Inr (hash_bytes (last_log_hash r), last_log_id r + 1, length (ledger_logs d l))"
    "foldE verify_entry (ledger_logs d' l) walk_start = Inr (hash_bytes (last_log_hash r'), last_log_id r' + 1, length (ledger_logs d' l))"
    using chain_walk [OF inv(1) r(1)] chain_walk [OF inv(2) r(2)] by simp_all
  have ord: "sorted_wrt (<) (map fst (ledger_logs d' l))"
    using inv(2) ledger_part_ordered by (auto simp: book_ok_def well_keyed_def ledger_logs_def)
  have last: "xs \<noteq> [] \<Longrightarrow> foldE verify_entry xs walk_start = Inr (h, n, c) \<Longrightarrow> n = fst (last xs) + 1" for xs h n c
    using walk_tip by blast
  have strict: "last_log_id r < last_log_id r'" if "zs \<noteq> []"
  proof (cases "ledger_logs d l = []")
    case True
    then have "last_log_id r = 0" using ch(2) by (simp add: walk_start_def)
    moreover have "(fst (last zs), snd (last zs)) \<in> set (ledger_logs d' l)" using that by (simp add: zs)
    then have "(l, fst (last zs)) \<in> set (keys (logs d'))" unfolding set_ledger_logs by force
    then have "1 \<le> fst (last zs)" using inv(2) unfolding book_ok_def log_ok_def log_ids_ok_def by blast
    moreover have "last_log_id r' = fst (last zs)" using last [OF _ ch(3)] that by (simp add: zs True)
    ultimately show ?thesis by simp
  next
    case False
    have "fst (last (ledger_logs d l)) < fst (last zs)"
      using ord False that by (simp add: zs sorted_wrt_append)
    then show ?thesis using last [OF False ch(2)] last [OF _ ch(3)] that by (simp add: zs)
  qed
  have same: "last_log_id r' = last_log_id r" if "zs = []" using ch(2,3) that by (simp add: zs)
  show "last_log_id r \<le> last_log_id r'" using strict same by (cases "zs = []") auto
  show "last_log_id r' \<le> last_log_id r \<Longrightarrow> ledger_logs d' l = ledger_logs d l" using strict zs by (cases "zs = []") auto
qed

lemma CheckTip_earlier:
  assumes inv: "book_ok d" "book_ok d'" and hk: "history_kept d d'" and tip: "ChainTip s d = Inr t" "ChainTip s d' = Inr t'"
  shows "CheckTip s d t' =
    (if TipLogID t' \<le> TipLogID t then Inr () else Inl (ErrChainBehind (TipLogID t') (TipLogID t)))"
proof -
  obtain r r' where r: "map_of (ledgers d) (ledger s) = Some r" "map_of (ledgers d') (ledger s) = Some r'"
    and t: "TipLogID t = last_log_id r" "TipLogID t' = last_log_id r'" "TipHash t' = hash_bytes (last_log_hash r')"
    "TipHash t = hash_bytes (last_log_hash r)"
    using tip by (auto simp: ChainTip_def split: option.splits)
  note mono = tip_id_mono [OF inv hk r]
  have pos: "0 \<le> last_log_id r" by (rule chain_walk [OF inv(1) r(1)])
  show ?thesis
  proof (cases "last_log_id r' \<le> last_log_id r")
    case False
    then show ?thesis using CheckTip_behind [OF inv(1) r(1), of t'] pos t by simp
  next
    case True
    then have eq: "last_log_id r' = last_log_id r" using mono(1) by simp
    have hb: "hash_bytes (last_log_hash r') = hash_bytes (last_log_hash r)"
      using mono(2) [OF True] chain_walk(2) [OF inv(1) r(1)] chain_walk(2) [OF inv(2) r(2)] by simp
    have "CheckTip s d t' = CheckTip s d t" unfolding CheckTip_def t eq hb by (rule refl)
    then show ?thesis using CheckTip_self [OF inv(1) tip(1)] True t by simp
  qed
qed

subsection \<open>Ids after a recovery\<close>

lemma commit_effect_id:
  assumes "commit_effect s e d p opts h d' t"
  obtains r where "map_of (ledgers d) (ledger s) = Some r" "TxID t = last_tx_id r + 1"
proof -
  obtain d1 d2 a row where "tx_logged (ledger s) d d1 d2 t a row" using assms by (auto simp: commit_effect_def)
  then show ?thesis using that by (rule tx_logged_appended)
qed

subsection \<open>Sums over accounts\<close>

lemma moves_balance:
  assumes "\<forall>m\<in>set ms. mv_ledger m = l \<and> mv_key m = k"
  shows "Balance (moves_vol l k ms) = (\<Sum>m\<leftarrow>ms. if mv_is_source m then - mv_amount m else mv_amount m)"
  using assms by (induction ms) (auto simp: mv_in_def mv_out_def NewVolumes_def Balance_def)

lemma tab_sum_filter:
  assumes "\<And>x. x \<in> set t \<Longrightarrow> \<not> P x \<Longrightarrow> f x = 0"
  shows "tab_sum f (filter P t) = tab_sum f t"
  using assms by (induction t) auto

lemma AggregateBalances_all:
  "map_of (AggregateBalances s d []) x = (if x \<in> set (ledger_assets d (ledger s)) then Some (drift d (ledger s) x) else None)"
proof -
  have "tab_sum (row_net (ledger s) x) (filter (\<lambda>((l, a, _), _). l = ledger s \<and> under_prefix [] a) (accounts_volumes d)) =
      drift d (ledger s) x"
    unfolding drift_def by (rule tab_sum_filter) (auto simp: row_net_def under_prefix_def split: prod.splits)
  moreover have "set (map (\<lambda>((_, _, x), _). x) (filter (\<lambda>((l, a, _), _). l = ledger s \<and> under_prefix [] a) (accounts_volumes d))) =
      set (ledger_assets d (ledger s))"
    by (force simp: ledger_assets_def ledger_volumes_def under_prefix_def)
  ultimately show ?thesis by (simp add: AggregateBalances_def Let_def map_of_map_key)
qed

subsection \<open>What a fresh commit applied\<close>

lemma CommitTransaction_applied:
  assumes "CommitTransaction envs s d p opts = (s', Inr (d', t))" and fresh: "fresh_key d (ledger s) (OIdempotencyKey opts)"
  obtains e d1 a where "applyTransaction (ledger s) e p (apply_opts opts) d = Inr (d1, t, a)"
proof -
  obtain s1 h n where ca: "checkAssets s d p = (s1, None)" and once: "commitOnce s1 (envs n) d d p opts h n = Inr (d', t)"
    using CommitTransaction_Inr [OF assms(1)] by metis
  have s1: "ledger s1 = ledger s" using checkAssets_ledger [of s d p] ca by simp
  from once show ?thesis
  proof (cases rule: commitOnce_cases)
    case replay
    then show ?thesis using fresh_key_lookup [OF fresh, of h] by (auto simp: s1)
  qed (use that s1 in auto)
qed

lemma CommitTransaction_open:
  assumes "CommitTransaction envs s d p opts = (s', Inr (d', t))" and "fresh_key d (ledger s) (OIdempotencyKey opts)"
    and "well_keyed d" and "k \<in> touched p"
  shows "\<not> account_closed d (ledger s) (fst k)"
proof -
  obtain e d1 a where "applyTransaction (ledger s) e p (apply_opts opts) d = Inr (d1, t, a)"
    using assms(1,2) by (rule CommitTransaction_applied)
  from applyTransaction_effect [OF this assms(3)] show ?thesis using assms(4) unfolding apply_effect_def by blast
qed

lemma CloseAccount_succeeds:
  assumes "book_ok d"
  shows "(\<exists>d'. CloseAccount s e d a = Inr d') \<longleftrightarrow>
    Address_Valid a \<and> a \<noteq> WorldAccount \<and> (\<forall>x. bal d (ledger s) (a, x) = 0)"
proof -
  have inv: "well_keyed d" "conserved d" using assms by (simp_all add: book_ok_def)
  have dc: "db_commit (d\<lparr>accounts := x\<rparr>) = Inr (d\<lparr>accounts := x, deferred := []\<rparr>)" for x
    using inv(2) conserved_commits [of "d\<lparr>accounts := x\<rparr>"] by (simp add: conserved_def drift_def)
  have empty: "filter (\<lambda>(_, r). vr_input r \<noteq> vr_output r) (account_rows d (ledger s) a) = [] \<longleftrightarrow> (\<forall>x. bal d (ledger s) (a, x) = 0)"
    using account_rows_mem [OF inv(1), of _ _ "ledger s" a]
    by (auto simp: filter_empty_conv bal_def vol_def Balance_def NewVolumes_def split: option.splits)
  show ?thesis unfolding empty [symmetric] by (auto simp: CloseAccount_def Let_def dc)
qed

lemma cache_sound_later:
  assumes "cache_sound s d" "sys_ok d" "giro_step\<^sup>*\<^sup>* d d'"
  shows "cache_sound s d'"
proof -
  have "history_kept d d'" using giro.many [OF assms(3,2)] by blast
  then show ?thesis using cache_sound_grows [OF assms(1)] unfolding history_kept_def by blast
qed

lemma replayLog_distinct:
  assumes "replayLog s d = Inr (want, seen)"
  shows "distinct seen"
proof -
  have "distinct (snd (want, seen))"
    using assms [unfolded replayLog_def]
  proof (rule foldE_invariant)
    fix x st st' assume "distinct (snd st)" "replay_entry x st = Inr st'"
    then show "distinct (snd st')"
      by (auto simp: replay_entry_def replay_tx_def res_simps split: LogType.splits option.splits)
  qed simp
  then show ?thesis by simp
qed

end
