(* ===== verification/Giro_Demo.thy ===== *)
theory Giro_Demo
  imports Storage_Outcomes
begin

text \<open>A concrete ledger on which the properties are tried out: one ledger, one asset, one payment, each made by
the operations of the store.  The digest \<open>sha256\<close> and the texts it is taken of are left symbolic when these states are
evaluated: no value of a digest is ever needed, only that it is the same one.\<close>

declare sha256_def [code del]
declare log_text.simps [code del]
declare idempotency_text_def [code del]

subsection \<open>A ledger, an asset, a clock\<close>

definition demo_env :: env where
  "demo_env = \<lparr>go_now = 5500, db_now = 6000, ctx_err = None\<rparr>"

definition demo_store :: Store where
  "demo_store = New ''main''"

definition demo_opts :: CommitOptions where
  "demo_opts = \<lparr>OTimestamp = 0, OReference = [], OMetadata = None, OIdempotencyKey = [], ODryRun = False\<rparr>"

definition usd :: "Address \<Rightarrow> Address \<Rightarrow> int \<Rightarrow> Posting" where
  "usd a b n = \<lparr>Source = a, Destination = b, PAsset = ''USD/2'', Amount = Some n, UpTo = False\<rparr>"

definition usd_all :: "Address \<Rightarrow> Address \<Rightarrow> Posting" where
  "usd_all a b = \<lparr>Source = a, Destination = b, PAsset = ''USD/2'', Amount = None, UpTo = True\<rparr>"

definition demo_ledger :: db where
  "demo_ledger = (case CreateLedger demo_env demo_store empty_db of Inl _ \<Rightarrow> empty_db | Inr x \<Rightarrow> fst x)"

definition demo_open :: db where
  "demo_open = (case RegisterAsset demo_env demo_store demo_ledger ''USD/2'' of Inl _ \<Rightarrow> empty_db | Inr d \<Rightarrow> d)"

lemma demo_created: "\<exists>info. CreateLedger demo_env demo_store empty_db = Inr (demo_ledger, info)"
  unfolding demo_ledger_def by (simp add: CreateLedger_def empty_db_def)

lemma demo_registered: "RegisterAsset demo_env demo_store demo_ledger ''USD/2'' = Inr demo_open"
proof -
  have "is_ok (RegisterAsset demo_env demo_store demo_ledger ''USD/2'')" by code_simp
  then show ?thesis by (auto simp: is_ok_iff demo_open_def)
qed

lemma demo_open_reachable: "reachable demo_open"
proof -
  have "reachable empty_db" by (simp add: reachable_def)
  moreover have "giro_step empty_db demo_ledger" using demo_created by (blast intro: giro_step.create)
  moreover have "giro_step demo_ledger demo_open" by (rule giro_step.register [OF demo_registered])
  ultimately show ?thesis by (blast intro: reachable_step)
qed

lemma demo_open_eq: "demo_open =
  \<lparr>ledgers = [(''main'', \<lparr>added_at = 6000, last_tx_id = 0, last_log_id = 0, last_log_hash = None\<rparr>)],
   assets = [((''main'', ''USD/2''), 6000)], accounts = [], accounts_volumes = [], transactions = [],
   moves = [], next_seq = 1, logs = [], verification_runs = [], deferred = []\<rparr>"
  by code_simp

subsection \<open>A payment into the ledger and out of it\<close>

definition demo_fund :: Postings where
  "demo_fund = [usd ''world'' ''alice'' 100]"

definition commit_db :: "db \<Rightarrow> Postings \<Rightarrow> CommitOptions \<Rightarrow> db" where
  "commit_db d p opts =
     (case CommitTransaction (\<lambda>_. demo_env) demo_store d p opts of (_, Inr (d', _)) \<Rightarrow> d' | _ \<Rightarrow> d)"

lemma commit_db:
  assumes "is_ok (snd (CommitTransaction (\<lambda>_. demo_env) demo_store d p opts))"
  shows "\<exists>s' t. CommitTransaction (\<lambda>_. demo_env) demo_store d p opts = (s', Inr (commit_db d p opts, t))"
proof -
  obtain s' x where "CommitTransaction (\<lambda>_. demo_env) demo_store d p opts = (s', Inr x)"
    using assms by (metis is_ok_iff prod.collapse)
  then show ?thesis by (cases x) (simp add: commit_db_def)
qed

definition demo_paid :: db where
  "demo_paid = commit_db demo_open demo_fund demo_opts"

lemma demo_paid_ok: "is_ok (snd (CommitTransaction (\<lambda>_. demo_env) demo_store demo_open demo_fund demo_opts))"
  by code_simp

lemma demo_paid_run:
  "\<exists>s' t. CommitTransaction (\<lambda>_. demo_env) demo_store demo_open demo_fund demo_opts = (s', Inr (demo_paid, t))"
  unfolding demo_paid_def by (rule commit_db [OF demo_paid_ok])

lemma demo_paid_reachable: "reachable demo_paid"
  using demo_paid_run by (blast intro: reachable_step demo_open_reachable giro_step.commit)

lemma demo_paid_parts:
  "ledgers demo_paid =
     [(''main'', \<lparr>added_at = 6000, last_tx_id = 1, last_log_id = 1,
        last_log_hash = Some (lg_hash (snd (hd (logs demo_paid))))\<rparr>)]"
  "accounts_volumes demo_paid =
     [((''main'', ''alice'', ''USD/2''), \<lparr>vr_input = 100, vr_output = 0, allow_negative = False, allow_positive = True\<rparr>),
      ((''main'', ''world'', ''USD/2''), \<lparr>vr_input = 0, vr_output = 100, allow_negative = True, allow_positive = True\<rparr>)]"
  "map (tx_postings \<circ> snd) (transactions demo_paid) = [demo_fund]"
  "map fst (transactions demo_paid) = [(''main'', 1)]"
  "map fst (logs demo_paid) = [(''main'', 1)]"
  by code_simp+

end
