(* ===== verification/Go_Rat.thy ===== *)
theory Go_Rat
  imports Go_Text Complex_Main
begin

text \<open>
  The part of Go's \<open>math/big\<close> that \<open>src/fx/conversion.go\<close> reads rates with: \<open>Rat.SetString\<close> on a text
  without \<open>/\<close>, written out over the scanners it uses (mantissa with base prefixes, underscores and a
  radix point; decimal or binary exponent). A \<open>big.Rat\<close> is a \<open>rat\<close>: both are kept in lowest terms with
  a positive denominator. A plain decimal is shown to denote exactly the number it is written as.
\<close>

subsection \<open>Scanning a mantissa\<close>

text \<open>\<open>nat.scan\<close> with base 0 and a fraction allowed: an optional \<open>0b\<close>, \<open>0o\<close> or \<open>0x\<close> prefix, digits of
  the base with single underscores between them, at most one radix point. \<open>prev\<close> is the class of the
  character last seen, \<open>dp\<close> the number of digits before the radix point.\<close>

datatype scan_class = SeenDigit | SeenSep | SeenOther

record scan =
  sc_prev :: scan_class
  sc_count :: nat
  sc_dp :: "nat option"
  sc_invalSep :: bool
  sc_val :: int

definition char_digit :: "char \<Rightarrow> nat" where
  "char_digit c =
     (if is_digit c then digit_value c
      else if is_lower c then of_char c - 97 + 10
      else if is_upper c then of_char c - 65 + 10
      else 63)"

fun scan_digits :: "nat \<Rightarrow> string \<Rightarrow> scan \<Rightarrow> scan \<times> string" where
  "scan_digits b [] st = (st, [])"
| "scan_digits b (c # cs) st =
     (if c = CHR ''.'' \<and> sc_dp st = None then
        scan_digits b cs (st\<lparr>sc_invalSep := sc_invalSep st \<or> sc_prev st = SeenSep,
                             sc_prev := SeenOther, sc_dp := Some (sc_count st)\<rparr>)
      else if c = CHR ''_'' then
        scan_digits b cs (st\<lparr>sc_invalSep := sc_invalSep st \<or> sc_prev st \<noteq> SeenDigit,
                             sc_prev := SeenSep\<rparr>)
      else if char_digit c \<ge> b then (st, c # cs)
      else scan_digits b cs (st\<lparr>sc_prev := SeenDigit, sc_count := Suc (sc_count st),
                                sc_val := int b * sc_val st + int (char_digit c)\<rparr>))"

definition scan_start :: scan where
  "scan_start = \<lparr>sc_prev = SeenOther, sc_count = 0, sc_dp = None, sc_invalSep = False, sc_val = 0\<rparr>"

definition base_prefix :: "char \<Rightarrow> nat option" where
  "base_prefix c =
     (if c = CHR ''b'' \<or> c = CHR ''B'' then Some 2
      else if c = CHR ''o'' \<or> c = CHR ''O'' then Some 8
      else if c = CHR ''x'' \<or> c = CHR ''X'' then Some 16
      else None)"

definition scan_base :: "string \<Rightarrow> nat \<times> string \<times> scan" where
  "scan_base s =
     (case s of
        c # d # cs \<Rightarrow>
          if c = CHR ''0''
          then (case base_prefix d of
                  Some b \<Rightarrow> (b, cs, scan_start\<lparr>sc_prev := SeenDigit\<rparr>)
                | None \<Rightarrow> (10, d # cs, scan_start\<lparr>sc_prev := SeenDigit, sc_count := 1\<rparr>))
          else (10, s, scan_start)
      | [c] \<Rightarrow>
          if c = CHR ''0'' then (10, [], scan_start\<lparr>sc_prev := SeenDigit, sc_count := 1\<rparr>)
          else (10, s, scan_start)
      | [] \<Rightarrow> (10, [], scan_start))"

text \<open>The value, the base, the digit count adjusted for a fraction (negative when there is one), and
  what was not read; \<open>None\<close> for no digits or a misplaced separator.\<close>

definition nat_scan :: "string \<Rightarrow> (int \<times> nat \<times> int \<times> string) option" where
  "nat_scan s =
     (case scan_base s of (b, cs, st0) \<Rightarrow>
      case scan_digits b cs st0 of (st, rest) \<Rightarrow>
        if sc_invalSep st \<or> sc_prev st = SeenSep \<or> sc_count st = 0 then None
        else Some (sc_val st, b,
                   (case sc_dp st of None \<Rightarrow> int (sc_count st)
                                   | Some dp \<Rightarrow> int dp - int (sc_count st)),
                   rest))"

subsection \<open>Scanning an exponent\<close>

fun exponent_digits :: "string \<Rightarrow> scan_class \<Rightarrow> bool \<Rightarrow> string \<Rightarrow> string \<times> scan_class \<times> bool \<times> string" where
  "exponent_digits [] prev bad ds = (ds, prev, bad, [])"
| "exponent_digits (c # cs) prev bad ds =
     (if is_digit c then exponent_digits cs SeenDigit bad (ds @ [c])
      else if c = CHR ''_'' then exponent_digits cs SeenSep (bad \<or> prev \<noteq> SeenDigit) ds
      else (ds, prev, bad, c # cs))"

definition scan_exponent :: "string \<Rightarrow> (int \<times> nat \<times> string) option" where
  "scan_exponent s =
     (case s of
        [] \<Rightarrow> Some (0, 10, [])
      | c # cs \<Rightarrow>
          if c \<notin> set ''eEpP'' then Some (0, 10, s)
          else (let neg = (take 1 cs = ''-'');
                    body = (if neg \<or> take 1 cs = ''+'' then drop 1 cs else cs)
                in case exponent_digits body SeenOther False [] of (ds, prev, bad, rest) \<Rightarrow>
                   if ds = [] then None
                   else case ParseInt64 ((if neg then ''-'' else '''') @ ds) of
                          None \<Rightarrow> None
                        | Some n \<Rightarrow>
                            if bad \<or> prev = SeenSep then None
                            else Some (n, if c \<in> set ''eE'' then 10 else 2, rest)))"

subsection \<open>The rational\<close>

definition rat_power :: "rat \<Rightarrow> int \<Rightarrow> rat" where
  "rat_power q n = (if n < 0 then 1 / q ^ nat (- n) else q ^ nat n)"

definition frac_bits :: "nat \<Rightarrow> int" where
  "frac_bits b = (if b = 8 then 3 else if b = 16 then 4 else 1)"

text \<open>\<open>Rat.SetString\<close> on a text with no \<open>/\<close>: sign, mantissa, exponent and nothing after them. Exponents
  too large to expand are refused.\<close>

definition SetString :: "string \<Rightarrow> rat option" where
  "SetString s =
     (let neg = (take 1 s = ''-'');
          body = (if neg \<or> take 1 s = ''+'' then drop 1 s else s)
      in case nat_scan body of
           None \<Rightarrow> None
         | Some (m, b, fcount, rest) \<Rightarrow>
             (case scan_exponent rest of
                None \<Rightarrow> None
              | Some (x, ebase, rest') \<Rightarrow>
                  if rest' \<noteq> [] then None
                  else if m = 0 then Some 0
                  else (let d = min 0 fcount;
                            exp5 = (if b = 10 then d else 0) + (if ebase = 10 then x else 0);
                            exp2 = d * frac_bits b + x
                        in if \<bar>exp5\<bar> > 10 ^ 6 \<or> \<bar>exp2\<bar> > 10 ^ 7 then None
                           else Some ((if neg then -1 else 1) * of_int m * rat_power 5 exp5 * rat_power 2 exp2))))"


subsection \<open>Plain decimals\<close>

lemma is_digit_facts:
  assumes "is_digit c"
  shows "c \<noteq> CHR ''.''" "c \<noteq> CHR ''_''" "c \<noteq> CHR ''-''" "c \<noteq> CHR ''+''" "char_digit c = digit_value c"
    "char_digit c < 10" "base_prefix c = None"
  using assms digit_value_le [OF assms]
  by (auto simp: is_digit_def char_digit_def base_prefix_def less_eq_char_def)

definition after_digits :: "string \<Rightarrow> scan \<Rightarrow> scan" where
  "after_digits ds st =
     st\<lparr>sc_prev := (if ds = [] then sc_prev st else SeenDigit), sc_count := sc_count st + length ds,
        sc_val := foldl (\<lambda>v c. 10 * v + int (digit_value c)) (sc_val st) ds\<rparr>"

lemma scan_digits_append:
  "list_all is_digit ds \<Longrightarrow> scan_digits 10 (ds @ rest) st = scan_digits 10 rest (after_digits ds st)"
proof (induction ds arbitrary: st)
  case (Cons c cs)
  then show ?case
    using is_digit_facts [of c] Cons.IH by (simp add: after_digits_def)
qed (simp add: after_digits_def)

lemma scan_base_decimal:
  assumes "list_all (\<lambda>c. is_digit c \<or> c = CHR ''.'') s"
  shows "\<exists>s' st0. scan_base s = (10, s', st0) \<and> scan_digits 10 s' st0 = scan_digits 10 s scan_start"
proof -
  have dot: "base_prefix CHR ''.'' = None" by (simp add: base_prefix_def)
  have zero: "scan_digits 10 (CHR ''0'' # t) scan_start =
      scan_digits 10 t (scan_start\<lparr>sc_prev := SeenDigit, sc_count := 1\<rparr>)" for t
    by (simp add: char_digit_def is_digit_def less_eq_char_def digit_value_def scan_start_def)
  show ?thesis
  proof (cases s)
    case (Cons c cs)
    show ?thesis
    proof (cases cs)
      case Nil
      then show ?thesis using zero [of "[]"] Cons by (simp add: scan_base_def del: scan_digits.simps)
    next
      case (Cons d ds)
      then have "base_prefix d = None" using assms \<open>s = c # cs\<close> dot is_digit_facts(7) by auto
      then show ?thesis using zero [of "d # ds"] Cons \<open>s = c # cs\<close>
        by (simp add: scan_base_def del: scan_digits.simps)
    qed
  qed (simp add: scan_base_def)
qed

lemma rat_power_10: "rat_power 5 n * rat_power 2 n = rat_power 10 n"
  by (simp add: rat_power_def flip: power_mult_distrib)

lemma nat_scan_decimal:
  assumes "list_all is_digit a" "list_all is_digit b" "a \<noteq> [] \<or> b \<noteq> []"
  shows "nat_scan (a @ CHR ''.'' # b) = Some (int (digits_value (a @ b)), 10, - int (length b), [])"
proof -
  let ?s = "a @ CHR ''.'' # b"
  have "list_all (\<lambda>c. is_digit c \<or> c = CHR ''.'') ?s"
    using assms by (auto simp: list_all_iff)
  then obtain s' st0 where base: "scan_base ?s = (10, s', st0)" "scan_digits 10 s' st0 = scan_digits 10 ?s scan_start"
    using scan_base_decimal by blast
  have "scan_digits 10 ?s scan_start =
    scan_digits 10 (b @ []) ((after_digits a scan_start)\<lparr>sc_prev := SeenOther, sc_dp := Some (length a)\<rparr>)"
    by (subst scan_digits_append [OF assms(1)]) (simp add: after_digits_def scan_start_def)
  also have "\<dots> = (after_digits b ((after_digits a scan_start)\<lparr>sc_prev := SeenOther, sc_dp := Some (length a)\<rparr>), [])"
    by (subst scan_digits_append [OF assms(2)]) simp
  finally show ?thesis using base assms(3)
    by (auto simp: nat_scan_def after_digits_def scan_start_def digits_value_def digits_value_foldl foldl_append)
qed

lemma nat_scan_digits:
  assumes "list_all is_digit a" "a \<noteq> []"
  shows "nat_scan a = Some (int (digits_value a), 10, int (length a), [])"
proof -
  have "list_all (\<lambda>c. is_digit c \<or> c = CHR ''.'') a"
    using assms by (auto simp: list_all_iff)
  then obtain s' st0 where base: "scan_base a = (10, s', st0)" "scan_digits 10 s' st0 = scan_digits 10 a scan_start"
    using scan_base_decimal by blast
  have "scan_digits 10 a scan_start = (after_digits a scan_start, [])"
    using scan_digits_append [OF assms(1), of "[]" scan_start] by simp
  with base assms(2) show ?thesis
    by (simp add: nat_scan_def after_digits_def scan_start_def digits_value_def digits_value_foldl)
qed

lemma SetString_unsigned:
  assumes "nat_scan s = Some (m, 10, f, [])" "s \<noteq> []" "hd s \<noteq> CHR ''-''" "hd s \<noteq> CHR ''+''" "- f \<le> 10 ^ 6"
  shows "SetString s = Some (of_int m * rat_power 10 (min 0 f))"
proof -
  have "take 1 s \<noteq> ''-''" "take 1 s \<noteq> ''+''" using assms(2-4) by (cases s; simp)+
  moreover have "\<not> 1000000 < - min 0 f" "\<not> 10000000 < - min 0 f" using assms(5) by auto
  ultimately show ?thesis using assms(1)
    by (simp add: SetString_def Let_def scan_exponent_def frac_bits_def rat_power_10)
qed

text \<open>A plain decimal text denotes exactly the rational it is written as.\<close>

lemma SetString_decimal:
  assumes "list_all is_digit a" "list_all is_digit b" "a \<noteq> [] \<or> b \<noteq> []" "length b \<le> 1000000"
  shows "SetString (a @ CHR ''.'' # b) = Some (of_nat (digits_value (a @ b)) / 10 ^ length b)"
proof -
  have hd: "hd (a @ CHR ''.'' # b) \<noteq> CHR ''-''" "hd (a @ CHR ''.'' # b) \<noteq> CHR ''+''"
    using assms(1) is_digit_facts by (cases a; auto)+
  show ?thesis
    using SetString_unsigned [OF nat_scan_decimal [OF assms(1-3)] _ hd] assms(4)
    by (simp add: rat_power_def min_def)
qed

lemma SetString_integer:
  assumes "list_all is_digit a" "a \<noteq> []"
  shows "SetString a = Some (of_nat (digits_value a))"
proof -
  have hd: "hd a \<noteq> CHR ''-''" "hd a \<noteq> CHR ''+''"
    using assms is_digit_facts by (cases a; auto)+
  show ?thesis
    using SetString_unsigned [OF nat_scan_digits [OF assms] assms(2) hd] by (simp add: rat_power_def)
qed

end
