(* ===== verification/Fx.thy ===== *)
theory Fx
  imports Storage_Outcomes Go_Rat
begin

text \<open>
  Package \<open>src/fx\<close>: conversions of one asset into another at a stated rate (\<open>conversion.go\<close>) and the
  verifier that recomputes every recorded conversion (\<open>verify.go\<close>). The query of \<open>Verify\<close> runs on the
  database state of \<open>Giro_Db\<close>. What is received is the floor of the exact product, a conversion built by
  this package agrees with its own rate, and committing one adds exactly one agreeing row to the audit.
\<close>

subsection \<open>The keys and the conversion\<close>

definition ConversionRateKey :: string where "ConversionRateKey = ''giro/conversion.rate''"
definition ConversionFromKey :: string where "ConversionFromKey = ''giro/conversion.from''"
definition ConversionToKey :: string where "ConversionToKey = ''giro/conversion.to''"

lemma conversion_keys_distinct [simp]:
  "ConversionRateKey \<noteq> ConversionFromKey" "ConversionRateKey \<noteq> ConversionToKey"
  "ConversionFromKey \<noteq> ConversionToKey"
  "ConversionFromKey \<noteq> ConversionRateKey" "ConversionToKey \<noteq> ConversionRateKey"
  "ConversionToKey \<noteq> ConversionFromKey"
  by (simp_all add: ConversionRateKey_def ConversionFromKey_def ConversionToKey_def)

record Conversion =
  CFrom :: Asset
  Seller :: Address
  SoldTo :: Address
  CTo :: Asset
  BoughtFrom :: Address
  Buyer :: Address
  CAmount :: "int option"
  Rate :: string

definition parseRate :: "string \<Rightarrow> rat res" where
  "parseRate s =
     (if s = [] then Inl (ErrInvalidRate s)
      else if list_ex (\<lambda>c. c \<in> set ''eE/ '') s then Inl (ErrInvalidRate s)
      else (case SetString s of
              None \<Rightarrow> Inl (ErrInvalidRate s)
            | Some r \<Rightarrow> if r \<le> 0 then Inl (ErrInvalidRate s) else Inr r))"

text \<open>The scale difference, one factor of ten at a time.\<close>

fun scale_loop :: "nat \<Rightarrow> int \<Rightarrow> rat \<Rightarrow> rat" where
  "scale_loop 0 shift value = value"
| "scale_loop (Suc n) shift value = scale_loop n shift (if shift > 0 then value * 10 else value / 10)"

text \<open>\<open>big.Int.Quo\<close> truncates towards zero.\<close>

definition big_Quo :: "int \<Rightarrow> int \<Rightarrow> int" where
  "big_Quo x y = sgn x * sgn y * (\<bar>x\<bar> div \<bar>y\<bar>)"

definition Receives :: "Conversion \<Rightarrow> (int \<times> bool) res" where
  "Receives c =
     bindE (parseRate (Rate c)) (\<lambda>rate.
       case Asset_Scale (CFrom c) of (fromScale, ok) \<Rightarrow>
       if \<not> ok then Inl ErrInvalidAsset
       else (case Asset_Scale (CTo c) of (toScale, ok') \<Rightarrow>
         if \<not> ok' then Inl ErrInvalidAsset
         else (case CAmount c of
             None \<Rightarrow> Inl ErrInvalidAmount
           | Some a \<Rightarrow>
               if a \<le> 0 then Inl ErrInvalidAmount
               else (let shift = toScale - fromScale;
                         value = scale_loop (nat \<bar>shift\<bar>) shift (of_int a * rate);
                         q = quotient_of value
                     in Inr (big_Quo (fst q) (snd q), snd q = 1)))))"

definition Conversion_Postings :: "Conversion \<Rightarrow> Postings res" where
  "Conversion_Postings c =
     (if CFrom c = CTo c then Inl (ErrSameAsset (CFrom c))
      else bindE (Receives c) (\<lambda>(received, _).
        if received \<le> 0 then Inl ErrInvalidAmount
        else Inr [\<lparr>Source = Seller c, Destination = SoldTo c, PAsset = CFrom c, Amount = CAmount c, UpTo = False\<rparr>,
                  \<lparr>Source = BoughtFrom c, Destination = Buyer c, PAsset = CTo c, Amount = Some received, UpTo = False\<rparr>]))"

definition Conversion_Metadata :: "Conversion \<Rightarrow> Metadata option \<Rightarrow> Metadata" where
  "Conversion_Metadata c into =
     AList.update ConversionToKey (CTo c)
       (AList.update ConversionFromKey (CFrom c)
         (AList.update ConversionRateKey (Rate c) (orEmpty into)))"

subsection \<open>Checking what was recorded\<close>

definition metadata_at :: "Metadata option \<Rightarrow> string \<Rightarrow> string" where
  "metadata_at m k = (case map_of (orEmpty m) k of None \<Rightarrow> [] | Some v \<Rightarrow> v)"

text \<open>Adding a nil amount dereferences it, but only for a posting in one of the two assets.\<close>

fun conversion_sums :: "Asset \<Rightarrow> Asset \<Rightarrow> Postings \<Rightarrow> int \<Rightarrow> int \<Rightarrow> (int \<times> int) res" where
  "conversion_sums src to [] sold bought = Inr (sold, bought)"
| "conversion_sums src to (p # ps) sold bought =
     (if PAsset p = src then
        (case Amount p of None \<Rightarrow> Inl NilPanic | Some a \<Rightarrow> conversion_sums src to ps (sold + a) bought)
      else if PAsset p = to then
        (case Amount p of None \<Rightarrow> Inl NilPanic | Some a \<Rightarrow> conversion_sums src to ps sold (bought + a))
      else conversion_sums src to ps sold bought)"

definition bare_conversion :: "Asset \<Rightarrow> Asset \<Rightarrow> int \<Rightarrow> string \<Rightarrow> Conversion" where
  "bare_conversion src to sold rate =
     \<lparr>CFrom = src, Seller = [], SoldTo = [], CTo = to, BoughtFrom = [], Buyer = [],
      CAmount = Some sold, Rate = rate\<rparr>"

definition Fx_Check :: "Transaction \<Rightarrow> int \<Rightarrow> unit res" where
  "Fx_Check t tolerance =
     (case map_of (orEmpty (TMetadata t)) ConversionRateKey of
        None \<Rightarrow> Inr ()
      | Some rate \<Rightarrow>
          (let src = metadata_at (TMetadata t) ConversionFromKey;
               to = metadata_at (TMetadata t) ConversionToKey
           in if src = [] \<or> to = [] then Inl (ErrConversionRounding (TxID t))
              else bindE (conversion_sums src to (TPostings t) 0 0) (\<lambda>(sold, bought).
                if sold = 0 \<or> bought = 0 then Inl (ErrConversionRounding (TxID t))
                else bindE (Receives (bare_conversion src to sold rate)) (\<lambda>(want, _).
                  if \<bar>bought - want\<bar> > \<bar>tolerance\<bar> then Inl (ErrConversionRounding (TxID t))
                  else Inr ()))))"

definition DefaultTolerance :: int where "DefaultTolerance = 1"

text \<open>The rows the query returns, in id order, and the transaction each is read into.\<close>

definition conversion_rows :: "db \<Rightarrow> string \<Rightarrow> (int \<times> tx_row) list" where
  "conversion_rows d l =
     sort_key fst (map (\<lambda>((_, i), r). (i, r))
       (filter (\<lambda>((l', _), r). l' = l \<and> map_of (tx_metadata r) ConversionRateKey \<noteq> None) (transactions d)))"

definition conversion_of :: "int \<times> tx_row \<Rightarrow> Transaction" where
  "conversion_of x =
     zero_transaction\<lparr>TxID := fst x, TPostings := tx_postings (snd x), TMetadata := Some (tx_metadata (snd x))\<rparr>"

text \<open>The loop counts every row and collects every disagreement; a nil dereference ends it.\<close>

fun verify_rows :: "(int \<times> tx_row) list \<Rightarrow> int \<Rightarrow> nat \<Rightarrow> error list \<Rightarrow> (nat \<times> error list) res" where
  "verify_rows [] tolerance checked found = Inr (checked, found)"
| "verify_rows (x # xs) tolerance checked found =
     (case Fx_Check (conversion_of x) tolerance of
        Inr _ \<Rightarrow> verify_rows xs tolerance (Suc checked) found
      | Inl e \<Rightarrow> if e = NilPanic then Inl NilPanic
                 else verify_rows xs tolerance (Suc checked) (found @ [e]))"

definition Fx_Verify :: "db \<Rightarrow> string \<Rightarrow> int \<Rightarrow> (nat \<times> error list) res" where
  "Fx_Verify d l tolerance = verify_rows (conversion_rows d l) tolerance 0 []"

subsection \<open>What a conversion receives\<close>

lemma rat_power_pos: "q > 0 \<Longrightarrow> rat_power q n > 0"
  by (simp add: rat_power_def)

lemma scale_loop_up: "shift > 0 \<Longrightarrow> scale_loop n shift v = v * 10 ^ n"
  by (induction n arbitrary: v) (simp_all add: algebra_simps)

lemma scale_loop_down: "shift \<le> 0 \<Longrightarrow> scale_loop n shift v = v / 10 ^ n"
  by (induction n arbitrary: v) simp_all

lemma scale_loop_power: "scale_loop (nat \<bar>shift\<bar>) shift v = v * rat_power 10 shift"
  by (cases "shift > 0") (simp_all add: scale_loop_up scale_loop_down rat_power_def)

lemma quo_floor:
  assumes "v > 0"
  shows "big_Quo (fst (quotient_of v)) (snd (quotient_of v)) = \<lfloor>v\<rfloor>"
proof -
  obtain n m where q: "quotient_of v = (n, m)" by (cases "quotient_of v")
  then have "m > 0" using quotient_of_denom_pos by blast
  moreover have v: "v = of_int n / of_int m" using quotient_of_div [OF q] .
  ultimately have "n > 0" using assms by (simp add: zero_less_divide_iff)
  with \<open>m > 0\<close> have "big_Quo n m = \<lfloor>v\<rfloor>" by (simp add: big_Quo_def v floor_divide_of_int_eq)
  then show ?thesis by (simp add: q)
qed

lemma quotient_of_int_iff: "snd (quotient_of v) = 1 \<longleftrightarrow> v \<in> \<int>"
proof
  assume "snd (quotient_of v) = 1"
  then have "v = of_int (fst (quotient_of v))"
    by (metis div_by_1 of_int_1 prod.collapse quotient_of_div)
  then show "v \<in> \<int>" by (metis Ints_of_int)
next
  assume "v \<in> \<int>"
  then show "snd (quotient_of v) = 1" by (auto elim!: Ints_cases)
qed

definition shift_of :: "Asset \<Rightarrow> Asset \<Rightarrow> int" where
  "shift_of src to = fst (Asset_Scale to) - fst (Asset_Scale src)"

lemma Asset_Scale_ok: "snd (Asset_Scale a) = Asset_Valid a"
  by (auto simp: Asset_Scale_def split: prod.splits)

lemma parseRate_pos: "parseRate s = Inr r \<Longrightarrow> r > 0"
  by (auto simp: parseRate_def split: if_splits option.splits)

lemma Receives_value:
  assumes "parseRate (Rate c) = Inr r" "Asset_Valid (CFrom c)" "Asset_Valid (CTo c)" "CAmount c = Some a" "0 < a"
  shows "Receives c = Inr (\<lfloor>of_int a * r * rat_power 10 (shift_of (CFrom c) (CTo c))\<rfloor>,
                           of_int a * r * rat_power 10 (shift_of (CFrom c) (CTo c)) \<in> \<int>)"
proof -
  let ?v = "of_int a * r * rat_power 10 (shift_of (CFrom c) (CTo c))"
  have pos: "?v > 0" using parseRate_pos [OF assms(1)] assms(5) by (simp add: rat_power_pos)
  obtain f where f: "Asset_Scale (CFrom c) = (f, True)" using Asset_Scale_ok [of "CFrom c"] assms(2) by (cases "Asset_Scale (CFrom c)") auto
  obtain g where g: "Asset_Scale (CTo c) = (g, True)" using Asset_Scale_ok [of "CTo c"] assms(3) by (cases "Asset_Scale (CTo c)") auto
  have "scale_loop (nat \<bar>g - f\<bar>) (g - f) (of_int a * r) = ?v"
    by (simp add: scale_loop_power shift_of_def f g)
  then show ?thesis using assms(1,4,5) f g quo_floor [OF pos] quotient_of_int_iff [of ?v]
    by (simp add: Receives_def Let_def)
qed

lemma Receives_Inr:
  assumes "Receives c = Inr x"
  obtains r a where "parseRate (Rate c) = Inr r" "Asset_Valid (CFrom c)" "Asset_Valid (CTo c)" "CAmount c = Some a" "0 < a"
proof -
  obtain r where r: "parseRate (Rate c) = Inr r" using assms by (auto simp: Receives_def bindE_Inr_iff)
  have f: "Asset_Valid (CFrom c)" and g: "Asset_Valid (CTo c)"
    using assms Asset_Scale_ok [of "CFrom c"] Asset_Scale_ok [of "CTo c"]
    by (auto simp: Receives_def r split: prod.splits if_splits)
  obtain a where "CAmount c = Some a" "0 < a"
    using assms by (auto simp: Receives_def r split: prod.splits if_splits option.splits)
  with r f g that show ?thesis by blast
qed

lemma Receives_errors:
  "parseRate (Rate c) = Inl e \<Longrightarrow> Receives c = Inl e"
  "parseRate (Rate c) = Inr r \<Longrightarrow> \<not> (Asset_Valid (CFrom c) \<and> Asset_Valid (CTo c)) \<Longrightarrow> Receives c = Inl ErrInvalidAsset"
  "parseRate (Rate c) = Inr r \<Longrightarrow> Asset_Valid (CFrom c) \<Longrightarrow> Asset_Valid (CTo c) \<Longrightarrow>
     (\<forall>a. CAmount c = Some a \<longrightarrow> a \<le> 0) \<Longrightarrow> Receives c = Inl ErrInvalidAmount"
  using Asset_Scale_ok [of "CFrom c"] Asset_Scale_ok [of "CTo c"]
  by (auto simp: Receives_def split: prod.splits option.splits)

lemma parseRate_decimal:
  assumes "s = a @ CHR ''.'' # b" "list_all is_digit a" "list_all is_digit b" "a \<noteq> [] \<or> b \<noteq> []" "length b \<le> 1000000"
    and "0 < digits_value (a @ b)"
  shows "parseRate s = Inr (of_nat (digits_value (a @ b)) / 10 ^ length b)"
proof -
  have d: "\<not> is_digit c" if "c \<in> set ''eE/ ''" for c using that by (auto simp: is_digit_def less_eq_char_def)
  have "\<not> list_ex (\<lambda>c. c \<in> set ''eE/ '') s"
  proof
    assume "list_ex (\<lambda>c. c \<in> set ''eE/ '') s"
    then obtain c where "c \<in> set s" "c \<in> set ''eE/ ''" by (auto simp: list_ex_iff)
    with d [OF this(2)] assms(1-3) show False by (auto simp: list_all_iff)
  qed
  moreover have "s \<noteq> []" using assms(1) by simp
  moreover have "\<not> of_nat (digits_value (a @ b)) / 10 ^ length b \<le> (0 :: rat)" using assms(6)
    by (simp add: not_le)
  ultimately show ?thesis
    using SetString_decimal [OF assms(2-5)] unfolding parseRate_def assms(1) [symmetric] by simp
qed

lemma Asset_Scale_facts: "Asset_Scale a = (n, True) \<Longrightarrow> Asset_Valid a \<and> 0 \<le> n"
  by (auto simp: Asset_Scale_def split: if_splits prod.splits)

lemma rat_power_diff: "0 \<le> m \<Longrightarrow> 0 \<le> n \<Longrightarrow> q \<noteq> 0 \<Longrightarrow> rat_power q (n - m) = q ^ nat n / q ^ nat m"
  by (cases "n < m") (auto simp: rat_power_def nat_diff_distrib power_diff)

lemma of_int_div_Ints:
  assumes "M \<noteq> 0"
  shows "(of_int N / of_int M \<in> (\<int> :: rat set)) = (M dvd N)"
proof
  assume "of_int N / of_int M \<in> (\<int> :: rat set)"
  then obtain k where "of_int N / of_int M = (of_int k :: rat)" by (auto elim: Ints_cases)
  then have "(of_int N :: rat) = of_int (k * M)" using assms by (simp add: field_simps)
  then have "N = k * M" by (simp only: of_int_eq_iff)
  then show "M dvd N" by simp
qed (use assms in \<open>auto elim!: dvdE\<close>)

subsection \<open>A conversion agrees with itself\<close>

lemma Receives_bare: "CAmount c = Some a \<Longrightarrow> Receives (bare_conversion (CFrom c) (CTo c) a (Rate c)) = Receives c"
  by (cases "parseRate (Rate c)") (auto simp: Receives_def bare_conversion_def split: prod.splits)

lemma Conversion_Postings_Inr:
  assumes "Conversion_Postings c = Inr ps"
  obtains a received ex where "CFrom c \<noteq> CTo c" "CAmount c = Some a" "0 < a" "Receives c = Inr (received, ex)" "0 < received"
    and "ps = [\<lparr>Source = Seller c, Destination = SoldTo c, PAsset = CFrom c, Amount = Some a, UpTo = False\<rparr>,
               \<lparr>Source = BoughtFrom c, Destination = Buyer c, PAsset = CTo c, Amount = Some received, UpTo = False\<rparr>]"
proof -
  obtain received ex where rc: "Receives c = Inr (received, ex)" and ne: "CFrom c \<noteq> CTo c" and "\<not> received \<le> 0"
    using assms by (auto simp: Conversion_Postings_def bindE_Inr_iff split: if_splits)
  moreover obtain a where "CAmount c = Some a" "0 < a" using rc by (rule Receives_Inr)
  ultimately show ?thesis using assms that [of a received ex] by (simp add: Conversion_Postings_def)
qed

lemma Asset_Valid_nonempty: "Asset_Valid a \<Longrightarrow> a \<noteq> []"
  by (auto simp: Asset_Valid_def asset_code_def)

lemma Conversion_Metadata_lookup:
  "map_of (Conversion_Metadata c into) ConversionRateKey = Some (Rate c)"
  "map_of (Conversion_Metadata c into) ConversionFromKey = Some (CFrom c)"
  "map_of (Conversion_Metadata c into) ConversionToKey = Some (CTo c)"
  "k \<notin> {ConversionRateKey, ConversionFromKey, ConversionToKey} \<Longrightarrow>
     map_of (Conversion_Metadata c into) k = map_of (orEmpty into) k"
  by (simp_all add: Conversion_Metadata_def)

lemma Fx_Check_own:
  assumes "Conversion_Postings c = Inr ps" "TPostings t = ps" "orEmpty (TMetadata t) = Conversion_Metadata c into"
  shows "Fx_Check t tolerance = Inr ()"
proof -
  obtain a received ex where c: "CFrom c \<noteq> CTo c" "CAmount c = Some a" "0 < a" "Receives c = Inr (received, ex)" "0 < received"
    and ps: "ps = [\<lparr>Source = Seller c, Destination = SoldTo c, PAsset = CFrom c, Amount = Some a, UpTo = False\<rparr>,
               \<lparr>Source = BoughtFrom c, Destination = Buyer c, PAsset = CTo c, Amount = Some received, UpTo = False\<rparr>]"
    using assms(1) by (rule Conversion_Postings_Inr)
  have "Asset_Valid (CFrom c)" "Asset_Valid (CTo c)" using Receives_Inr [OF c(4)] by metis+
  then have "CFrom c \<noteq> []" "CTo c \<noteq> []" by (auto dest: Asset_Valid_nonempty)
  moreover have "conversion_sums (CFrom c) (CTo c) ps 0 0 = Inr (a, received)" using c(1) by (simp add: ps)
  ultimately show ?thesis using assms(2,3) c(3-5) Receives_bare [OF c(2)]
    by (simp add: Fx_Check_def Let_def metadata_at_def Conversion_Metadata_lookup)
qed

subsection \<open>The verifier over the book\<close>

definition agrees :: "int \<Rightarrow> int \<times> tx_row \<Rightarrow> bool" where
  "agrees tolerance x \<longleftrightarrow> Fx_Check (conversion_of x) tolerance = Inr ()"

lemma verify_rows_found:
  "verify_rows xs tol n found = Inr (m, errs) \<Longrightarrow> length found \<le> length errs \<and> m = n + length xs"
proof (induction xs arbitrary: n found)
  case (Cons x xs)
  then show ?case by (fastforce split: sum.splits if_splits)
qed simp

lemma verify_rows_clean:
  "verify_rows xs tol n found = Inr (m, found) \<longleftrightarrow> list_all (agrees tol) xs \<and> m = n + length xs"
proof (induction xs arbitrary: n)
  case (Cons x xs)
  show ?case
  proof (cases "Fx_Check (conversion_of x) tol")
    case (Inl e)
    have "verify_rows xs tol (Suc n) (found @ [e]) \<noteq> Inr (m, found)"
      using verify_rows_found [of xs tol "Suc n" "found @ [e]" m found] by auto
    with Inl show ?thesis by (simp add: agrees_def)
  next
    case (Inr u)
    then show ?thesis using Cons.IH by (auto simp: agrees_def)
  qed
qed auto

lemma Fx_Verify_clean:
  "Fx_Verify d l tol = Inr (n, []) \<longleftrightarrow> list_all (agrees tol) (conversion_rows d l) \<and> n = length (conversion_rows d l)"
  by (simp add: Fx_Verify_def verify_rows_clean)

text \<open>The query's rows as a multiset, which is all the verdict depends on.\<close>

definition states_rate :: "string \<Rightarrow> (string \<times> int) \<times> tx_row \<Rightarrow> bool" where
  "states_rate l x \<longleftrightarrow> fst (fst x) = l \<and> map_of (tx_metadata (snd x)) ConversionRateKey \<noteq> None"

lemma conversion_rows_mset:
  "mset (conversion_rows d l) =
     mset (map (\<lambda>x. (snd (fst x), snd x)) (filter (states_rate l) (transactions d)))"
  by (simp add: conversion_rows_def states_rate_def [abs_def] case_prod_unfold)

lemma list_all_mset: "mset xs = mset ys \<Longrightarrow> list_all P xs = list_all P ys"
  by (metis list_all_iff set_mset_mset)

lemma Fx_Verify_append:
  assumes "transactions d' = transactions d @ [((l, i), r)]"
  shows "Fx_Verify d' l tol = Inr (n, []) \<longleftrightarrow>
     (if states_rate l ((l, i), r)
      then agrees tol (i, r) \<and> (\<exists>m. n = Suc m \<and> Fx_Verify d l tol = Inr (m, []))
      else Fx_Verify d l tol = Inr (n, []))"
proof -
  have m: "mset (conversion_rows d' l) = mset (conversion_rows d l @ (if states_rate l ((l, i), r) then [(i, r)] else []))"
    by (simp add: conversion_rows_mset assms)
  show ?thesis unfolding Fx_Verify_clean list_all_mset [OF m] mset_eq_length [OF m] by auto
qed

lemma conversion_of_fields:
  "TPostings (conversion_of (i, r)) = tx_postings r" "orEmpty (TMetadata (conversion_of (i, r))) = tx_metadata r"
  by (simp_all add: conversion_of_def orEmpty_def)

text \<open>The row a fresh commit adds.\<close>

lemma CommitTransaction_adds_row:
  assumes ct: "CommitTransaction envs s d p opts = (s', Inr (d', t))"
    and inv: "book_ok d" and fresh: "fresh_key d (ledger s) (OIdempotencyKey opts)" and dry: "\<not> ODryRun opts"
  obtains e where "transactions d' = transactions d @ [((ledger s, TxID t), row_of_transaction e t)]"
    and "TMetadata t = OMetadata opts" "list_all2 resolved_as p (TPostings t)"
proof -
  obtain s1 h n where ca: "checkAssets s d p = (s1, None)" and once: "commitOnce s1 (envs n) d d p opts h n = Inr (d', t)"
    using CommitTransaction_Inr [OF ct] by metis
  have s1: "ledger s1 = ledger s" using checkAssets_ledger [of s d p] ca by simp
  from once show ?thesis
  proof (cases rule: commitOnce_cases)
    case replay
    then show ?thesis using fresh_key_lookup [OF fresh, of h] by (auto simp: s1)
  next
    case (commit d1 a d2)
    have "well_keyed d" using inv by (simp add: book_ok_def)
    note ae = applyTransaction_effect [OF commit(3) this]
    from ae obtain r where "map_of (ledgers d1) (ledger s1) = Some r" by (auto simp: apply_effect_def ledger_effect_def)
    from appendLogEntry_Inr(1) [OF commit(4) [unfolded appendLog_def] this]
    have "transactions d' = transactions d1" using commit(2) by (simp add: db_commit_Inr)
    with ae show ?thesis by (intro that [of "envs n"]) (simp_all add: apply_effect_def apply_opts_def s1)
  qed (use dry in simp)
qed

text \<open>Committing a conversion built by this package adds one conversion, and it agrees.\<close>

lemma commit_conversion:
  assumes ct: "CommitTransaction envs s d ps opts = (s', Inr (d', t))"
    and inv: "book_ok d" and fresh: "fresh_key d (ledger s) (OIdempotencyKey opts)" and "\<not> ODryRun opts"
    and c: "Conversion_Postings c = Inr ps" and md: "OMetadata opts = Some (Conversion_Metadata c into)"
  shows "Fx_Verify d' (ledger s) tol = Inr (n, []) \<longleftrightarrow> (\<exists>m. n = Suc m \<and> Fx_Verify d (ledger s) tol = Inr (m, []))"
proof -
  obtain e where tx: "transactions d' = transactions d @ [((ledger s, TxID t), row_of_transaction e t)]"
    and md': "TMetadata t = OMetadata opts" and res: "list_all2 resolved_as ps (TPostings t)"
    using ct inv fresh \<open>\<not> ODryRun opts\<close> by (rule CommitTransaction_adds_row)
  have "\<not> HasUpTo ps" using c by (rule Conversion_Postings_Inr) simp
  then have "TPostings t = ps" using resolved_no_ceiling [OF res] by simp
  then have "tx_postings (row_of_transaction e t) = ps" "tx_metadata (row_of_transaction e t) = Conversion_Metadata c into"
    by (simp_all add: row_of_transaction_def md' md orEmpty_def)
  then have "agrees tol (TxID t, row_of_transaction e t)" "states_rate (ledger s) ((ledger s, TxID t), row_of_transaction e t)"
    using Fx_Check_own [OF c, of "conversion_of (TxID t, row_of_transaction e t)"]
    by (simp_all add: agrees_def conversion_of_fields states_rate_def Conversion_Metadata_lookup)
  then show ?thesis using Fx_Verify_append [OF tx] by simp
qed

lemma commit_conversion_check:
  assumes ct: "CommitTransaction envs s d ps opts = (s', Inr (d', t))"
    and inv: "book_ok d" and fresh: "fresh_key d (ledger s) (OIdempotencyKey opts)" and "\<not> ODryRun opts"
    and c: "Conversion_Postings c = Inr ps" and md: "OMetadata opts = Some (Conversion_Metadata c into)"
  shows "Fx_Check t tol = Inr ()"
proof -
  obtain e where md': "TMetadata t = OMetadata opts" and res: "list_all2 resolved_as ps (TPostings t)"
    using ct inv fresh \<open>\<not> ODryRun opts\<close> by (rule CommitTransaction_adds_row)
  have "\<not> HasUpTo ps" using c by (rule Conversion_Postings_Inr) simp
  then have "TPostings t = ps" using resolved_no_ceiling [OF res] by simp
  then show ?thesis using Fx_Check_own [OF c] by (simp add: md' md orEmpty_def)
qed

subsection \<open>What the check verifies\<close>

definition asset_total :: "Asset \<Rightarrow> Postings \<Rightarrow> int" where
  "asset_total x ps = (\<Sum>p\<leftarrow>ps. if PAsset p = x then amt p else 0)"

lemma conversion_sums_total:
  assumes "all_amounts ps"
  shows "conversion_sums src to ps s b =
    Inr (s + asset_total src ps, b + (if src = to then 0 else asset_total to ps))"
  using assms
proof (induction ps arbitrary: s b)
  case (Cons p ps)
  then obtain a where "Amount p = Some a" "all_amounts ps" by (auto simp: all_amounts_def)
  with Cons.IH show ?case by (simp add: asset_total_def amt_def orZero_def)
qed (simp add: asset_total_def)

text \<open>A row keeps its stated rate when it names both assets, moves both, and what arrived is within the
  tolerance of the truncated product.\<close>

definition keeps_rate :: "int \<Rightarrow> Metadata \<Rightarrow> Postings \<Rightarrow> bool" where
  "keeps_rate tol m ps \<longleftrightarrow>
     (\<exists>rate src to q. map_of m ConversionRateKey = Some rate \<and> map_of m ConversionFromKey = Some src \<and>
        map_of m ConversionToKey = Some to \<and> src \<noteq> to \<and> Asset_Valid src \<and> Asset_Valid to \<and>
        parseRate rate = Inr q \<and> 0 < asset_total src ps \<and> asset_total to ps \<noteq> 0 \<and>
        \<bar>asset_total to ps - \<lfloor>of_int (asset_total src ps) * q * rat_power 10 (shift_of src to)\<rfloor>\<bar> \<le> \<bar>tol\<bar>)"

lemma Receives_bare_ok:
  "Receives (bare_conversion src to s rate) = Inr x \<longleftrightarrow>
     (\<exists>q. parseRate rate = Inr q \<and> Asset_Valid src \<and> Asset_Valid to \<and> 0 < s \<and>
          x = (\<lfloor>of_int s * q * rat_power 10 (shift_of src to)\<rfloor>, of_int s * q * rat_power 10 (shift_of src to) \<in> \<int>))"
    (is "?L \<longleftrightarrow> ?R")
proof
  assume ?L
  then obtain q a where "parseRate rate = Inr q" "Asset_Valid src" "Asset_Valid to" "Some s = Some a" "0 < a"
    using Receives_Inr [of "bare_conversion src to s rate" x] by (auto simp: bare_conversion_def)
  with \<open>?L\<close> show ?R using Receives_value [of "bare_conversion src to s rate" q s] by (simp add: bare_conversion_def)
next
  assume ?R
  then show ?L using Receives_value [of "bare_conversion src to s rate"] by (auto simp: bare_conversion_def)
qed

lemma metadata_at_Some: "x \<noteq> [] \<Longrightarrow> metadata_at (Some m) k = x \<longleftrightarrow> map_of m k = Some x"
  by (auto simp: metadata_at_def orEmpty_def split: option.splits)

lemma agrees_iff:
  assumes "all_amounts (tx_postings r)" and rate: "map_of (tx_metadata r) ConversionRateKey = Some rate"
  shows "agrees tol (i, r) \<longleftrightarrow> keeps_rate tol (tx_metadata r) (tx_postings r)" (is "?L \<longleftrightarrow> ?R")
proof -
  let ?m = "tx_metadata r" and ?ps = "tx_postings r"
  define src to where "src = metadata_at (Some ?m) ConversionFromKey" and "to = metadata_at (Some ?m) ConversionToKey"
  let ?want = "\<lambda>q. \<lfloor>of_int (asset_total src ?ps) * q * rat_power 10 (shift_of src to)\<rfloor>"
  have "?L \<longleftrightarrow> src \<noteq> [] \<and> to \<noteq> [] \<and> asset_total src ?ps \<noteq> 0 \<and> src \<noteq> to \<and> asset_total to ?ps \<noteq> 0 \<and>
      (\<exists>w. Receives (bare_conversion src to (asset_total src ?ps) rate) = Inr w \<and> \<bar>asset_total to ?ps - fst w\<bar> \<le> \<bar>tol\<bar>)"
    using rate conversion_sums_total [OF assms(1)]
    by (auto simp: agrees_def Fx_Check_def conversion_of_def orEmpty_def Let_def src_def to_def bindE_Inr_iff
        not_less split: prod.splits)
  also have "\<dots> \<longleftrightarrow> src \<noteq> [] \<and> to \<noteq> [] \<and> src \<noteq> to \<and> asset_total to ?ps \<noteq> 0 \<and>
      (\<exists>q. parseRate rate = Inr q \<and> Asset_Valid src \<and> Asset_Valid to \<and> 0 < asset_total src ?ps \<and>
        \<bar>asset_total to ?ps - ?want q\<bar> \<le> \<bar>tol\<bar>)"
    unfolding Receives_bare_ok by auto
  also have "\<dots> \<longleftrightarrow> ?R"
  proof
    assume h: "src \<noteq> [] \<and> to \<noteq> [] \<and> src \<noteq> to \<and> asset_total to ?ps \<noteq> 0 \<and>
      (\<exists>q. parseRate rate = Inr q \<and> Asset_Valid src \<and> Asset_Valid to \<and> 0 < asset_total src ?ps \<and>
        \<bar>asset_total to ?ps - ?want q\<bar> \<le> \<bar>tol\<bar>)"
    then have "map_of ?m ConversionFromKey = Some src" "map_of ?m ConversionToKey = Some to"
      using metadata_at_Some src_def to_def by metis+
    with h rate show ?R unfolding keeps_rate_def by blast
  next
    assume ?R
    then obtain src' to' q where k: "map_of ?m ConversionFromKey = Some src'" "map_of ?m ConversionToKey = Some to'"
      and r: "src' \<noteq> to'" "Asset_Valid src'" "Asset_Valid to'" "parseRate rate = Inr q" "0 < asset_total src' ?ps"
        "asset_total to' ?ps \<noteq> 0"
        "\<bar>asset_total to' ?ps - \<lfloor>of_int (asset_total src' ?ps) * q * rat_power 10 (shift_of src' to')\<rfloor>\<bar> \<le> \<bar>tol\<bar>"
      unfolding keeps_rate_def using rate by auto
    then have "src' = src" "to' = to" "src' \<noteq> []" "to' \<noteq> []"
      using Asset_Valid_nonempty by (auto simp: src_def to_def metadata_at_def orEmpty_def)
    with r show "src \<noteq> [] \<and> to \<noteq> [] \<and> src \<noteq> to \<and> asset_total to ?ps \<noteq> 0 \<and>
      (\<exists>q. parseRate rate = Inr q \<and> Asset_Valid src \<and> Asset_Valid to \<and> 0 < asset_total src ?ps \<and>
        \<bar>asset_total to ?ps - ?want q\<bar> \<le> \<bar>tol\<bar>)" by blast
  qed
  finally show ?thesis .
qed

lemma conversion_rows_set:
  "set (conversion_rows d l) = {(i, r). ((l, i), r) \<in> set (transactions d) \<and> map_of (tx_metadata r) ConversionRateKey \<noteq> None}"
  by (force simp: conversion_rows_def image_iff)

lemma Fx_Verify_iff:
  assumes "\<forall>((l', i), r)\<in>set (transactions d). l' = l \<longrightarrow> all_amounts (tx_postings r)"
  shows "Fx_Verify d l tol = Inr (n, []) \<longleftrightarrow> n = length (conversion_rows d l) \<and>
    (\<forall>((l', i), r)\<in>set (transactions d). l' = l \<and> map_of (tx_metadata r) ConversionRateKey \<noteq> None \<longrightarrow>
       keeps_rate tol (tx_metadata r) (tx_postings r))"
proof -
  have "agrees tol (i, r) \<longleftrightarrow> keeps_rate tol (tx_metadata r) (tx_postings r)" if "(i, r) \<in> set (conversion_rows d l)" for i r
    using agrees_iff that assms by (fastforce simp: conversion_rows_set)
  then have "list_all (agrees tol) (conversion_rows d l) \<longleftrightarrow>
    (\<forall>(i, r)\<in>set (conversion_rows d l). keeps_rate tol (tx_metadata r) (tx_postings r))"
    unfolding list_all_iff by auto
  then show ?thesis unfolding Fx_Verify_clean by (auto simp: conversion_rows_set)
qed

end
