(* ===== verification/Fx_Demo.thy ===== *)
theory Fx_Demo
  imports Giro_Demo Fx
begin

text \<open>A second asset on the ledger of \<open>Giro_Demo\<close>, a conversion that commits on it, and a recorded conversion that
  came up short, for the worked instances of the properties of \<open>src/fx\<close>.\<close>

subsection \<open>A second asset and a trade\<close>

definition demo_eur :: db where
  "demo_eur = (case RegisterAsset demo_env demo_store demo_open ''EUR/2'' of Inr d \<Rightarrow> d | Inl _ \<Rightarrow> demo_open)"

lemma demo_eur_reachable: "reachable demo_eur"
proof -
  have "is_ok (RegisterAsset demo_env demo_store demo_open ''EUR/2'')" by code_simp
  then have "RegisterAsset demo_env demo_store demo_open ''EUR/2'' = Inr demo_eur"
    by (auto simp: demo_eur_def is_ok_iff)
  then show ?thesis by (intro reachable_step [OF demo_open_reachable] giro_step.register)
qed

definition demo_conversion :: Conversion where
  "demo_conversion = \<lparr>CFrom = ''USD/2'', Seller = ''world'', SoldTo = ''desk'', CTo = ''EUR/2'', BoughtFrom = ''world'',
     Buyer = ''alice'', CAmount = Some 7, Rate = ''.5''\<rparr>"

definition demo_trade :: Postings where
  "demo_trade =
    [\<lparr>Source = ''world'', Destination = ''desk'', PAsset = ''USD/2'', Amount = Some 7, UpTo = False\<rparr>,
      \<lparr>Source = ''world'', Destination = ''alice'', PAsset = ''EUR/2'', Amount = Some 3, UpTo = False\<rparr>]"

definition demo_conversion_opts :: CommitOptions where
  "demo_conversion_opts = demo_opts\<lparr>OMetadata := Some (Conversion_Metadata demo_conversion None)\<rparr>"

lemma demo_conversion_postings:
  "Conversion_Postings demo_conversion =
    Inr demo_trade"
  by code_simp

lemma demo_conversion_commits:
  "is_ok (snd (CommitTransaction (\<lambda>_. demo_env) demo_store demo_eur
     demo_trade demo_conversion_opts))"
  by code_simp

definition demo_short_row :: tx_row where
  "demo_short_row = (row_of_transaction demo_env zero_transaction)\<lparr>
     tx_postings := [\<lparr>Source = ''world'', Destination = ''desk'', PAsset = ''USD/2'', Amount = Some 100, UpTo = False\<rparr>,
                     \<lparr>Source = ''world'', Destination = ''alice'', PAsset = ''EUR/2'', Amount = Some 48, UpTo = False\<rparr>],
     tx_metadata := [(ConversionRateKey, ''.5''), (ConversionFromKey, ''USD/2''), (ConversionToKey, ''EUR/2'')]\<rparr>"

end
