(* ===== verification/Recon.thy ===== *)
theory Recon
  imports Storage_Outcomes
begin

text \<open>
  Package \<open>src/recon\<close> as it is written: statement lines and their validation (\<open>recon.go\<close>), staging (\<open>ingest.go\<close>), the
  two matching rules and the classification of what is left (\<open>match.go\<close>), the comparison of positions (\<open>balance.go\<close>)
  and the report of stale lines (\<open>verify.go\<close>), over the three tables of the reconciliation schema. What a source reports
  and the database's reading of JSON are parameters.
\<close>

subsection \<open>Statement lines, sources and what was staged\<close>

type_synonym Direction = string

definition Unknown :: Direction where "Unknown = ''''"
definition In :: Direction where "In = ''in''"
definition Out :: Direction where "Out = ''out''"

record Record =
  RecID :: string
  RecReference :: string
  RecAsset :: Asset
  RecAmount :: "int option"
  RecDirection :: Direction
  OccurredAt :: time
  Raw :: string

definition Record_validate :: "Record \<Rightarrow> error option" where
  "Record_validate r =
     (if RecID r = [] then Some (ErrText ''record has no id, so it cannot be staged idempotently'')
      else if \<not> Asset_Valid (RecAsset r) then Some (ErrText ''invalid asset'')
      else if (case RecAmount r of None \<Rightarrow> True | Some a \<Rightarrow> a \<le> 0)
        then Some (ErrText ''amount must be a positive magnitude'')
      else if RecDirection r \<noteq> Unknown \<and> RecDirection r \<noteq> In \<and> RecDirection r \<noteq> Out
        then Some (ErrText ''direction must be in, out, or empty'')
      else None)"

text \<open>A source is whatever the caller implements the interface with.\<close>

record line_source =
  SourceID :: string
  SourceName :: string
  Fetch :: "time \<Rightarrow> Record list res"
  SourceBalance :: "Asset \<Rightarrow> int option res"

definition DefaultBoundaryPrefix :: string where "DefaultBoundaryPrefix = ''external:''"
definition ExternalRefKey :: string where "ExternalRefKey = ''giro/external.ref''"

record Config =
  BoundaryPrefix :: string
  Tolerance :: "int option"

definition boundaryPrefix :: "Config \<Rightarrow> string" where
  "boundaryPrefix c = (if BoundaryPrefix c = [] then DefaultBoundaryPrefix else BoundaryPrefix c)"

definition tolerance :: "Config \<Rightarrow> int" where
  "tolerance c = orZero (Tolerance c)"

text \<open>The three tables of the reconciliation schema. They are separate from the ledger's: no operation
  of the package writes the other tables.\<close>

record rec_row =
  rr_reference :: "string option"
  rr_asset :: Asset
  rr_amount :: int
  rr_direction :: "string option"
  rr_occurred :: "time option"
  rr_raw :: "string option"
  rr_ingested :: time
  rr_count :: int
  rr_matched_at :: "time option"

record match_row =
  mt_ledger :: string
  mt_source :: string
  mt_record :: string
  mt_seq :: int
  mt_variance :: int
  mt_size :: int
  mt_rule :: string
  mt_at :: time

type_synonym line_key = "string \<times> string \<times> string"

record recon =
  recon_sources :: "(string \<times> string, string) table"
  recon_records :: "(line_key, rec_row) table"
  recon_matches :: "match_row list"

definition empty_recon :: recon where
  "empty_recon = \<lparr>recon_sources = [], recon_records = [], recon_matches = []\<rparr>"

subsection \<open>Staging\<close>

definition Register :: "string \<Rightarrow> line_source \<Rightarrow> recon \<Rightarrow> recon res" where
  "Register l s rc =
     (if SourceID s = [] then Inl (ErrText ''source has no id, and staged lines are keyed by it'')
      else if map_of (recon_sources rc) (l, SourceID s) \<noteq> None then Inr rc
      else Inr (rc\<lparr>recon_sources := recon_sources rc @ [((l, SourceID s), SourceName s)]\<rparr>))"

definition record_row :: "env \<Rightarrow> Record \<Rightarrow> rec_row" where
  "record_row e r =
     \<lparr>rr_reference = (if RecReference r = [] then None else Some (RecReference r)),
      rr_asset = RecAsset r, rr_amount = orZero (RecAmount r),
      rr_direction = (if RecDirection r = [] then None else Some (RecDirection r)),
      rr_occurred = (if OccurredAt r = 0 then None else Some (truncate_us (OccurredAt r))),
      rr_raw = (if Raw r = [] then None else Some (Raw r)),
      rr_ingested = db_now e, rr_count = 0, rr_matched_at = None\<rparr>"

definition invalidTextRepresentation :: string where "invalidTextRepresentation = ''22P02''"

text \<open>One \<open>insert \<dots> on conflict do nothing\<close>: the raw text must read as JSON (\<open>json_ok\<close> is the database's
  reader), a line already staged is left alone, a new one needs its source and its asset.\<close>

definition insert_record ::
  "(string \<Rightarrow> bool) \<Rightarrow> env \<Rightarrow> db \<Rightarrow> string \<Rightarrow> string \<Rightarrow> Record \<Rightarrow> recon \<Rightarrow> (recon \<times> nat) res" where
  "insert_record json_ok e d l src r rc =
     (if Raw r \<noteq> [] \<and> \<not> json_ok (Raw r) then Inl (PgError invalidTextRepresentation)
      else if map_of (recon_records rc) (l, src, RecID r) \<noteq> None then Inr (rc, 0)
      else if map_of (recon_sources rc) (l, src) = None \<or> map_of (assets d) (l, RecAsset r) = None
      then Inl (PgError foreignKeyViolation)
      else Inr (rc\<lparr>recon_records := recon_records rc @ [((l, src, RecID r), record_row e r)]\<rparr>, 1))"

fun validate_records :: "Record list \<Rightarrow> error option" where
  "validate_records [] = None"
| "validate_records (r # rs) =
     (case Record_validate r of Some e \<Rightarrow> Some e | None \<Rightarrow> validate_records rs)"

text \<open>Every statement commits on its own: what was staged before a failing line stays staged.\<close>

fun stage_records ::
  "(string \<Rightarrow> bool) \<Rightarrow> env \<Rightarrow> db \<Rightarrow> string \<Rightarrow> string \<Rightarrow> Record list \<Rightarrow> recon \<Rightarrow> nat \<Rightarrow> recon \<times> nat \<times> error option" where
  "stage_records json_ok e d l src [] rc staged = (rc, staged, None)"
| "stage_records json_ok e d l src (r # rs) rc staged =
     (case insert_record json_ok e d l src r rc of
        Inl err \<Rightarrow> (rc, staged, Some err)
      | Inr (rc', n) \<Rightarrow> stage_records json_ok e d l src rs rc' (staged + n))"

definition Ingest ::
  "(string \<Rightarrow> bool) \<Rightarrow> env \<Rightarrow> db \<Rightarrow> string \<Rightarrow> string \<Rightarrow> Record list \<Rightarrow> recon \<Rightarrow> recon \<times> nat \<times> error option" where
  "Ingest json_ok e d l src records rc =
     (case validate_records records of
        Some err \<Rightarrow> (rc, 0, Some err)
      | None \<Rightarrow> stage_records json_ok e d l src records rc 0)"

definition Pull ::
  "(string \<Rightarrow> bool) \<Rightarrow> env \<Rightarrow> db \<Rightarrow> string \<Rightarrow> line_source \<Rightarrow> time \<Rightarrow> recon \<Rightarrow> recon \<times> nat \<times> error option" where
  "Pull json_ok e d l s since rc =
     (case Fetch s since of
        Inl err \<Rightarrow> (rc, 0, Some err)
      | Inr records \<Rightarrow> Ingest json_ok e d l (SourceID s) records rc)"

subsection \<open>Matching\<close>

definition RuleExact :: string where "RuleExact = ''exact_ref''"
definition RuleConsolidated :: string where "RuleConsolidated = ''consolidated_ref''"

datatype Break = NoReference | NotFound | Ambiguous | Contested

record Summary =
  Matched :: nat
  Variance :: nat
  Unmatched_by :: "Break \<Rightarrow> nat"

text \<open>One row of the join every rule starts from.\<close>

record cand =
  cd_line :: line_key
  cd_line_amount :: int
  cd_seq :: int
  cd_move_amount :: int

text \<open>A transaction answers to its own reference and to the one recorded for its counterparty.\<close>

definition answers_to :: "tx_row \<Rightarrow> string \<Rightarrow> bool" where
  "answers_to t ref \<longleftrightarrow> tx_reference t = Some ref \<or> map_of (tx_metadata t) ExternalRefKey = Some ref"

definition direction_fits :: "string option \<Rightarrow> move_row \<Rightarrow> bool" where
  "direction_fits dir m \<longleftrightarrow>
     dir = None \<or> (dir = Some In \<and> mv_is_source m) \<or> (dir = Some Out \<and> \<not> mv_is_source m)"

definition already_matched :: "recon \<Rightarrow> string \<Rightarrow> string \<Rightarrow> int \<Rightarrow> bool" where
  "already_matched rc l src q \<longleftrightarrow>
     list_ex (\<lambda>x. mt_ledger x = l \<and> mt_source x = src \<and> mt_seq x = q) (recon_matches rc)"

definition is_candidate :: "Config \<Rightarrow> db \<Rightarrow> string \<Rightarrow> recon \<Rightarrow> line_key \<times> rec_row \<Rightarrow> move_row \<Rightarrow> bool" where
  "is_candidate cfg d l rc x m \<longleftrightarrow>
     fst (fst x) = l \<and> rr_count (snd x) = 0 \<and>
     (case rr_reference (snd x) of
        None \<Rightarrow> False
      | Some ref \<Rightarrow>
          (case map_of (transactions d) (l, mv_tx_id m) of None \<Rightarrow> False | Some t \<Rightarrow> answers_to t ref)) \<and>
     mv_ledger m = l \<and> snd (mv_key m) = rr_asset (snd x) \<and>
     like (boundaryPrefix cfg @ ''%'') (fst (mv_key m)) \<and>
     direction_fits (rr_direction (snd x)) m \<and>
     \<not> already_matched rc l (fst (snd (fst x))) (mv_seq m)"

definition make_cand :: "line_key \<times> rec_row \<Rightarrow> move_row \<Rightarrow> cand" where
  "make_cand x m =
     \<lparr>cd_line = fst x, cd_line_amount = rr_amount (snd x), cd_seq = mv_seq m, cd_move_amount = mv_amount m\<rparr>"

definition candidates :: "Config \<Rightarrow> db \<Rightarrow> string \<Rightarrow> recon \<Rightarrow> cand list" where
  "candidates cfg d l rc =
     concat (map (\<lambda>x. map (make_cand x) (filter (is_candidate cfg d l rc x) (moves d))) (recon_records rc))"

text \<open>The \<open>sized\<close> subquery: how many movements a line could name, and what they sum to.\<close>

definition group_of :: "cand list \<Rightarrow> cand \<Rightarrow> cand list" where
  "group_of cs c = filter (\<lambda>x. cd_line x = cd_line c) cs"

definition group_total :: "cand list \<Rightarrow> cand \<Rightarrow> int" where
  "group_total cs c = (\<Sum>x\<leftarrow>group_of cs c. cd_move_amount x)"

text \<open>\<open>select distinct on (move_seq)\<close> over rows already in order: the first row of each run.\<close>

function distinct_on :: "cand list \<Rightarrow> cand list" where
  "distinct_on [] = []"
| "distinct_on (c # cs) = c # distinct_on (dropWhile (\<lambda>x. cd_seq x = cd_seq c) cs)"
  by pat_completeness auto
termination
  by (relation "measure length") (simp_all add: le_imp_less_Suc length_dropWhile_le)

text \<open>The order in which the planner delivers rows is not fixed: \<open>plan\<close> is any reordering of them. Only
  two sources with the same line id for the same movement leave the order below open.\<close>

definition exact_picks :: "(cand list \<Rightarrow> cand list) \<Rightarrow> cand list \<Rightarrow> cand list" where
  "exact_picks plan cs =
     distinct_on (sort_key (\<lambda>c. (cd_seq c, snd (snd (cd_line c))))
       (plan (filter (\<lambda>c. length (group_of cs c) = 1) cs)))"

definition consolidated_sets :: "cand list \<Rightarrow> cand list" where
  "consolidated_sets cs =
     filter (\<lambda>c. length (group_of cs c) > 1 \<and> group_total cs c = cd_line_amount c) cs"

definition match_of :: "env \<Rightarrow> int \<Rightarrow> int \<Rightarrow> string \<Rightarrow> cand \<Rightarrow> match_row" where
  "match_of e variance n rule c =
     \<lparr>mt_ledger = fst (cd_line c), mt_source = fst (snd (cd_line c)), mt_record = snd (snd (cd_line c)),
      mt_seq = cd_seq c, mt_variance = variance, mt_size = n, mt_rule = rule, mt_at = db_now e\<rparr>"

text \<open>Insertion of matches: the unique index on (ledger, source, movement) and the foreign keys.\<close>

definition insert_match :: "db \<Rightarrow> match_row \<Rightarrow> recon \<Rightarrow> recon res" where
  "insert_match d x rc =
     (if already_matched rc (mt_ledger x) (mt_source x) (mt_seq x) then Inl (PgError uniqueViolation)
      else if map_of (recon_records rc) (mt_ledger x, mt_source x, mt_record x) = None \<or>
              \<not> list_ex (\<lambda>m. mv_ledger m = mt_ledger x \<and> mv_seq m = mt_seq x) (moves d)
      then Inl (PgError foreignKeyViolation)
      else Inr (rc\<lparr>recon_matches := recon_matches rc @ [x]\<rparr>))"

definition mark_lines :: "env \<Rightarrow> (line_key \<Rightarrow> int option) \<Rightarrow> recon \<Rightarrow> recon" where
  "mark_lines e n rc =
     rc\<lparr>recon_records := map (\<lambda>(k, r). (k, case n k of None \<Rightarrow> r
            | Some c \<Rightarrow> r\<lparr>rr_count := c, rr_matched_at := Some (db_now e)\<rparr>)) (recon_records rc)\<rparr>"

definition lines_of :: "cand list \<Rightarrow> (cand \<Rightarrow> int) \<Rightarrow> line_key \<Rightarrow> int option" where
  "lines_of cs f k = map_option f (find (\<lambda>c. cd_line c = k) cs)"

definition exact_row :: "env \<Rightarrow> cand \<Rightarrow> match_row" where
  "exact_row e c = match_of e (cd_line_amount c - cd_move_amount c) 1 RuleExact c"

definition within :: "Config \<Rightarrow> cand \<Rightarrow> bool" where
  "within cfg c \<longleftrightarrow> \<bar>cd_line_amount c - cd_move_amount c\<bar> \<le> \<bar>tolerance cfg\<bar>"

definition matchExact ::
  "(cand list \<Rightarrow> cand list) \<Rightarrow> env \<Rightarrow> db \<Rightarrow> string \<Rightarrow> Config \<Rightarrow> recon \<Rightarrow> (recon \<times> nat \<times> nat) res" where
  "matchExact plan e d l cfg rc =
     (let picks = exact_picks plan (candidates cfg d l rc)
      in bindE (foldE (insert_match d) (map (exact_row e) picks) rc) (\<lambda>rc1.
           Inr (mark_lines e (lines_of picks (\<lambda>_. 1)) rc1,
                length (filter (within cfg) picks), length (filter (\<lambda>c. \<not> within cfg c) picks))))"

definition consolidated_row :: "env \<Rightarrow> cand list \<Rightarrow> cand \<Rightarrow> match_row" where
  "consolidated_row e cs c = match_of e 0 (int (length (group_of cs c))) RuleConsolidated c"

definition matchConsolidated :: "env \<Rightarrow> db \<Rightarrow> string \<Rightarrow> Config \<Rightarrow> recon \<Rightarrow> (recon \<times> nat) res" where
  "matchConsolidated e d l cfg rc =
     (let cs = candidates cfg d l rc; sets = consolidated_sets cs
      in bindE (foldE (insert_match d) (map (consolidated_row e cs) sets) rc) (\<lambda>rc1.
           Inr (mark_lines e (lines_of sets (\<lambda>c. int (length (group_of cs c)))) rc1,
                length (remdups (map cd_line sets)))))"

text \<open>Why a line is left over.\<close>

definition contested :: "db \<Rightarrow> recon \<Rightarrow> line_key \<Rightarrow> rec_row \<Rightarrow> bool" where
  "contested d rc k r =
     list_ex (\<lambda>x. mt_ledger x = fst k \<and> mt_source x = fst (snd k) \<and>
       list_ex (\<lambda>m. mv_ledger m = mt_ledger x \<and> mv_seq m = mt_seq x \<and>
         (case (map_of (transactions d) (mv_ledger m, mv_tx_id m), rr_reference r) of
            (Some t, Some ref) \<Rightarrow> answers_to t ref | _ \<Rightarrow> False)) (moves d)) (recon_matches rc)"

definition reason :: "db \<Rightarrow> recon \<Rightarrow> cand list \<Rightarrow> line_key \<times> rec_row \<Rightarrow> Break" where
  "reason d rc cs x =
     (if rr_reference (snd x) = None then NoReference
      else if list_ex (\<lambda>c. cd_line c = fst x) cs then Ambiguous
      else if contested d rc (fst x) (snd x) then Contested
      else NotFound)"

definition left_over :: "string \<Rightarrow> recon \<Rightarrow> (line_key \<times> rec_row) list" where
  "left_over l rc = filter (\<lambda>x. fst (fst x) = l \<and> rr_count (snd x) = 0) (recon_records rc)"

definition classify :: "db \<Rightarrow> string \<Rightarrow> Config \<Rightarrow> recon \<Rightarrow> Break \<Rightarrow> nat" where
  "classify d l cfg rc b =
     length (filter (\<lambda>x. reason d rc (candidates cfg d l rc) x = b) (left_over l rc))"

text \<open>Each rule is its own statement: when a later one fails, what the earlier ones recorded stays.\<close>

definition no_summary :: Summary where
  "no_summary = \<lparr>Matched = 0, Variance = 0, Unmatched_by = (\<lambda>_. 0)\<rparr>"

definition Match ::
  "(cand list \<Rightarrow> cand list) \<Rightarrow> env \<Rightarrow> db \<Rightarrow> string \<Rightarrow> Config \<Rightarrow> recon \<Rightarrow> recon \<times> Summary \<times> error option" where
  "Match plan e d l cfg rc =
     (case matchExact plan e d l cfg rc of
        Inl err \<Rightarrow> (rc, no_summary, Some err)
      | Inr (rc1, matched, variance) \<Rightarrow>
          (let sum = no_summary\<lparr>Matched := matched, Variance := variance\<rparr>
           in case matchConsolidated e d l cfg rc1 of
                Inl err \<Rightarrow> (rc1, sum, Some err)
              | Inr (rc2, n) \<Rightarrow>
                  (rc2, sum\<lparr>Matched := matched + n, Unmatched_by := classify d l cfg rc2\<rparr>, None)))"

subsection \<open>Positions and outstanding lines\<close>

record BalanceComparison =
  BC_Source :: string
  BC_Account :: Address
  BC_Asset :: Asset
  Ours :: int
  Theirs :: int
  Difference :: int

definition Agrees :: "BalanceComparison \<Rightarrow> bool" where
  "Agrees c \<longleftrightarrow> Difference c = 0"

definition CompareBalance :: "db \<Rightarrow> string \<Rightarrow> line_source \<Rightarrow> Address \<Rightarrow> Asset \<Rightarrow> BalanceComparison res" where
  "CompareBalance d l s a x =
     bindE (SourceBalance s x) (\<lambda>theirs.
       case theirs of
         None \<Rightarrow> Inl (ErrText ''reported no balance'')
       | Some t \<Rightarrow>
           (let ours = - (case map_of (accounts_volumes d) (l, a, x) of
                            None \<Rightarrow> 0 | Some r \<Rightarrow> vr_input r - vr_output r)
            in Inr \<lparr>BC_Source = SourceID s, BC_Account = a, BC_Asset = x,
                    Ours = ours, Theirs = t, Difference = t - ours\<rparr>))"

record StaleBreak =
  SB_Source :: string
  SB_RecordID :: string
  SB_Reference :: string
  SB_Asset :: Asset
  SB_Amount :: int
  SB_Since :: time

definition stale_break :: "line_key \<times> rec_row \<Rightarrow> StaleBreak" where
  "stale_break x =
     \<lparr>SB_Source = fst (snd (fst x)), SB_RecordID = snd (snd (fst x)),
      SB_Reference = (case rr_reference (snd x) of None \<Rightarrow> [] | Some r \<Rightarrow> r),
      SB_Asset = rr_asset (snd x), SB_Amount = rr_amount (snd x), SB_Since = rr_ingested (snd x)\<rparr>"

definition Unmatched :: "env \<Rightarrow> string \<Rightarrow> time \<Rightarrow> recon \<Rightarrow> (nat \<times> StaleBreak list) res" where
  "Unmatched e l olderThan rc =
     (if olderThan < 0 then Inl (ErrText ''olderThan is negative'')
      else (let cutoff = truncate_us (go_now e - olderThan);
                stale = sort_key (\<lambda>x. (rr_ingested (snd x), snd (fst x)))
                          (filter (\<lambda>x. rr_ingested (snd x) < cutoff) (left_over l rc))
            in Inr (length (filter (\<lambda>x. fst (fst x) = l) (recon_records rc)), map stale_break stale)))"

definition Recon_Check ::
  "(cand list \<Rightarrow> cand list) \<Rightarrow> env \<Rightarrow> db \<Rightarrow> string \<Rightarrow> Config \<Rightarrow> time \<Rightarrow> recon \<Rightarrow> recon \<times> (nat \<times> StaleBreak list) res" where
  "Recon_Check plan e d l cfg olderThan rc =
     (case Match plan e d l cfg rc of
        (rc', _, Some err) \<Rightarrow> (rc', Inl err)
      | (rc', _, None) \<Rightarrow> (rc', Unmatched e l olderThan rc'))"

end
