(* ===== verification/Recon_Evidence.thy ===== *)
theory Recon_Evidence
  imports Recon
begin

text \<open>
  What the recorded evidence means. \<open>recon_ok\<close> is the invariant of the tables: every matched line is explained by the
  movements it names and the variance recorded, and no source claims a movement twice. Staging is idempotent, the ledger
  cannot take evidence away, and recording whole groups of candidates keeps the invariant.
\<close>

subsection \<open>Staging again stages nothing\<close>

lemma Record_validate_None:
  "Record_validate r = None \<longleftrightarrow>
     RecID r \<noteq> [] \<and> Asset_Valid (RecAsset r) \<and> (\<exists>a. RecAmount r = Some a \<and> 0 < a) \<and>
     RecDirection r \<in> {Unknown, In, Out}"
  by (auto simp: Record_validate_def split: option.splits)

lemma validate_records_None: "validate_records rs = None \<longleftrightarrow> (\<forall>r\<in>set rs. Record_validate r = None)"
  by (induction rs) (auto split: option.splits)

lemma insert_record_staged:
  assumes "insert_record json_ok e d l src r rc = Inr (rc', n)"
  shows "map_of (recon_records rc') (l, src, RecID r) \<noteq> None"
    and "\<And>k. map_of (recon_records rc) k \<noteq> None \<Longrightarrow> map_of (recon_records rc') k = map_of (recon_records rc) k"
    and "Raw r = [] \<or> json_ok (Raw r)"
    and "\<exists>xs. recon_records rc' = recon_records rc @ xs \<and> length xs = n"
  using assms by (auto simp: insert_record_def map_add_def split: if_splits option.splits)

lemma stage_records_staged:
  assumes "stage_records json_ok e d l src rs rc n0 = (rc', n, None)"
  shows "\<forall>r\<in>set rs. map_of (recon_records rc') (l, src, RecID r) \<noteq> None \<and> (Raw r = [] \<or> json_ok (Raw r))"
    and "\<And>k. map_of (recon_records rc) k \<noteq> None \<Longrightarrow> map_of (recon_records rc') k = map_of (recon_records rc) k"
  using assms
proof (induction rs arbitrary: rc n0)
  case (Cons r rs)
  case 1
  then obtain rc1 n1 where i: "insert_record json_ok e d l src r rc = Inr (rc1, n1)"
    and s: "stage_records json_ok e d l src rs rc1 (n0 + n1) = (rc', n, None)" by (auto split: sum.splits)
  from insert_record_staged(1) [OF i] Cons.IH(2) [OF _ s] have "map_of (recon_records rc') (l, src, RecID r) \<noteq> None" by metis
  with Cons.IH(1) [OF s] insert_record_staged(3) [OF i] show ?case by auto
next
  case (Cons r rs)
  case 2
  then obtain rc1 n1 where i: "insert_record json_ok e d l src r rc = Inr (rc1, n1)"
    and s: "stage_records json_ok e d l src rs rc1 (n0 + n1) = (rc', n, None)" by (auto split: sum.splits)
  from insert_record_staged(2) [OF i 2(1)] Cons.IH(2) [OF _ s] 2(1) show ?case by metis
qed auto

lemma stage_records_repeat:
  assumes "\<forall>r\<in>set rs. map_of (recon_records rc) (l, src, RecID r) \<noteq> None \<and> (Raw r = [] \<or> json_ok (Raw r))"
  shows "stage_records json_ok e d l src rs rc n = (rc, n, None)"
  using assms by (induction rs arbitrary: n) (auto simp: insert_record_def)

lemma Ingest_again:
  assumes "Ingest json_ok e d l src rs rc = (rc', n, None)" and "set rs' \<subseteq> set rs"
  shows "Ingest json_ok e' d' l src rs' rc' = (rc', 0, None)"
proof -
  have v: "validate_records rs = None" and s: "stage_records json_ok e d l src rs rc 0 = (rc', n, None)"
    using assms(1) by (auto simp: Ingest_def split: option.splits)
  have "validate_records rs' = None" using v assms(2) by (auto simp: validate_records_None)
  moreover have "stage_records json_ok e' d' l src rs' rc' 0 = (rc', 0, None)"
    using stage_records_staged(1) [OF s] assms(2) by (intro stage_records_repeat) auto
  ultimately show ?thesis by (simp add: Ingest_def)
qed

subsection \<open>What the evidence says\<close>

definition mt_line :: "match_row \<Rightarrow> line_key" where
  "mt_line x = (mt_ledger x, mt_source x, mt_record x)"

definition mt_move :: "match_row \<Rightarrow> string \<times> string \<times> int" where
  "mt_move x = (mt_ledger x, mt_source x, mt_seq x)"

definition matches_of :: "recon \<Rightarrow> line_key \<Rightarrow> match_row list" where
  "matches_of rc k = filter (\<lambda>x. mt_line x = k) (recon_matches rc)"

definition move_at :: "db \<Rightarrow> string \<Rightarrow> int \<Rightarrow> move_row option" where
  "move_at d l q = find (\<lambda>m. mv_ledger m = l \<and> mv_seq m = q) (moves d)"

definition moved :: "db \<Rightarrow> match_row \<Rightarrow> int" where
  "moved d x = (case move_at d (mt_ledger x) (mt_seq x) of None \<Rightarrow> 0 | Some m \<Rightarrow> mv_amount m)"

text \<open>A match names a recorded movement of the line's asset, in the line's direction.\<close>

definition fits :: "db \<Rightarrow> rec_row \<Rightarrow> match_row \<Rightarrow> bool" where
  "fits d r x \<longleftrightarrow>
     (\<exists>m. move_at d (mt_ledger x) (mt_seq x) = Some m \<and> snd (mv_key m) = rr_asset r \<and> direction_fits (rr_direction r) m)"

text \<open>A matched line is explained in full: the movements it is paired with and the recorded variance make up
  its amount, and only a single pairing may have a variance.\<close>

definition line_ok :: "db \<Rightarrow> recon \<Rightarrow> line_key \<Rightarrow> rec_row \<Rightarrow> bool" where
  "line_ok d rc k r \<longleftrightarrow>
     0 < rr_amount r \<and> rr_count r = int (length (matches_of rc k)) \<and>
     (\<forall>x\<in>set (matches_of rc k). mt_size x = rr_count r \<and> fits d r x \<and> (1 < rr_count r \<longrightarrow> mt_variance x = 0)) \<and>
     (rr_count r \<noteq> 0 \<longrightarrow> rr_amount r = (\<Sum>x\<leftarrow>matches_of rc k. moved d x + mt_variance x))"

definition recon_ok :: "db \<Rightarrow> recon \<Rightarrow> bool" where
  "recon_ok d rc \<longleftrightarrow>
     unique_keys (recon_records rc) \<and>
     (\<forall>(k, r)\<in>set (recon_records rc). line_ok d rc k r \<and>
        map_of (recon_sources rc) (fst k, fst (snd k)) \<noteq> None \<and> map_of (assets d) (fst k, rr_asset r) \<noteq> None) \<and>
     distinct (map mt_move (recon_matches rc)) \<and>
     mt_line ` set (recon_matches rc) \<subseteq> set (keys (recon_records rc))"

lemma find_append_Some: "find P xs = Some x \<Longrightarrow> find P (xs @ ys) = Some x"
  by (induction xs) auto

lemma find_map_core: "map_option f (find (\<lambda>x. P (f x)) xs) = find P (map f xs)"
  by (induction xs) auto

lemma move_at_kept:
  assumes "moves_kept d d'" "move_at d l q = Some m"
  shows "\<exists>m'. move_at d' l q = Some m' \<and> move_core m' = move_core m"
proof -
  let ?P = "\<lambda>c. fst (snd c) = l \<and> fst c = q"
  have core: "map_option move_core (move_at d l q) = find ?P (map move_core (moves d))" for d
    unfolding move_at_def find_map_core [symmetric] by (simp add: move_core_def)
  obtain zs where "map move_core (moves d') = map move_core (moves d) @ zs" using assms(1) by (auto simp: moves_kept_def)
  moreover have "find ?P (map move_core (moves d)) = Some (move_core m)" using core [of d] assms(2) by simp
  ultimately have "find ?P (map move_core (moves d')) = Some (move_core m)" by (simp add: find_append_Some)
  then have "map_option move_core (move_at d' l q) = Some (move_core m)" using core [of d'] by simp
  then show ?thesis by (auto simp: map_option_eq_Some)
qed

lemma map_of_unique: "unique_keys t \<Longrightarrow> (k, r) \<in> set t \<Longrightarrow> map_of t k = Some r"
  by simp

lemma fits_kept: "moves_kept d d' \<Longrightarrow> fits d r x \<Longrightarrow> fits d' r x"
  using move_at_kept [of d d' "mt_ledger x" "mt_seq x"] by (fastforce simp: fits_def move_core_def direction_fits_def)

lemma moved_kept: "moves_kept d d' \<Longrightarrow> fits d r x \<Longrightarrow> moved d' x = moved d x"
  using move_at_kept [of d d' "mt_ledger x" "mt_seq x"] by (fastforce simp: fits_def moved_def move_core_def)

lemma line_ok_kept:
  assumes "moves_kept d d'" "line_ok d rc k r"
  shows "line_ok d' rc k r"
proof -
  have "\<forall>x\<in>set (matches_of rc k). fits d' r x \<and> moved d' x = moved d x"
    using assms fits_kept [OF assms(1)] moved_kept [OF assms(1)] by (auto simp: line_ok_def)
  moreover from this have "(\<Sum>x\<leftarrow>matches_of rc k. moved d' x + mt_variance x) = (\<Sum>x\<leftarrow>matches_of rc k. moved d x + mt_variance x)"
    by (intro arg_cong [where f = sum_list] map_cong) auto
  ultimately show ?thesis using assms(2) by (simp add: line_ok_def)
qed

text \<open>Nothing the ledger does afterwards takes the evidence away.\<close>

lemma recon_ok_kept:
  assumes "history_kept d d'" "recon_ok d rc"
  shows "recon_ok d' rc"
proof -
  have mk: "moves_kept d d'" and rg: "registry_grows d d'" using assms(1) unfolding history_kept_def by blast+
  have "map_of (assets d') (l, x) \<noteq> None" if "map_of (assets d) (l, x) \<noteq> None" for l x
    using rg that by (simp add: registry_grows_def is_registered_def)
  then show ?thesis using assms(2) line_ok_kept [OF mk] by (fastforce simp: recon_ok_def)
qed

subsection \<open>Recording matches\<close>

lemma insert_match_Inr:
  "insert_match d x rc = Inr rc' \<longleftrightarrow>
     rc' = rc\<lparr>recon_matches := recon_matches rc @ [x]\<rparr> \<and> mt_move x \<notin> set (map mt_move (recon_matches rc)) \<and>
     map_of (recon_records rc) (mt_line x) \<noteq> None \<and>
     (\<exists>m\<in>set (moves d). mv_ledger m = mt_ledger x \<and> mv_seq m = mt_seq x)"
proof -
  have "already_matched rc (mt_ledger x) (mt_source x) (mt_seq x) \<longleftrightarrow> mt_move x \<in> set (map mt_move (recon_matches rc))"
    by (auto simp: already_matched_def list_ex_iff mt_move_def image_iff) metis
  then show ?thesis by (auto simp: insert_match_def mt_line_def list_ex_iff)
qed

lemma insert_matches_Inr:
  "foldE (insert_match d) xs rc = Inr rc' \<longleftrightarrow>
     rc' = rc\<lparr>recon_matches := recon_matches rc @ xs\<rparr> \<and>
     distinct (map mt_move xs) \<and> mt_move ` set xs \<inter> mt_move ` set (recon_matches rc) = {} \<and>
     (\<forall>x\<in>set xs. map_of (recon_records rc) (mt_line x) \<noteq> None \<and>
        (\<exists>m\<in>set (moves d). mv_ledger m = mt_ledger x \<and> mv_seq m = mt_seq x))"
proof (induction xs arbitrary: rc)
  case (Cons x xs)
  show ?case
    by (auto simp: bindE_Inr_iff insert_match_Inr Cons.IH)
qed auto

lemma insert_matches_Inl:
  assumes "foldE (insert_match d) xs rc = Inl err"
    and "\<forall>x\<in>set xs. map_of (recon_records rc) (mt_line x) \<noteq> None \<and>
        (\<exists>m\<in>set (moves d). mv_ledger m = mt_ledger x \<and> mv_seq m = mt_seq x)"
  shows "err = PgError uniqueViolation"
  using assms
proof (induction xs arbitrary: rc)
  case (Cons x xs)
  show ?case
  proof (cases "insert_match d x rc")
    case (Inl a)
    then show ?thesis using Cons.prems by (auto simp: insert_match_def mt_line_def list_ex_iff split: if_splits)
  next
    case (Inr rc1)
    then have "recon_records rc1 = recon_records rc" by (auto simp: insert_match_Inr)
    then show ?thesis using Cons Inr by auto
  qed
qed simp

text \<open>What a rule hands over: candidates grouped into whole lines, each with the match recorded for it.\<close>

definition cand_ok :: "db \<Rightarrow> string \<Rightarrow> recon \<Rightarrow> cand \<Rightarrow> bool" where
  "cand_ok d l rc c \<longleftrightarrow>
     fst (cd_line c) = l \<and>
     (\<exists>r m. map_of (recon_records rc) (cd_line c) = Some r \<and> rr_count r = 0 \<and> cd_line_amount c = rr_amount r \<and>
        move_at d l (cd_seq c) = Some m \<and> cd_move_amount c = mv_amount m \<and> snd (mv_key m) = rr_asset r \<and>
        direction_fits (rr_direction r) m) \<and>
     (l, fst (snd (cd_line c)), cd_seq c) \<notin> mt_move ` set (recon_matches rc)"

definition recorded_as :: "cand list \<Rightarrow> (cand \<Rightarrow> match_row) \<Rightarrow> bool" where
  "recorded_as ps f \<longleftrightarrow>
     (\<forall>c\<in>set ps. mt_line (f c) = cd_line c \<and> mt_seq (f c) = cd_seq c \<and>
        mt_size (f c) = int (length (group_of ps c)) \<and>
        (1 < length (group_of ps c) \<longrightarrow> mt_variance (f c) = 0) \<and>
        cd_line_amount c = (\<Sum>x\<leftarrow>group_of ps c. cd_move_amount x + mt_variance (f x)))"

lemma mark_lines_records:
  "map_of (recon_records (mark_lines e n rc)) k =
     map_option (\<lambda>r. case n k of None \<Rightarrow> r | Some c \<Rightarrow> r\<lparr>rr_count := c, rr_matched_at := Some (db_now e)\<rparr>)
       (map_of (recon_records rc) k)"
proof -
  have "map_of (map (\<lambda>(k, r). (k, g k r)) t) k = map_option (g k) (map_of t k)" for g :: "line_key \<Rightarrow> rec_row \<Rightarrow> rec_row" and t
    by (induction t) auto
  then show ?thesis by (simp add: mark_lines_def)
qed

lemma mark_lines_frame [simp]:
  "recon_matches (mark_lines e n rc) = recon_matches rc" "recon_sources (mark_lines e n rc) = recon_sources rc"
  "keys (recon_records (mark_lines e n rc)) = keys (recon_records rc)"
  by (simp_all add: mark_lines_def comp_def case_prod_unfold)

lemma lines_of_None: "lines_of ps g k = None \<longleftrightarrow> (\<forall>c\<in>set ps. cd_line c \<noteq> k)"
  by (auto simp: lines_of_def find_None_iff)

lemma lines_of_Some: "lines_of ps g k = Some n \<Longrightarrow> \<exists>c\<in>set ps. cd_line c = k \<and> n = g c"
  by (auto simp: lines_of_def find_Some_iff)

lemma matches_of_append: "matches_of (rc\<lparr>recon_matches := recon_matches rc @ xs\<rparr>) k = matches_of rc k @ filter (\<lambda>x. mt_line x = k) xs"
  by (simp add: matches_of_def)

lemma recorded_line:
  assumes inv: "recon_ok d rc" and ok: "\<forall>c\<in>set ps. cand_ok d l rc c" and rec: "recorded_as ps f"
    and rc': "rc' = mark_lines e (lines_of ps (\<lambda>c. int (length (group_of ps c)))) (rc\<lparr>recon_matches := recon_matches rc @ map f ps\<rparr>)"
    and r': "map_of (recon_records rc') k = Some r'"
  shows "line_ok d rc' k r'"
proof -
  have lf: "mt_line (f c) = cd_line c" if "c \<in> set ps" for c using rec that by (simp add: recorded_as_def)
  have ms: "matches_of rc' k = matches_of rc k @ map f (filter (\<lambda>c. cd_line c = k) ps)"
  proof -
    have "filter (\<lambda>x. mt_line x = k) (map f ps) = map f (filter (\<lambda>c. cd_line c = k) ps)"
      by (simp add: filter_map comp_def lf cong: filter_cong)
    then show ?thesis by (simp add: rc' matches_of_def)
  qed
  obtain r where r: "map_of (recon_records rc) k = Some r"
    and r'eq: "r' = (case lines_of ps (\<lambda>c. int (length (group_of ps c))) k of None \<Rightarrow> r
      | Some n \<Rightarrow> r\<lparr>rr_count := n, rr_matched_at := Some (db_now e)\<rparr>)"
    using r' unfolding rc' mark_lines_records by auto
  have lk: "line_ok d rc k r" using inv map_of_SomeD [OF r] by (auto simp: recon_ok_def)
  show ?thesis
  proof (cases "lines_of ps (\<lambda>c. int (length (group_of ps c))) k")
    case None
    then have none: "filter (\<lambda>c. cd_line c = k) ps = []" by (auto simp: lines_of_None filter_empty_conv)
    show ?thesis using lk r'eq None by (simp add: line_ok_def ms none)
  next
    case (Some n)
    then obtain c where c: "c \<in> set ps" "cd_line c = k" "n = int (length (group_of ps c))" by (blast dest: lines_of_Some)
    have g: "filter (\<lambda>c. cd_line c = k) ps = group_of ps c" by (simp add: group_of_def c(2))
    have gsub: "set (group_of ps c) \<subseteq> set ps" and glen: "length (group_of ps c) \<noteq> 0"
      using c(1) by (auto simp: group_of_def filter_empty_conv)
    have same: "group_of ps x = group_of ps c" if "x \<in> set (group_of ps c)" for x using that by (simp add: group_of_def)
    have ck: "cand_ok d l rc x" "cd_line x = k" if "x \<in> set (group_of ps c)" for x
      using that gsub ok c(2) by (auto simp: group_of_def)
    have "rr_count r = 0" and am: "cd_line_amount c = rr_amount r" using ok c(1,2) r by (auto simp: cand_ok_def)
    with lk have empty: "matches_of rc k = []" by (simp add: line_ok_def)
    have r'f: "rr_count r' = n" "rr_amount r' = rr_amount r" "rr_asset r' = rr_asset r" "rr_direction r' = rr_direction r"
      using r'eq Some by simp_all
    have ft: "fits d r' (f x) \<and> moved d (f x) = cd_move_amount x \<and> mt_size (f x) = n \<and> (1 < n \<longrightarrow> mt_variance (f x) = 0)"
      if "x \<in> set (group_of ps c)" for x
    proof -
      have "mt_line (f x) = k" "mt_seq (f x) = cd_seq x" "mt_size (f x) = int (length (group_of ps x))"
        "1 < length (group_of ps x) \<longrightarrow> mt_variance (f x) = 0"
        using rec that gsub ck(2) [OF that] by (auto simp: recorded_as_def)
      moreover have "mt_ledger (f x) = l" using calculation(1) ck [OF that] by (auto simp: mt_line_def cand_ok_def)
      ultimately show ?thesis using ck [OF that] same [OF that] r r'f c(3)
        by (auto simp: cand_ok_def fits_def moved_def)
    qed
    have "rr_amount r = (\<Sum>x\<leftarrow>group_of ps c. moved d (f x) + mt_variance (f x))"
    proof -
      have "rr_amount r = (\<Sum>x\<leftarrow>group_of ps c. cd_move_amount x + mt_variance (f x))"
        using rec c(1) am by (simp add: recorded_as_def)
      also have "\<dots> = (\<Sum>x\<leftarrow>group_of ps c. moved d (f x) + mt_variance (f x))"
        using ft by (intro arg_cong [where f = sum_list] map_cong) auto
      finally show ?thesis .
    qed
    then show ?thesis using lk ft glen r'f c(3) unfolding line_ok_def ms empty g by (auto simp: comp_def)
  qed
qed

lemma map_of_keys_eq: "keys t = keys t' \<Longrightarrow> map_of t k = None \<longleftrightarrow> map_of t' k = None"
  by (simp add: map_of_None_keys)

lemma recorded_ok:
  assumes inv: "recon_ok d rc" and ok: "\<forall>c\<in>set ps. cand_ok d l rc c" and rec: "recorded_as ps f"
    and ins: "foldE (insert_match d) (map f ps) rc = Inr rc1"
    and rc': "rc' = mark_lines e (lines_of ps (\<lambda>c. int (length (group_of ps c)))) rc1"
  shows "recon_ok d rc'"
proof -
  note i = ins [unfolded insert_matches_Inr]
  have rc'': "rc' = mark_lines e (lines_of ps (\<lambda>c. int (length (group_of ps c)))) (rc\<lparr>recon_matches := recon_matches rc @ map f ps\<rparr>)"
    using i rc' by simp
  have ks: "keys (recon_records rc') = keys (recon_records rc)" by (simp add: rc'')
  have uk: "unique_keys (recon_records rc')" using inv by (simp add: ks recon_ok_def)
  have "line_ok d rc' k r' \<and> map_of (recon_sources rc') (fst k, fst (snd k)) \<noteq> None \<and> map_of (assets d) (fst k, rr_asset r') \<noteq> None"
    if kr: "(k, r') \<in> set (recon_records rc')" for k r'
  proof -
    have r': "map_of (recon_records rc') k = Some r'" using uk kr by simp
    then obtain r where "map_of (recon_records rc) k = Some r" "rr_asset r' = rr_asset r"
      unfolding rc'' mark_lines_records by (auto split: option.splits)
    with inv map_of_SomeD [OF this(1)] have "map_of (recon_sources rc) (fst k, fst (snd k)) \<noteq> None" "map_of (assets d) (fst k, rr_asset r') \<noteq> None"
      by (auto simp: recon_ok_def)
    with recorded_line [OF inv ok rec rc'' r'] show ?thesis by (simp add: rc'')
  qed
  moreover have "distinct (map mt_move (recon_matches rc'))"
  proof -
    have "distinct (map mt_move (recon_matches rc))" using inv by (simp add: recon_ok_def)
    with i have "distinct (map mt_move (recon_matches rc) @ map mt_move (map f ps))"
      unfolding distinct_append set_map by blast
    then show ?thesis by (simp add: rc'')
  qed
  moreover have "mt_line ` set (recon_matches rc') \<subseteq> set (keys (recon_records rc'))"
  proof -
    have "mt_line (f c) \<in> set (keys (recon_records rc))" if "c \<in> set ps" for c
      using i that map_of_None_keys [of "recon_records rc" "mt_line (f c)"] by auto
    then show ?thesis using inv unfolding ks by (auto simp: rc'' recon_ok_def)
  qed
  ultimately show ?thesis using uk unfolding recon_ok_def by auto
qed

end
