(* ===== verification/Recon_Match.thy ===== *)
theory Recon_Match
  imports Recon_Evidence
begin

text \<open>
  The matching rules: the exact rule always succeeds, the consolidated one fails exactly when two lines of one source claim
  the same movement as part of a set, and every open line is matched, a variance, or counted under one reason.
\<close>

subsection \<open>Candidates\<close>

lemma candidates_set:
  "c \<in> set (candidates cfg d l rc) \<longleftrightarrow>
     (\<exists>x\<in>set (recon_records rc). \<exists>m\<in>set (moves d). is_candidate cfg d l rc x m \<and> c = make_cand x m)"
  by (auto simp: candidates_def)

lemma sorted_find:
  assumes "sorted_wrt (\<lambda>m m'. mv_seq m < mv_seq m') ms" "m \<in> set ms" "mv_ledger m = l"
  shows "find (\<lambda>x. mv_ledger x = l \<and> mv_seq x = mv_seq m) ms = Some m"
  using assms by (induction ms) force+

lemma move_at_mem: "seq_ok d \<Longrightarrow> m \<in> set (moves d) \<Longrightarrow> mv_ledger m = l \<Longrightarrow> move_at d l (mv_seq m) = Some m"
  using sorted_find [of "moves d" m l] by (simp add: move_at_def seq_ok_def)

lemma candidates_ok:
  assumes "unique_keys (recon_records rc)" "seq_ok d" "c \<in> set (candidates cfg d l rc)"
  shows "cand_ok d l rc c"
proof -
  obtain k r m where x: "(k, r) \<in> set (recon_records rc)" and m: "m \<in> set (moves d)"
    and ic: "is_candidate cfg d l rc (k, r) m" and c: "c = make_cand (k, r) m"
    using assms(3) unfolding candidates_set by auto
  have "map_of (recon_records rc) k = Some r" using assms(1) x by simp
  moreover have "move_at d l (mv_seq m) = Some m" using move_at_mem [OF assms(2) m] ic by (simp add: is_candidate_def)
  moreover have "(l, fst (snd k), mv_seq m) \<notin> mt_move ` set (recon_matches rc)"
    using ic by (auto simp: is_candidate_def already_matched_def list_ex_iff mt_move_def)
  ultimately show ?thesis using ic by (auto simp: cand_ok_def c make_cand_def is_candidate_def)
qed

text \<open>The candidates of one line, each movement once.\<close>

lemma group_candidates:
  assumes uk: "unique_keys (recon_records rc)" and sq: "seq_ok d"
  shows "distinct (map cd_seq (filter (\<lambda>c. cd_line c = k) (candidates cfg d l rc)))"
proof -
  have row: "distinct (map cd_seq (map (make_cand x) (filter P (moves d))))" for x P
  proof -
    have "sorted_wrt (<) (map mv_seq (moves d))" using sq by (simp add: seq_ok_def sorted_wrt_map)
    then have "distinct (map mv_seq (moves d))" by (simp add: strict_sorted_iff)
    then have "distinct (map mv_seq (filter P (moves d)))" by (rule distinct_map_filter)
    then show ?thesis by (simp add: comp_def make_cand_def)
  qed
  have other: "filter (\<lambda>c. cd_line c = k) (concat (map (\<lambda>x. map (make_cand x) (filter (is_candidate cfg d l rc x) (moves d))) xs)) = []"
    if "k \<notin> fst ` set xs" for xs
    using that by (induction xs) (auto simp: filter_empty_conv make_cand_def)
  have "distinct (map cd_seq (filter (\<lambda>c. cd_line c = k)
      (concat (map (\<lambda>x. map (make_cand x) (filter (is_candidate cfg d l rc x) (moves d))) xs))))" if "distinct (map fst xs)" for xs
    using that
  proof (induction xs)
    case (Cons x xs)
    show ?case
    proof (cases "fst x = k")
      case True
      then have "filter (\<lambda>c. cd_line c = k) (map (make_cand x) (filter (is_candidate cfg d l rc x) (moves d))) =
          map (make_cand x) (filter (is_candidate cfg d l rc x) (moves d))"
        by (auto simp: filter_id_conv make_cand_def)
      moreover have "k \<notin> fst ` set xs" using True Cons.prems by auto
      ultimately show ?thesis using row [of x] other by simp
    next
      case False
      then have "filter (\<lambda>c. cd_line c = k) (map (make_cand x) (filter (is_candidate cfg d l rc x) (moves d))) = []"
        by (auto simp: filter_empty_conv make_cand_def)
      then show ?thesis using Cons by simp
    qed
  qed simp
  then show ?thesis using uk by (simp add: candidates_def)
qed

subsection \<open>The exact rule\<close>

lemma distinct_on_set: "set (distinct_on xs) \<subseteq> set xs"
  by (induction xs rule: distinct_on.induct) (auto dest: set_dropWhileD)

lemma distinct_map_dropWhile: "distinct (map f xs) \<Longrightarrow> distinct (map f (dropWhile P xs))"
  by (metis distinct_append map_append takeWhile_dropWhile_id)

lemma sorted_map_dropWhile: "sorted (map f xs) \<Longrightarrow> sorted (map f (dropWhile P xs))"
  by (metis map_append sorted_append takeWhile_dropWhile_id)

lemma filter_filter_length: "length (filter P (filter Q xs)) \<le> length (filter P xs)"
  by (induction xs) auto

lemma distinct_on_map:
  assumes "distinct (map f xs)"
  shows "distinct (map f (distinct_on xs))"
  using assms
proof (induction xs rule: distinct_on.induct)
  case (2 c cs)
  have "set (distinct_on (dropWhile (\<lambda>x. cd_seq x = cd_seq c) cs)) \<subseteq> set cs"
    using distinct_on_set set_dropWhileD by fastforce
  then show ?case using 2 distinct_map_dropWhile [of f cs] by auto
qed simp

lemma distinct_on_seq:
  assumes "sorted (map cd_seq xs)"
  shows "distinct (map cd_seq (distinct_on xs))"
  using assms
proof (induction xs rule: distinct_on.induct)
  case (2 c cs)
  let ?cs = "dropWhile (\<lambda>x. cd_seq x = cd_seq c) cs"
  have s: "sorted (map cd_seq ?cs)" using 2(2) sorted_map_dropWhile [of cd_seq cs] by simp
  have "cd_seq c \<noteq> cd_seq x" if "x \<in> set ?cs" for x
  proof (cases ?cs)
    case (Cons y ys)
    have "cd_seq y \<noteq> cd_seq c" using hd_dropWhile [of "\<lambda>x. cd_seq x = cd_seq c" cs] Cons by simp
    moreover have "y \<in> set cs" using Cons set_dropWhileD [of y _ cs] by (metis list.set_intros(1))
    then have "cd_seq c \<le> cd_seq y" using 2(2) by auto
    moreover have "cd_seq y \<le> cd_seq x" using s that Cons by auto
    ultimately show ?thesis by simp
  qed (use that in \<open>simp only: list.set empty_iff\<close>)
  then have "cd_seq c \<notin> cd_seq ` set (distinct_on ?cs)" using distinct_on_set [of ?cs] by auto
  then show ?case using 2(1) [OF s] by simp
qed simp

lemma distinct_on_empty: "distinct_on xs = [] \<longleftrightarrow> xs = []"
  by (cases xs) simp_all

lemma distinct_singletons:
  "distinct (map f (filter (\<lambda>c. length (filter (\<lambda>x. f x = f c) cs) = 1) cs))"
proof -
  let ?ys = "filter (\<lambda>c. length (filter (\<lambda>x. f x = f c) cs) = 1) cs"
  have cnt: "count (mset (map f xs)) v = length (filter (\<lambda>x. f x = v) xs)" for xs v
    by (induction xs) auto
  have "count (mset (map f ?ys)) v = (if v \<in> set (map f ?ys) then 1 else 0)" for v
  proof (cases "v \<in> set (map f ?ys)")
    case True
    then obtain c where c: "c \<in> set ?ys" "f c = v" by auto
    have "length (filter (\<lambda>x. f x = v) ?ys) \<le> length (filter (\<lambda>x. f x = v) cs)"
      by (rule filter_filter_length)
    also have "\<dots> = 1" using c by auto
    finally have "count (mset (map f ?ys)) v \<le> 1" unfolding cnt [of ?ys v] .
    moreover have "count (mset (map f ?ys)) v > 0" using True unfolding count_greater_zero_iff set_mset_mset .
    ultimately have "count (mset (map f ?ys)) v = 1" by linarith
    with True show ?thesis by (simp only: if_True)
  qed (simp only: count_mset_0_iff if_False simp_thms)
  then show ?thesis unfolding distinct_count_atmost_1 by blast
qed

lemma distinct_map_mset: "mset xs = mset ys \<Longrightarrow> distinct (map f xs) = distinct (map f ys)"
  by (intro mset_eq_imp_distinct_iff) (simp only: mset_map)

definition reorders :: "(cand list \<Rightarrow> cand list) \<Rightarrow> bool" where
  "reorders plan \<longleftrightarrow> (\<forall>xs. mset (plan xs) = mset xs)"

lemma picks_facts:
  assumes "reorders plan"
  shows "set (exact_picks plan cs) \<subseteq> {c \<in> set cs. length (group_of cs c) = 1}"
    and "distinct (map cd_line (exact_picks plan cs))"
    and "distinct (map cd_seq (exact_picks plan cs))"
    and "exact_picks plan cs = [] \<longleftrightarrow> filter (\<lambda>c. length (group_of cs c) = 1) cs = []"
proof -
  let ?u = "filter (\<lambda>c. length (group_of cs c) = 1) cs"
  let ?s = "sort_key (\<lambda>c. (cd_seq c, snd (snd (cd_line c)))) (plan ?u)"
  have m: "mset ?s = mset ?u" using assms by (simp add: reorders_def)
  then have st: "set ?s = set ?u" by (rule mset_eq_setD)
  show "set (exact_picks plan cs) \<subseteq> {c \<in> set cs. length (group_of cs c) = 1}"
    using distinct_on_set [of ?s] st by (auto simp: exact_picks_def)
  have "distinct (map cd_line ?u)" using distinct_singletons [of cd_line cs] by (simp add: group_of_def)
  then have "distinct (map cd_line ?s)" using distinct_map_mset [OF m, of cd_line] by blast
  then show "distinct (map cd_line (exact_picks plan cs))" unfolding exact_picks_def by (rule distinct_on_map)
  have "sorted (map (\<lambda>c. (cd_seq c, snd (snd (cd_line c)))) ?s)" by (rule sorted_sort_key)
  then have "sorted_wrt (\<lambda>a b. cd_seq a \<le> cd_seq b) ?s"
    unfolding sorted_map by (rule sorted_wrt_mono_rel [rotated]) (auto simp: less_eq_prod_def)
  then have "sorted (map cd_seq ?s)" by (simp add: sorted_map)
  then show "distinct (map cd_seq (exact_picks plan cs))" unfolding exact_picks_def by (rule distinct_on_seq)
  have "?s = [] \<longleftrightarrow> ?u = []" by (simp only: set_empty [symmetric] st)
  then show "exact_picks plan cs = [] \<longleftrightarrow> ?u = []" unfolding exact_picks_def distinct_on_empty by simp
qed

lemma distinct_singleton_group: "distinct (map f ps) \<Longrightarrow> c \<in> set ps \<Longrightarrow> filter (\<lambda>x. f x = f c) ps = [c]"
  by (induction ps) (auto simp: filter_empty_conv image_iff)

lemma map_injective_distinct: "distinct (map f xs) \<Longrightarrow> (\<And>x y. g x = g y \<Longrightarrow> f x = f y) \<Longrightarrow> distinct (map g xs)"
  unfolding distinct_map inj_on_def by blast

lemma exact_row_fields [simp]:
  "mt_line (exact_row e c) = cd_line c" "mt_seq (exact_row e c) = cd_seq c" "mt_size (exact_row e c) = 1"
  "mt_variance (exact_row e c) = cd_line_amount c - cd_move_amount c"
  "mt_move (exact_row e c) = (fst (cd_line c), fst (snd (cd_line c)), cd_seq c)"
  by (simp_all add: exact_row_def match_of_def mt_line_def mt_move_def)

lemma consolidated_row_fields [simp]:
  "mt_line (consolidated_row e cs c) = cd_line c" "mt_seq (consolidated_row e cs c) = cd_seq c"
  "mt_size (consolidated_row e cs c) = int (length (group_of cs c))" "mt_variance (consolidated_row e cs c) = 0"
  "mt_move (consolidated_row e cs c) = (fst (cd_line c), fst (snd (cd_line c)), cd_seq c)"
  by (simp_all add: consolidated_row_def match_of_def mt_line_def mt_move_def)

lemma lines_of_cong: "(\<And>c. c \<in> set ps \<Longrightarrow> f c = g c) \<Longrightarrow> lines_of ps f = lines_of ps g"
  by (auto simp: lines_of_def fun_eq_iff find_Some_iff split: option.splits intro!: option.map_cong)

lemma move_at_in: "move_at d l q = Some m \<Longrightarrow> m \<in> set (moves d) \<and> mv_ledger m = l \<and> mv_seq m = q"
  by (auto simp: move_at_def find_Some_iff)

lemma cand_ok_refs:
  assumes "cand_ok d l rc c"
  shows "map_of (recon_records rc) (cd_line c) \<noteq> None"
    and "\<exists>m\<in>set (moves d). mv_ledger m = fst (cd_line c) \<and> mv_seq m = cd_seq c"
  using assms by (auto simp: cand_ok_def dest: move_at_in)

lemma cand_ok_fresh:
  "\<forall>c\<in>set ps. cand_ok d l rc c \<Longrightarrow> \<forall>c\<in>set ps. mt_move (f c) = (fst (cd_line c), fst (snd (cd_line c)), cd_seq c) \<Longrightarrow>
     mt_move ` set (map f ps) \<inter> mt_move ` set (recon_matches rc) = {}" (is "_ \<Longrightarrow> _ \<Longrightarrow> ?thesis")
proof -
  assume ok: "\<forall>c\<in>set ps. cand_ok d l rc c" and f: "\<forall>c\<in>set ps. mt_move (f c) = (fst (cd_line c), fst (snd (cd_line c)), cd_seq c)"
  have "mt_move (f c) \<notin> mt_move ` set (recon_matches rc)" if "c \<in> set ps" for c
    using bspec [OF ok that] bspec [OF f that] by (simp add: cand_ok_def)
  then show ?thesis unfolding set_map image_image by blast
qed

text \<open>The exact rule always succeeds.\<close>

lemma matchExact_total:
  assumes inv: "recon_ok d rc" and sq: "seq_ok d" and pl: "reorders plan"
  obtains rc' where
    "matchExact plan e d l cfg rc = Inr (rc', length (filter (within cfg) (exact_picks plan (candidates cfg d l rc))),
        length (filter (\<lambda>c. \<not> within cfg c) (exact_picks plan (candidates cfg d l rc))))"
    and "recon_ok d rc'"
    and "rc' = mark_lines e (lines_of (exact_picks plan (candidates cfg d l rc)) (\<lambda>_. 1))
                 (rc\<lparr>recon_matches := recon_matches rc @ map (exact_row e) (exact_picks plan (candidates cfg d l rc))\<rparr>)"
proof -
  let ?cs = "candidates cfg d l rc"
  let ?ps = "exact_picks plan ?cs"
  note pf = picks_facts [OF pl, of ?cs]
  have uk: "unique_keys (recon_records rc)" using inv by (simp add: recon_ok_def)
  have ok: "\<forall>c\<in>set ?ps. cand_ok d l rc c" using pf(1) candidates_ok [OF uk sq] by blast
  have single: "group_of ?ps c = [c]" if "c \<in> set ?ps" for c
    using distinct_singleton_group [OF pf(2) that] by (simp add: group_of_def)
  have rec: "recorded_as ?ps (exact_row e)" by (simp add: recorded_as_def single)
  have "distinct (map mt_move (map (exact_row e) ?ps))"
    unfolding map_map comp_def exact_row_fields by (rule map_injective_distinct [OF pf(3)]) simp
  moreover have "mt_move ` set (map (exact_row e) ?ps) \<inter> mt_move ` set (recon_matches rc) = {}"
    using ok by (rule cand_ok_fresh) simp
  moreover have "\<forall>x\<in>set (map (exact_row e) ?ps). map_of (recon_records rc) (mt_line x) \<noteq> None \<and>
        (\<exists>m\<in>set (moves d). mv_ledger m = mt_ledger x \<and> mv_seq m = mt_seq x)"
    using ok cand_ok_refs [of d l rc] by (fastforce simp: exact_row_def match_of_def mt_line_def)
  ultimately have ins: "foldE (insert_match d) (map (exact_row e) ?ps) rc =
      Inr (rc\<lparr>recon_matches := recon_matches rc @ map (exact_row e) ?ps\<rparr>)"
    unfolding insert_matches_Inr by blast
  have ln: "lines_of ?ps (\<lambda>_. 1) = lines_of ?ps (\<lambda>c. int (length (group_of ?ps c)))"
    by (intro lines_of_cong) (simp add: single)
  have "recon_ok d (mark_lines e (lines_of ?ps (\<lambda>_. 1)) (rc\<lparr>recon_matches := recon_matches rc @ map (exact_row e) ?ps\<rparr>))"
    by (rule recorded_ok [OF inv ok rec ins]) (simp add: ln)
  then show ?thesis using that by (simp add: matchExact_def Let_def ins)
qed

subsection \<open>The consolidated rule\<close>

lemma consolidated_group:
  assumes "unique_keys (recon_records rc)" "seq_ok d" "cs = candidates cfg d l rc" "c \<in> set (consolidated_sets cs)"
  shows "group_of (consolidated_sets cs) c = group_of cs c"
proof -
  have am: "cd_line_amount x = cd_line_amount c" if "x \<in> set cs" "cd_line x = cd_line c" for x
  proof -
    have "c \<in> set cs" using assms(4) by (simp add: consolidated_sets_def)
    with that candidates_ok [OF assms(1,2)] assms(3) have "cand_ok d l rc x" "cand_ok d l rc c" by auto
    then show ?thesis using that(2) by (auto simp: cand_ok_def)
  qed
  have grp: "1 < length (group_of cs c)" "group_total cs c = cd_line_amount c"
    using assms(4) by (simp_all add: consolidated_sets_def)
  have "x \<in> set (consolidated_sets cs)" if x: "x \<in> set cs" "cd_line x = cd_line c" for x
  proof -
    have "group_of cs x = group_of cs c" by (simp add: group_of_def x(2))
    with grp am [OF x] x(1) show ?thesis by (simp add: consolidated_sets_def group_total_def)
  qed
  then have "\<forall>x\<in>set cs. (x \<in> set (consolidated_sets cs) \<and> cd_line x = cd_line c) = (cd_line x = cd_line c)" by blast
  moreover have "filter (\<lambda>x. cd_line x = cd_line c) (consolidated_sets cs) =
      filter (\<lambda>x. x \<in> set (consolidated_sets cs) \<and> cd_line x = cd_line c) cs"
    by (simp add: consolidated_sets_def cong: filter_cong)
  ultimately show ?thesis unfolding group_of_def by (simp only: cong: filter_cong)
qed

lemma filter_comm: "filter P (filter Q xs) = filter Q (filter P xs)"
  by (simp add: conj_commute)

text \<open>Two lines of one source that would both claim the same movement as part of a set.\<close>

definition rival_sets :: "cand list \<Rightarrow> bool" where
  "rival_sets cs \<longleftrightarrow>
     (\<exists>a\<in>set (consolidated_sets cs). \<exists>b\<in>set (consolidated_sets cs).
        cd_line a \<noteq> cd_line b \<and> fst (snd (cd_line a)) = fst (snd (cd_line b)) \<and> cd_seq a = cd_seq b)"

lemma distinct_map_pairs:
  assumes "\<And>k. distinct (map g (filter (\<lambda>c. f c = k) xs))"
    and "\<And>a b. a \<in> set xs \<Longrightarrow> b \<in> set xs \<Longrightarrow> f a \<noteq> f b \<Longrightarrow> h a \<noteq> h b" and "\<And>a b. h a = h b \<Longrightarrow> g a = g b"
  shows "distinct (map h xs)"
  using assms(1,2)
proof (induction xs)
  case (Cons x xs)
  have "distinct (map g (filter (\<lambda>c. f c = k) xs))" for k
    using Cons.prems(1) [of k] by (auto split: if_splits)
  moreover have "h x \<noteq> h y" if y: "y \<in> set xs" for y
  proof (cases "f x = f y")
    case True
    have "g x \<notin> g ` set (filter (\<lambda>c. f c = f x) xs)" using Cons.prems(1) [of "f x"] by simp
    then have "g x \<noteq> g y" using y True by auto
    then show ?thesis using assms(3) by blast
  qed (use Cons.prems(2) y in auto)
  ultimately show ?case using Cons.IH Cons.prems(2) by auto
qed simp

lemma consolidated_distinct:
  assumes uk: "unique_keys (recon_records rc)" and sq: "seq_ok d" and cs: "cs = candidates cfg d l rc"
  shows "distinct (map mt_move (map (consolidated_row e cs) (consolidated_sets cs))) \<longleftrightarrow> \<not> rival_sets cs"
proof
  let ?h = "\<lambda>c. (fst (cd_line c), fst (snd (cd_line c)), cd_seq c)"
  have hm: "map mt_move (map (consolidated_row e cs) (consolidated_sets cs)) = map ?h (consolidated_sets cs)" by simp
  have l: "fst (cd_line a) = l" if "a \<in> set (consolidated_sets cs)" for a
    using that candidates_ok [OF uk sq, of a cfg l] cs by (auto simp: consolidated_sets_def cand_ok_def)
  {
    assume dist: "distinct (map mt_move (map (consolidated_row e cs) (consolidated_sets cs)))"
    show "\<not> rival_sets cs"
    proof
      assume "rival_sets cs"
      then obtain a b where ab: "a \<in> set (consolidated_sets cs)" "b \<in> set (consolidated_sets cs)" "cd_line a \<noteq> cd_line b"
        "fst (snd (cd_line a)) = fst (snd (cd_line b))" "cd_seq a = cd_seq b" by (auto simp: rival_sets_def)
      have "inj_on ?h (set (consolidated_sets cs))" using dist unfolding hm by (simp add: distinct_map)
      then have "a = b" using ab l by (auto dest!: inj_onD [where x = a and y = b])
      with ab(3) show False by simp
    qed
  next
    assume nr: "\<not> rival_sets cs"
    have "distinct (map ?h (consolidated_sets cs))"
    proof (rule distinct_map_pairs [where f = cd_line and g = cd_seq])
      fix k
      have "distinct (map cd_seq (filter (\<lambda>c. cd_line c = k) cs))" unfolding cs by (rule group_candidates [OF uk sq])
      then show "distinct (map cd_seq (filter (\<lambda>c. cd_line c = k) (consolidated_sets cs)))"
        unfolding consolidated_sets_def filter_comm [of "\<lambda>c. cd_line c = k"] by (rule distinct_map_filter)
    next
      fix a b assume "a \<in> set (consolidated_sets cs)" "b \<in> set (consolidated_sets cs)" "cd_line a \<noteq> cd_line b"
      then show "?h a \<noteq> ?h b" using nr by (auto simp: rival_sets_def)
    qed simp
    then show "distinct (map mt_move (map (consolidated_row e cs) (consolidated_sets cs)))" unfolding hm .
  }
qed

lemma matchConsolidated_cases:
  assumes inv: "recon_ok d rc" and sq: "seq_ok d" and cs: "cs = candidates cfg d l rc"
  shows "rival_sets cs \<Longrightarrow> matchConsolidated e d l cfg rc = Inl (PgError uniqueViolation)"
    and "\<not> rival_sets cs \<Longrightarrow> \<exists>rc'. matchConsolidated e d l cfg rc = Inr (rc', length (remdups (map cd_line (consolidated_sets cs)))) \<and>
      recon_ok d rc' \<and>
      rc' = mark_lines e (lines_of (consolidated_sets cs) (\<lambda>c. int (length (group_of cs c))))
        (rc\<lparr>recon_matches := recon_matches rc @ map (consolidated_row e cs) (consolidated_sets cs)\<rparr>)"
proof -
  let ?ps = "consolidated_sets cs" and ?f = "consolidated_row e cs"
  have uk: "unique_keys (recon_records rc)" using inv by (simp add: recon_ok_def)
  have ok: "\<forall>c\<in>set ?ps. cand_ok d l rc c" using candidates_ok [OF uk sq] cs by (auto simp: consolidated_sets_def)
  have refs: "\<forall>x\<in>set (map ?f ?ps). map_of (recon_records rc) (mt_line x) \<noteq> None \<and>
        (\<exists>m\<in>set (moves d). mv_ledger m = mt_ledger x \<and> mv_seq m = mt_seq x)"
    using ok cand_ok_refs [of d l rc] by (fastforce simp: consolidated_row_def match_of_def mt_line_def)
  have fresh: "mt_move ` set (map ?f ?ps) \<inter> mt_move ` set (recon_matches rc) = {}"
    using ok by (rule cand_ok_fresh) simp
  have grp: "group_of ?ps c = group_of cs c" if "c \<in> set ?ps" for c by (rule consolidated_group [OF uk sq cs that])
  note dst = consolidated_distinct [OF uk sq cs, of e]
  {
    assume "rival_sets cs"
    then have "\<not> distinct (map mt_move (map ?f ?ps))" using dst by blast
    then have "foldE (insert_match d) (map ?f ?ps) rc \<noteq> Inr rc'" for rc' unfolding insert_matches_Inr by blast
    then obtain err where "foldE (insert_match d) (map ?f ?ps) rc = Inl err" by (meson sum.exhaust)
    with insert_matches_Inl [OF this refs]
    show "matchConsolidated e d l cfg rc = Inl (PgError uniqueViolation)"
      unfolding matchConsolidated_def cs [symmetric] Let_def by simp
  next
    assume "\<not> rival_sets cs"
    then have "distinct (map mt_move (map ?f ?ps))" using dst by blast
    with refs fresh have ins: "foldE (insert_match d) (map ?f ?ps) rc = Inr (rc\<lparr>recon_matches := recon_matches rc @ map ?f ?ps\<rparr>)"
      unfolding insert_matches_Inr by blast
    have tot: "cd_line_amount c = (\<Sum>x\<leftarrow>group_of ?ps c. cd_move_amount x + mt_variance (?f x))" if "c \<in> set ?ps" for c
      using that grp [OF that] by (simp add: consolidated_sets_def group_total_def)
    have rec: "recorded_as ?ps ?f" using tot by (simp add: recorded_as_def grp)
    have ln: "lines_of ?ps (\<lambda>c. int (length (group_of cs c))) = lines_of ?ps (\<lambda>c. int (length (group_of ?ps c)))"
      by (intro lines_of_cong) (simp add: grp)
    have "recon_ok d (mark_lines e (lines_of ?ps (\<lambda>c. int (length (group_of cs c)))) (rc\<lparr>recon_matches := recon_matches rc @ map ?f ?ps\<rparr>))"
      by (rule recorded_ok [OF inv ok rec ins]) (simp add: ln)
    then show "\<exists>rc'. matchConsolidated e d l cfg rc = Inr (rc', length (remdups (map cd_line ?ps))) \<and> recon_ok d rc' \<and>
        rc' = mark_lines e (lines_of ?ps (\<lambda>c. int (length (group_of cs c)))) (rc\<lparr>recon_matches := recon_matches rc @ map ?f ?ps\<rparr>)"
      unfolding matchConsolidated_def cs [symmetric] Let_def by (simp add: ins)
  }
qed

subsection \<open>Every line is accounted for\<close>

lemma filter_marked:
  assumes "\<And>k r. k \<notin> A \<Longrightarrow> h k r = r" and "\<And>k r. k \<in> A \<Longrightarrow> rr_count (h k r) \<noteq> 0"
  shows "filter (\<lambda>x. fst (fst x) = l \<and> rr_count (snd x) = 0) (map (\<lambda>(k, r). (k, h k r)) xs) =
    filter (\<lambda>x. fst x \<notin> A) (filter (\<lambda>x. fst (fst x) = l \<and> rr_count (snd x) = 0) xs)"
proof (induction xs)
  case (Cons x xs)
  obtain k r where "x = (k, r)" by (cases x)
  with Cons show ?case using assms by (cases "k \<in> A") simp_all
qed simp

lemma left_over_marked:
  assumes "\<forall>c\<in>set ps. g c \<noteq> 0"
  shows "left_over l (mark_lines e (lines_of ps g) rc) = filter (\<lambda>x. fst x \<notin> cd_line ` set ps) (left_over l rc)"
proof -
  define h where "h k r = (case lines_of ps g k of None \<Rightarrow> r | Some c \<Rightarrow> r\<lparr>rr_count := c, rr_matched_at := Some (db_now e)\<rparr>)"
    for k :: line_key and r :: rec_row
  have rec: "recon_records (mark_lines e (lines_of ps g) rc) = map (\<lambda>(k, r). (k, h k r)) (recon_records rc)"
    by (simp add: mark_lines_def h_def)
  have "h k r = r" if "k \<notin> cd_line ` set ps" for k r
  proof -
    have "lines_of ps g k = None" using that by (auto simp: lines_of_None)
    then show ?thesis by (simp add: h_def)
  qed
  moreover have "rr_count (h k r) \<noteq> 0" if "k \<in> cd_line ` set ps" for k r
  proof -
    have "lines_of ps g k \<noteq> None" using that by (auto simp: lines_of_None)
    then obtain n where n: "lines_of ps g k = Some n" by auto
    then have "n \<noteq> 0" using assms lines_of_Some by fastforce
    then show ?thesis by (simp add: h_def n)
  qed
  ultimately show ?thesis unfolding left_over_def rec by (rule filter_marked)
qed

lemma filter_out_length:
  assumes "distinct (map fst xs)" "A \<subseteq> fst ` set xs" "finite A"
  shows "length (filter (\<lambda>x. fst x \<notin> A) xs) + card A = length xs"
proof -
  have "distinct (map fst (filter (\<lambda>x. fst x \<in> A) xs))" using assms(1) by (rule distinct_map_filter)
  then have "length (filter (\<lambda>x. fst x \<in> A) xs) = card (fst ` set (filter (\<lambda>x. fst x \<in> A) xs))"
    by (metis distinct_card length_map set_map)
  also have "fst ` set (filter (\<lambda>x. fst x \<in> A) xs) = A" using assms(2) by force
  finally show ?thesis using sum_length_filter_compl [of "\<lambda>x. fst x \<in> A" xs] by simp
qed

lemma cand_ok_left_over:
  assumes "unique_keys (recon_records rc)" "cand_ok d l rc c"
  shows "cd_line c \<in> fst ` set (left_over l rc)"
proof -
  obtain r where "map_of (recon_records rc) (cd_line c) = Some r" "rr_count r = 0" "fst (cd_line c) = l"
    using assms(2) by (auto simp: cand_ok_def)
  then have "(cd_line c, r) \<in> set (left_over l rc)" by (simp add: left_over_def map_of_SomeD)
  then show ?thesis by force
qed

lemma left_over_split:
  assumes inv: "recon_ok d rc" and ok: "\<forall>c\<in>set ps. cand_ok d l rc c" and g: "\<forall>c\<in>set ps. g c \<noteq> 0"
    and rc': "recon_records rc' = recon_records rc"
  shows "length (left_over l (mark_lines e (lines_of ps g) rc')) + length (remdups (map cd_line ps)) = length (left_over l rc)"
proof -
  have uk: "unique_keys (recon_records rc)" using inv by (simp add: recon_ok_def)
  have same: "left_over l rc' = left_over l rc" by (simp add: left_over_def rc')
  have "distinct (map fst (left_over l rc))" unfolding left_over_def using uk by (rule distinct_map_filter)
  moreover have "cd_line ` set ps \<subseteq> fst ` set (left_over l rc)" using cand_ok_left_over [OF uk] ok by blast
  ultimately have "length (filter (\<lambda>x. fst x \<notin> cd_line ` set ps) (left_over l rc)) + card (cd_line ` set ps) = length (left_over l rc)"
    by (intro filter_out_length) simp_all
  moreover have "length (remdups (map cd_line ps)) = card (cd_line ` set ps)" by (metis length_remdups_card_conv set_map)
  ultimately show ?thesis unfolding left_over_marked [OF g] same by simp
qed

definition total_left :: "Summary \<Rightarrow> nat" where
  "total_left sm = Unmatched_by sm NoReference + Unmatched_by sm NotFound + Unmatched_by sm Ambiguous + Unmatched_by sm Contested"

lemma classify_total:
  "classify d l cfg rc NoReference + classify d l cfg rc NotFound + classify d l cfg rc Ambiguous + classify d l cfg rc Contested =
     length (left_over l rc)"
proof -
  have "length (filter (\<lambda>x. f x = NoReference) xs) + length (filter (\<lambda>x. f x = NotFound) xs) +
      length (filter (\<lambda>x. f x = Ambiguous) xs) + length (filter (\<lambda>x. f x = Contested) xs) = length xs"
    for f :: "line_key \<times> rec_row \<Rightarrow> Break" and xs
  proof (induction xs)
    case (Cons x xs)
    then show ?case by (cases "f x") auto
  qed simp
  then show ?thesis unfolding classify_def .
qed

text \<open>What one run of \<open>Match\<close> does, on either of its two outcomes.\<close>

lemma Match_outcome:
  assumes inv: "recon_ok d rc" and sq: "seq_ok d" and pl: "reorders plan" and run: "Match plan e d l cfg rc = (rc', sm, err)"
  obtains rc1 where "recon_ok d rc1" "recon_ok d rc'"
    and "rc1 = mark_lines e (lines_of (exact_picks plan (candidates cfg d l rc)) (\<lambda>_. 1))
           (rc\<lparr>recon_matches := recon_matches rc @ map (exact_row e) (exact_picks plan (candidates cfg d l rc))\<rparr>)"
    and "length (left_over l rc1) + length (exact_picks plan (candidates cfg d l rc)) = length (left_over l rc)"
    and "rival_sets (candidates cfg d l rc1) \<Longrightarrow> rc' = rc1 \<and> err = Some (PgError uniqueViolation) \<and>
           Matched sm + Variance sm = length (exact_picks plan (candidates cfg d l rc))"
    and "\<not> rival_sets (candidates cfg d l rc1) \<Longrightarrow> err = None \<and> total_left sm = length (left_over l rc') \<and>
           Matched sm + Variance sm + total_left sm = length (left_over l rc) \<and>
           length (left_over l rc') + length (remdups (map cd_line (consolidated_sets (candidates cfg d l rc1)))) =
             length (left_over l rc1) \<and>
           rc' = mark_lines e (lines_of (consolidated_sets (candidates cfg d l rc1))
               (\<lambda>c. int (length (group_of (candidates cfg d l rc1) c))))
             (rc1\<lparr>recon_matches := recon_matches rc1 @
                map (consolidated_row e (candidates cfg d l rc1)) (consolidated_sets (candidates cfg d l rc1))\<rparr>)"
proof -
  let ?ps = "exact_picks plan (candidates cfg d l rc)"
  note pf = picks_facts [OF pl, of "candidates cfg d l rc"]
  have uk: "unique_keys (recon_records rc)" using inv by (simp add: recon_ok_def)
  have ok: "\<forall>c\<in>set ?ps. cand_ok d l rc c" using pf(1) candidates_ok [OF uk sq] by blast
  obtain rc1 where ex: "matchExact plan e d l cfg rc = Inr (rc1, length (filter (within cfg) ?ps), length (filter (\<lambda>c. \<not> within cfg c) ?ps))"
    and inv1: "recon_ok d rc1"
    and rc1: "rc1 = mark_lines e (lines_of ?ps (\<lambda>_. 1)) (rc\<lparr>recon_matches := recon_matches rc @ map (exact_row e) ?ps\<rparr>)"
    by (rule matchExact_total [OF inv sq pl])
  have mv: "length (filter (within cfg) ?ps) + length (filter (\<lambda>c. \<not> within cfg c) ?ps) = length ?ps"
    by (rule sum_length_filter_compl)
  have lo: "length (left_over l rc1) + length ?ps = length (left_over l rc)"
    using left_over_split [OF inv ok, of "\<lambda>_. 1" "rc\<lparr>recon_matches := recon_matches rc @ map (exact_row e) ?ps\<rparr>" e] pf(2)
    by (simp add: rc1 distinct_remdups_id)
  let ?cs = "candidates cfg d l rc1"
  note mc = matchConsolidated_cases [OF inv1 sq refl, of cfg l e]
  show ?thesis
  proof (cases "rival_sets ?cs")
    case True
    then have "(rc', sm, err) = (rc1, no_summary\<lparr>Matched := length (filter (within cfg) ?ps),
        Variance := length (filter (\<lambda>c. \<not> within cfg c) ?ps)\<rparr>, Some (PgError uniqueViolation))"
      using run ex mc(1) by (simp add: Match_def)
    then show ?thesis using True mv by (intro that [OF inv1 _ rc1 lo]) (simp_all add: inv1)
  next
    case False
    from mc(2) [OF this] obtain rc2 where c2: "matchConsolidated e d l cfg rc1 = Inr (rc2, length (remdups (map cd_line (consolidated_sets ?cs))))"
      and inv2: "recon_ok d rc2"
      and rc2: "rc2 = mark_lines e (lines_of (consolidated_sets ?cs) (\<lambda>c. int (length (group_of ?cs c))))
        (rc1\<lparr>recon_matches := recon_matches rc1 @ map (consolidated_row e ?cs) (consolidated_sets ?cs)\<rparr>)" by blast
    have out: "rc' = rc2" "err = None" "sm = \<lparr>Matched = length (filter (within cfg) ?ps) + length (remdups (map cd_line (consolidated_sets ?cs))),
        Variance = length (filter (\<lambda>c. \<not> within cfg c) ?ps), Unmatched_by = classify d l cfg rc2\<rparr>"
      using run ex c2 by (auto simp: Match_def no_summary_def)
    have uk1: "unique_keys (recon_records rc1)" using inv1 by (simp add: recon_ok_def)
    have lo2: "length (left_over l rc2) + length (remdups (map cd_line (consolidated_sets ?cs))) = length (left_over l rc1)"
      unfolding rc2 using candidates_ok [OF uk1 sq]
      by (intro left_over_split [OF inv1]) (auto simp: consolidated_sets_def)
    have "total_left sm = length (left_over l rc2)" using classify_total by (simp add: total_left_def out(3))
    then have "Matched sm + Variance sm + total_left sm = length (left_over l rc)"
      using lo lo2 mv by (simp add: out(3))
    then show ?thesis using False \<open>total_left sm = _\<close> out(1,2) inv2 lo2 rc2 by (intro that [OF inv1 _ rc1 lo]) simp_all
  qed
qed

text \<open>The same, for a caller.\<close>

lemma Match_accounts:
  assumes inv: "recon_ok d rc" and sq: "seq_ok d" and pl: "reorders plan" and run: "Match plan e d l cfg rc = (rc', sm, err)"
  shows "\<exists>rc1 m v. matchExact plan e d l cfg rc = Inr (rc1, m, v) \<and>
    (if rival_sets (candidates cfg d l rc1)
     then err = Some (PgError uniqueViolation) \<and> rc' = rc1 \<and> Matched sm + Variance sm = m + v
     else err = None \<and> Matched sm + Variance sm + total_left sm = length (left_over l rc) \<and>
          total_left sm = length (left_over l rc'))"
proof -
  let ?ps = "exact_picks plan (candidates cfg d l rc)"
  obtain rc1 where ex: "matchExact plan e d l cfg rc = Inr (rc1, length (filter (within cfg) ?ps), length (filter (\<lambda>c. \<not> within cfg c) ?ps))"
    and rc1: "rc1 = mark_lines e (lines_of ?ps (\<lambda>_. 1)) (rc\<lparr>recon_matches := recon_matches rc @ map (exact_row e) ?ps\<rparr>)"
    by (rule matchExact_total [OF inv sq pl])
  have mv: "length (filter (within cfg) ?ps) + length (filter (\<lambda>c. \<not> within cfg c) ?ps) = length ?ps"
    by (rule sum_length_filter_compl)
  obtain rc1' where rc1': "rc1' = mark_lines e (lines_of ?ps (\<lambda>_. 1)) (rc\<lparr>recon_matches := recon_matches rc @ map (exact_row e) ?ps\<rparr>)"
    and rival: "rival_sets (candidates cfg d l rc1') \<Longrightarrow> rc' = rc1' \<and> err = Some (PgError uniqueViolation) \<and>
           Matched sm + Variance sm = length ?ps"
    and other: "\<not> rival_sets (candidates cfg d l rc1') \<Longrightarrow> err = None \<and> total_left sm = length (left_over l rc') \<and>
           Matched sm + Variance sm + total_left sm = length (left_over l rc)"
    by (rule Match_outcome [OF inv sq pl run]) blast
  have "rc1' = rc1" by (simp only: rc1 rc1')
  with ex mv rival other show ?thesis by (intro exI conjI) (auto split: if_splits)
qed

end
