(* ===== verification/Recon_System.thy ===== *)
theory Recon_System
  imports Recon_Match
begin

text \<open>
  Running \<open>Match\<close> again until nothing changes, and the ledger and its reconciliation as one transition system. The locale
  \<open>recon_op\<close> is the contract of every operation of the package: it keeps the invariant and only adds evidence.
\<close>

subsection \<open>Running it again\<close>

lemma mark_lines_none: "(\<And>k. n k = None) \<Longrightarrow> mark_lines e n rc = rc"
  by (simp add: mark_lines_def)

lemma lines_of_Nil [simp]: "lines_of [] g k = None"
  by (simp add: lines_of_def)

text \<open>Nothing left that either rule could record.\<close>

definition settled :: "db \<Rightarrow> string \<Rightarrow> Config \<Rightarrow> recon \<Rightarrow> bool" where
  "settled d l cfg rc \<longleftrightarrow>
     (let cs = candidates cfg d l rc
      in filter (\<lambda>c. length (group_of cs c) = 1) cs = [] \<and> (consolidated_sets cs = [] \<or> rival_sets cs))"

lemma settled_stays:
  assumes inv: "recon_ok d rc" and sq: "seq_ok d" and pl: "reorders plan" and st: "settled d l cfg rc"
  shows "fst (Match plan e d l cfg rc) = rc"
proof -
  obtain rc' sm err where run: "Match plan e d l cfg rc = (rc', sm, err)" by (cases "Match plan e d l cfg rc")
  have none: "exact_picks plan (candidates cfg d l rc) = []"
    using st picks_facts(4) [OF pl] by (simp add: settled_def Let_def)
  obtain rc1 where
      rc1: "rc1 = mark_lines e (lines_of (exact_picks plan (candidates cfg d l rc)) (\<lambda>_. 1))
        (rc\<lparr>recon_matches := recon_matches rc @ map (exact_row e) (exact_picks plan (candidates cfg d l rc))\<rparr>)"
    and rival: "rival_sets (candidates cfg d l rc1) \<Longrightarrow> rc' = rc1"
    and other: "\<not> rival_sets (candidates cfg d l rc1) \<Longrightarrow>
        rc' = mark_lines e (lines_of (consolidated_sets (candidates cfg d l rc1))
               (\<lambda>c. int (length (group_of (candidates cfg d l rc1) c))))
             (rc1\<lparr>recon_matches := recon_matches rc1 @
                map (consolidated_row e (candidates cfg d l rc1)) (consolidated_sets (candidates cfg d l rc1))\<rparr>)"
    by (rule Match_outcome [OF inv sq pl run]) blast
  have "rc1 = rc" by (simp add: rc1 none mark_lines_none)
  moreover have "consolidated_sets (candidates cfg d l rc) = [] \<or> rival_sets (candidates cfg d l rc)"
    using st by (simp add: settled_def Let_def)
  ultimately have "rc' = rc" using rival other by (cases "rival_sets (candidates cfg d l rc)") (simp_all add: mark_lines_none)
  then show ?thesis by (simp add: run)
qed

lemma unsettled_progress:
  assumes inv: "recon_ok d rc" and sq: "seq_ok d" and pl: "reorders plan" and st: "\<not> settled d l cfg rc"
  shows "length (left_over l (fst (Match plan e d l cfg rc))) < length (left_over l rc)"
proof -
  obtain rc' sm err where run: "Match plan e d l cfg rc = (rc', sm, err)" by (cases "Match plan e d l cfg rc")
  let ?ps = "exact_picks plan (candidates cfg d l rc)"
  obtain rc1 where
      rc1: "rc1 = mark_lines e (lines_of ?ps (\<lambda>_. 1)) (rc\<lparr>recon_matches := recon_matches rc @ map (exact_row e) ?ps\<rparr>)"
    and lo: "length (left_over l rc1) + length ?ps = length (left_over l rc)"
    and rival: "rival_sets (candidates cfg d l rc1) \<Longrightarrow> rc' = rc1"
    and other: "\<not> rival_sets (candidates cfg d l rc1) \<Longrightarrow>
        length (left_over l rc') + length (remdups (map cd_line (consolidated_sets (candidates cfg d l rc1)))) = length (left_over l rc1)"
    by (rule Match_outcome [OF inv sq pl run]) blast
  have le: "length (left_over l rc') \<le> length (left_over l rc1)" using rival other by (metis le_add1 le_refl)
  show ?thesis
  proof (cases "?ps = []")
    case True
    then have same: "rc1 = rc" by (simp add: rc1 mark_lines_none)
    have "filter (\<lambda>c. length (group_of (candidates cfg d l rc) c) = 1) (candidates cfg d l rc) = []"
      using True picks_facts(4) [OF pl] by blast
    with st have "consolidated_sets (candidates cfg d l rc) \<noteq> []" "\<not> rival_sets (candidates cfg d l rc)"
      by (auto simp: settled_def Let_def)
    then show ?thesis using other lo by (simp add: same run) (metis add_cancel_left_right length_0_conv less_add_same_cancel1
      linorder_neqE_nat map_is_Nil_conv not_less_zero remdups_eq_nil_iff)
  next
    case False
    then have "0 < length ?ps" by simp
    then show ?thesis using le lo unfolding run fst_conv by linarith
  qed
qed

text \<open>One run need not be enough, but as many runs as there were open lines are.\<close>

lemma Match_settles_by:
  assumes sq: "seq_ok d" and inv: "recon_ok d (rs 0)" and pl: "\<And>i. reorders (plans i)"
    and step: "\<And>i. rs (Suc i) = fst (Match (plans i) (envs i) d l cfg (rs i))"
  shows "\<exists>n\<le>length (left_over l (rs 0)). \<forall>i\<ge>n. rs i = rs n"
proof -
  have ok: "recon_ok d (rs i)" for i
  proof (induction i)
    case (Suc i)
    obtain rc' sm err where "Match (plans i) (envs i) d l cfg (rs i) = (rc', sm, err)"
      by (cases "Match (plans i) (envs i) d l cfg (rs i)")
    with Match_outcome [OF Suc sq pl this] step show ?case by (metis fst_conv)
  qed (rule inv)
  have stay: "settled d l cfg (rs n) \<Longrightarrow> i \<ge> n \<Longrightarrow> rs i = rs n" for n i
  proof (induction i)
    case (Suc i)
    show ?case
    proof (cases "n \<le> i")
      case True
      then have "rs i = rs n" using Suc by simp
      then show ?thesis using step [of i] settled_stays [OF ok sq pl Suc.prems(1)] by simp
    next
      case False
      then have "n = Suc i" using Suc.prems(2) by simp
      then show ?thesis by simp
    qed
  qed simp
  have "\<exists>n\<le>length (left_over l (rs 0)). settled d l cfg (rs n)"
  proof (rule ccontr)
    assume "\<not> ?thesis"
    then have un: "\<not> settled d l cfg (rs n)" if "n \<le> length (left_over l (rs 0))" for n using that by blast
    have "length (left_over l (rs n)) + n \<le> length (left_over l (rs 0))" if "n \<le> Suc (length (left_over l (rs 0)))" for n
      using that
    proof (induction n)
      case (Suc n)
      then have "\<not> settled d l cfg (rs n)" using un by simp
      from unsettled_progress [OF ok sq pl this, of n "envs n"] step [of n] Suc show ?case by simp
    qed simp
    from this [of "Suc (length (left_over l (rs 0)))"] show False by simp
  qed
  with stay show ?thesis by blast
qed

subsection \<open>The contract of every operation\<close>

definition rec_fixed :: "rec_row \<Rightarrow> string option \<times> Asset \<times> int \<times> string option \<times> time option \<times> string option \<times> time" where
  "rec_fixed r =
     (rr_reference r, rr_asset r, rr_amount r, rr_direction r, rr_occurred r, rr_raw r, rr_ingested r)"

text \<open>Evidence is only added to: matches stay, lines keep what they said, and a matched line is final.\<close>

definition evidence_kept :: "recon \<Rightarrow> recon \<Rightarrow> bool" where
  "evidence_kept rc rc' \<longleftrightarrow>
     (\<exists>xs. recon_matches rc' = recon_matches rc @ xs) \<and>
     (\<forall>k r. map_of (recon_records rc) k = Some r \<longrightarrow>
        (\<exists>r'. map_of (recon_records rc') k = Some r' \<and> rec_fixed r' = rec_fixed r \<and> (rr_count r \<noteq> 0 \<longrightarrow> r' = r)))"

lemma evidence_kept_refl [simp]: "evidence_kept rc rc"
  by (simp add: evidence_kept_def)

lemma evidence_kept_trans: "evidence_kept a b \<Longrightarrow> evidence_kept b c \<Longrightarrow> evidence_kept a c"
  unfolding evidence_kept_def by (metis append.assoc)

locale recon_op =
  fixes run :: "db \<Rightarrow> recon \<Rightarrow> recon \<Rightarrow> bool"
  assumes keeps: "run d rc rc' \<Longrightarrow> seq_ok d \<Longrightarrow> recon_ok d rc \<Longrightarrow> recon_ok d rc' \<and> evidence_kept rc rc'"
begin

lemma many: "(run d)\<^sup>*\<^sup>* rc rc' \<Longrightarrow> seq_ok d \<Longrightarrow> recon_ok d rc \<Longrightarrow> recon_ok d rc' \<and> evidence_kept rc rc'"
proof (induction rule: rtranclp_induct)
  case (step y z)
  then show ?case using keeps [of d y z] evidence_kept_trans by blast
qed simp

end

lemma marked_kept:
  assumes "\<forall>c\<in>set ps. cand_ok d l rc c"
  shows "evidence_kept rc (mark_lines e (lines_of ps g) (rc\<lparr>recon_matches := recon_matches rc @ xs\<rparr>))"
proof -
  have "lines_of ps g k = None" if r: "map_of (recon_records rc) k = Some r" "rr_count r \<noteq> 0" for k r
  proof -
    have "cd_line c \<noteq> k" if "c \<in> set ps" for c using bspec [OF assms that] r by (auto simp: cand_ok_def)
    then show ?thesis by (simp add: lines_of_None)
  qed
  then show ?thesis
    by (fastforce simp: evidence_kept_def mark_lines_records rec_fixed_def split: option.splits)
qed

definition match_run :: "db \<Rightarrow> recon \<Rightarrow> recon \<Rightarrow> bool" where
  "match_run d rc rc' \<longleftrightarrow> (\<exists>plan e l cfg. reorders plan \<and> rc' = fst (Match plan e d l cfg rc))"

interpretation match_op: recon_op match_run
proof
  fix d rc rc'
  assume "match_run d rc rc'" and sq: "seq_ok d" and inv: "recon_ok d rc"
  then obtain plan e l cfg sm err where pl: "reorders plan" and run: "Match plan e d l cfg rc = (rc', sm, err)"
    unfolding match_run_def by (metis prod.collapse)
  let ?ps = "exact_picks plan (candidates cfg d l rc)"
  obtain rc1 where inv1: "recon_ok d rc1" and inv': "recon_ok d rc'"
    and rc1: "rc1 = mark_lines e (lines_of ?ps (\<lambda>_. 1)) (rc\<lparr>recon_matches := recon_matches rc @ map (exact_row e) ?ps\<rparr>)"
    and rival: "rival_sets (candidates cfg d l rc1) \<Longrightarrow> rc' = rc1"
    and other: "\<not> rival_sets (candidates cfg d l rc1) \<Longrightarrow>
        rc' = mark_lines e (lines_of (consolidated_sets (candidates cfg d l rc1))
               (\<lambda>c. int (length (group_of (candidates cfg d l rc1) c))))
             (rc1\<lparr>recon_matches := recon_matches rc1 @
                map (consolidated_row e (candidates cfg d l rc1)) (consolidated_sets (candidates cfg d l rc1))\<rparr>)"
    by (rule Match_outcome [OF inv sq pl run]) blast
  have uk: "unique_keys (recon_records rc)" "unique_keys (recon_records rc1)" using inv inv1 by (simp_all add: recon_ok_def)
  have ok: "\<forall>c\<in>set ?ps. cand_ok d l rc c" using picks_facts(1) [OF pl] candidates_ok [OF uk(1) sq] by blast
  have ok1: "\<forall>c\<in>set (consolidated_sets (candidates cfg d l rc1)). cand_ok d l rc1 c"
    using candidates_ok [OF uk(2) sq] by (auto simp: consolidated_sets_def)
  have "evidence_kept rc rc1" unfolding rc1 by (rule marked_kept [OF ok])
  moreover have "evidence_kept rc1 rc'"
    using rival other marked_kept [OF ok1] by (cases "rival_sets (candidates cfg d l rc1)") simp_all
  ultimately show "recon_ok d rc' \<and> evidence_kept rc rc'" using inv' evidence_kept_trans by blast
qed

lemma Register_keeps:
  assumes "Register l s rc = Inr rc'" "recon_ok d rc"
  shows "recon_ok d rc' \<and> evidence_kept rc rc'"
proof -
  have "map_of (recon_sources rc) k \<noteq> None \<Longrightarrow> map_of (recon_sources rc') k \<noteq> None" for k
  proof -
    assume "map_of (recon_sources rc) k \<noteq> None"
    then show "map_of (recon_sources rc') k \<noteq> None"
      using assms(1) by (auto simp: Register_def map_add_def split: if_splits option.splits)
  qed
  moreover have same: "recon_records rc' = recon_records rc" "recon_matches rc' = recon_matches rc"
    using assms(1) by (auto simp: Register_def split: if_splits)
  moreover have "matches_of rc' = matches_of rc" by (simp add: matches_of_def fun_eq_iff same)
  then have "line_ok d rc' = line_ok d rc" by (simp add: line_ok_def fun_eq_iff)
  ultimately show ?thesis using assms(2) by (fastforce simp: recon_ok_def evidence_kept_def)
qed

lemma insert_record_keeps:
  assumes "insert_record json_ok e d l src r rc = Inr (rc', n)" "recon_ok d rc" "Record_validate r = None"
  shows "recon_ok d rc' \<and> evidence_kept rc rc'"
proof (cases "rc' = rc")
  case False
  let ?k = "(l, src, RecID r)"
  have rc': "rc' = rc\<lparr>recon_records := recon_records rc @ [(?k, record_row e r)]\<rparr>" and fresh: "map_of (recon_records rc) ?k = None"
    and refs: "map_of (recon_sources rc) (l, src) \<noteq> None" "map_of (assets d) (l, RecAsset r) \<noteq> None"
    using assms(1) False by (auto simp: insert_record_def split: if_splits)
  have ms: "matches_of rc' = matches_of rc" by (simp add: rc' matches_of_def fun_eq_iff)
  have amount: "0 < rr_amount (record_row e r)" "rr_count (record_row e r) = 0"
    using assms(3) by (auto simp: record_row_def Record_validate_None orZero_def)
  have nk: "?k \<notin> set (keys (recon_records rc))" using fresh unfolding map_of_None_keys .
  moreover have "mt_line ` set (recon_matches rc) \<subseteq> set (keys (recon_records rc))" using assms(2) by (simp add: recon_ok_def)
  ultimately have "mt_line x \<noteq> ?k" if "x \<in> set (recon_matches rc)" for x using that by (metis image_subset_iff)
  then have "matches_of rc ?k = []" by (simp add: matches_of_def filter_empty_conv)
  then have "line_ok d rc' ?k (record_row e r)"
    using amount by (simp add: line_ok_def ms)
  moreover have "line_ok d rc' = line_ok d rc" by (simp add: line_ok_def fun_eq_iff ms)
  moreover have "rr_asset (record_row e r) = RecAsset r" by (simp add: record_row_def)
  moreover have rows: "recon_records rc' = recon_records rc @ [(?k, record_row e r)]" "recon_sources rc' = recon_sources rc"
    "recon_matches rc' = recon_matches rc" by (simp_all add: rc')
  ultimately have "recon_ok d rc'" using assms(2) refs nk unfolding recon_ok_def rows by auto
  moreover have "evidence_kept rc rc'" using fresh by (auto simp: evidence_kept_def rc' map_add_def split: option.splits)
  ultimately show ?thesis by blast
qed (use assms(2) in simp)

lemma stage_records_keeps:
  assumes "stage_records json_ok e d l src rs rc n = (rc', m, err)" "recon_ok d rc" "\<forall>r\<in>set rs. Record_validate r = None"
  shows "recon_ok d rc' \<and> evidence_kept rc rc'"
  using assms
proof (induction rs arbitrary: rc n)
  case (Cons r rs)
  show ?case
  proof (cases "insert_record json_ok e d l src r rc")
    case (Inr x)
    obtain rc1 j where x: "x = (rc1, j)" by (cases x)
    have k1: "recon_ok d rc1 \<and> evidence_kept rc rc1" using insert_record_keeps [of json_ok e d l src r rc rc1 j] Inr x Cons.prems by simp
    moreover have "stage_records json_ok e d l src rs rc1 (n + j) = (rc', m, err)" using Cons.prems(1) Inr x by simp
    ultimately have "recon_ok d rc' \<and> evidence_kept rc1 rc'" using Cons.IH Cons.prems(3) by simp
    with k1 show ?thesis using evidence_kept_trans by blast
  qed (use Cons.prems in simp)
qed simp

lemma Ingest_keeps:
  assumes "Ingest json_ok e d l src rs rc = (rc', n, err)" "recon_ok d rc"
  shows "recon_ok d rc' \<and> evidence_kept rc rc'"
  using assms stage_records_keeps [of json_ok e d l src rs rc 0 rc' n err] validate_records_None [of rs]
  by (auto simp: Ingest_def split: option.splits)

definition stage_run :: "db \<Rightarrow> recon \<Rightarrow> recon \<Rightarrow> bool" where
  "stage_run d rc rc' \<longleftrightarrow>
     (\<exists>l s. Register l s rc = Inr rc') \<or>
     (\<exists>json_ok e l src rs. rc' = fst (Ingest json_ok e d l src rs rc)) \<or>
     (\<exists>json_ok e l s since. rc' = fst (Pull json_ok e d l s since rc))"

interpretation stage_op: recon_op stage_run
proof
  fix d rc rc'
  assume run: "stage_run d rc rc'" and inv: "recon_ok d rc"
  have ing: "recon_ok d (fst (Ingest json_ok e d l src rs rc)) \<and> evidence_kept rc (fst (Ingest json_ok e d l src rs rc))"
    for json_ok e l src rs
    using Ingest_keeps [OF _ inv] by (metis prod.collapse)
  then have "recon_ok d (fst (Pull json_ok e d l s since rc)) \<and> evidence_kept rc (fst (Pull json_ok e d l s since rc))"
    for json_ok e l s since
    using inv by (auto simp: Pull_def split: sum.splits)
  with run ing Register_keeps [OF _ inv] show "recon_ok d rc' \<and> evidence_kept rc rc'" unfolding stage_run_def by blast
qed

subsection \<open>The ledger and its reconciliation, together\<close>

inductive recon_step :: "db \<times> recon \<Rightarrow> db \<times> recon \<Rightarrow> bool" where
  ledger_moves_on: "giro_step d d' \<Longrightarrow> recon_step (d, rc) (d', rc)"
| registers: "Register l s rc = Inr rc' \<Longrightarrow> recon_step (d, rc) (d, rc')"
| ingests: "rc' = fst (Ingest json_ok e d l src rs rc) \<Longrightarrow> recon_step (d, rc) (d, rc')"
| pulls: "rc' = fst (Pull json_ok e d l s since rc) \<Longrightarrow> recon_step (d, rc) (d, rc')"
| matches: "reorders plan \<Longrightarrow> rc' = fst (Match plan e d l cfg rc) \<Longrightarrow> recon_step (d, rc) (d, rc')"
| checks: "reorders plan \<Longrightarrow> rc' = fst (Recon_Check plan e d l cfg olderThan rc) \<Longrightarrow> recon_step (d, rc) (d, rc')"

inductive_cases recon_stepE: "recon_step (d, rc) (d', rc')"

lemma Recon_Check_state: "fst (Recon_Check plan e d l cfg olderThan rc) = fst (Match plan e d l cfg rc)"
  by (simp add: Recon_Check_def split: prod.splits option.splits)

lemma recon_step_keeps:
  assumes "recon_step (d, rc) (d', rc')" "sys_ok d" "recon_ok d rc"
  shows "sys_ok d' \<and> recon_ok d' rc' \<and> giro_step\<^sup>*\<^sup>* d d' \<and> evidence_kept rc rc'"
proof -
  have sq: "seq_ok d" using assms(2) by (simp add: sys_ok_def book_ok_def)
  consider "giro_step d d'" "rc' = rc" | "d' = d" "match_run d rc rc'" | "d' = d" "stage_run d rc rc'"
    using assms(1) by (rule recon_stepE) (unfold Recon_Check_state match_run_def stage_run_def, blast+)
  then show ?thesis
  proof cases
    case 1
    then have "sys_ok d' \<and> history_kept d d'" using giro_step_keeps assms(2) by blast
    then show ?thesis using 1 recon_ok_kept assms(3) by auto
  next
    case 2
    then show ?thesis using match_op.keeps [OF 2(2) sq assms(3)] assms(2) by simp
  next
    case 3
    then show ?thesis using stage_op.keeps [OF 3(2) sq assms(3)] assms(2) by simp
  qed
qed

definition recon_reachable :: "db \<times> recon \<Rightarrow> bool" where
  "recon_reachable st \<longleftrightarrow> recon_step\<^sup>*\<^sup>* (empty_db, empty_recon) st"

lemma recon_steps_keep:
  assumes "recon_step\<^sup>*\<^sup>* st st'" "sys_ok (fst st)" "recon_ok (fst st) (snd st)"
  shows "sys_ok (fst st') \<and> recon_ok (fst st') (snd st') \<and> giro_step\<^sup>*\<^sup>* (fst st) (fst st') \<and> evidence_kept (snd st) (snd st')"
  using assms
proof (induction rule: rtranclp_induct)
  case (step y z)
  then have "sys_ok (fst z) \<and> recon_ok (fst z) (snd z) \<and> giro_step\<^sup>*\<^sup>* (fst y) (fst z) \<and> evidence_kept (snd y) (snd z)"
    using recon_step_keeps [of "fst y" "snd y" "fst z" "snd z"] by simp
  with step show ?case using evidence_kept_trans by (metis rtranclp_trans)
qed simp

lemma empty_recon_ok: "recon_ok d empty_recon"
  by (simp add: recon_ok_def empty_recon_def)

lemma recon_reachable_ok:
  assumes "recon_reachable (d, rc)"
  shows "reachable d" "recon_ok d rc" "seq_ok d"
proof -
  have "sys_ok d \<and> recon_ok d rc \<and> giro_step\<^sup>*\<^sup>* empty_db d"
    using recon_steps_keep [of "(empty_db, empty_recon)" "(d, rc)"] assms empty_sys_ok empty_recon_ok
    by (simp add: recon_reachable_def)
  then show "reachable d" "recon_ok d rc" "seq_ok d" by (simp_all add: reachable_def sys_ok_def book_ok_def)
qed

lemma recon_reachable_step: "recon_reachable st \<Longrightarrow> recon_step st st' \<Longrightarrow> recon_reachable st'"
  unfolding recon_reachable_def by (rule rtranclp.rtrancl_into_rtrancl)

end
