(* ===== verification/Recon_Demo.thy ===== *)
theory Recon_Demo
  imports Giro_Demo Recon_System
begin

text \<open>
  Two small books for the worked instances: a wire that pays a batch, and a payment passed through from one counterparty to
  another under one reference.
\<close>

subsection \<open>A batch payment and a payment passed through\<close>

definition demo_wire :: Postings where
  "demo_wire = [usd ''external:bank'' ''alice'' 60, usd ''external:bank'' ''bob'' 40]"

definition demo_pass :: Postings where
  "demo_pass = [usd ''external:in'' ''alice'' 50, usd ''alice'' ''external:out'' 50]"

definition ref_opts :: "string \<Rightarrow> CommitOptions" where
  "ref_opts ref = demo_opts\<lparr>OReference := ref\<rparr>"

definition negative_db :: "db \<Rightarrow> Address \<Rightarrow> db" where
  "negative_db d a = (case SetAllowNegative demo_store d a ''USD/2'' True of Inr d' \<Rightarrow> d' | Inl _ \<Rightarrow> d)"

lemma negative_db_reachable: "reachable d \<Longrightarrow> reachable (negative_db d a)"
  unfolding negative_db_def
  by (cases "SetAllowNegative demo_store d a ''USD/2'' True") (auto intro: reachable_step giro_step.allow_negative)

lemma commit_db_reachable: "reachable d \<Longrightarrow> reachable (commit_db d p opts)"
  unfolding commit_db_def
  by (cases "CommitTransaction (\<lambda>_. demo_env) demo_store d p opts")
    (auto split: sum.splits intro: reachable_step giro_step.commit)

definition demo_wired :: db where
  "demo_wired = commit_db (negative_db demo_open ''external:bank'') demo_wire (ref_opts ''W1'')"

definition demo_passed :: db where
  "demo_passed = commit_db (negative_db demo_open ''external:in'') demo_pass (ref_opts ''P1'')"

lemma demo_recon_reachable: "reachable demo_wired" "reachable demo_passed"
  unfolding demo_wired_def demo_passed_def by (intro commit_db_reachable negative_db_reachable demo_open_reachable)+

definition demo_bank :: line_source where
  "demo_bank = \<lparr>SourceID = ''bank'', SourceName = ''Bank'', Fetch = (\<lambda>_. Inr []), SourceBalance = (\<lambda>_. Inr None)\<rparr>"

definition demo_line :: "string \<Rightarrow> string \<Rightarrow> int \<Rightarrow> Direction \<Rightarrow> Record" where
  "demo_line i ref a dir =
     \<lparr>RecID = i, RecReference = ref, RecAsset = ''USD/2'', RecAmount = Some a, RecDirection = dir,
      OccurredAt = 0, Raw = []\<rparr>"

definition demo_config :: Config where
  "demo_config = \<lparr>BoundaryPrefix = [], Tolerance = None\<rparr>"

definition demo_sources :: recon where
  "demo_sources = (case Register ''main'' demo_bank empty_recon of Inr rc \<Rightarrow> rc | Inl _ \<Rightarrow> empty_recon)"

definition staged_in :: "db \<Rightarrow> Record list \<Rightarrow> recon" where
  "staged_in d rs = fst (Ingest (\<lambda>_. True) demo_env d ''main'' ''bank'' rs demo_sources)"

lemma staged_reachable:
  assumes "reachable d"
  shows "recon_reachable (d, staged_in d rs)"
proof -
  have "giro_step\<^sup>*\<^sup>* empty_db d \<Longrightarrow> recon_step\<^sup>*\<^sup>* (empty_db, empty_recon) (d, empty_recon)"
    by (induction rule: rtranclp_induct) (auto intro: rtranclp.rtrancl_into_rtrancl recon_step.ledger_moves_on)
  then have "recon_reachable (d, empty_recon)" using assms by (simp add: recon_reachable_def reachable_def)
  moreover have "is_ok (Register ''main'' demo_bank empty_recon)" by code_simp
  then have "Register ''main'' demo_bank empty_recon = Inr demo_sources" by (auto simp: demo_sources_def is_ok_iff)
  ultimately have "recon_reachable (d, demo_sources)" using recon_reachable_step recon_step.registers by blast
  then show ?thesis unfolding staged_in_def using recon_reachable_step recon_step.ingests by blast
qed

definition demo_two_sets :: recon where
  "demo_two_sets = staged_in demo_wired [demo_line ''1'' ''W1'' 100 In, demo_line ''2'' ''W1'' 100 In]"

definition demo_one_set :: recon where
  "demo_one_set = staged_in demo_wired [demo_line ''1'' ''W1'' 100 In, demo_line ''2'' ''W9'' 5 In]"

definition demo_crossed :: recon where
  "demo_crossed = staged_in demo_passed [demo_line ''1'' ''P1'' 50 In, demo_line ''2'' ''P1'' 50 Unknown]"

definition match_demo :: "db \<Rightarrow> recon \<Rightarrow> recon \<times> Summary \<times> error option" where
  "match_demo d rc = Match (\<lambda>xs. xs) demo_env d ''main'' demo_config rc"

definition counts :: "recon \<Rightarrow> int list" where
  "counts rc = map (rr_count \<circ> snd) (recon_records rc)"

lemma demo_one_set_run:
  "(\<lambda>(rc, sm, err). (map mt_seq (recon_matches rc), map_option rr_count (map_of (recon_records rc) (''main'', ''bank'', ''1'')),
       Matched sm, Variance sm, total_left sm, err))
     (match_demo demo_wired demo_one_set) = ([1, 3], Some 2, 1, 0, 1, None)"
  by code_simp

lemma demo_one_set_matched: "map mt_seq (recon_matches (fst (match_demo demo_wired demo_one_set))) = [1, 3]"
  using demo_one_set_run by (auto split: prod.splits)

lemma demo_two_sets_fail: "snd (snd (match_demo demo_wired demo_two_sets)) = Some (PgError uniqueViolation)"
  by code_simp

lemma demo_crossed_first: "counts (fst (match_demo demo_passed demo_crossed)) = [1, 0]"
  by code_simp

lemma demo_crossed_second: "counts (fst (match_demo demo_passed (fst (match_demo demo_passed demo_crossed)))) = [1, 1]"
  by code_simp

lemma reorders_id [simp]: "reorders (\<lambda>xs. xs)"
  by (simp add: reorders_def)

end
