(* ===== verification/Storage_Observer.thy ===== *)
theory Storage_Observer
  imports Storage_System
begin

text \<open>
  What an observer is told of a commit (\<open>src/storage/observer.go\<close> and the calls in commit.go): how an error is classified as
  a refusal, and everything one call of \<open>CommitTransaction\<close> reports, in order: the events an \<open>Observer\<close> is handed and the spans a
  \<open>Tracer\<close> is asked to open and to end.  The spans are well nested and the outermost ends with the error the caller gets; the
  events tell of every restart and end with the outcome.
\<close>

subsection \<open>What an error says\<close>

text \<open>\<open>errors.As\<close> and \<open>errors.Is\<close>: the first error of the chain the question answers for.\<close>

fun err_find :: "(error \<Rightarrow> 'a option) \<Rightarrow> error \<Rightarrow> 'a option" where
  "err_find f (PostingError i e) =
     (case f (PostingError i e) of Some x \<Rightarrow> Some x | None \<Rightarrow> err_find f e)"
| "err_find f (BatchItemError i e) =
     (case f (BatchItemError i e) of Some x \<Rightarrow> Some x | None \<Rightarrow> err_find f e)"
| "err_find f e = f e"

definition err_is :: "(error \<Rightarrow> bool) \<Rightarrow> error \<Rightarrow> bool" where
  "err_is P e \<longleftrightarrow> err_find (\<lambda>x. if P x then Some () else None) e \<noteq> None"

fun as_funds :: "error \<Rightarrow> (Address \<times> Asset \<times> int \<times> int) option" where
  "as_funds (InsufficientFundsError a x available requested) = Some (a, x, available, requested)"
| "as_funds _ = None"

fun as_credit :: "error \<Rightarrow> (Address \<times> Asset \<times> int) option" where
  "as_credit (UnexpectedCreditError a x over) = Some (a, x, over)"
| "as_credit _ = None"

fun as_closed :: "error \<Rightarrow> Address option" where
  "as_closed (AccountClosedError a) = Some a"
| "as_closed _ = None"

fun as_unknown_asset :: "error \<Rightarrow> (Asset \<times> Asset) option" where
  "as_unknown_asset (UnknownAssetError x y) = Some (x, y)"
| "as_unknown_asset _ = None"

fun as_sweep :: "error \<Rightarrow> (Address \<times> Asset) option" where
  "as_sweep (UnboundedSweepError a x) = Some (a, x)"
| "as_sweep _ = None"

fun as_posting :: "error \<Rightarrow> (nat \<times> error) option" where
  "as_posting (PostingError i e) = Some (i, e)"
| "as_posting _ = None"

subsection \<open>Why the ledger said no\<close>

datatype RefusalCause =
    CauseInsufficientFunds
  | CauseUnexpectedCredit
  | CauseAccountClosed
  | CauseUnknownAsset
  | CauseUnboundedSweep
  | CauseInvalidPosting
  | CauseContentionGiveUp
  | CauseOther

definition RefusalCauses :: "RefusalCause list" where
  "RefusalCauses =
     [CauseInsufficientFunds, CauseUnexpectedCredit, CauseAccountClosed, CauseUnknownAsset,
      CauseUnboundedSweep, CauseInvalidPosting, CauseContentionGiveUp, CauseOther]"

text \<open>\<open>None\<close> is the pair of the empty cause and false: not a refusal.\<close>

definition CauseOf :: "error \<Rightarrow> RefusalCause option" where
  "CauseOf err =
     (if err_find as_funds err \<noteq> None then Some CauseInsufficientFunds
      else if err_find as_credit err \<noteq> None then Some CauseUnexpectedCredit
      else if err_find as_closed err \<noteq> None then Some CauseAccountClosed
      else if err_find as_unknown_asset err \<noteq> None then Some CauseUnknownAsset
      else if err_find as_sweep err \<noteq> None then Some CauseUnboundedSweep
      else if err_find as_posting err \<noteq> None \<or> err_is (\<lambda>e. e = ErrNoPostings) err then Some CauseInvalidPosting
      else None)"

definition assetOf :: "error \<Rightarrow> Asset" where
  "assetOf err =
     (case err_find as_funds err of Some (_, x, _) \<Rightarrow> x
      | None \<Rightarrow> (case err_find as_credit err of Some (_, x, _) \<Rightarrow> x
      | None \<Rightarrow> (case err_find as_unknown_asset err of Some (x, _) \<Rightarrow> x
      | None \<Rightarrow> [])))"

definition accountOf :: "error \<Rightarrow> Address" where
  "accountOf err =
     (case err_find as_funds err of Some (a, _) \<Rightarrow> a
      | None \<Rightarrow> (case err_find as_credit err of Some (a, _) \<Rightarrow> a
      | None \<Rightarrow> (case err_find as_closed err of Some a \<Rightarrow> a
      | None \<Rightarrow> [])))"

subsection \<open>Events and spans\<close>

text \<open>What the clock showed when a report was made, per attempt: the time since the call began, and since the locking
  statement was sent.\<close>

record clocks =
  since_start :: "nat \<Rightarrow> time"
  since_lock :: "nat \<Rightarrow> time"

record Commit =
  ev_ledger :: string
  ev_assets :: "Asset list"
  ev_postings :: nat
  ev_accounts :: nat
  ev_attempts :: nat
  ev_took :: time
  ev_addresses :: "Address list"

record Refusal =
  rf_ledger :: string
  rf_reason :: RefusalCause
  rf_asset :: Asset
  rf_took :: time
  rf_account :: Address

record Contention =
  ct_ledger :: string
  ct_waited :: time
  ct_attempt :: nat
  ct_restarted :: bool
  ct_accounts :: "Address list"

datatype event = Committed Commit | Refused Refusal | Contended Contention

datatype span = SpanCommit | SpanAttempt | SpanLock

text \<open>A call reports by opening a span, by ending it with the error the work produced, and by telling an event.\<close>

datatype report = Start span | End span "error option" | Told event

text \<open>What a store is wired to: neither to begin with.  An observer that is a tracer too is wired as both.\<close>

record wiring =
  w_observing :: bool
  w_tracing :: bool

definition Observe :: "bool \<Rightarrow> wiring \<Rightarrow> wiring" where
  "Observe is_tracer w = (let w1 = w\<lparr>w_observing := True\<rparr> in if is_tracer then w1\<lparr>w_tracing := True\<rparr> else w1)"

definition TraceWith :: "wiring \<Rightarrow> wiring" where
  "TraceWith w = w\<lparr>w_tracing := True\<rparr>"

text \<open>An event is handed on only if the store has an observer, a span only if it has a tracer.\<close>

fun heard :: "wiring \<Rightarrow> report \<Rightarrow> bool" where
  "heard w (Told ev) = w_observing w"
| "heard w n = w_tracing w"

definition reported :: "wiring \<Rightarrow> report list \<Rightarrow> report list" where
  "reported w ns = filter (heard w) ns"

fun told :: "report \<Rightarrow> event option" where
  "told (Told ev) = Some ev"
| "told _ = None"

definition refuse :: "Store \<Rightarrow> time \<Rightarrow> error \<Rightarrow> report list" where
  "refuse s took err =
     (case CauseOf err of
        None \<Rightarrow> []
      | Some cause \<Rightarrow>
          [Told (Refused \<lparr>rf_ledger = ledger s, rf_reason = cause, rf_asset = assetOf err, rf_took = took,
                          rf_account = accountOf err\<rparr>)])"

definition add_new :: "'a \<Rightarrow> 'a list \<Rightarrow> 'a list" where
  "add_new x xs = (if x \<in> set xs then xs else xs @ [x])"

definition observeCommitted :: "Store \<Rightarrow> Postings \<Rightarrow> nat \<Rightarrow> time \<Rightarrow> event" where
  "observeCommitted s p attempts took =
     (let assets = fold (\<lambda>x. add_new (PAsset x)) p [];
          addresses = fold (\<lambda>x acc. add_new (Destination x) (add_new (Source x) acc)) p []
      in Committed \<lparr>ev_ledger = ledger s, ev_assets = assets, ev_postings = length p,
           ev_accounts = length addresses, ev_attempts = attempts, ev_took = took, ev_addresses = addresses\<rparr>)"

definition restarted :: "Store \<Rightarrow> clocks \<Rightarrow> nat \<Rightarrow> event" where
  "restarted s c attempt =
     Contended \<lparr>ct_ledger = ledger s, ct_waited = since_start c attempt, ct_attempt = attempt,
                ct_restarted = True, ct_accounts = []\<rparr>"

definition gave_up :: "Store \<Rightarrow> time \<Rightarrow> event" where
  "gave_up s took =
     Refused \<lparr>rf_ledger = ledger s, rf_reason = CauseContentionGiveUp, rf_asset = [], rf_took = took, rf_account = []\<rparr>"

text \<open>The locking statement, in a span of its own; it tells which accounts it locked, in lock order.\<close>

definition lock_notes :: "Store \<Rightarrow> time \<Rightarrow> VolumeUpdate list \<Rightarrow> db \<Rightarrow> report list" where
  "lock_notes s waited us d =
     (case lockVolumes (ledger s) us d of
        Inl err \<Rightarrow> [Start SpanLock, End SpanLock (Some err)]
      | Inr _ \<Rightarrow>
          [Start SpanLock, End SpanLock None,
           Told (Contended \<lparr>ct_ledger = ledger s, ct_waited = waited, ct_attempt = 0, ct_restarted = False,
                            ct_accounts = map Account us\<rparr>)])"

definition failure :: "'a res \<Rightarrow> error option" where
  "failure r = (case r of Inl err \<Rightarrow> Some err | Inr _ \<Rightarrow> None)"

text \<open>One attempt: the locks are taken unless the key was found or the postings cannot be priced.\<close>

definition attempt_notes ::
  "Store \<Rightarrow> clocks \<Rightarrow> env \<Rightarrow> db \<Rightarrow> db \<Rightarrow> Postings \<Rightarrow> CommitOptions \<Rightarrow> string \<Rightarrow> nat \<Rightarrow> report list" where
  "attempt_notes s c e seen d p opts ikHash attempt =
     Start SpanAttempt #
     (case replay_lookup (ledger s) seen (OIdempotencyKey opts) ikHash of
        Inr None \<Rightarrow>
          (case VolumeUpdates p of Inl err \<Rightarrow> [] | Inr us \<Rightarrow> lock_notes s (since_lock c attempt) us d)
      | _ \<Rightarrow> []) @
     [End SpanAttempt (failure (commitOnce s e seen d p opts ikHash attempt))]"

text \<open>The loop of attempts, with the error it leaves in \<open>outcome\<close>.\<close>

fun observed_loop ::
  "Store \<Rightarrow> clocks \<Rightarrow> Postings \<Rightarrow> (nat \<Rightarrow> env) \<Rightarrow> (nat \<Rightarrow> 'r res) \<Rightarrow> (nat \<Rightarrow> report list) \<Rightarrow> nat \<Rightarrow> nat \<Rightarrow>
   report list \<times> error option" where
  "observed_loop s c p envs once reps 0 attempt =
     ([Told (gave_up s (since_start c attempt))], Some (ErrGaveUp maxAttempts (ledger s)))"
| "observed_loop s c p envs once reps (Suc n) attempt =
     (case once attempt of
        Inr x \<Rightarrow> (reps attempt @ [Told (observeCommitted s p (attempt + 1) (since_start c attempt))], None)
      | Inl err \<Rightarrow>
          if \<not> retryable err then (reps attempt @ refuse s (since_start c attempt) err, Some err)
          else
            (case backoff (envs attempt) of
               Some err' \<Rightarrow> (reps attempt @ [Told (restarted s c attempt)], Some err')
             | None \<Rightarrow>
                 (case observed_loop s c p envs once reps n (Suc attempt) of
                    (rest, outcome) \<Rightarrow> (reps attempt @ Told (restarted s c attempt) # rest, outcome))))"

text \<open>All of \<open>CommitTransaction\<close>: the span of the call is ended with the outcome.\<close>

definition commit_body ::
  "clocks \<Rightarrow> (nat \<Rightarrow> env) \<Rightarrow> Store \<Rightarrow> db \<Rightarrow> Postings \<Rightarrow> CommitOptions \<Rightarrow> report list \<times> error option" where
  "commit_body c envs s d p opts =
     (case validate_request p of
        Some err \<Rightarrow> (refuse s (since_start c 0) err, Some err)
      | None \<Rightarrow>
          (case checkAssets s d p of
             (s', Some err) \<Rightarrow> (refuse s' (since_start c 0) err, Some err)
           | (s', None) \<Rightarrow>
               (case idempotencyHash p opts of
                  Inl err \<Rightarrow> ([], Some err)
                | Inr ikHash \<Rightarrow>
                    observed_loop s' c p envs (\<lambda>i. commitOnce s' (envs i) d d p opts ikHash i)
                      (\<lambda>i. attempt_notes s' c (envs i) d d p opts ikHash i) maxAttempts 0)))"

definition commit_notes ::
  "clocks \<Rightarrow> (nat \<Rightarrow> env) \<Rightarrow> Store \<Rightarrow> db \<Rightarrow> Postings \<Rightarrow> CommitOptions \<Rightarrow> report list" where
  "commit_notes c envs s d p opts =
     (case commit_body c envs s d p opts of
        (ns, outcome) \<Rightarrow> Start SpanCommit # ns @ [End SpanCommit outcome])"

subsection \<open>Spans are well nested\<close>

fun open_spans :: "span list \<Rightarrow> report list \<Rightarrow> span list option" where
  "open_spans st [] = Some st"
| "open_spans st (Start sp # ns) = open_spans (sp # st) ns"
| "open_spans st (End sp err # ns) =
     (case st of [] \<Rightarrow> None | inner # st' \<Rightarrow> if inner = sp then open_spans st' ns else None)"
| "open_spans st (Told ev # ns) = open_spans st ns"

definition balanced :: "report list \<Rightarrow> bool" where
  "balanced ns \<longleftrightarrow> (\<forall>st. open_spans st ns = Some st)"

lemma open_spans_append:
  "open_spans st (ns @ ms) = (case open_spans st ns of None \<Rightarrow> None | Some st' \<Rightarrow> open_spans st' ms)"
  by (induction st ns rule: open_spans.induct) (auto split: list.splits)

lemma balancedI [intro]:
  "balanced []" "balanced [Told ev]"
  "balanced ns \<Longrightarrow> balanced ms \<Longrightarrow> balanced (ns @ ms)"
  "balanced ns \<Longrightarrow> balanced (Told ev # ns)"
  "balanced ns \<Longrightarrow> balanced (Start sp # ns @ [End sp err])"
  by (auto simp: balanced_def open_spans_append)

lemma balanced_refuse [intro]: "balanced (refuse s took err)"
  by (auto simp: refuse_def split: option.splits)

lemma balanced_attempt: "balanced (attempt_notes s c e seen d p opts h i)"
proof -
  have "balanced (lock_notes s w us d)" for w us
    by (simp add: lock_notes_def balanced_def split: sum.splits)
  then show ?thesis unfolding attempt_notes_def by (intro balancedI(5)) (auto split: sum.splits option.splits)
qed

lemma balanced_loop:
  assumes "\<And>i. balanced (reps i)"
  shows "balanced (fst (observed_loop s c p envs once reps n attempt))"
proof (induction n arbitrary: attempt)
  case (Suc n)
  then show ?case using assms by (auto split: sum.splits option.splits prod.splits) (metis balancedI fst_conv)+
qed auto

lemma balanced_body: "balanced (fst (commit_body c envs s d p opts))"
  unfolding commit_body_def
  by (auto simp: balanced_loop balanced_attempt split: option.splits prod.splits sum.splits)

lemma commit_notes_balanced: "balanced (commit_notes c envs s d p opts)"
  using balanced_body [of c envs s d p opts] by (auto simp: commit_notes_def split: prod.splits)

text \<open>Without a tracer no span is left over, and without an observer the spans are still nested.\<close>

lemma balanced_reported:
  assumes "balanced ns"
  shows "balanced (reported w ns)"
proof (cases "w_tracing w")
  case True
  have "open_spans st (reported w ns) = open_spans st ns" for st
    by (induction st ns rule: open_spans.induct) (use True in \<open>auto simp: reported_def split: list.splits\<close>)
  then show ?thesis using assms by (simp add: balanced_def)
next
  case False
  have "open_spans st (reported w ns) = Some st" for st
  proof (induction ns)
    case (Cons n ns)
    then show ?case using False by (cases n) (simp_all add: reported_def)
  qed (simp add: reported_def)
  then show ?thesis by (simp add: balanced_def)
qed

subsection \<open>What the events say\<close>

text \<open>The events other than the waiting for locks.\<close>

fun deal :: "event \<Rightarrow> bool" where
  "deal (Contended e) = ct_restarted e"
| "deal _ = True"

definition deals :: "report list \<Rightarrow> event list" where
  "deals ns = filter deal (List.map_filter told ns)"

lemma deals_simps [simp]:
  "deals [] = []" "deals (ns @ ms) = deals ns @ deals ms" "deals (Start sp # ns) = deals ns"
  "deals (End sp err # ns) = deals ns" "deals (Told ev # ns) = (if deal ev then ev # deals ns else deals ns)"
  by (simp_all add: deals_def map_filter_def)

lemma deal_simps [simp]: "deal (restarted s c i)" "deal (gave_up s w)" "deal (observeCommitted s p n w)"
  by (simp_all add: restarted_def gave_up_def observeCommitted_def Let_def)

lemma deals_attempt: "deals (attempt_notes s c e seen d p opts h i) = []"
  by (simp add: attempt_notes_def lock_notes_def split: sum.splits option.splits)

definition restarts :: "Store \<Rightarrow> clocks \<Rightarrow> nat \<Rightarrow> nat \<Rightarrow> event list" where
  "restarts s c m n = map (restarted s c) [m..<n]"

lemma restarts_Cons: "restarts s c m (m + Suc k) = restarted s c m # restarts s c (Suc m) (Suc m + k)"
  by (simp add: restarts_def upt_conv_Cons del: upt_Suc)

definition last_word :: "Store \<Rightarrow> clocks \<Rightarrow> Postings \<Rightarrow> (nat \<Rightarrow> env) \<Rightarrow> nat \<Rightarrow> 'r res \<Rightarrow> event list \<Rightarrow> bool" where
  "last_word s c p envs n res ends \<longleftrightarrow>
     (case res of
        Inr _ \<Rightarrow> ends = [observeCommitted s p (Suc n) (since_start c n)]
      | Inl err \<Rightarrow>
          ends = deals (refuse s (since_start c n) err) \<or>
          (err = ErrGaveUp maxAttempts (ledger s) \<and> ends = [gave_up s (since_start c n)]) \<or>
          (\<exists>i. ctx_err (envs i) = Some err \<and> ends = []))"

lemma observed_loop_tells:
  assumes "retry_loop (ledger s) envs once n attempt = (r, res)" and "\<And>i. deals (reps i) = []"
  shows "snd (observed_loop s c p envs once reps n attempt) = failure res \<and>
    (\<exists>ends. deals (fst (observed_loop s c p envs once reps n attempt)) = restarts s c attempt (attempt + r) @ ends \<and>
       last_word s c p envs (attempt + r) res ends)"
  using assms(1)
proof (induction n arbitrary: attempt r)
  case 0
  then show ?case by (auto simp: restarts_def failure_def last_word_def)
next
  case (Suc n)
  show ?case
  proof (cases "once attempt")
    case (Inr x)
    then have "r = 0" "res = Inr x" using Suc.prems by simp_all
    then show ?thesis by (simp add: Inr restarts_def failure_def last_word_def assms(2))
  next
    case (Inl err)
    show ?thesis
    proof (cases "retryable err")
      case False
      then have "r = 0" "res = Inl err" using Suc.prems Inl by simp_all
      then show ?thesis by (auto simp: Inl False restarts_def failure_def last_word_def assms(2))
    next
      case True
      show ?thesis
      proof (cases "ctx_err (envs attempt)")
        case (Some e)
        then have "r = Suc 0" "res = Inl e" using Suc.prems Inl True by (auto simp: backoff_def)
        then show ?thesis using Inl True Some restarts_Cons [of s c attempt 0]
          by (auto simp: backoff_def failure_def last_word_def assms(2) restarts_def)
      next
        case None
        obtain r' where r': "retry_loop (ledger s) envs once n (Suc attempt) = (r', res)" "r = Suc r'"
          using Suc.prems Inl True None by (auto simp: backoff_def split: prod.splits)
        obtain rest out where ro: "observed_loop s c p envs once reps n (Suc attempt) = (rest, out)" by fastforce
        from Suc.IH [OF r'(1), unfolded ro] show ?thesis
          using Inl True None r'(2) ro restarts_Cons [of s c attempt r'] by (auto simp: backoff_def assms(2))
      qed
    qed
  qed
qed

text \<open>An observer hears of a commit exactly when the call succeeds, once and last, and before it of each restart; it
  hears why the ledger said no, or that the commit gave up, or nothing when the call was cut short.  The span of the
  call ends with the error the caller gets.\<close>

lemma commit_body_tells:
  assumes "CommitTransaction envs s d p opts = (s', res)"
  shows "snd (commit_body c envs s d p opts) = failure res"
    and "\<exists>n s1 ends. ledger s1 = ledger s \<and> deals (fst (commit_body c envs s d p opts)) = restarts s1 c 0 n @ ends \<and>
      retries s' = retries s + int n \<and> last_word s1 c p envs n res ends"
proof -
  have "snd (commit_body c envs s d p opts) = failure res \<and>
    (\<exists>n s1 ends. ledger s1 = ledger s \<and> deals (fst (commit_body c envs s d p opts)) = restarts s1 c 0 n @ ends \<and>
      retries s' = retries s + int n \<and> last_word s1 c p envs n res ends)"
  proof (cases "validate_request p")
    case (Some err)
    then have "s' = s" "res = Inl err" using assms by (auto simp: CommitTransaction_def)
    then show ?thesis using Some
      by (auto simp: commit_body_def failure_def last_word_def restarts_def intro!: exI [of _ 0] exI [of _ s])
  next
    case None
    obtain s1 e where ca: "checkAssets s d p = (s1, e)" by (cases "checkAssets s d p")
    have l: "ledger s1 = ledger s" "retries s1 = retries s"
      using ca by (auto simp: checkAssets_def Let_def split: if_splits list.splits)
    show ?thesis
    proof (cases e)
      case (Some err)
      then have "s' = s1" "res = Inl err" using assms None ca by (auto simp: CommitTransaction_def)
      then show ?thesis using Some None ca l
        by (auto simp: commit_body_def failure_def last_word_def restarts_def intro!: exI [of _ 0] exI [of _ s1])
    next
      case no: None
      show ?thesis
      proof (cases "idempotencyHash p opts")
        case (Inl err)
        then have "s' = s1" "res = Inl err" using assms None ca no by (auto simp: CommitTransaction_def)
        moreover have "CauseOf err = None" using Inl
          by (auto simp: idempotencyHash_def CauseOf_def err_is_def split: if_splits)
        ultimately show ?thesis using Inl None ca no l
          by (auto simp: commit_body_def failure_def restarts_def last_word_def refuse_def
              intro!: exI [of _ 0] exI [of _ s1])
      next
        case (Inr h)
        define once where "once i = commitOnce s1 (envs i) d d p opts h i" for i
        obtain r where r: "retry_loop (ledger s1) envs once maxAttempts 0 = (r, res)" "s' = add_retries r s1"
          using assms None ca no Inr unfolding once_def by (auto simp: CommitTransaction_def split: prod.splits)
        have rt: "retries s' = retries s + int r" using r(2) l(2) by (simp add: add_retries_def)
        define reps where "reps i = attempt_notes s1 c (envs i) d d p opts h i" for i
        have quiet: "deals (reps i) = []" for i by (simp add: reps_def deals_attempt)
        have body: "commit_body c envs s d p opts = observed_loop s1 c p envs once reps maxAttempts 0"
          using None ca no Inr unfolding once_def reps_def by (simp add: commit_body_def)
        from observed_loop_tells [where reps = reps and c = c and p = p, OF r(1) quiet] show ?thesis
          unfolding body using l(1) rt by (intro conjI) (auto intro!: exI [of _ r] exI [of _ s1])
      qed
    qed
  qed
  then show "snd (commit_body c envs s d p opts) = failure res"
    "\<exists>n s1 ends. ledger s1 = ledger s \<and> deals (fst (commit_body c envs s d p opts)) = restarts s1 c 0 n @ ends \<and>
      retries s' = retries s + int n \<and> last_word s1 c p envs n res ends"
    by blast+
qed

text \<open>The two causes of the list that no error is classified as.\<close>

lemma CauseOf_range: "CauseOf err \<notin> {Some CauseContentionGiveUp, Some CauseOther}"
  by (simp add: CauseOf_def)

end
