(* ===== verification/Obs.thy ===== *)
theory Obs
  imports Storage_Observer
begin

text \<open>
  The OpenTelemetry half of observability (\<open>src/obs\<close>): the catalogue of metrics and its arithmetic, the observer that
  turns what the engine reports into samples, span events and span statuses.  The OpenTelemetry SDK is not in the
  repository: that it may refuse to create an instrument is the parameter \<open>refuses\<close>, that a span records is the
  parameter \<open>recording\<close>; a sample is what the instrument was given, and a series is an instrument with a set of labels.
\<close>

subsection \<open>The catalogue\<close>

datatype kind = Counter | Histogram

record Metric =
  MeName :: string
  MeKind :: kind
  MeUnit :: string
  MeLabels :: "string list"

definition Metrics :: "Metric list" where
  "Metrics =
     [\<lparr>MeName = ''giro.transactions'', MeKind = Counter, MeUnit = ''{transaction}'',
       MeLabels = [''giro.ledger'', ''giro.asset'']\<rparr>,
      \<lparr>MeName = ''giro.refusals'', MeKind = Counter, MeUnit = ''{transaction}'',
       MeLabels = [''giro.ledger'', ''giro.asset'', ''giro.reason'']\<rparr>,
      \<lparr>MeName = ''giro.commit.duration'', MeKind = Histogram, MeUnit = ''s'', MeLabels = [''giro.ledger'']\<rparr>,
      \<lparr>MeName = ''giro.lock.wait'', MeKind = Histogram, MeUnit = ''s'', MeLabels = [''giro.ledger'']\<rparr>,
      \<lparr>MeName = ''giro.commit.attempts'', MeKind = Histogram, MeUnit = ''{attempt}'', MeLabels = [''giro.ledger'']\<rparr>,
      \<lparr>MeName = ''giro.commit.restarts'', MeKind = Counter, MeUnit = ''{restart}'', MeLabels = [''giro.ledger'']\<rparr>,
      \<lparr>MeName = ''giro.postings'', MeKind = Histogram, MeUnit = ''{posting}'', MeLabels = [''giro.ledger'']\<rparr>]"

definition label_factor :: "nat \<Rightarrow> nat \<Rightarrow> string \<Rightarrow> nat" where
  "label_factor nl na l =
     (if l = ''giro.ledger'' then nl
      else if l = ''giro.asset'' then na
      else if l = ''giro.reason'' then length RefusalCauses
      else 1)"

definition Cardinality :: "nat \<Rightarrow> nat \<Rightarrow> nat" where
  "Cardinality nl na =
     foldl (\<lambda>total m. total + foldl (\<lambda>series l. series * label_factor nl na l) 1 (MeLabels m)) 0 Metrics"

subsection \<open>The observer\<close>

text \<open>The names an exporter sees.\<close>

fun cause_text :: "RefusalCause \<Rightarrow> string" where
  "cause_text CauseInsufficientFunds = ''insufficient_funds''"
| "cause_text CauseUnexpectedCredit = ''unexpected_credit''"
| "cause_text CauseAccountClosed = ''account_closed''"
| "cause_text CauseUnknownAsset = ''unknown_asset''"
| "cause_text CauseUnboundedSweep = ''unbounded_sweep''"
| "cause_text CauseInvalidPosting = ''invalid_posting''"
| "cause_text CauseContentionGiveUp = ''contention_exhausted''"
| "cause_text CauseOther = ''other''"

fun span_text :: "span \<Rightarrow> string" where
  "span_text SpanCommit = ''giro.commit''"
| "span_text SpanAttempt = ''giro.commit.attempt''"
| "span_text SpanLock = ''giro.lock''"

text \<open>The values of attributes and samples; \<open>Seconds\<close> is a duration before it is divided by a second.\<close>

datatype attr = AString string | AInt nat | ASeconds time | AStrings "string list"

type_synonym attrs = "(string \<times> attr) list"

datatype reading = Count nat | Seconds time

record sample =
  sm_instrument :: string
  sm_value :: reading
  sm_labels :: attrs

record span_event =
  se_name :: string
  se_attrs :: attrs

record Observer =
  instruments :: "(string \<times> kind \<times> string) list"
  slowLock :: time

text \<open>\<open>New\<close> creates the instruments one by one and stops at the first the provider refuses.\<close>

definition wanted :: "(string \<times> kind \<times> string) list" where
  "wanted =
     [(''giro.transactions'', Counter, ''{transaction}''), (''giro.refusals'', Counter, ''{transaction}''),
      (''giro.commit.restarts'', Counter, ''{restart}''), (''giro.commit.duration'', Histogram, ''s''),
      (''giro.lock.wait'', Histogram, ''s''), (''giro.commit.attempts'', Histogram, ''{attempt}''),
      (''giro.postings'', Histogram, ''{posting}'')]"

definition Obs_New :: "(string \<Rightarrow> 'e option) \<Rightarrow> time \<Rightarrow> string \<times> 'e + Observer" where
  "Obs_New refuses slow =
     foldl (\<lambda>built i. case built of
              Inl e \<Rightarrow> Inl e
            | Inr ob \<Rightarrow>
                (case refuses (fst i) of
                   Some e \<Rightarrow> Inl (fst i, e)
                 | None \<Rightarrow> Inr (ob\<lparr>instruments := instruments ob @ [i]\<rparr>)))
       (Inr \<lparr>instruments = [], slowLock = slow\<rparr>) wanted"

definition ledgerAttr :: "string \<Rightarrow> string \<times> attr" where
  "ledgerAttr l = (''giro.ledger'', AString l)"

definition assetAttr :: "Asset \<Rightarrow> string \<times> attr" where
  "assetAttr a = (''giro.asset'', AString a)"

text \<open>Each handler gives the samples it records and the events it adds to the span of its context.\<close>

definition Obs_Committed :: "Observer \<Rightarrow> Commit \<Rightarrow> sample list \<times> span_event list" where
  "Obs_Committed ob e =
     (map (\<lambda>a. \<lparr>sm_instrument = ''giro.transactions'', sm_value = Count 1,
                 sm_labels = [ledgerAttr (ev_ledger e), assetAttr a]\<rparr>) (ev_assets e) @
      [\<lparr>sm_instrument = ''giro.commit.duration'', sm_value = Seconds (ev_took e), sm_labels = [ledgerAttr (ev_ledger e)]\<rparr>,
       \<lparr>sm_instrument = ''giro.commit.attempts'', sm_value = Count (ev_attempts e), sm_labels = [ledgerAttr (ev_ledger e)]\<rparr>,
       \<lparr>sm_instrument = ''giro.postings'', sm_value = Count (ev_postings e), sm_labels = [ledgerAttr (ev_ledger e)]\<rparr>],
      [\<lparr>se_name = ''giro.committed'',
        se_attrs = [ledgerAttr (ev_ledger e), (''giro.postings'', AInt (ev_postings e)),
                    (''giro.accounts'', AInt (ev_accounts e)), (''giro.attempts'', AInt (ev_attempts e)),
                    (''giro.addresses'', AStrings (ev_addresses e))]\<rparr>])"

definition Obs_Refused :: "Observer \<Rightarrow> Refusal \<Rightarrow> sample list \<times> span_event list" where
  "Obs_Refused ob e =
     (let attrs = [ledgerAttr (rf_ledger e), (''giro.reason'', AString (cause_text (rf_reason e)))] @
                  (if rf_asset e \<noteq> [] then [assetAttr (rf_asset e)] else []);
          evt = attrs @ (if rf_account e \<noteq> [] then [(''giro.account'', AString (rf_account e))] else [])
      in ([\<lparr>sm_instrument = ''giro.refusals'', sm_value = Count 1, sm_labels = attrs\<rparr>],
          [\<lparr>se_name = ''giro.refused'', se_attrs = evt\<rparr>]))"

definition Obs_Contended :: "Observer \<Rightarrow> Contention \<Rightarrow> sample list \<times> span_event list" where
  "Obs_Contended ob e =
     (if ct_restarted e
      then ([\<lparr>sm_instrument = ''giro.commit.restarts'', sm_value = Count 1, sm_labels = [ledgerAttr (ct_ledger e)]\<rparr>],
            [\<lparr>se_name = ''giro.restarted'',
              se_attrs = [ledgerAttr (ct_ledger e), (''giro.attempt'', AInt (ct_attempt e))]\<rparr>])
      else ([\<lparr>sm_instrument = ''giro.lock.wait'', sm_value = Seconds (ct_waited e), sm_labels = [ledgerAttr (ct_ledger e)]\<rparr>],
            if slowLock ob > 0 \<and> ct_waited e \<ge> slowLock ob
            then [\<lparr>se_name = ''giro.lock.slow'',
                   se_attrs = [ledgerAttr (ct_ledger e), (''giro.waited_seconds'', ASeconds (ct_waited e)),
                               (''giro.accounts'', AStrings (ct_accounts e))]\<rparr>]
            else []))"

definition handle :: "Observer \<Rightarrow> event \<Rightarrow> sample list \<times> span_event list" where
  "handle ob ev =
     (case ev of Committed e \<Rightarrow> Obs_Committed ob e | Refused e \<Rightarrow> Obs_Refused ob e | Contended e \<Rightarrow> Obs_Contended ob e)"

subsection \<open>Spans\<close>

text \<open>A span that has not ended, and one that has: its attributes, events and recorded errors, and its status, which is
  unset unless it is an error.\<close>

record live_span =
  ls_name :: string
  ls_attrs :: attrs
  ls_events :: "span_event list"
  ls_errors :: "error list"
  ls_status :: "error option"

record telemetry =
  samples :: "sample list"
  live :: "live_span list"
  ended :: "live_span list"

definition add_events :: "bool \<Rightarrow> span_event list \<Rightarrow> live_span list \<Rightarrow> live_span list" where
  "add_events recording evs sps =
     (case sps of [] \<Rightarrow> [] | sp # rest \<Rightarrow> (if recording then sp\<lparr>ls_events := ls_events sp @ evs\<rparr> else sp) # rest)"

text \<open>What \<open>Start\<close> opens, and what the function it returns does with the error the work produced.\<close>

definition Obs_Start :: "string \<Rightarrow> live_span" where
  "Obs_Start name = \<lparr>ls_name = name, ls_attrs = [], ls_events = [], ls_errors = [], ls_status = None\<rparr>"

definition Obs_End :: "error option \<Rightarrow> live_span \<Rightarrow> live_span" where
  "Obs_End outcome sp =
     (case outcome of
        None \<Rightarrow> sp
      | Some err \<Rightarrow>
          (case CauseOf err of
             Some cause \<Rightarrow>
               sp\<lparr>ls_attrs := ls_attrs sp @ [(''giro.reason'', AString (cause_text cause))],
                  ls_events := ls_events sp @ [\<lparr>se_name = ''giro.refused'', se_attrs = []\<rparr>]\<rparr>
           | None \<Rightarrow> sp\<lparr>ls_errors := ls_errors sp @ [err], ls_status := Some err\<rparr>))"

text \<open>The context of a call carries the innermost span.\<close>

fun receive :: "Observer \<Rightarrow> bool \<Rightarrow> report \<Rightarrow> telemetry \<Rightarrow> telemetry" where
  "receive ob recording (Start sp) t = t\<lparr>live := Obs_Start (span_text sp) # live t\<rparr>"
| "receive ob recording (End sp outcome) t =
     (case live t of
        [] \<Rightarrow> t
      | top1 # rest \<Rightarrow> t\<lparr>live := rest, ended := ended t @ [Obs_End outcome top1]\<rparr>)"
| "receive ob recording (Told ev) t =
     (case handle ob ev of (sms, evs) \<Rightarrow>
        t\<lparr>samples := samples t @ sms, live := add_events recording evs (live t)\<rparr>)"

definition exported :: "Observer \<Rightarrow> bool \<Rightarrow> report list \<Rightarrow> telemetry \<Rightarrow> telemetry" where
  "exported ob recording ns t = fold (receive ob recording) ns t"

subsection \<open>Series\<close>

definition series :: "sample list \<Rightarrow> (string \<times> (string \<times> attr) set) set" where
  "series sms = (\<lambda>s. (sm_instrument s, set (sm_labels s))) ` set sms"

definition samples_of :: "Observer \<Rightarrow> report list \<Rightarrow> sample list" where
  "samples_of ob ns = concat (map (\<lambda>ev. fst (handle ob ev)) (List.map_filter told ns))"

lemma Cardinality_eq: "Cardinality nl na = nl * (9 * na + 5)"
  by (simp add: Cardinality_def Metrics_def label_factor_def RefusalCauses_def algebra_simps)

lemma Obs_New_total: "Obs_New (\<lambda>_. None) slow = Inr \<lparr>instruments = wanted, slowLock = slow\<rparr>"
  by (simp add: Obs_New_def wanted_def)

lemma wanted_catalogued: "set wanted = (\<lambda>m. (MeName m, MeKind m, MeUnit m)) ` set Metrics"
  by (auto simp: wanted_def Metrics_def)

lemma exported_Nil [simp]: "exported ob rec [] t = t"
  by (simp add: exported_def)

lemma exported_Cons [simp]: "exported ob rec (n # ns) t = exported ob rec ns (receive ob rec n t)"
  by (simp add: exported_def)

lemma exported_append [simp]: "exported ob rec (ns @ ms) t = exported ob rec ms (exported ob rec ns t)"
  by (simp add: exported_def)

lemma samples_exported: "samples (exported ob rec ns t) = samples t @ samples_of ob ns"
proof (induction ns arbitrary: t)
  case (Cons n ns)
  show ?case
    by (cases n; simp add: Cons.IH samples_of_def map_filter_simps split: list.splits prod.splits)
qed (simp add: samples_of_def map_filter_simps)

subsection \<open>Spans are given back\<close>

text \<open>All but the events.\<close>

definition same_span :: "live_span \<Rightarrow> live_span \<Rightarrow> bool" where
  "same_span a b \<longleftrightarrow> ls_name b = ls_name a \<and> ls_attrs b = ls_attrs a \<and> ls_errors b = ls_errors a \<and> ls_status b = ls_status a"

lemma add_events_live:
  "\<exists>xs' sp'. add_events rc evs (xs @ sp # base) = xs' @ sp' # base \<and> length xs' = length xs \<and> same_span sp sp'"
proof (cases xs)
  case Nil
  then show ?thesis by (intro exI [of _ "[]"]) (simp add: add_events_def same_span_def)
next
  case (Cons x xs)
  then show ?thesis
    by (intro exI [of _ "(if rc then x\<lparr>ls_events := ls_events x @ evs\<rparr> else x) # xs"] exI [of _ sp])
      (simp add: add_events_def same_span_def)
qed

lemma exported_live:
  assumes "open_spans st ns = Some st'" "live t = xs @ sp # base" "length xs = length st"
  shows "\<exists>xs' sp' es. live (exported ob rc ns t) = xs' @ sp' # base \<and> length xs' = length st' \<and> same_span sp sp' \<and>
    ended (exported ob rc ns t) = ended t @ es"
  using assms
proof (induction ns arbitrary: st t xs sp)
  case Nil
  then show ?case by (simp add: same_span_def)
next
  case (Cons n ns)
  show ?case
  proof (cases n)
    case (Start k)
    with Cons.prems show ?thesis
      using Cons.IH [of "k # st" "receive ob rc n t" "Obs_Start (span_text k) # xs" sp] by simp
  next
    case (End k out)
    with Cons.prems obtain st0 where st: "st = k # st0" "open_spans st0 ns = Some st'" by (auto split: list.splits if_splits)
    then obtain x xs0 where "xs = x # xs0" "length xs0 = length st0" using Cons.prems(3) by (cases xs) auto
    with End Cons.prems st(2) show ?thesis using Cons.IH [of st0 "receive ob rc n t" xs0 sp] by auto
  next
    case (Told ev)
    obtain sms evs where h: "handle ob ev = (sms, evs)" by fastforce
    obtain xs1 sp1 where a: "add_events rc evs (xs @ sp # base) = xs1 @ sp1 # base" "length xs1 = length xs" "same_span sp sp1"
      using add_events_live by blast
    with Told Cons.prems h show ?thesis using Cons.IH [of st "receive ob rc n t" xs1 sp1]
      by (auto simp: same_span_def)
  qed
qed

text \<open>The span of a call ends with the outcome of the call, and whatever was open before is open again, untouched.\<close>

lemma commit_exported:
  assumes "CommitTransaction envs s d p opts = (s', res)"
  shows "\<exists>inner sp. live (exported ob rc (commit_notes c envs s d p opts) t) = live t \<and>
    ended (exported ob rc (commit_notes c envs s d p opts) t) = ended t @ inner @ [sp] \<and>
    ls_name sp = ''giro.commit'' \<and>
    ls_status sp = (case res of Inl err \<Rightarrow> if CauseOf err = None then Some err else None | Inr _ \<Rightarrow> None)"
proof -
  obtain ns out where body: "commit_body c envs s d p opts = (ns, out)" by fastforce
  have out: "out = failure res" using commit_body_tells(1) [OF assms, of c] body by simp
  have bal: "open_spans [] ns = Some []" using balanced_body [of c envs s d p opts] body by (simp add: balanced_def)
  let ?t = "receive ob rc (Start SpanCommit) t"
  have "live ?t = [] @ Obs_Start ''giro.commit'' # live t" by simp
  from exported_live [OF bal this, of ob rc] obtain sp es where sp: "live (exported ob rc ns ?t) = sp # live t"
    "same_span (Obs_Start ''giro.commit'') sp" "ended (exported ob rc ns ?t) = ended ?t @ es" by auto
  have "commit_notes c envs s d p opts = Start SpanCommit # ns @ [End SpanCommit out]" by (simp add: commit_notes_def body)
  then have "live (exported ob rc (commit_notes c envs s d p opts) t) = live t"
    "ended (exported ob rc (commit_notes c envs s d p opts) t) = ended t @ es @ [Obs_End out sp]"
    using sp by (simp_all del: receive.simps(1)) (simp_all)
  moreover have "ls_name (Obs_End out sp) = ''giro.commit''" "ls_status (Obs_End out sp) =
      (case res of Inl err \<Rightarrow> if CauseOf err = None then Some err else None | Inr _ \<Rightarrow> None)"
    using sp(2) out by (auto simp: Obs_End_def same_span_def Obs_Start_def failure_def split: sum.splits option.splits)
  ultimately show ?thesis by blast
qed

text \<open>A commit that gave up is counted among the refusals and still marks its span an error.\<close>

lemma gave_up_status: "CauseOf (ErrGaveUp n l) = None"
  by (simp add: CauseOf_def err_is_def)

subsection \<open>Setting up the providers\<close>

text \<open>\<open>setup.go\<close>.  What the SDK answers is a parameter; a provider runs until it is shut down, whatever shutting it down
  answers, and the global providers are the last that were set.\<close>

datatype provider = MeterProvider | TracerProvider

record providers =
  running :: "provider list"
  global_providers :: "provider list"

record 'e sdk =
  merge_err :: "string \<Rightarrow> 'e option"
  reader_err :: "'e option"
  exporter_err :: "'e option"
  instrument_err :: "string \<Rightarrow> 'e option"
  stop_err :: "provider \<Rightarrow> 'e option"

datatype 'e setup_error =
    BuildResource 'e | MetricExporter 'e | SpanExporter 'e | CreateInstrument string 'e | Stopping 'e

definition stop :: "'e sdk \<Rightarrow> provider \<Rightarrow> providers \<Rightarrow> providers \<times> 'e setup_error list" where
  "stop sdk p ps =
     (ps\<lparr>running := removeAll p (running ps)\<rparr>,
      (case stop_err sdk p of None \<Rightarrow> [] | Some e \<Rightarrow> [Stopping e]))"

text \<open>The options' own meter, if they have one, decides about the instruments.\<close>

definition Setup :: "'e sdk \<Rightarrow> string \<Rightarrow> (string \<Rightarrow> 'e option) option \<Rightarrow> time \<Rightarrow> providers \<Rightarrow>
    providers \<times> ('e setup_error list + Observer)" where
  "Setup sdk service meter slow ps =
     (case merge_err sdk service of
        Some e \<Rightarrow> (ps, Inl [BuildResource e])
      | None \<Rightarrow>
          (case reader_err sdk of
             Some e \<Rightarrow> (ps, Inl [MetricExporter e])
           | None \<Rightarrow>
               (let ps1 = ps\<lparr>running := running ps @ [MeterProvider]\<rparr>
                in case exporter_err sdk of
                     Some e \<Rightarrow> (case stop sdk MeterProvider ps1 of (ps2, errs) \<Rightarrow> (ps2, Inl (SpanExporter e # errs)))
                   | None \<Rightarrow>
                       (let ps2 = ps1\<lparr>running := running ps1 @ [TracerProvider],
                                      global_providers := [MeterProvider, TracerProvider]\<rparr>
                        in case Obs_New (case meter of None \<Rightarrow> instrument_err sdk | Some refuses \<Rightarrow> refuses) slow of
                             Inr ob \<Rightarrow> (ps2, Inr ob)
                           | Inl (name, e) \<Rightarrow>
                               (case stop sdk MeterProvider ps2 of
                                  (ps3, errs) \<Rightarrow>
                                    (case stop sdk TracerProvider ps3 of
                                       (ps4, errs') \<Rightarrow> (ps4, Inl (CreateInstrument name e # errs @ errs'))))))))"

text \<open>The function \<open>Setup\<close> returns: both are shut down, whatever the first answers.\<close>

definition shutdown :: "'e sdk \<Rightarrow> providers \<Rightarrow> providers \<times> 'e setup_error list" where
  "shutdown sdk ps =
     (case stop sdk TracerProvider ps of
        (ps1, errs) \<Rightarrow> (case stop sdk MeterProvider ps1 of (ps2, errs') \<Rightarrow> (ps2, errs @ errs')))"

text \<open>A failed set up leaves nothing running, an observer that was built has all its instruments, and shutting down stops both.
  Only a refused instrument leaves the global providers pointing at what was stopped.\<close>

lemma Obs_New_Inr: "Obs_New refuses slow = Inr ob \<Longrightarrow> ob = \<lparr>instruments = wanted, slowLock = slow\<rparr>"
  by (auto simp: Obs_New_def wanted_def split: option.splits)

lemma Setup_fails_clean:
  assumes "Setup sdk service meter slow ps = (ps', Inl errs)" and "running ps = []"
  shows "running ps' = [] \<and> errs \<noteq> [] \<and>
    (global_providers ps' = global_providers ps \<or>
     (\<exists>name e. hd errs = CreateInstrument name e \<and> global_providers ps' = [MeterProvider, TracerProvider]))"
  using assms by (auto simp: Setup_def stop_def Let_def split: option.splits sum.splits prod.splits)

lemma Setup_starts:
  assumes "Setup sdk service meter slow ps = (ps', Inr ob)" and "running ps = []"
  shows "ob = \<lparr>instruments = wanted, slowLock = slow\<rparr> \<and> running ps' = [MeterProvider, TracerProvider] \<and>
    global_providers ps' = [MeterProvider, TracerProvider] \<and> running (fst (shutdown sdk ps')) = []"
  using assms Obs_New_Inr
  by (auto simp: Setup_def stop_def shutdown_def Let_def split: option.splits sum.splits prod.splits)

subsection \<open>Printing the catalogue\<close>

text \<open>\<open>WriteCatalogue\<close>, to a writer that takes what it is given: the cells of the table under its header, and the numbers of
  the sentence below it.\<close>

fun kind_text :: "kind \<Rightarrow> string" where
  "kind_text Counter = ''counter''"
| "kind_text Histogram = ''histogram''"

definition join_comma :: "string list \<Rightarrow> string" where
  "join_comma ls = (case ls of [] \<Rightarrow> [] | l # rest \<Rightarrow> l @ concat (map (\<lambda>x. '', '' @ x) rest))"

definition WriteCatalogue :: "nat \<Rightarrow> nat \<Rightarrow> string list list \<times> nat \<times> nat \<times> nat \<times> nat" where
  "WriteCatalogue nl na =
     ([''METRIC'', ''KIND'', ''UNIT'', ''LABELS''] #
        map (\<lambda>m. [MeName m, kind_text (MeKind m), MeUnit m, join_comma (MeLabels m)]) Metrics,
      nl, na, length RefusalCauses, Cardinality nl na)"

text \<open>The sentence states a product and prints another number.\<close>

lemma WriteCatalogue_estimate:
  "snd (WriteCatalogue nl na) = (nl, na, 8, nl * (9 * na + 5))"
  by (simp add: WriteCatalogue_def Cardinality_eq RefusalCauses_def)

end
