(* ===== verification/Obs_Series.thy ===== *)
theory Obs_Series
  imports Obs
begin

text \<open>
  How many time series the observer of \<open>src/obs\<close> can produce for commits: which assets a refusal can name, and
  the bound of the catalogue.  Outside the bound are the refusals for assets the ledger does not handle, which are
  labelled with whatever the caller wrote.
\<close>

subsection \<open>Which assets a refusal can name\<close>

text \<open>Only the balance check reports an asset, and it is one of the request.\<close>

definition quiet :: "error \<Rightarrow> bool" where
  "quiet err \<longleftrightarrow> (case err of InsufficientFundsError _ _ _ _ \<Rightarrow> False | UnexpectedCreditError _ _ _ \<Rightarrow> False | _ \<Rightarrow> True)"

lemma quiet_simps [simp]:
  "quiet (PgError c)" "quiet (ErrLedgerNotFound l)" "quiet NilPanic" "quiet (ErrNilAmount i)" "quiet (AccountClosedError a)"
  "quiet (UnboundedSweepError a x)" "quiet (ErrText t)" "quiet (ErrDuplicateReference r)" "quiet (ErrIdempotencyMismatch k g w)"
  by (simp_all add: quiet_def)

lemma quiet_foldE: "(\<And>x s e. f x s = Inl e \<Longrightarrow> quiet e) \<Longrightarrow> foldE f xs s = Inl err \<Longrightarrow> quiet err"
  by (induction xs arbitrary: s) (auto simp: bindE_Inl_iff split: sum.splits)

lemma quiet_index: "index_postings i ps idx = Inl err \<Longrightarrow> quiet err"
  by (induction ps arbitrary: i idx) (auto split: option.splits if_splits)

lemma quiet_updates: "VolumeUpdates p = Inl err \<Longrightarrow> quiet err"
  by (auto simp: VolumeUpdates_def bindE_Inl_iff quiet_index)

lemma quiet_lock: "lockVolumes l us d = Inl err \<Longrightarrow> quiet err"
  unfolding lockVolumes_def materialise_def
  by (auto simp: bindE_Inl_iff insert_volume_row_def dest!: quiet_foldE [rotated] split: if_splits)

lemma quiet_resolve_from: "resolve_from bf run ps = Inl err \<Longrightarrow> quiet err"
  by (induction ps arbitrary: run) (auto simp: bindE_Inl_iff Let_def split: if_splits option.splits)

lemma quiet_resolve: "resolve_updates p us bf = Inl err \<Longrightarrow> quiet err"
  by (auto simp: resolve_updates_def resolveUpTo_def bindE_Inl_iff quiet_resolve_from quiet_updates split: if_splits)

lemma quiet_closed: "checkClosed bf us = Inl err \<Longrightarrow> quiet err"
  by (induction us) (auto split: if_splits)

lemma quiet_apply: "applyVolumes l us d = Inl err \<Longrightarrow> quiet err"
  unfolding applyVolumes_def
  by (rule quiet_foldE) (auto simp: apply_volume_def bindE_Inl_iff update_volume_row_def Let_def split: if_splits option.splits)

lemma quiet_allocate: "allocate l d = Inl err \<Longrightarrow> quiet err"
  by (auto simp: allocate_def bindE_Inl_iff update_ledger_row_def Let_def split: if_splits option.splits)

lemma quiet_pcv: "postCommitVolumes bf us = Inl err \<Longrightarrow> quiet err"
proof -
  have "post_commit_volumes bf us pcv = Inl err \<Longrightarrow> quiet err" for pcv
    by (induction us arbitrary: pcv) (auto split: option.splits)
  then show "postCommitVolumes bf us = Inl err \<Longrightarrow> quiet err" by (simp add: postCommitVolumes_def)
qed

lemma quiet_insertTx: "insertTransaction l e t d = Inl err \<Longrightarrow> quiet err"
  by (auto simp: insertTransaction_def bindE_Inl_iff mapErr_def insert_tx_row_def split: option.splits if_splits sum.splits)

lemma quiet_build: "build_moves l t xs run eff = Inl err \<Longrightarrow> quiet err"
  by (induction xs arbitrary: run eff) (auto simp: bindE_Inl_iff Let_def split: if_splits option.splits)

lemma quiet_moves: "queueMoves l t bf eff us d = Inl err \<Longrightarrow> quiet err"
  by (auto simp: queueMoves_def bindE_Inl_iff quiet_build insert_move_def dest!: quiet_foldE [rotated] split: if_splits)

lemma quiet_find: "findByIdempotencyKey l d ik h = Inl err \<Longrightarrow> quiet err"
  by (auto simp: findByIdempotencyKey_def split: option.splits if_splits)

lemma quiet_log: "appendLog l t a ik h d = Inl err \<Longrightarrow> quiet err"
  by (auto simp: appendLog_def appendLogEntry_def insertLog_def Let_def bindE_Inl_iff insert_log_row_def
      update_ledger_row_def split: if_splits option.splits)

lemma quiet_db_commit: "db_commit d = Inl err \<Longrightarrow> quiet err"
  by (auto simp: db_commit_def split: if_splits)

lemma loud_balances:
  "checkBalances bf us = Inl err \<Longrightarrow> \<not> quiet err \<Longrightarrow> assetOf err \<in> UAsset ` set us"
  by (induction us) (auto simp: Let_def assetOf_def split: option.splits if_splits)

lemma applyTransaction_names:
  assumes "applyTransaction l e p opts d = Inl err" and "\<not> quiet err"
  shows "assetOf err \<in> PAsset ` set p"
proof -
  from assms obtain us0 d1 bf ps us where u: "VolumeUpdates p = Inr us0" "lockVolumes l us0 d = Inr (d1, bf)"
    "resolve_updates p us0 bf = Inr (ps, us)" "checkBalances bf us = Inl err"
    unfolding applyTransaction_def
    by (auto simp: bindE_Inl_iff Let_def dest: quiet_updates quiet_lock quiet_resolve quiet_closed quiet_apply quiet_allocate
        quiet_pcv quiet_insertTx quiet_moves)
  have "assetOf err \<in> UAsset ` set us" by (rule loud_balances [OF u(4) assms(2)])
  moreover have "UAsset ` set us = snd ` update_key ` set us" by (simp add: image_image update_key_def)
  moreover have "update_key ` set us = touched p"
    using resolve_updates_spec(3) [OF u(3, 1)] VolumeUpdates_spec [OF u(1)] by (simp add: updates_for_def)
  ultimately show ?thesis by (auto simp: touched_def)
qed

lemma commitOnce_names:
  assumes run: "commitOnce s e seen d p opts h i = Inl err" and loud: "\<not> quiet err" and "beforeCommit s i \<noteq> Some err"
  shows "assetOf err \<in> PAsset ` set p"
proof (cases "applyTransaction (ledger s) e p
    \<lparr>ATimestamp = OTimestamp opts, AReference = OReference opts, AMetadata = OMetadata opts\<rparr> d")
  case (Inl x)
  then have "x = err" using run loud
    by (auto simp: commitOnce_def bindE_Inl_iff replay_lookup_def split: option.splits if_splits dest: quiet_find)
  with Inl loud show ?thesis using applyTransaction_names by blast
next
  case (Inr y)
  obtain d1 t a where y: "y = (d1, t, a)" by (cases y)
  show ?thesis
  proof (cases "appendLog (ledger s) t a (OIdempotencyKey opts) h d1")
    case (Inl x)
    with Inr y run loud quiet_log [OF Inl] show ?thesis
      by (auto simp: commitOnce_def bindE_Inl_iff replay_lookup_def idempotencyRace_def split: option.splits if_splits
          dest: quiet_find)
  next
    case ok: (Inr d2)
    with Inr y run loud assms(3) show ?thesis
      by (auto simp: commitOnce_def bindE_Inl_iff replay_lookup_def split: option.splits if_splits
          dest: quiet_find quiet_db_commit)
  qed
qed

lemma loud_cause: "\<not> quiet err \<Longrightarrow> CauseOf err \<noteq> None"
  by (auto simp: quiet_def CauseOf_def split: error.splits)

lemma CommitTransaction_names:
  assumes run: "CommitTransaction envs s d p opts = (s', Inl err)" and loud: "\<not> quiet err"
    and ctx: "\<forall>i e. ctx_err (envs i) = Some e \<longrightarrow> CauseOf e = None" and hook: "\<forall>n. beforeCommit s n = None"
  shows "assetOf err \<in> PAsset ` set p \<and> snd (checkAssets s d p) = None \<and> validate_request p = None"
proof -
  obtain s1 ca where c: "checkAssets s d p = (s1, ca)" by (cases "checkAssets s d p")
  have b: "beforeCommit s1 = beforeCommit s" using checkAssets_other(2) [of s d p] c by simp
  have v: "validate_request p = None"
    using run loud by (auto simp: CommitTransaction_def validate_request_def quiet_def split: option.splits if_splits)
  have "ca = None"
    using run loud v c
    by (auto simp: CommitTransaction_def checkAssets_def Let_def quiet_def split: option.splits if_splits list.splits)
  moreover obtain h where h: "idempotencyHash p opts = Inr h"
    using run loud v c \<open>ca = None\<close> by (cases "idempotencyHash p opts") (auto simp: CommitTransaction_def idempotencyHash_def split: if_splits)
  let ?once = "\<lambda>i. commitOnce s1 (envs i) d d p opts h i"
  have "snd (retry_loop (ledger s1) envs ?once maxAttempts 0) = Inl err"
    using run v c \<open>ca = None\<close> h by (auto simp: CommitTransaction_def split: prod.splits)
  from retry_loop_Inl [OF this] consider i where "?once i = Inl err" | i where "ctx_err (envs i) = Some err"
    | "err = ErrGaveUp maxAttempts (ledger s1)" by blast
  then have "assetOf err \<in> PAsset ` set p"
  proof cases
    case (1 i)
    then show ?thesis using commitOnce_names [OF _ loud] b hook by (metis option.distinct(1))
  next
    case (2 i)
    then have "CauseOf err = None" using ctx by (elim allE [of _ i] allE [of _ err]) simp
    then show ?thesis using loud_cause [OF loud] by simp
  next
    case 3
    then show ?thesis using loud by (simp add: quiet_def)
  qed
  ultimately show ?thesis using c v by simp
qed

subsection \<open>Every event is of the store's ledger\<close>

fun event_ledger :: "event \<Rightarrow> string" where
  "event_ledger (Committed e) = ev_ledger e"
| "event_ledger (Refused e) = rf_ledger e"
| "event_ledger (Contended e) = ct_ledger e"

definition events :: "report list \<Rightarrow> event list" where
  "events ns = List.map_filter told ns"

lemma events_simps [simp]:
  "events [] = []" "events (ns @ ms) = events ns @ events ms" "events (Start sp # ns) = events ns"
  "events (End sp err # ns) = events ns" "events (Told ev # ns) = ev # events ns"
  by (simp_all add: events_def map_filter_simps) (simp add: map_filter_def)

lemma deals_events: "deals ns = filter deal (events ns)"
  by (simp add: deals_def events_def)

lemma event_ledger_simps [simp]:
  "event_ledger (restarted s c i) = ledger s" "event_ledger (gave_up s w) = ledger s"
  "event_ledger (observeCommitted s p n w) = ledger s"
  "ev \<in> set (events (refuse s w err)) \<Longrightarrow> event_ledger ev = ledger s"
  "ev \<in> set (events (attempt_notes s c e seen d p opts h i)) \<Longrightarrow> event_ledger ev = ledger s"
  by (auto simp: restarted_def gave_up_def observeCommitted_def Let_def refuse_def attempt_notes_def lock_notes_def
      split: option.splits sum.splits)

lemma loop_ledger:
  assumes "\<And>i ev. ev \<in> set (events (reps i)) \<Longrightarrow> event_ledger ev = ledger s"
  shows "ev \<in> set (events (fst (observed_loop s c p envs once reps n attempt))) \<Longrightarrow> event_ledger ev = ledger s"
proof (induction n arbitrary: attempt)
  case (Suc n)
  then show ?case using assms by (auto split: sum.splits if_splits option.splits prod.splits) (metis fst_conv)+
qed auto

lemma commit_notes_ledger:
  assumes "ev \<in> set (events (commit_notes c envs s d p opts))"
  shows "event_ledger ev = ledger s"
proof -
  have "ev \<in> set (events (fst (commit_body c envs s d p opts)))"
    using assms by (auto simp: commit_notes_def split: prod.splits)
  moreover obtain s1 e where ca: "checkAssets s d p = (s1, e)" by (cases "checkAssets s d p")
  moreover have "ledger s1 = ledger s" using ca checkAssets_ledger [of s d p] by simp
  ultimately show ?thesis
    by (auto simp: commit_body_def split: option.splits sum.splits dest!: loop_ledger [rotated])
qed

lemma samples_of_events: "samples_of ob ns = concat (map (\<lambda>ev. fst (handle ob ev)) (events ns))"
  by (simp add: samples_of_def events_def)

subsection \<open>How many series there can be\<close>

definition reasonAttr :: "RefusalCause \<Rightarrow> string \<times> attr" where
  "reasonAttr r = (''giro.reason'', AString (cause_text r))"

definition per_ledger :: "string set" where
  "per_ledger = {''giro.commit.duration'', ''giro.commit.attempts'', ''giro.postings'', ''giro.commit.restarts'', ''giro.lock.wait''}"

text \<open>The series of the ledgers \<open>L\<close> and the assets \<open>A\<close>, and those of refusals for an asset the ledger does not handle.\<close>

definition known_series :: "string set \<Rightarrow> Asset set \<Rightarrow> (string \<times> (string \<times> attr) set) set" where
  "known_series L A =
     (\<lambda>(l, a). (''giro.transactions'', {ledgerAttr l, assetAttr a})) ` (L \<times> A) \<union>
     (\<lambda>(l, a, r). (''giro.refusals'', {ledgerAttr l, reasonAttr r, assetAttr a})) `
        (L \<times> A \<times> {CauseInsufficientFunds, CauseUnexpectedCredit}) \<union>
     (\<lambda>(l, r). (''giro.refusals'', {ledgerAttr l, reasonAttr r})) `
        (L \<times> {CauseAccountClosed, CauseUnboundedSweep, CauseInvalidPosting, CauseContentionGiveUp}) \<union>
     (\<lambda>(l, m). (m, {ledgerAttr l})) ` (L \<times> per_ledger)"

definition unknown_series :: "string \<Rightarrow> Asset \<Rightarrow> string \<times> (string \<times> attr) set" where
  "unknown_series l a = (''giro.refusals'', {ledgerAttr l, reasonAttr CauseUnknownAsset, assetAttr a})"

lemma known_series_card:
  assumes "finite L" "finite A" "A \<noteq> {}"
  shows "card (known_series L A) \<le> Cardinality (card L) (card A)"
proof -
  have p: "card per_ledger = 5" by (simp add: per_ledger_def)
  have pf: "finite per_ledger" by (simp add: per_ledger_def)
  note c = card_image_le [OF finite_cartesian_product]
  have "card (known_series L A) \<le> card (L \<times> A) + card (L \<times> A \<times> {CauseInsufficientFunds, CauseUnexpectedCredit}) +
      card (L \<times> {CauseAccountClosed, CauseUnboundedSweep, CauseInvalidPosting, CauseContentionGiveUp}) + card (L \<times> per_ledger)"
    unfolding known_series_def
    by (intro order.trans [OF card_Un_le] add_mono card_image_le finite_cartesian_product assms pf) simp_all
  also have "\<dots> = card L * (3 * card A + 9)" by (simp add: card_cartesian_product p algebra_simps)
  also have "\<dots> \<le> Cardinality (card L) (card A)"
  proof -
    have "card A \<noteq> 0" using assms by simp
    then have "3 * card A + 9 \<le> 9 * card A + 5" by arith
    then show ?thesis unfolding Cardinality_eq by (rule mult_le_mono2)
  qed
  finally show ?thesis .
qed

lemma known_series_mono: "L \<subseteq> L' \<Longrightarrow> A \<subseteq> A' \<Longrightarrow> known_series L A \<subseteq> known_series L' A'"
  unfolding known_series_def by (intro Un_mono image_mono Sigma_mono) auto

lemma known_seriesI:
  "l \<in> L \<Longrightarrow> a \<in> A \<Longrightarrow> (''giro.transactions'', {ledgerAttr l, assetAttr a}) \<in> known_series L A"
  "l \<in> L \<Longrightarrow> a \<in> A \<Longrightarrow> r \<in> {CauseInsufficientFunds, CauseUnexpectedCredit} \<Longrightarrow>
     (''giro.refusals'', {ledgerAttr l, reasonAttr r, assetAttr a}) \<in> known_series L A"
  "l \<in> L \<Longrightarrow> r \<in> {CauseAccountClosed, CauseUnboundedSweep, CauseInvalidPosting, CauseContentionGiveUp} \<Longrightarrow>
     (''giro.refusals'', {ledgerAttr l, reasonAttr r}) \<in> known_series L A"
  "l \<in> L \<Longrightarrow> m \<in> per_ledger \<Longrightarrow> (m, {ledgerAttr l}) \<in> known_series L A"
  unfolding known_series_def by force+

definition registered_in :: "db \<Rightarrow> string \<Rightarrow> Asset set" where
  "registered_in d l = {x. is_registered d l x}"

text \<open>The samples of one event.\<close>

lemma series_contended:
  "series (fst (Obs_Contended ob e)) \<subseteq> known_series {ct_ledger e} A"
  by (auto simp: Obs_Contended_def series_def per_ledger_def intro!: known_seriesI(4))

lemma series_committed:
  "set (ev_assets e) \<subseteq> A \<Longrightarrow> series (fst (Obs_Committed ob e)) \<subseteq> known_series {ev_ledger e} A"
  by (auto simp: Obs_Committed_def series_def per_ledger_def intro!: known_seriesI(1, 4))

lemma series_refused:
  "series (fst (Obs_Refused ob e)) =
     {(''giro.refusals'', {ledgerAttr (rf_ledger e), reasonAttr (rf_reason e)} \<union>
        (if rf_asset e = [] then {} else {assetAttr (rf_asset e)}))}"
  by (auto simp: Obs_Refused_def series_def reasonAttr_def Let_def)

lemma add_new_set [simp]: "set (add_new x xs) = insert x (set xs)"
  by (auto simp: add_new_def)

lemma observed_assets:
  "observeCommitted s p n w = Committed e \<Longrightarrow> ev_ledger e = ledger s \<and> set (ev_assets e) = PAsset ` set p"
proof -
  have "set (fold (\<lambda>x. add_new (PAsset x)) p acc) = PAsset ` set p \<union> set acc" for acc
    by (induction p arbitrary: acc) auto
  then show "observeCommitted s p n w = Committed e \<Longrightarrow> ev_ledger e = ledger s \<and> set (ev_assets e) = PAsset ` set p"
    by (auto simp: observeCommitted_def Let_def)
qed

text \<open>What a refusal of a commit can be labelled with.\<close>

lemma CommitTransaction_ok_assets:
  assumes "CommitTransaction envs s d p opts = (s', Inr y)" and "cache_sound s d"
  shows "PAsset ` set p \<subseteq> registered_in d (ledger s)"
proof -
  have "snd (checkAssets s d p) = None"
    using assms(1) by (auto simp: CommitTransaction_def split: option.splits prod.splits sum.splits)
  then show ?thesis using checkAssets_None_iff [OF assms(2)] by (auto simp: assets_ok_def registered_in_def)
qed

lemma priced_assets_named: "validate_request p = None \<Longrightarrow> a \<in> PAsset ` set p \<Longrightarrow> a \<noteq> []"
proof -
  have "\<not> Asset_Valid []" by code_simp
  then show "validate_request p = None \<Longrightarrow> a \<in> PAsset ` set p \<Longrightarrow> a \<noteq> []"
    by (auto simp: validate_request_None list_all_iff valid_posting_def)
qed

lemma refusal_series:
  assumes run: "CommitTransaction envs s d p opts = (s', Inl err)" and inv: "book_ok d" and cs: "cache_sound s d"
    and ctx: "\<forall>i e. ctx_err (envs i) = Some e \<longrightarrow> CauseOf e = None" and hook: "\<forall>n. beforeCommit s n = None"
    and cause: "CauseOf err = Some cause"
  shows "(\<exists>a\<in>registered_in d (ledger s). assetOf err = a \<and> a \<noteq> [] \<and> cause \<in> {CauseInsufficientFunds, CauseUnexpectedCredit}) \<or>
    (assetOf err = [] \<and> cause \<in> {CauseAccountClosed, CauseUnboundedSweep, CauseInvalidPosting}) \<or>
    (\<exists>a\<in>PAsset ` set p. a \<notin> registered_in d (ledger s) \<and> assetOf err = a \<and> a \<noteq> [] \<and> cause = CauseUnknownAsset)"
proof (cases "quiet err")
  case False
  from CommitTransaction_names [OF run False ctx hook]
  have "assetOf err \<in> registered_in d (ledger s)"
    using checkAssets_None_iff [OF cs, of p] by (auto simp: assets_ok_def registered_in_def)
  moreover have "cause \<in> {CauseInsufficientFunds, CauseUnexpectedCredit}"
    using False cause by (auto simp: quiet_def CauseOf_def split: error.splits)
  moreover have "assetOf err \<noteq> []"
    using CommitTransaction_names [OF run False ctx hook] priced_assets_named by blast
  ultimately show ?thesis by (intro disjI1 bexI [of _ "assetOf err"]) simp_all
next
  case True
  have one: "assetOf e = [] \<and> err_find as_funds e = None \<and> err_find as_credit e = None \<and> err_find as_closed e = None \<and>
      err_find as_unknown_asset e = None \<and> err_find as_sweep e = None"
    if "validate_one q = Some e" for q e
    using that by (auto simp: validate_one_def assetOf_def split: if_splits option.splits)
  have val: "\<exists>q. validate_one q = Some e" if "validate_from i ps = Some (j, e)" for i ps j e
    using that by (induction ps arbitrary: i) (auto split: option.splits)
  consider (invalid) "validate_request p = Some err" | (assets) "validate_request p = None" "snd (checkAssets s d p) = Some err"
    | (hash) "idempotencyHash p opts = Inl err" | (up) "err = ErrGaveUp maxAttempts (ledger s)"
    | (cut) i where "ctx_err (envs i) = Some err" | (other) "commit_refusal s err"
    using CommitTransaction_fails [OF run inv cs] run checkAssets_None_iff [OF cs, of p]
    by (auto simp: CommitTransaction_def split: option.splits prod.splits sum.splits)
  then show ?thesis
  proof cases
    case invalid
    then have "err = ErrNoPostings \<or> (\<exists>i e q. err = PostingError i e \<and> validate_one q = Some e)"
      using val by (fastforce simp: validate_request_def Validate_def split: if_splits option.splits)
    then show ?thesis using cause one
      by (auto simp: CauseOf_def assetOf_def err_is_def split: option.splits)
  next
    case assets
    then obtain a y where a: "err = UnknownAssetError a y \<or> err = ErrLedgerNotFound (ledger s)"
      "err = UnknownAssetError a y \<longrightarrow> a \<in> set (filter (\<lambda>a. \<not> is_registered d (ledger s) a) (unknown_assets (registered s) [] p))"
      by (auto simp: checkAssets_def Let_def simp del: set_filter split: if_splits list.splits)
    then show ?thesis using cause set_unknown_assets [of "registered s" "[]" p] priced_assets_named [OF assets(1)]
      by (auto simp: CauseOf_def assetOf_def err_is_def registered_in_def)
  next
    case hash
    then show ?thesis using cause by (auto simp: idempotencyHash_def CauseOf_def err_is_def split: if_splits)
  next
    case up
    then show ?thesis using cause by (simp add: CauseOf_def err_is_def)
  next
    case (cut i)
    then have "CauseOf err = None" using ctx by (elim allE [of _ i] allE [of _ err]) simp
    then show ?thesis using cause by simp
  next
    case other
    then show ?thesis using hook True cause
      by (auto simp: commit_refusal_def business_error_def quiet_def CauseOf_def assetOf_def err_is_def split: error.splits)
  qed
qed

text \<open>The samples of one call.\<close>

lemma series_append [simp]: "series (xs @ ys) = series xs \<union> series ys"
  by (simp add: series_def image_Un)

lemma series_concat: "series (concat xss) = (\<Union>xs\<in>set xss. series xs)"
  by (induction xss) (simp_all add: series_def image_Un)

lemma series_handle_quiet:
  "\<not> deal ev \<Longrightarrow> event_ledger ev = l \<Longrightarrow> series (fst (handle ob ev)) \<subseteq> known_series {l} A"
  by (cases ev) (use series_contended in \<open>auto simp: handle_def\<close>)

lemma call_series:
  assumes run: "CommitTransaction envs s d p opts = (s', res)" and inv: "book_ok d" and cs: "cache_sound s d"
    and ctx: "\<forall>i e. ctx_err (envs i) = Some e \<longrightarrow> CauseOf e = None" and hook: "\<forall>n. beforeCommit s n = None"
    and x: "x \<in> series (samples_of ob (commit_notes c envs s d p opts))"
  shows "x \<in> known_series {ledger s} (registered_in d (ledger s)) \<union>
    unknown_series (ledger s) ` (PAsset ` set p - registered_in d (ledger s))"
proof -
  let ?K = "known_series {ledger s} (registered_in d (ledger s))"
  let ?ns = "commit_notes c envs s d p opts"
  from x obtain ev where ev: "ev \<in> set (events ?ns)" "x \<in> series (fst (handle ob ev))"
    by (auto simp: samples_of_events series_concat)
  note led = commit_notes_ledger [OF ev(1)]
  show ?thesis
  proof (cases "deal ev")
    case False
    then show ?thesis using series_handle_quiet [OF False led] ev(2) by blast
  next
    case True
    have "deals ?ns = deals (fst (commit_body c envs s d p opts))"
      by (simp add: commit_notes_def split: prod.splits)
    moreover have "ev \<in> set (deals ?ns)" using True ev(1) by (simp add: deals_events)
    ultimately have "ev \<in> set (deals (fst (commit_body c envs s d p opts)))" by simp
    with commit_body_tells(2) [OF run, of c] obtain n s1 ends where s1: "ledger s1 = ledger s"
      and mem: "ev \<in> set (restarts s1 c 0 n @ ends)" and last: "last_word s1 c p envs n res ends" by metis
    show ?thesis
    proof (cases "ev \<in> set (restarts s1 c 0 n)")
      case True
      then obtain i where "ev = restarted s1 c i" by (auto simp: restarts_def)
      then show ?thesis using ev(2) series_contended [of ob _ "registered_in d (ledger s)"] s1
        by (fastforce simp: handle_def restarted_def)
    next
      case False
      then have mem: "ev \<in> set ends" using mem by simp
      show ?thesis
      proof (cases res)
        case (Inr y)
        then have e: "ev = observeCommitted s1 p (Suc n) (since_start c n)" using last mem by (simp add: last_word_def)
        then obtain e where e': "ev = Committed e" by (simp add: observeCommitted_def Let_def)
        then have "ev_ledger e = ledger s \<and> set (ev_assets e) = PAsset ` set p" using observed_assets e s1 by metis
        then show ?thesis
          using ev(2) e' series_committed [of e "registered_in d (ledger s)" ob] CommitTransaction_ok_assets [OF _ cs] run Inr
          by (auto simp: handle_def)
      next
        case (Inl err)
        from last mem Inl consider (refuse) "ev \<in> set (deals (refuse s1 (since_start c n) err))"
          | (up) "ev = gave_up s1 (since_start c n)" by (auto simp: last_word_def)
        then show ?thesis
        proof cases
          case refuse
          then obtain cause where cause: "CauseOf err = Some cause"
            and e: "ev = Refused \<lparr>rf_ledger = ledger s1, rf_reason = cause, rf_asset = assetOf err,
                       rf_took = since_start c n, rf_account = accountOf err\<rparr>"
            by (auto simp: refuse_def split: option.splits)
          have x: "x = (''giro.refusals'', {ledgerAttr (ledger s), reasonAttr cause} \<union>
              (if assetOf err = [] then {} else {assetAttr (assetOf err)}))"
            using ev(2) by (simp add: e handle_def series_refused s1)
          from refusal_series [OF run [unfolded Inl] inv cs ctx hook cause] consider
              (known) "assetOf err \<in> registered_in d (ledger s)" "assetOf err \<noteq> []"
                "cause \<in> {CauseInsufficientFunds, CauseUnexpectedCredit}"
            | (plain) "assetOf err = []" "cause \<in> {CauseAccountClosed, CauseUnboundedSweep, CauseInvalidPosting}"
            | (unknown) "assetOf err \<in> PAsset ` set p - registered_in d (ledger s)" "assetOf err \<noteq> []" "cause = CauseUnknownAsset"
            by (elim disjE bexE conjE) auto
          then show ?thesis
          proof cases
            case known
            then show ?thesis using x known_seriesI(2) [of "ledger s" "{ledger s}" "assetOf err" "registered_in d (ledger s)" cause]
              by (simp add: insert_commute)
          next
            case plain
            then show ?thesis using x known_seriesI(3) [of "ledger s" "{ledger s}" cause] by auto
          next
            case unknown
            then have "x = unknown_series (ledger s) (assetOf err)" using x by (simp add: unknown_series_def insert_commute)
            then show ?thesis using unknown(1) by (intro UnI2 image_eqI)
          qed
        next
          case up
          then show ?thesis using ev(2) s1
            by (auto simp: handle_def gave_up_def series_refused intro!: known_seriesI(3))
        qed
      qed
    qed
  qed
qed

text \<open>The samples of any number of calls, on any databases of a run.\<close>

definition calls_series ::
  "Observer \<Rightarrow> (clocks \<times> (nat \<Rightarrow> env) \<times> Store \<times> db \<times> Postings \<times> CommitOptions) list \<Rightarrow> (string \<times> (string \<times> attr) set) set" where
  "calls_series ob calls =
     series (concat (map (\<lambda>(c, envs, s, d, p, opts). samples_of ob (commit_notes c envs s d p opts)) calls))"

text \<open>A call of the running system by a store as \<open>New\<close> makes it.\<close>

definition ordinary_call :: "clocks \<times> (nat \<Rightarrow> env) \<times> Store \<times> db \<times> Postings \<times> CommitOptions \<Rightarrow> bool" where
  "ordinary_call call \<longleftrightarrow>
     (case call of (c, envs, s, d, p, opts) \<Rightarrow>
        reachable d \<and> cache_sound s d \<and> (\<forall>n. beforeCommit s n = None) \<and>
        (\<forall>i e. ctx_err (envs i) = Some e \<longrightarrow> CauseOf e = None))"

lemma calls_series_split:
  assumes fin: "finite L" "finite A" "A \<noteq> {}"
    and calls: "\<forall>call\<in>set calls. ordinary_call call"
    and known: "\<forall>(c, envs, s, d, p, opts)\<in>set calls. ledger s \<in> L \<and> registered_in d (ledger s) \<subseteq> A"
  shows "\<exists>known unknown. calls_series ob calls = known \<union> unknown \<and> card known \<le> Cardinality (card L) (card A) \<and>
    unknown \<subseteq> {unknown_series (ledger s) a | c envs s d p opts a.
       (c, envs, s, d, p, opts) \<in> set calls \<and> a \<in> PAsset ` set p \<and> \<not> is_registered d (ledger s) a}"
proof -
  let ?S = "calls_series ob calls" and ?K = "known_series L A"
  let ?U = "{unknown_series (ledger s) a | c envs s d p opts a.
       (c, envs, s, d, p, opts) \<in> set calls \<and> a \<in> PAsset ` set p \<and> \<not> is_registered d (ledger s) a}"
  have sub: "x \<in> ?K \<union> ?U" if "x \<in> ?S" for x
  proof -
    from that obtain c envs s d p opts where mem: "(c, envs, s, d, p, opts) \<in> set calls"
      and x: "x \<in> series (samples_of ob (commit_notes c envs s d p opts))"
      by (auto simp: calls_series_def series_concat)
    have o: "reachable d" "cache_sound s d" "\<forall>n. beforeCommit s n = None"
        "\<forall>i e. ctx_err (envs i) = Some e \<longrightarrow> CauseOf e = None"
      using calls mem by (auto simp: ordinary_call_def)
    have kn: "ledger s \<in> L" "registered_in d (ledger s) \<subseteq> A" using known mem by auto
    obtain s' res where run: "CommitTransaction envs s d p opts = (s', res)" by fastforce
    have "book_ok d" using reachable_sys_ok [OF o(1)] by (simp add: sys_ok_def)
    from call_series [OF run this o(2, 4, 3) x] show ?thesis
    proof (elim UnE imageE)
      assume "x \<in> known_series {ledger s} (registered_in d (ledger s))"
      moreover have "known_series {ledger s} (registered_in d (ledger s)) \<subseteq> ?K"
        by (rule known_series_mono) (use kn in simp_all)
      ultimately show ?thesis by (intro UnI1) (rule subsetD)
    next
      fix a assume a: "x = unknown_series (ledger s) a" "a \<in> PAsset ` set p - registered_in d (ledger s)"
      then have "\<not> is_registered d (ledger s) a" by (simp add: registered_in_def)
      then have "x \<in> ?U" using a mem by (intro CollectI exI conjI) (assumption | simp)+
      then show ?thesis ..
    qed
  qed
  have "finite ?K" using fin by (auto simp: known_series_def per_ledger_def)
  then have "card (?S \<inter> ?K) \<le> Cardinality (card L) (card A)"
    using card_mono [of ?K "?S \<inter> ?K"] known_series_card [OF fin] by simp
  moreover have "?S = (?S \<inter> ?K) \<union> (?S - ?K)" by (rule Int_Diff_Un [symmetric])
  moreover have "?S - ?K \<subseteq> ?U" unfolding Diff_subset_conv by (rule subsetI) (rule sub)
  ultimately show ?thesis by (intro exI [of _ "?S \<inter> ?K"] exI [of _ "?S - ?K"] conjI)
qed

text \<open>A request in an asset the ledger does not handle is one series, labelled with what the caller wrote.\<close>

lemma unknown_asset_series:
  assumes "cache_sound s d" "map_of (ledgers d) (ledger s) \<noteq> None" "valid_posting p" "\<not> is_registered d (ledger s) (PAsset p)"
  shows "series (samples_of ob (commit_notes c envs s d [p] opts)) = {unknown_series (ledger s) (PAsset p)}"
proof -
  have v: "validate_request [p] = None" using assms(3) by (simp add: validate_request_None)
  have "PAsset p \<noteq> []" using priced_assets_named [OF v] by simp
  have nr: "PAsset p \<notin> set (registered s)" using assms(1, 4) by (auto simp: cache_sound_def)
  obtain s1 y where ca: "checkAssets s d [p] = (s1, Some (UnknownAssetError (PAsset p) y))" and l: "ledger s1 = ledger s"
    using assms(2, 4) nr by (auto simp: checkAssets_def Let_def)
  have "commit_notes c envs s d [p] opts =
      Start SpanCommit # refuse s1 (since_start c 0) (UnknownAssetError (PAsset p) y) @
        [End SpanCommit (Some (UnknownAssetError (PAsset p) y))]"
    using v ca by (simp add: commit_notes_def commit_body_def)
  then show ?thesis using l \<open>PAsset p \<noteq> []\<close>
    by (simp add: samples_of_events refuse_def CauseOf_def handle_def series_refused unknown_series_def assetOf_def insert_commute)
qed

end
