(* ===== verification/Go_Http.thy ===== *)
theory Go_Http
  imports Go_Text
begin

text \<open>
  What \<open>internal/api\<close> uses of \<open>net/url\<close> and \<open>time\<close> to read a request: query strings with their escapes, and
  RFC 3339 timestamps as \<open>time.Parse\<close> accepts them.
\<close>

subsection \<open>Query strings\<close>

definition hex_value :: "char \<Rightarrow> nat option" where
  "hex_value c =
     (if is_digit c then Some (of_char c - 48)
      else if CHR ''a'' \<le> c \<and> c \<le> CHR ''f'' then Some (of_char c - 87)
      else if CHR ''A'' \<le> c \<and> c \<le> CHR ''F'' then Some (of_char c - 55)
      else None)"

fun QueryUnescape :: "string \<Rightarrow> string option" where
  "QueryUnescape [] = Some []"
| "QueryUnescape (c # s) =
     (if c = CHR ''%'' then
        (case s of
           a # b # s' \<Rightarrow>
             (case (hex_value a, hex_value b) of
                (Some x, Some y) \<Rightarrow> map_option (Cons (char_of (16 * x + y))) (QueryUnescape s')
              | _ \<Rightarrow> None)
         | _ \<Rightarrow> None)
      else map_option (Cons (if c = CHR ''+'' then CHR '' '' else c)) (QueryUnescape s))"

text \<open>The text before the first separator and the text after it.\<close>

fun cut :: "char \<Rightarrow> string \<Rightarrow> string \<times> string" where
  "cut sep [] = ([], [])"
| "cut sep (c # s) = (if c = sep then ([], s) else map_prod (Cons c) id (cut sep s))"

type_synonym query_values = "(string \<times> string) list"

definition parse_pair :: "string \<Rightarrow> (string \<times> string) option" where
  "parse_pair part =
     (let (k, v) = cut CHR ''='' part
      in case (QueryUnescape k, QueryUnescape v) of (Some k', Some v') \<Rightarrow> Some (k', v') | _ \<Rightarrow> None)"

text \<open>\<open>url.ParseQuery\<close> goes on after a pair it cannot read: the answer is what it could read, and whether that is all.\<close>

definition ParseQuery :: "string \<Rightarrow> query_values \<times> bool" where
  "ParseQuery raw =
     (let parts = filter (\<lambda>p. p \<noteq> []) (split_on CHR ''&'' raw);
          read = map (\<lambda>p. if CHR '';'' \<in> set p then None else parse_pair p) parts
      in (List.map_filter id read, list_all (\<lambda>x. x \<noteq> None) read))"

definition Get :: "query_values \<Rightarrow> string \<Rightarrow> string" where
  "Get vs k = (case map_of vs k of None \<Rightarrow> [] | Some v \<Rightarrow> v)"

subsection \<open>Timestamps\<close>

text \<open>One reading step consumes a prefix of the text; one or two digits, exactly two where \<open>fixed\<close>.\<close>

definition getnum :: "bool \<Rightarrow> string \<Rightarrow> (int \<times> string) option" where
  "getnum fixed s =
     (case s of
        [] \<Rightarrow> None
      | a # s1 \<Rightarrow>
          if \<not> is_digit a then None
          else (case s1 of
                  b # s2 \<Rightarrow> if is_digit b then Some (int (10 * digit_value a + digit_value b), s2)
                            else if fixed then None else Some (int (digit_value a), s1)
                | [] \<Rightarrow> if fixed then None else Some (int (digit_value a), s1)))"

definition literal :: "char \<Rightarrow> string \<Rightarrow> string option" where
  "literal c s = (case s of [] \<Rightarrow> None | a # s' \<Rightarrow> if a = c then Some s' else None)"

definition get_year :: "string \<Rightarrow> (int \<times> string) option" where
  "get_year s =
     (let y = take 4 s
      in if length y = 4 \<and> list_all is_digit y then Some (int (digits_value y), drop 4 s) else None)"

text \<open>A fraction of a second may follow where the layout has none; what is beyond nanoseconds is dropped.\<close>

definition get_fraction :: "string \<Rightarrow> int \<times> string" where
  "get_fraction s =
     (if 2 \<le> length s \<and> (hd s = CHR ''.'' \<or> hd s = CHR '','') \<and> is_digit (s ! 1)
      then (let ds = takeWhile is_digit (tl s); used = take 9 ds
            in (int (digits_value used) * 10 ^ (9 - length used), drop (length ds) (tl s)))
      else (0, s))"

text \<open>The offset in seconds east of UTC.\<close>

definition get_zone :: "string \<Rightarrow> (int \<times> string) option" where
  "get_zone s =
     (case s of
        [] \<Rightarrow> None
      | c # s1 \<Rightarrow>
          if c = CHR ''Z'' then Some (0, s1)
          else if c = CHR ''+'' \<or> c = CHR ''-'' then
            Option.bind (getnum True s1) (\<lambda>(h, s2).
            Option.bind (literal CHR '':'' s2) (\<lambda>s3.
            Option.bind (getnum True s3) (\<lambda>(m, s4).
              if h > 24 \<or> m > 60 then None
              else Some ((if c = CHR ''-'' then - 1 else 1) * (h * 60 + m) * 60, s4))))
          else None)"

definition days_before :: "int \<Rightarrow> int \<Rightarrow> int" where
  "days_before y m =
     365 * (y - 1) + (y - 1) div 4 - (y - 1) div 100 + (y - 1) div 400
     + sum_list (take (nat (m - 1)) (month_lengths y))"

text \<open>\<open>time.Parse(time.RFC3339, raw)\<close>, an instant.\<close>

definition parse_rfc3339 :: "string \<Rightarrow> time option" where
  "parse_rfc3339 raw =
     Option.bind (get_year raw) (\<lambda>(y, s).
     Option.bind (literal CHR ''-'' s) (\<lambda>s.
     Option.bind (getnum True s) (\<lambda>(mo, s).
     Option.bind (literal CHR ''-'' s) (\<lambda>s.
     Option.bind (getnum True s) (\<lambda>(d, s).
     Option.bind (literal CHR ''T'' s) (\<lambda>s.
     Option.bind (getnum False s) (\<lambda>(h, s).
     Option.bind (literal CHR '':'' s) (\<lambda>s.
     Option.bind (getnum True s) (\<lambda>(mi, s).
     Option.bind (literal CHR '':'' s) (\<lambda>s.
     Option.bind (getnum True s) (\<lambda>(sec, s).
       let (ns, s) = get_fraction s
       in Option.bind (get_zone s) (\<lambda>(offset, s).
         if s = [] \<and> 1 \<le> mo \<and> mo \<le> 12 \<and> 1 \<le> d \<and> d \<le> (month_lengths y @ [31]) ! nat (mo - 1) \<and>
            h < 24 \<and> mi < 60 \<and> sec < 60
         then Some (((days_before y mo + d - 1) * 86400 + h * 3600 + mi * 60 + sec - offset) * nanos_per_second + ns)
         else None))))))))))))"

end
