(* ===== verification/Api.thy ===== *)
theory Api
  imports Go_Http Storage_Observer Storage_Read
begin

text \<open>
  Package \<open>src/internal/api\<close>: the wire types (gen.go), the conversions (convert.go), how an error becomes a response
  (errors.go), the guards and routes of the server (server.go) and every handler (handlers.go).  A request is what the handlers
  read of it; a response is a status and a typed body.  Decoding a body into a type, and reading the text of a cursor, are
  parameters; the JSON text of a response is left out.
\<close>

subsection \<open>The types of the wire\<close>

datatype ErrorCode =
    CONFLICT
  | IDEMPOTENCYKEYREQUIRED
  | IDEMPOTENCYMISMATCH
  | INSUFFICIENTFUNDS
  | INTERNAL
  | NOTFOUND
  | VALIDATION

record WirePosting =
  w_amount :: "int option"
  w_asset :: string
  w_destination :: string
  w_source :: string
  w_upTo :: "bool option"

record WireTransaction =
  w_id :: int
  w_insertedAt :: time
  w_metadata :: "Metadata option"
  w_postCommitVolumes :: "(string, (string, Volumes) table) table option"
  w_postings :: "WirePosting list"
  w_reference :: "string option"
  w_revertedAt :: "time option"
  w_timestamp :: time

record WireAccount =
  wa_address :: string
  wa_effectiveVolumes :: "(string, Volumes) table option"
  wa_firstUsage :: time
  wa_insertionDate :: time
  wa_metadata :: "Metadata option"
  wa_updatedAt :: time
  wa_volumes :: "(string, Volumes) table option"

record WireLedger =
  wl_addedAt :: time
  wl_name :: string

record WireLog =
  wg_data :: log_data
  wg_date :: time
  wg_hash :: string
  wg_id :: int
  wg_idempotencyKey :: "string option"
  wg_type :: LogType

record WireMove =
  wm_amount :: int
  wm_asset :: string
  wm_effectiveDate :: time
  wm_effectiveVolumes :: "Volumes option"
  wm_incoming :: bool
  wm_insertionDate :: time
  wm_seq :: int
  wm_transactionId :: int
  wm_volumes :: Volumes

record ('a, 'f) WirePage =
  wp_items :: "'a list"
  wp_next :: "'f cursor_text option"

record CreateTransactionRequest =
  q_metadata :: "Metadata option"
  q_postings :: "WirePosting list"
  q_reference :: "string option"
  q_timestamp :: "time option"

record BatchRequest =
  q_transactions :: "CreateTransactionRequest list"

record RevertRequest =
  q_atEffectiveDate :: "bool option"

record RegisterAssetJSONBody =
  q_asset :: string

text \<open>A message for people is the text of an error or a text of the handler's own.\<close>

datatype message = ErrorText error | Text string

record details =
  dt_account :: Address
  dt_asset :: Asset
  dt_available :: int
  dt_requested :: int

datatype body =
    ErrorBody ErrorCode message "details option"
  | LedgerBody WireLedger
  | TransactionBody WireTransaction
  | TransactionPage "(WireTransaction, TransactionFilter) WirePage"
  | AccountBody WireAccount
  | BalancesBody "(string, int) table"
  | LogPage "(WireLog, unit) WirePage"
  | MovePage "(WireMove, MoveFilter) WirePage"
  | ReversalBody WireTransaction WireTransaction
  | BatchBody "WireTransaction list"
  | AssetsBody "Asset list"
  | PlainBody string

text \<open>A handler that panics leaves the connection without an answer.\<close>

datatype response = Reply nat body | Dropped

subsection \<open>Conversion\<close>

definition toAPIPostings :: "Postings \<Rightarrow> WirePosting list" where
  "toAPIPostings p =
     map (\<lambda>x. \<lparr>w_amount = Amount x, w_asset = PAsset x, w_destination = Destination x, w_source = Source x,
               w_upTo = None\<rparr>) p"

definition fromAPIPostings :: "WirePosting list \<Rightarrow> Postings" where
  "fromAPIPostings p =
     map (\<lambda>x. \<lparr>Source = w_source x, Destination = w_destination x, PAsset = w_asset x, Amount = w_amount x,
               UpTo = (w_upTo x = Some True)\<rparr>) p"

definition toAPIVolumes :: "Volumes \<Rightarrow> Volumes" where
  "toAPIVolumes v = \<lparr>Input = Input v, Output = Output v\<rparr>"

definition volumesMap :: "(Asset, Volumes) table \<Rightarrow> (string, Volumes) table" where
  "volumesMap = map (\<lambda>(x, v). (x, toAPIVolumes v))"

text \<open>What is empty is left out.\<close>

definition non_empty :: "'a list \<Rightarrow> 'a list option" where
  "non_empty xs = (if xs = [] then None else Some xs)"

definition toAPITransaction :: "Transaction \<Rightarrow> WireTransaction" where
  "toAPITransaction t =
     \<lparr>w_id = TxID t, w_insertedAt = InsertedAt t, w_metadata = non_empty (orEmpty (TMetadata t)),
      w_postCommitVolumes = non_empty (map (\<lambda>(a, m). (a, volumesMap m)) (TPostCommitVolumes t)),
      w_postings = toAPIPostings (TPostings t), w_reference = non_empty (TReference t),
      w_revertedAt = RevertedAt t, w_timestamp = Timestamp t\<rparr>"

definition toAPIAccount :: "GAccount \<Rightarrow> WireAccount" where
  "toAPIAccount a =
     \<lparr>wa_address = GAddress a, wa_effectiveVolumes = map_option volumesMap (GEffectiveVolumes a),
      wa_firstUsage = FirstUsage a, wa_insertionDate = InsertionDate a, wa_metadata = non_empty (GMetadata a),
      wa_updatedAt = UpdatedAt a, wa_volumes = map_option volumesMap (GVolumes a)\<rparr>"

definition toAPIBalances :: "(Asset, int) table \<Rightarrow> (string, int) table" where
  "toAPIBalances b = b"

definition toAPILog :: "Log \<Rightarrow> WireLog" where
  "toAPILog l =
     \<lparr>wg_data = LData l, wg_date = LDate l, wg_hash = LHash l, wg_id = LogID l,
      wg_idempotencyKey = non_empty (IdempotencyKey l), wg_type = LType l\<rparr>"

definition toAPIMove :: "Move \<Rightarrow> WireMove" where
  "toAPIMove m =
     \<lparr>wm_amount = MAmount m, wm_asset = MAsset m, wm_effectiveDate = MEffectiveDate m,
      wm_effectiveVolumes = map_option toAPIVolumes (MEffectiveVolumes m), wm_incoming = Incoming m,
      wm_insertionDate = MInsertionDate m, wm_seq = Seq m, wm_transactionId = MTransactionID m,
      wm_volumes = toAPIVolumes (MVolumes m)\<rparr>"

definition toAPILedger :: "LedgerInfo \<Rightarrow> WireLedger" where
  "toAPILedger l = \<lparr>wl_addedAt = AddedAt l, wl_name = LName l\<rparr>"

definition page_out :: "('a \<Rightarrow> 'b) \<Rightarrow> ('a, 'f) Page \<Rightarrow> ('b, 'f) WirePage" where
  "page_out f p =
     \<lparr>wp_items = map f (Items p), wp_next = (case Next p of NoCursor \<Rightarrow> None | c \<Rightarrow> Some c)\<rparr>"

subsection \<open>Errors\<close>

fun is_not_found :: "error \<Rightarrow> bool" where
  "is_not_found (ErrNotFound _) = True"
| "is_not_found (ErrLedgerNotFound _) = True"
| "is_not_found _ = False"

fun is_mismatch :: "error \<Rightarrow> bool" where
  "is_mismatch (ErrIdempotencyMismatch _ _ _) = True"
| "is_mismatch _ = False"

fun is_conflict :: "error \<Rightarrow> bool" where
  "is_conflict (ErrDuplicateReference _) = True"
| "is_conflict (ErrLedgerExists _) = True"
| "is_conflict (ErrAlreadyReverted _ _) = True"
| "is_conflict _ = False"

fun is_invalid :: "error \<Rightarrow> bool" where
  "is_invalid ErrNoPostings = True"
| "is_invalid (ErrInvalidCursor _) = True"
| "is_invalid ErrEmptyMetadata = True"
| "is_invalid ErrEmptyMetadataKey = True"
| "is_invalid (ErrTooManyMetadataKeys _) = True"
| "is_invalid (ErrMetadataKeyTooLong _ _) = True"
| "is_invalid (ErrMetadataValueTooLong _ _) = True"
| "is_invalid ErrInvalidSourceAddress = True"
| "is_invalid ErrBatchTooLarge = True"
| "is_invalid _ = False"

definition classify :: "error \<Rightarrow> nat \<times> ErrorCode" where
  "classify err =
     (if err_find as_funds err \<noteq> None then (422, INSUFFICIENTFUNDS)
      else if err_find as_posting err \<noteq> None then (400, VALIDATION)
      else if err_is is_not_found err then (404, NOTFOUND)
      else if err_is is_mismatch err then (409, IDEMPOTENCYMISMATCH)
      else if err_is is_conflict err then (409, CONFLICT)
      else if err_find as_unknown_asset err \<noteq> None then (400, VALIDATION)
      else if err_is is_invalid err then (400, VALIDATION)
      else (500, INTERNAL))"

definition detailsFor :: "error \<Rightarrow> details option" where
  "detailsFor err =
     (case err_find as_funds err of
        None \<Rightarrow> None
      | Some (a, x, available, requested) \<Rightarrow>
          Some \<lparr>dt_account = a, dt_asset = x, dt_available = available, dt_requested = requested\<rparr>)"

definition writeError :: "error \<Rightarrow> response" where
  "writeError err =
     (if err_is (\<lambda>e. e = NilPanic) err then Dropped
      else (case classify err of
        (status, code) \<Rightarrow>
          Reply status (ErrorBody code (if status = 500 then Text ''internal error'' else ErrorText err) (detailsFor err))))"

definition refuse_request :: "string \<Rightarrow> response" where
  "refuse_request text = Reply 400 (ErrorBody VALIDATION (Text text) None)"

subsection \<open>Requests\<close>

text \<open>What the handlers read of a request.  The body is what decoding it into each of the types answers: nothing when
  it is too large, malformed, or has a field the type has not.\<close>

record Request =
  rq_method :: string
  rq_path :: "string list"
  rq_query :: string
  rq_key :: string
  rq_length :: int
  rq_transaction :: "CreateTransactionRequest option"
  rq_batch :: "BatchRequest option"
  rq_metadata :: "Metadata option"
  rq_revert :: "RevertRequest option"
  rq_asset :: "RegisterAssetJSONBody option"

text \<open>The server, with how it reads the text of a cursor.\<close>

record Server =
  allowUnkeyed :: bool
  sv_store :: "string \<Rightarrow> Store"
  sv_tx_cursor :: "string \<Rightarrow> TransactionFilter cursor_text"
  sv_log_cursor :: "string \<Rightarrow> unit cursor_text"
  sv_move_cursor :: "string \<Rightarrow> MoveFilter cursor_text"

definition AllowUnkeyedWrites :: "Server \<Rightarrow> Server" where
  "AllowUnkeyedWrites sv = sv\<lparr>allowUnkeyed := True\<rparr>"

definition NewServer :: "Server \<Rightarrow> (Server \<Rightarrow> Server) list \<Rightarrow> Server" where
  "NewServer sv opts = fold (\<lambda>f. f) opts (sv\<lparr>allowUnkeyed := False\<rparr>)"

definition read_cursor :: "(string \<Rightarrow> 'f cursor_text) \<Rightarrow> string \<Rightarrow> 'f cursor_text" where
  "read_cursor f raw = (if raw = [] then NoCursor else f raw)"

subsection \<open>Guards and parameters\<close>

text \<open>A guard that writes a response ends the handler; \<open>Inl\<close> is that response.\<close>

definition requireKey :: "Server \<Rightarrow> Request \<Rightarrow> response + unit" where
  "requireKey sv r =
     (if allowUnkeyed sv \<or> rq_key r \<noteq> [] then Inr ()
      else if Get (fst (ParseQuery (rq_query r))) ''dryRun'' = ''true'' then Inr ()
      else Inl (Reply 400 (ErrorBody IDEMPOTENCYKEYREQUIRED (Text ''this endpoint moves money'') None)))"

definition query :: "Request \<Rightarrow> response + query_values" where
  "query r =
     (case ParseQuery (rq_query r) of
        (vs, ok) \<Rightarrow> if ok then Inr vs else Inl (refuse_request ''malformed query string''))"

definition boolParam :: "query_values \<Rightarrow> string \<Rightarrow> response + bool" where
  "boolParam vs name =
     (let raw = Get vs name
      in if raw = [] then Inr False
         else if raw = ''true'' \<or> raw = ''1'' then Inr True
         else if raw = ''false'' \<or> raw = ''0'' then Inr False
         else Inl (refuse_request (name @ '' must be true or false'')))"

definition intParam :: "query_values \<Rightarrow> string \<Rightarrow> response + int" where
  "intParam vs name =
     (let raw = Get vs name
      in if raw = [] then Inr 0
         else (case ParseInt64 raw of None \<Rightarrow> Inl (refuse_request (name @ '' must be an integer'')) | Some n \<Rightarrow> Inr n))"

definition effectiveDate :: "query_values \<Rightarrow> response + time" where
  "effectiveDate vs =
     (let raw = Get vs ''at''
      in if raw = [] then Inr 0
         else (case parse_rfc3339 raw of
                 None \<Rightarrow> Inl (refuse_request ''at must be an RFC 3339 timestamp'') | Some t \<Rightarrow> Inr t))"

definition optionalDate :: "query_values \<Rightarrow> string \<Rightarrow> response + time option" where
  "optionalDate vs name =
     (let raw = Get vs name
      in if raw = [] then Inr None
         else (case parse_rfc3339 raw of
                 None \<Rightarrow> Inl (refuse_request (name @ '' must be an RFC 3339 timestamp'')) | Some t \<Rightarrow> Inr (Some t)))"

definition transactionID :: "string \<Rightarrow> response + int" where
  "transactionID raw =
     (case ParseInt64 raw of None \<Rightarrow> Inl (refuse_request ''id must be an integer'') | Some i \<Rightarrow> Inr i)"

definition decodeJSON :: "'b option \<Rightarrow> response + 'b" where
  "decodeJSON b = (case b of None \<Rightarrow> Inl (refuse_request ''malformed request body'') | Some x \<Rightarrow> Inr x)"

text \<open>What the store refused is written as its error.\<close>

definition answered :: "'a res \<Rightarrow> response + 'a" where
  "answered res = mapErr writeError res"

text \<open>A handler that only reads, and one that may write.\<close>

definition reads :: "db \<Rightarrow> response + response \<Rightarrow> db \<times> response" where
  "reads d h = (d, case h of Inl r \<Rightarrow> r | Inr r \<Rightarrow> r)"

definition writes :: "db \<Rightarrow> response + db \<times> response \<Rightarrow> db \<times> response" where
  "writes d h = (case h of Inl r \<Rightarrow> (d, r) | Inr x \<Rightarrow> x)"

subsection \<open>Handlers: ledgers and assets\<close>

definition createLedger :: "Server \<Rightarrow> (nat \<Rightarrow> env) \<Rightarrow> db \<Rightarrow> string \<Rightarrow> db \<times> response" where
  "createLedger sv envs d l =
     writes d (bindE (answered (CreateLedger (envs 0) (sv_store sv l) d)) (\<lambda>(d', info).
       Inr (d', Reply 201 (LedgerBody (toAPILedger info)))))"

definition getLedger :: "Server \<Rightarrow> db \<Rightarrow> string \<Rightarrow> db \<times> response" where
  "getLedger sv d l =
     reads d (bindE (answered (GetLedger (sv_store sv l) d)) (\<lambda>info. Inr (Reply 200 (LedgerBody (toAPILedger info)))))"

definition registerAsset :: "Server \<Rightarrow> (nat \<Rightarrow> env) \<Rightarrow> db \<Rightarrow> string \<Rightarrow> Request \<Rightarrow> db \<times> response" where
  "registerAsset sv envs d l r =
     writes d (bindE (decodeJSON (rq_asset r)) (\<lambda>body.
       bindE (answered (RegisterAsset (envs 0) (sv_store sv l) d (q_asset body))) (\<lambda>d'.
         Inr (d', Reply 201 (AssetsBody (Assets (sv_store sv l) d'))))))"

definition listAssets :: "Server \<Rightarrow> db \<Rightarrow> string \<Rightarrow> db \<times> response" where
  "listAssets sv d l = (d, Reply 200 (AssetsBody (Assets (sv_store sv l) d)))"

subsection \<open>Handlers: transactions\<close>

definition created :: "bool \<Rightarrow> nat" where
  "created dryRun = (if dryRun then 200 else 201)"

definition deref :: "'a \<Rightarrow> 'a option \<Rightarrow> 'a" where
  "deref zero p = (case p of None \<Rightarrow> zero | Some x \<Rightarrow> x)"

definition request_options :: "string \<Rightarrow> bool \<Rightarrow> CreateTransactionRequest \<Rightarrow> CommitOptions" where
  "request_options ik dryRun body =
     \<lparr>OTimestamp = deref 0 (q_timestamp body), OReference = deref [] (q_reference body),
      OMetadata = q_metadata body, OIdempotencyKey = ik, ODryRun = dryRun\<rparr>"

definition createTransaction :: "Server \<Rightarrow> (nat \<Rightarrow> env) \<Rightarrow> db \<Rightarrow> string \<Rightarrow> Request \<Rightarrow> db \<times> response" where
  "createTransaction sv envs d l r =
     writes d (bindE (requireKey sv r) (\<lambda>_. bindE (query r) (\<lambda>params. bindE (boolParam params ''dryRun'') (\<lambda>dryRun.
       bindE (decodeJSON (rq_transaction r)) (\<lambda>body.
         bindE (answered (snd (CommitTransaction envs (sv_store sv l) d (fromAPIPostings (q_postings body))
                  (request_options (rq_key r) dryRun body))))
              (\<lambda>(d', t). Inr (d', Reply (created dryRun) (TransactionBody (toAPITransaction t)))))))))"

definition batch_item :: "CreateTransactionRequest \<Rightarrow> BatchItem" where
  "batch_item q =
     \<lparr>BPostings = fromAPIPostings (q_postings q), BTimestamp = deref 0 (q_timestamp q),
      BReference = deref [] (q_reference q), BMetadata = q_metadata q\<rparr>"

definition batch_options :: "string \<Rightarrow> bool \<Rightarrow> CommitOptions" where
  "batch_options ik dryRun =
     \<lparr>OTimestamp = 0, OReference = [], OMetadata = None, OIdempotencyKey = ik, ODryRun = dryRun\<rparr>"

definition commitBatch :: "Server \<Rightarrow> (nat \<Rightarrow> env) \<Rightarrow> db \<Rightarrow> string \<Rightarrow> Request \<Rightarrow> db \<times> response" where
  "commitBatch sv envs d l r =
     writes d (bindE (requireKey sv r) (\<lambda>_. bindE (query r) (\<lambda>params. bindE (boolParam params ''dryRun'') (\<lambda>dryRun.
       bindE (decodeJSON (rq_batch r)) (\<lambda>body.
         bindE (answered (snd (CommitBatch envs (sv_store sv l) d (map batch_item (q_transactions body))
                  (batch_options (rq_key r) dryRun))))
              (\<lambda>(d', ts). Inr (d', Reply (created dryRun) (BatchBody (map toAPITransaction ts)))))))))"

definition listTransactions :: "Server \<Rightarrow> db \<Rightarrow> string \<Rightarrow> Request \<Rightarrow> db \<times> response" where
  "listTransactions sv d l r =
     reads d (bindE (query r) (\<lambda>params. bindE (intParam params ''limit'') (\<lambda>limit.
       bindE (answered (ListTransactions (sv_store sv l) d
                \<lparr>TQFilter = \<lparr>FAccount = Get params ''account'', FAccountPrefix = Get params ''accountPrefix'',
                             FReference = Get params ''reference''\<rparr>,
                 TQLimit = limit, TQCursor = read_cursor (sv_tx_cursor sv) (Get params ''cursor'')\<rparr>))
         (\<lambda>page. Inr (Reply 200 (TransactionPage (page_out toAPITransaction page)))))))"

definition getTransaction :: "Server \<Rightarrow> db \<Rightarrow> string \<Rightarrow> string \<Rightarrow> db \<times> response" where
  "getTransaction sv d l raw =
     reads d (bindE (transactionID raw) (\<lambda>i. bindE (answered (GetTransaction (sv_store sv l) d i)) (\<lambda>t.
       Inr (Reply 200 (TransactionBody (toAPITransaction t))))))"

definition revertTransaction :: "Server \<Rightarrow> (nat \<Rightarrow> env) \<Rightarrow> db \<Rightarrow> string \<Rightarrow> string \<Rightarrow> Request \<Rightarrow> db \<times> response" where
  "revertTransaction sv envs d l raw r =
     writes d (bindE (transactionID raw) (\<lambda>i.
       bindE (if rq_length r > 0 then decodeJSON (rq_revert r) else Inr \<lparr>q_atEffectiveDate = None\<rparr>) (\<lambda>body.
         bindE (answered (snd (RevertTransaction envs (sv_store sv l) d i
                  \<lparr>AtEffectiveDate = deref False (q_atEffectiveDate body)\<rparr>))) (\<lambda>(d', rv).
           Inr (d', Reply 201 (ReversalBody (toAPITransaction (ROriginal rv)) (toAPITransaction (RReversal rv))))))))"

definition setTransactionMetadata :: "Server \<Rightarrow> (nat \<Rightarrow> env) \<Rightarrow> db \<Rightarrow> string \<Rightarrow> string \<Rightarrow> Request \<Rightarrow> db \<times> response" where
  "setTransactionMetadata sv envs d l raw r =
     writes d (bindE (transactionID raw) (\<lambda>i. bindE (decodeJSON (rq_metadata r)) (\<lambda>m.
       bindE (answered (SetTransactionMetadata (sv_store sv l) (envs 0) d i m)) (\<lambda>(d', t).
         Inr (d', Reply 200 (TransactionBody (toAPITransaction t)))))))"

definition deleteTransactionMetadata ::
  "Server \<Rightarrow> (nat \<Rightarrow> env) \<Rightarrow> db \<Rightarrow> string \<Rightarrow> string \<Rightarrow> string \<Rightarrow> db \<times> response" where
  "deleteTransactionMetadata sv envs d l raw k =
     writes d (bindE (transactionID raw) (\<lambda>i.
       bindE (answered (DeleteTransactionMetadataKey (sv_store sv l) (envs 0) d i k)) (\<lambda>(d', t).
         Inr (d', Reply 200 (TransactionBody (toAPITransaction t))))))"

subsection \<open>Handlers: accounts\<close>

text \<open>The comma separated extras; an unknown one is refused, the empty ones are not.\<close>

fun expansions :: "time \<Rightarrow> string list \<Rightarrow> response + (accountOptions \<Rightarrow> accountOptions) list" where
  "expansions t [] = Inr []"
| "expansions t (want # ws) =
     (let w = TrimSpace want
      in if w = [] then expansions t ws
         else if w = ''volumes'' then bindE (expansions t ws) (\<lambda>opts. Inr (WithVolumes # opts))
         else if w = ''effectiveVolumes'' then bindE (expansions t ws) (\<lambda>opts. Inr (WithEffectiveVolumes t # opts))
         else Inl (refuse_request (''unknown expand value '' @ want)))"

definition getAccount :: "Server \<Rightarrow> (nat \<Rightarrow> env) \<Rightarrow> db \<Rightarrow> string \<Rightarrow> string \<Rightarrow> Request \<Rightarrow> db \<times> response" where
  "getAccount sv envs d l a r =
     reads d (bindE (query r) (\<lambda>params. bindE (effectiveDate params) (\<lambda>t.
       bindE (expansions t (split_on CHR '','' (Get params ''expand''))) (\<lambda>opts.
         bindE (answered (GetAccount (envs 0) (sv_store sv l) d a opts)) (\<lambda>acc.
           Inr (Reply 200 (AccountBody (toAPIAccount acc))))))))"

definition getBalances :: "Server \<Rightarrow> db \<Rightarrow> string \<Rightarrow> string \<Rightarrow> Request \<Rightarrow> db \<times> response" where
  "getBalances sv d l a r =
     reads d (bindE (query r) (\<lambda>params. bindE (effectiveDate params) (\<lambda>t.
       Inr (Reply 200 (BalancesBody (toAPIBalances
         (if t = 0 then GetBalances (sv_store sv l) d a else GetBalancesAt (sv_store sv l) d a t)))))))"

definition aggregateBalances :: "Server \<Rightarrow> db \<Rightarrow> string \<Rightarrow> Request \<Rightarrow> db \<times> response" where
  "aggregateBalances sv d l r =
     reads d (bindE (query r) (\<lambda>params.
       Inr (Reply 200 (BalancesBody (toAPIBalances (AggregateBalances (sv_store sv l) d (Get params ''prefix'')))))))"

definition listMoves :: "Server \<Rightarrow> db \<Rightarrow> string \<Rightarrow> string \<Rightarrow> Request \<Rightarrow> db \<times> response" where
  "listMoves sv d l a r =
     reads d (bindE (query r) (\<lambda>params. bindE (intParam params ''limit'') (\<lambda>limit.
       bindE (optionalDate params ''from'') (\<lambda>from_date. bindE (optionalDate params ''to'') (\<lambda>to_date.
         bindE (answered (ListMoves (sv_store sv l) d
                  \<lparr>MQFilter = \<lparr>MFAddress = a, MFAsset = Get params ''asset'', MFFrom = from_date, MFTo = to_date\<rparr>,
                   MQLimit = limit, MQCursor = read_cursor (sv_move_cursor sv) (Get params ''cursor'')\<rparr>))
           (\<lambda>page. Inr (Reply 200 (MovePage (page_out toAPIMove page)))))))))"

definition setAccountMetadata :: "Server \<Rightarrow> (nat \<Rightarrow> env) \<Rightarrow> db \<Rightarrow> string \<Rightarrow> string \<Rightarrow> Request \<Rightarrow> db \<times> response" where
  "setAccountMetadata sv envs d l a r =
     writes d (bindE (decodeJSON (rq_metadata r)) (\<lambda>m.
       bindE (answered (SetAccountMetadata (sv_store sv l) (envs 0) d a m)) (\<lambda>(d', acc).
         Inr (d', Reply 200 (AccountBody (toAPIAccount acc))))))"

definition deleteAccountMetadata ::
  "Server \<Rightarrow> (nat \<Rightarrow> env) \<Rightarrow> db \<Rightarrow> string \<Rightarrow> string \<Rightarrow> string \<Rightarrow> db \<times> response" where
  "deleteAccountMetadata sv envs d l a k =
     writes d (bindE (answered (DeleteAccountMetadataKey (sv_store sv l) (envs 0) d a k)) (\<lambda>(d', acc).
       Inr (d', Reply 200 (AccountBody (toAPIAccount acc)))))"

subsection \<open>Handlers: the log and the pages\<close>

definition listLogs :: "Server \<Rightarrow> db \<Rightarrow> string \<Rightarrow> Request \<Rightarrow> db \<times> response" where
  "listLogs sv d l r =
     reads d (bindE (query r) (\<lambda>params. bindE (intParam params ''limit'') (\<lambda>limit.
       bindE (answered (ListLogs (sv_store sv l) d
                \<lparr>LQLimit = limit, LQCursor = read_cursor (sv_log_cursor sv) (Get params ''cursor'')\<rparr>))
         (\<lambda>page. Inr (Reply 200 (LogPage (page_out toAPILog page)))))))"

definition handleHome :: "string list \<Rightarrow> response" where
  "handleHome path = (if path = [] then Reply 200 (PlainBody ''demo.html'') else Reply 404 (PlainBody ''404 page not found''))"

subsection \<open>Routes\<close>

datatype route =
    R_createLedger string
  | R_getLedger string
  | R_registerAsset string
  | R_listAssets string
  | R_createTransaction string
  | R_listTransactions string
  | R_commitBatch string
  | R_getTransaction string string
  | R_revertTransaction string string
  | R_setTransactionMetadata string string
  | R_deleteTransactionMetadata string string string
  | R_getAccount string string
  | R_setAccountMetadata string string
  | R_deleteAccountMetadata string string string
  | R_getBalances string string
  | R_listMoves string string
  | R_aggregateBalances string
  | R_listLogs string
  | R_page string
  | R_home
  | R_notAllowed

text \<open>The most specific pattern wins; a GET pattern also answers HEAD, and the catch all is a GET pattern.\<close>

definition unmatched :: "bool \<Rightarrow> route" where
  "unmatched isGet = (if isGet then R_home else R_notAllowed)"

definition route_ledger :: "string \<Rightarrow> bool \<Rightarrow> string \<Rightarrow> string list \<Rightarrow> route" where
  "route_ledger meth isGet l rest =
     (case rest of
        [] \<Rightarrow> if meth = ''POST'' then R_createLedger l else if isGet then R_getLedger l else R_notAllowed
      | [a] \<Rightarrow>
          if a = ''assets'' \<and> meth = ''POST'' then R_registerAsset l
          else if a = ''assets'' \<and> isGet then R_listAssets l
          else if a = ''transactions'' \<and> meth = ''POST'' then R_createTransaction l
          else if a = ''transactions'' \<and> isGet then R_listTransactions l
          else if a = ''balances'' \<and> isGet then R_aggregateBalances l
          else if a = ''logs'' \<and> isGet then R_listLogs l
          else unmatched isGet
      | [a, b] \<Rightarrow>
          if a = ''transactions'' \<and> b = ''bulk'' \<and> meth = ''POST'' then R_commitBatch l
          else if a = ''transactions'' \<and> isGet then R_getTransaction l b
          else if a = ''accounts'' \<and> isGet then R_getAccount l b
          else unmatched isGet
      | [a, b, c] \<Rightarrow>
          if a = ''transactions'' \<and> c = ''revert'' \<and> meth = ''POST'' then R_revertTransaction l b
          else if a = ''transactions'' \<and> c = ''metadata'' \<and> meth = ''POST'' then R_setTransactionMetadata l b
          else if a = ''accounts'' \<and> c = ''metadata'' \<and> meth = ''POST'' then R_setAccountMetadata l b
          else if a = ''accounts'' \<and> c = ''balances'' \<and> isGet then R_getBalances l b
          else if a = ''accounts'' \<and> c = ''moves'' \<and> isGet then R_listMoves l b
          else unmatched isGet
      | [a, b, c, k] \<Rightarrow>
          if a = ''transactions'' \<and> c = ''metadata'' \<and> meth = ''DELETE'' then R_deleteTransactionMetadata l b k
          else if a = ''accounts'' \<and> c = ''metadata'' \<and> meth = ''DELETE'' then R_deleteAccountMetadata l b k
          else unmatched isGet
      | _ \<Rightarrow> unmatched isGet)"

definition routes :: "string \<Rightarrow> string list \<Rightarrow> route" where
  "routes meth path =
     (let isGet = (meth = ''GET'' \<or> meth = ''HEAD'')
      in case path of
           [] \<Rightarrow> unmatched isGet
         | [p] \<Rightarrow> if isGet \<and> p \<in> {''openapi.yaml'', ''docs'', ''healthz''} then R_page p else unmatched isGet
         | v # ls # rest \<Rightarrow>
             if v = ''v1'' \<and> ls = ''ledgers'' \<and> rest \<noteq> [] then route_ledger meth isGet (hd rest) (tl rest)
             else unmatched isGet)"

definition ServeHTTP :: "Server \<Rightarrow> (nat \<Rightarrow> env) \<Rightarrow> db \<Rightarrow> Request \<Rightarrow> db \<times> response" where
  "ServeHTTP sv envs d r =
     (case routes (rq_method r) (rq_path r) of
        R_createLedger l \<Rightarrow> createLedger sv envs d l
      | R_getLedger l \<Rightarrow> getLedger sv d l
      | R_registerAsset l \<Rightarrow> registerAsset sv envs d l r
      | R_listAssets l \<Rightarrow> listAssets sv d l
      | R_createTransaction l \<Rightarrow> createTransaction sv envs d l r
      | R_listTransactions l \<Rightarrow> listTransactions sv d l r
      | R_commitBatch l \<Rightarrow> commitBatch sv envs d l r
      | R_getTransaction l i \<Rightarrow> getTransaction sv d l i
      | R_revertTransaction l i \<Rightarrow> revertTransaction sv envs d l i r
      | R_setTransactionMetadata l i \<Rightarrow> setTransactionMetadata sv envs d l i r
      | R_deleteTransactionMetadata l i k \<Rightarrow> deleteTransactionMetadata sv envs d l i k
      | R_getAccount l a \<Rightarrow> getAccount sv envs d l a r
      | R_setAccountMetadata l a \<Rightarrow> setAccountMetadata sv envs d l a r
      | R_deleteAccountMetadata l a k \<Rightarrow> deleteAccountMetadata sv envs d l a k
      | R_getBalances l a \<Rightarrow> getBalances sv d l a r
      | R_listMoves l a \<Rightarrow> listMoves sv d l a r
      | R_aggregateBalances l \<Rightarrow> aggregateBalances sv d l r
      | R_listLogs l \<Rightarrow> listLogs sv d l r
      | R_page p \<Rightarrow> (d, Reply 200 (PlainBody p))
      | R_home \<Rightarrow> (d, handleHome (rq_path r))
      | R_notAllowed \<Rightarrow> (d, Reply 405 (PlainBody ''Method Not Allowed'')))"

end
