(* ===== verification/Migrate.thy ===== *)
theory Migrate
  imports Go_Text
begin

text \<open>
  Package \<open>src/migrate\<close> as it is written: what a migration file is called and holds (parse.go, new.go), how a directory of
  them is loaded, how the history in \<open>schema_migrations\<close> is compared with it, and how a run applies what is pending
  (migrate.go).  What the database does with the text of a migration, and what its queries answer when they fail, are
  parameters; the texts of the errors are left out, except the file or the name they are about.
\<close>

subsection \<open>Errors\<close>

text \<open>The sentinel errors of the package, and the ones that are only a text: which file or which part of the
  database said no.\<close>

datatype migrate_error =
    ErrChecksumDrift string
  | ErrOutOfOrder string
  | ErrMissing
  | ErrPending "string list"
  | ErrNothingApplied
  | ErrSchemaAhead nat
  | ErrBadFilename string
  | ErrDuplicateVersion int
  | ErrNoSlug string
  | ErrExists string
  | ErrIO string
  | ErrLockWait
  | ErrLockNotHeld
  | ErrDatabase string

type_synonym 'a mres = "migrate_error + 'a"

subsection \<open>Texts\<close>

text \<open>\<open>strings.EqualFold\<close> against an ASCII text: a letter matches its other case, and the long s matches s.\<close>

definition to_lower_char :: "char \<Rightarrow> char" where
  "to_lower_char c = (if is_upper c then char_of (of_char c + 32 :: nat) else c)"

fun equal_fold :: "string \<Rightarrow> string \<Rightarrow> bool" where
  "equal_fold s [] = (s = [])"
| "equal_fold [] (d # ds) = False"
| "equal_fold (c # cs) (d # ds) =
     (if to_lower_char c = to_lower_char d then equal_fold cs ds
      else to_lower_char d = CHR ''s'' \<and> c = CHR 0xC5 \<and> take 1 cs = [CHR 0xBF] \<and> equal_fold (drop 1 cs) ds)"

definition noTransactionDirective :: string where
  "noTransactionDirective = ''-- giro:no-transaction''"

text \<open>\<open>strings.Lines\<close> keeps the newline of each line, which the trimming removes.\<close>

definition hasDirective :: "string \<Rightarrow> string \<Rightarrow> bool" where
  "hasDirective sql directive =
     list_ex (\<lambda>line. equal_fold (TrimSpace line) directive) (split_on CHR 0x0A sql)"

subsection \<open>File names\<close>

text \<open>\<open>filenamePattern\<close>: fourteen digits, an underscore, words of lower case letters and digits joined by single
  underscores, \<open>.sql\<close>.\<close>

definition slug_char :: "char \<Rightarrow> bool" where
  "slug_char c \<longleftrightarrow> is_lower c \<or> is_digit c"

definition slug_ok :: "string \<Rightarrow> bool" where
  "slug_ok s = list_all (\<lambda>w. w \<noteq> [] \<and> list_all slug_char w) (split_on CHR ''_'' s)"

definition parseFilename :: "string \<Rightarrow> (int \<times> string) mres" where
  "parseFilename filename =
     (let stamp = take 14 filename; rest = drop 14 filename; stem = take (length rest - 5) (drop 1 rest)
      in if length stamp = 14 \<and> list_all is_digit stamp \<and> 5 \<le> length rest \<and>
            rest = ''_'' @ stem @ ''.sql'' \<and> slug_ok stem
         then (case ParseInt64 stamp of None \<Rightarrow> Inl (ErrBadFilename filename) | Some v \<Rightarrow> Inr (v, stem))
         else Inl (ErrBadFilename filename))"

text \<open>Lower case, as far as it matters to what is kept: two characters outside ASCII have an ASCII lower case.\<close>

fun to_lower :: "string \<Rightarrow> string" where
  "to_lower (a # b # c # s) =
     (if a = CHR 0xE2 \<and> b = CHR 0x84 \<and> c = CHR 0xAA then CHR ''k'' # to_lower s
      else if a = CHR 0xC4 \<and> b = CHR 0xB0 then CHR ''i'' # to_lower (c # s)
      else to_lower_char a # to_lower (b # c # s))"
| "to_lower [a, b] =
     (if a = CHR 0xC4 \<and> b = CHR 0xB0 then ''i'' else [to_lower_char a, to_lower_char b])"
| "to_lower [a] = [to_lower_char a]"
| "to_lower [] = []"

text \<open>Each run of other characters becomes one underscore.\<close>

fun squeeze :: "string \<Rightarrow> string" where
  "squeeze [] = []"
| "squeeze (c # s) =
     (if slug_char c then c # squeeze s
      else CHR ''_'' # (case s of [] \<Rightarrow> [] | d # s' \<Rightarrow> if slug_char d then squeeze s else tl (squeeze s)))"

definition trim_char :: "char \<Rightarrow> string \<Rightarrow> string" where
  "trim_char x s = rev (dropWhile (\<lambda>c. c = x) (rev (dropWhile (\<lambda>c. c = x) s)))"

definition Slugify :: "string \<Rightarrow> string" where
  "Slugify name = trim_char CHR ''_'' (squeeze (to_lower name))"

text \<open>\<open>now.UTC().Format(\"20060102150405\")\<close>.\<close>

definition timestamp_text :: "time \<Rightarrow> string" where
  "timestamp_text t =
     (let secs = t div nanos_per_second;
          (y, yd) = year_and_day (secs div 86400);
          (m, d) = month_and_day (month_lengths y) 1 yd;
          s = secs mod 86400
      in pad_int 4 y @ pad_int 2 m @ pad_int 2 d @ pad_int 2 (s div 3600) @ pad_int 2 (s div 60 mod 60) @ pad_int 2 (s mod 60))"

definition migration_filename :: "string \<Rightarrow> time \<Rightarrow> string" where
  "migration_filename slug now = timestamp_text now @ ''_'' @ slug @ ''.sql''"

text \<open>A directory is its files by name; \<open>io\<close> is what creating the directory and writing the file answer.\<close>

type_synonym dir = "(string, string) table"

definition stub_advice :: string where
  "stub_advice =
     ''--'' @ [CHR 0x0A] @
     ''-- forward only. to undo something, write a new migration.'' @ [CHR 0x0A] @
     ''-- add '' @ [CHR 0x22] @ noTransactionDirective @ [CHR 0x22] @
     '' on its own line if this cannot run inside a transaction,'' @ [CHR 0x0A] @
     ''-- for example create index concurrently.'' @ [CHR 0x0A, CHR 0x0A]"

definition stub :: "string \<Rightarrow> string" where
  "stub slug = ''-- '' @ slug @ [CHR 0x0A] @ stub_advice"

definition newAt :: "migrate_error option \<Rightarrow> dir \<Rightarrow> string \<Rightarrow> time \<Rightarrow> (dir \<times> string) mres" where
  "newAt io d name now =
     (let slug = Slugify name; filename = migration_filename slug now
      in if slug = [] then Inl (ErrNoSlug name)
         else if map_of d filename \<noteq> None then Inl (ErrExists filename)
         else (case io of Some e \<Rightarrow> Inl e | None \<Rightarrow> Inr (AList.update filename (stub slug) d, filename)))"

subsection \<open>Loading\<close>

record Migration =
  MVersion :: int
  MName :: string
  MFilename :: string
  MSQL :: string
  MChecksum :: string
  MNoTx :: bool

text \<open>What reading a directory answers: per entry its name, whether it is a directory, and its content.\<close>

record dir_entry =
  de_name :: string
  de_is_dir :: bool
  de_body :: "string mres"

definition load_entry :: "dir_entry \<Rightarrow> Migration mres" where
  "load_entry e =
     bindE (parseFilename (de_name e)) (\<lambda>(version, name).
     bindE (de_body e) (\<lambda>body.
       Inr \<lparr>MVersion = version, MName = name, MFilename = de_name e, MSQL = body,
            MChecksum = hexEncode (sha256 body), MNoTx = hasDirective body noTransactionDirective\<rparr>))"

definition load_entries :: "dir_entry list \<Rightarrow> Migration list mres" where
  "load_entries es =
     foldE (\<lambda>e ms. if de_is_dir e \<or> \<not> has_suffix (de_name e) ''.sql'' then Inr ms
                   else bindE (load_entry e) (\<lambda>m. Inr (ms @ [m]))) es []"

fun duplicate_version :: "Migration list \<Rightarrow> int option" where
  "duplicate_version (a # b # ms) =
     (if MVersion b = MVersion a then Some (MVersion b) else duplicate_version (b # ms))"
| "duplicate_version _ = None"

definition Load :: "dir_entry list mres \<Rightarrow> Migration list mres" where
  "Load fsys =
     bindE fsys (\<lambda>es. bindE (load_entries es) (\<lambda>ms.
       let sorted_ms = sort_key MVersion ms
       in case duplicate_version sorted_ms of
            Some v \<Rightarrow> Inl (ErrDuplicateVersion v)
          | None \<Rightarrow> Inr sorted_ms))"

subsection \<open>History\<close>

record applied =
  AName :: string
  AChecksum :: string
  AppliedAt :: time

type_synonym history = "(int, applied) table"

text \<open>The database as the package sees it: its own table, when it exists, and everything else.\<close>

record 'd mdb =
  schema_migrations :: "history option"
  db_rest :: 'd

definition loadApplied :: "'d mdb \<Rightarrow> history" where
  "loadApplied db = (case schema_migrations db of None \<Rightarrow> [] | Some h \<Rightarrow> h)"

fun check_drift :: "history \<Rightarrow> Migration list \<Rightarrow> int \<Rightarrow> int mres" where
  "check_drift done [] highest = Inr highest"
| "check_drift done (m # ms) highest =
     (case map_of done (MVersion m) of
        None \<Rightarrow> check_drift done ms highest
      | Some a \<Rightarrow>
          if AChecksum a \<noteq> MChecksum m then Inl (ErrChecksumDrift (MFilename m))
          else check_drift done ms (max highest (MVersion m)))"

fun check_order :: "history \<Rightarrow> int \<Rightarrow> Migration list \<Rightarrow> migrate_error option" where
  "check_order done highest [] = None"
| "check_order done highest (m # ms) =
     (if map_of done (MVersion m) \<noteq> None then check_order done highest ms
      else if MVersion m < highest then Some (ErrOutOfOrder (MFilename m))
      else check_order done highest ms)"

definition on_disk :: "Migration list \<Rightarrow> int \<Rightarrow> bool" where
  "on_disk ms v \<longleftrightarrow> list_ex (\<lambda>m. MVersion m = v) ms"

definition migrate_verify :: "Migration list \<Rightarrow> history \<Rightarrow> migrate_error option" where
  "migrate_verify ms done =
     (case check_drift done ms 0 of
        Inl e \<Rightarrow> Some e
      | Inr highest \<Rightarrow>
          if list_ex (\<lambda>(v, _). \<not> on_disk ms v) done then Some ErrMissing
          else check_order done highest ms)"

subsection \<open>Applying\<close>

text \<open>What the database does with a migration's text is a parameter: in a transaction it takes effect as a whole
  or not at all, outside one it may fail half way; writing the history row may fail by itself.\<close>

record 'd sql_engine =
  exec_tx :: "string \<Rightarrow> 'd \<Rightarrow> 'd mres"
  exec_bare :: "string \<Rightarrow> 'd \<Rightarrow> 'd \<times> migrate_error option"
  record_fails :: "Migration \<Rightarrow> migrate_error option"

definition record_applied :: "'d sql_engine \<Rightarrow> time \<Rightarrow> Migration \<Rightarrow> 'd mdb \<Rightarrow> 'd mdb mres" where
  "record_applied eng now m db =
     (case schema_migrations db of
        None \<Rightarrow> Inl (ErrDatabase ''schema_migrations does not exist'')
      | Some h \<Rightarrow>
          if record_fails eng m \<noteq> None then Inl (the (record_fails eng m))
          else if map_of h (MVersion m) \<noteq> None then Inl (ErrDatabase ''duplicate version'')
          else Inr (db\<lparr>schema_migrations :=
                 Some (h @ [(MVersion m, \<lparr>AName = MName m, AChecksum = MChecksum m, AppliedAt = now\<rparr>)])\<rparr>))"

definition apply_migration :: "'d sql_engine \<Rightarrow> time \<Rightarrow> Migration \<Rightarrow> 'd mdb \<Rightarrow> 'd mdb \<times> migrate_error option" where
  "apply_migration eng now m db =
     (if MNoTx m
      then (case exec_bare eng (MSQL m) (db_rest db) of
              (d, Some e) \<Rightarrow> (db\<lparr>db_rest := d\<rparr>, Some e)
            | (d, None) \<Rightarrow>
                (case record_applied eng now m (db\<lparr>db_rest := d\<rparr>) of
                   Inl e \<Rightarrow> (db\<lparr>db_rest := d\<rparr>, Some e) | Inr db' \<Rightarrow> (db', None)))
      else (case exec_tx eng (MSQL m) (db_rest db) of
              Inl e \<Rightarrow> (db, Some e)
            | Inr d \<Rightarrow>
                (case record_applied eng now m (db\<lparr>db_rest := d\<rparr>) of
                   Inl e \<Rightarrow> (db, Some e) | Inr db' \<Rightarrow> (db', None))))"

fun apply_pending ::
  "'d sql_engine \<Rightarrow> time \<Rightarrow> history \<Rightarrow> Migration list \<Rightarrow> 'd mdb \<Rightarrow> nat \<Rightarrow> 'd mdb \<times> nat \<times> migrate_error option" where
  "apply_pending eng now done [] db n = (db, n, None)"
| "apply_pending eng now done (m # ms) db n =
     (if map_of done (MVersion m) \<noteq> None then apply_pending eng now done ms db n
      else (case apply_migration eng now m db of
              (db', Some e) \<Rightarrow> (db', n, Some e)
            | (db', None) \<Rightarrow> apply_pending eng now done ms db' (Suc n)))"

subsection \<open>The advisory lock\<close>

text \<open>One poll: whether the lock was taken, whether the wait had ended by then or ends before the next poll,
  and an error of the query. The wait ends, so the polls are a finite list.\<close>

record poll =
  po_got :: bool
  po_expired :: bool
  po_error :: "migrate_error option"
  po_expires :: bool

fun acquireAdvisoryLock :: "poll list \<Rightarrow> migrate_error option" where
  "acquireAdvisoryLock [] = Some ErrLockWait"
| "acquireAdvisoryLock (p # ps) =
     (if po_got p then None
      else if po_expired p then Some ErrLockWait
      else (case po_error p of
              Some e \<Rightarrow> Some e
            | None \<Rightarrow> if po_expires p then Some ErrLockWait else acquireAdvisoryLock ps))"

definition releaseAdvisoryLock :: "bool mres \<Rightarrow> migrate_error option" where
  "releaseAdvisoryLock r =
     (case r of Inl e \<Rightarrow> Some e | Inr released \<Rightarrow> if released then None else Some ErrLockNotHeld)"

text \<open>What one session answers besides running migrations.\<close>

record session =
  se_now :: time
  se_lock_timeout :: "migrate_error option"
  se_polls :: "poll list"
  se_create_table :: "migrate_error option"
  se_load_applied :: "migrate_error option"
  se_release :: "bool mres"

definition create_table :: "'d mdb \<Rightarrow> 'd mdb" where
  "create_table db = db\<lparr>schema_migrations := Some (loadApplied db)\<rparr>"

definition locked_run ::
  "'d sql_engine \<Rightarrow> session \<Rightarrow> Migration list \<Rightarrow> 'd mdb \<Rightarrow> 'd mdb \<times> nat \<times> migrate_error option" where
  "locked_run eng se ms db =
     (case se_create_table se of
        Some e \<Rightarrow> (db, 0, Some e)
      | None \<Rightarrow>
          (let db1 = create_table db; done = loadApplied db1
           in case se_load_applied se of
                Some e \<Rightarrow> (db1, 0, Some e)
              | None \<Rightarrow>
                  (case migrate_verify ms done of
                     Some e \<Rightarrow> (db1, 0, Some e)
                   | None \<Rightarrow> apply_pending eng (se_now se) done ms db1 0)))"

text \<open>The result carries every error that was joined: of the run, of the release.\<close>

definition Run ::
  "'d sql_engine \<Rightarrow> session \<Rightarrow> dir_entry list mres \<Rightarrow> 'd mdb \<Rightarrow> 'd mdb \<times> nat \<times> migrate_error list" where
  "Run eng se fsys db =
     (case Load fsys of
        Inl e \<Rightarrow> (db, 0, [e])
      | Inr ms \<Rightarrow>
          (case se_lock_timeout se of
             Some e \<Rightarrow> (db, 0, [e])
           | None \<Rightarrow>
               (case acquireAdvisoryLock (se_polls se) of
                  Some e \<Rightarrow> (db, 0, [e])
                | None \<Rightarrow>
                    (case locked_run eng se ms db of
                       (db', n, err) \<Rightarrow>
                         (db', n, List.map_filter id [err, releaseAdvisoryLock (se_release se)])))))"

subsection \<open>Reports\<close>

text \<open>\<open>io\<close> is what the queries of the report answer when the database fails them.\<close>

definition Migrate_Status :: "migrate_error option \<Rightarrow> dir_entry list mres \<Rightarrow> 'd mdb \<Rightarrow> (Migration \<times> bool \<times> time) list mres" where
  "Migrate_Status io fsys db =
     bindE (Load fsys) (\<lambda>ms. bindE (case io of Some e \<Rightarrow> Inl e | None \<Rightarrow> Inr ()) (\<lambda>_. Inr (map (\<lambda>m.
       case map_of (loadApplied db) (MVersion m) of
         None \<Rightarrow> (m, False, 0)
       | Some a \<Rightarrow> (m, True, AppliedAt a)) ms)))"

fun drifted :: "history \<Rightarrow> Migration list \<Rightarrow> migrate_error option" where
  "drifted done [] = None"
| "drifted done (m # ms) =
     (case map_of done (MVersion m) of
        None \<Rightarrow> drifted done ms
      | Some a \<Rightarrow> if AChecksum a \<noteq> MChecksum m then Some (ErrChecksumDrift (MFilename m)) else drifted done ms)"

definition RequireUpToDate :: "migrate_error option \<Rightarrow> dir_entry list mres \<Rightarrow> 'd mdb \<Rightarrow> unit mres" where
  "RequireUpToDate io fsys db =
     bindE (Load fsys) (\<lambda>ms. bindE (case io of Some e \<Rightarrow> Inl e | None \<Rightarrow> Inr ()) (\<lambda>_.
       case schema_migrations db of
         None \<Rightarrow> Inl ErrNothingApplied
       | Some done \<Rightarrow>
           (case drifted done ms of
              Some e \<Rightarrow> Inl e
            | None \<Rightarrow>
                (let pending = map MFilename (filter (\<lambda>m. map_of done (MVersion m) = None) ms);
                     ahead = filter (\<lambda>(v, _). \<not> on_disk ms v) done
                 in if pending \<noteq> [] then Inl (ErrPending pending)
                    else if ahead \<noteq> [] then Inl (ErrSchemaAhead (length ahead))
                    else Inr ()))))"

end
