(* ===== verification/Cli.thy ===== *)
theory Cli
  imports Api Migrate Recon Fx
begin

text \<open>
  The command (\<open>src/cmd/giro\<close>): how its arguments select an operation, which of them are refused before the database is
  touched, what each operation does to the database and what it makes the process return.  A printed line is a value
  that holds what is printed; the usage texts are named.  What the process finds outside itself (the environment, the
  pool, the clock, the migrations compiled in, the plan of a query) is the record \<open>outside\<close>.
\<close>

subsection \<open>How the process ends\<close>

datatype usage = MainUsage | AccountUsage | RecoverUsage | VerifyUsage | MigrateUsage | MigrateNewUsage | ServeUsage

datatype complaint = NoComplaint | UnknownCommand string | UnknownFlag string | FlagAfterLedger string

text \<open>\<open>Usage\<close> is \<open>usageErr\<close>; the others are the errors of the commands, by their texts' arguments; \<open>Crashed\<close> is a
  panic of the process.\<close>

datatype cli_error =
    Usage complaint usage
  | InvalidAddress Address
  | InvalidAsset Asset
  | NoDatabaseURL
  | Unconnected error
  | NoLedger string "string list"
  | AssetNotHandled string Asset "Asset list"
  | Engine error
  | TipsDiffer nat nat
  | ChecksFound nat
  | ChecksNotRun nat time
  | MigrateErrors "migrate_error list"
  | SchemaCheck migrate_error
  | ServerFailed error
  | Crashed error

fun exit_code :: "cli_error option \<Rightarrow> nat" where
  "exit_code None = 0"
| "exit_code (Some (Usage c u)) = 2"
| "exit_code (Some (Crashed e)) = 2"
| "exit_code (Some e) = 1"

subsection \<open>What is printed\<close>

datatype side = NegativeSide | PositiveSide

datatype bounds_text = Unbounded | AtOrBelowZero | AtOrAboveZero | ZeroOnly

record staleness =
  st_ledger :: string
  st_check :: string
  st_at :: "time option"
  st_stale :: bool

datatype line =
    UsageText
  | ClosedLine Address string
  | ReopenedLine Address string
  | BoundLine Address bool side Asset
  | OutsideNote int Asset
  | AccountLine Address bool
  | NoPolicyRows
  | PolicyRow Asset int bounds_text
  | NoLedgersLine
  | TipLine string
  | TipOk string
  | TipFails string error
  | NothingToDo string int int
  | ResumedLine string int int int
  | NewTipLine string
  | ReportLines bool string "CheckResult list"
  | LastRunLines bool "staleness list"
  | UpToDate
  | AppliedLine nat
  | NoMigrationsFound
  | MigrationLine bool Migration time
  | CreatedLine string
  | SchemaAheadWarning migrate_error
  | PrivilegedWarning string
  | UnkeyedNote
  | NoAuthNote
  | ListeningLine string
  | Answered response
  | StoppedLine

subsection \<open>The world\<close>

text \<open>The database with the table of applied migrations, and the directory \<open>migrate new\<close> writes to.\<close>

record world =
  base :: "(db \<times> recon) mdb"
  disk :: dir

definition book :: "world \<Rightarrow> db" where
  "book w = fst (db_rest (base w))"

definition evidence :: "world \<Rightarrow> recon" where
  "evidence w = snd (db_rest (base w))"

definition with_book :: "db \<Rightarrow> world \<Rightarrow> world" where
  "with_book d w = w\<lparr>base := (base w)\<lparr>db_rest := (d, evidence w)\<rparr>\<rparr>"

definition with_rest :: "db \<times> recon \<Rightarrow> world \<Rightarrow> world" where
  "with_rest x w = w\<lparr>base := (base w)\<lparr>db_rest := x\<rparr>\<rparr>"

record outside =
  DATABASE_URL :: string
  pool_err :: "string \<Rightarrow> error option"
  clock :: env
  ParseDuration :: "string \<Rightarrow> time option"
  err_text :: "error \<Rightarrow> string"
  stale_text :: "StaleBalance \<Rightarrow> string"
  break_text :: "StaleBreak \<Rightarrow> string"
  check_took :: "string \<Rightarrow> time"
  query_plan :: "cand list \<Rightarrow> cand list"
  engine :: "(db \<times> recon) sql_engine"
  lock_session :: session
  embedded :: "dir_entry list mres"
  migrate_io :: "migrate_error option"
  privileged_as :: "string option"
  server0 :: Server
  requests :: "((nat \<Rightarrow> env) \<times> Request) list"
  listen_err :: "error option"

text \<open>The pool, or the one connection of the migration commands.\<close>

definition connect :: "outside \<Rightarrow> cli_error option" where
  "connect out =
     (if DATABASE_URL out = [] then Some NoDatabaseURL
      else (case pool_err out (DATABASE_URL out) of Some e \<Rightarrow> Some (Unconnected e) | None \<Rightarrow> None))"

type_synonym outcome = "world \<times> line list \<times> cli_error option"

subsection \<open>giro account\<close>

definition bounds :: "AssetPolicy \<Rightarrow> bounds_text" where
  "bounds p =
     (if PolAllowNegative p \<and> PolAllowPositive p then Unbounded
      else if PolAllowNegative p then AtOrBelowZero
      else if PolAllowPositive p then AtOrAboveZero
      else ZeroOnly)"

text \<open>The notes about balances the narrowed bound does not hold for; a failure to read them back is passed over.\<close>

definition outside_notes :: "Store \<Rightarrow> db \<Rightarrow> Address \<Rightarrow> Asset \<Rightarrow> side \<Rightarrow> line list" where
  "outside_notes s d a x sd =
     (case Policy s d a of
        Inl err \<Rightarrow> []
      | Inr policy \<Rightarrow>
          map (\<lambda>p. OutsideNote (PolBalance p) x)
            (filter (\<lambda>p. PolAsset p = x \<and>
               ((sd = NegativeSide \<and> PolBalance p < 0) \<or> (sd = PositiveSide \<and> PolBalance p > 0))) policy))"

definition setBound :: "Store \<Rightarrow> world \<Rightarrow> Address \<Rightarrow> Asset \<Rightarrow> side \<Rightarrow> bool \<Rightarrow> outcome" where
  "setBound s w a x sd allow =
     (case (case sd of NegativeSide \<Rightarrow> SetAllowNegative s (book w) a x allow
                     | PositiveSide \<Rightarrow> SetAllowPositive s (book w) a x allow) of
        Inl err \<Rightarrow> (w, [], Some (Engine err))
      | Inr d \<Rightarrow>
          (with_book d w, BoundLine a allow sd x # (if allow then [] else outside_notes s d a x sd), None))"

definition showAccount :: "Store \<Rightarrow> world \<Rightarrow> Address \<Rightarrow> outcome" where
  "showAccount s w a =
     (case Policy s (book w) a of
        Inl err \<Rightarrow> (w, [], Some (Engine err))
      | Inr policy \<Rightarrow>
          (w, AccountLine a (IsClosed s (book w) a) #
              (if policy = [] then [NoPolicyRows]
               else map (\<lambda>p. PolicyRow (PolAsset p) (PolBalance p) (bounds p)) policy), None))"

datatype account_verb =
    Show | Bound side bool | CloseIt | ReopenIt

fun verb_of :: "string \<Rightarrow> account_verb option" where
  "verb_of v =
     (if v = ''show'' then Some Show
      else if v = ''allow-negative'' then Some (Bound NegativeSide True)
      else if v = ''refuse-negative'' then Some (Bound NegativeSide False)
      else if v = ''allow-positive'' then Some (Bound PositiveSide True)
      else if v = ''refuse-positive'' then Some (Bound PositiveSide False)
      else if v = ''close'' then Some CloseIt
      else if v = ''reopen'' then Some ReopenIt
      else None)"

declare verb_of.simps [simp del]

fun wants_asset :: "account_verb \<Rightarrow> bool" where
  "wants_asset (Bound sd allow) = True"
| "wants_asset _ = False"

text \<open>The last switch: each verb is one operation of the store.\<close>

definition account_run :: "outside \<Rightarrow> Store \<Rightarrow> world \<Rightarrow> account_verb \<Rightarrow> Address \<Rightarrow> Asset \<Rightarrow> outcome" where
  "account_run out s w verb a x =
     (case verb of
        Show \<Rightarrow> showAccount s w a
      | Bound sd allow \<Rightarrow> setBound s w a x sd allow
      | CloseIt \<Rightarrow>
          (case CloseAccount s (clock out) (book w) a of
             Inl err \<Rightarrow> (w, [], Some (Engine err))
           | Inr d \<Rightarrow> (with_book d w, [ClosedLine a (ledger s)], None))
      | ReopenIt \<Rightarrow>
          (case ReopenAccount s (clock out) (book w) a of
             Inl err \<Rightarrow> (w, [], Some (Engine err))
           | Inr d \<Rightarrow> (with_book d w, [ReopenedLine a (ledger s)], None)))"

definition accountCommand :: "outside \<Rightarrow> world \<Rightarrow> string list \<Rightarrow> outcome" where
  "accountCommand out w args =
     (case args of
        [] \<Rightarrow> (w, [], Some (Usage NoComplaint AccountUsage))
      | v # rest \<Rightarrow>
          (case verb_of v of
             None \<Rightarrow> (w, [], Some (Usage (UnknownCommand v) AccountUsage))
           | Some verb \<Rightarrow>
               (if length rest \<noteq> (if wants_asset verb then 3 else 2)
                then (w, [], Some (Usage NoComplaint AccountUsage))
                else
                  let l = rest ! 0; a = rest ! 1; x = (if wants_asset verb then rest ! 2 else [])
                  in if \<not> Address_Valid a then (w, [], Some (InvalidAddress a))
                     else if wants_asset verb \<and> \<not> Asset_Valid x then (w, [], Some (InvalidAsset x))
                     else
                       (case connect out of
                          Some e \<Rightarrow> (w, [], Some e)
                        | None \<Rightarrow>
                            (let names = Ledgers (book w); s = New l
                             in if l \<notin> set names then (w, [], Some (NoLedger l names))
                                else if wants_asset verb \<and> x \<notin> set (Assets s (book w))
                                then (w, [], Some (AssetNotHandled l x (Assets s (book w))))
                                else account_run out s w verb a x)))))"

subsection \<open>giro recover\<close>

text \<open>\<open>recoverTip\<close> prints until a ledger cannot be read.\<close>

fun print_tips :: "db \<Rightarrow> string list \<Rightarrow> line list \<times> cli_error option" where
  "print_tips d [] = ([], None)"
| "print_tips d (name # names) =
     (case ChainTip (New name) d of
        Inl err \<Rightarrow> ([], Some (Engine err))
      | Inr tip \<Rightarrow> (case print_tips d names of (ls, e) \<Rightarrow> (TipLine (Tip_String tip) # ls, e)))"

definition recoverTip :: "world \<Rightarrow> string list \<Rightarrow> outcome" where
  "recoverTip w args =
     (let names = (if args = [] then Ledgers (book w) else args)
      in if names = [] then (w, [NoLedgersLine], None)
         else (case print_tips (book w) names of (ls, e) \<Rightarrow> (w, ls, e)))"

text \<open>The loop of \<open>recoverCheck\<close>: a tip that does not match is counted and passed, one that cannot be read ends it.\<close>

fun check_tips :: "db \<Rightarrow> string list \<Rightarrow> nat \<Rightarrow> line list \<times> error + nat \<times> line list" where
  "check_tips d [] failures = Inr (failures, [])"
| "check_tips d (arg # args) failures =
     (case ParseTip arg of
        Inl err \<Rightarrow> Inl ([], err)
      | Inr tip \<Rightarrow>
          (case CheckTip (New (TipLedger tip)) d tip of
             Inl err \<Rightarrow>
               (case check_tips d args (Suc failures) of
                  Inl (ls, e) \<Rightarrow> Inl (TipFails (TipLedger tip) err # ls, e)
                | Inr (n, ls) \<Rightarrow> Inr (n, TipFails (TipLedger tip) err # ls))
           | Inr _ \<Rightarrow>
               (case check_tips d args failures of
                  Inl (ls, e) \<Rightarrow> Inl (TipOk (TipLedger tip) # ls, e)
                | Inr (n, ls) \<Rightarrow> Inr (n, TipOk (TipLedger tip) # ls))))"

definition recoverCheck :: "world \<Rightarrow> string list \<Rightarrow> outcome" where
  "recoverCheck w args =
     (if args = [] then (w, [], Some (Usage NoComplaint RecoverUsage))
      else
        (case check_tips (book w) args 0 of
           Inl (ls, err) \<Rightarrow> (w, ls, Some (Engine err))
         | Inr (failures, ls) \<Rightarrow> (w, ls, if failures > 0 then Some (TipsDiffer failures (length args)) else None)))"

text \<open>The last \<open>--note=\<close> counts; every other argument is a tip.\<close>

definition CutPrefix :: "string \<Rightarrow> string \<Rightarrow> string option" where
  "CutPrefix p s = (if take (length p) s = p then Some (drop (length p) s) else None)"

fun resume_args :: "string list \<Rightarrow> string \<Rightarrow> string list \<Rightarrow> string \<times> string list" where
  "resume_args [] nt tips = (nt, tips)"
| "resume_args (a # args) nt tips =
     (case CutPrefix ''--note='' a of
        Some after \<Rightarrow> resume_args args after tips
      | None \<Rightarrow> resume_args args nt (tips @ [a]))"

definition recoverResume :: "outside \<Rightarrow> world \<Rightarrow> string list \<Rightarrow> outcome" where
  "recoverResume out w args =
     (case resume_args args [] [] of
        (nt, [arg]) \<Rightarrow>
          (case ParseTip arg of
             Inl err \<Rightarrow> (w, [], Some (Engine err))
           | Inr tip \<Rightarrow>
               (let names = Ledgers (book w); s = New (TipLedger tip);
                    watermark = \<lparr>TipLedger = TipLedger tip, TipTxID = TipLogID tip, TipLogID = TipLogID tip, TipHash = []\<rparr>
                in if TipLedger tip \<notin> set names then (w, [], Some (NoLedger (TipLedger tip) names))
                   else
                     (case ChainTip s (book w) of
                        Inl err \<Rightarrow> (w, [], Some (Engine err))
                      | Inr before \<Rightarrow>
                          (case RecordRecovery s (clock out) (book w) watermark nt of
                             Inl err \<Rightarrow> (w, [], Some (Engine err))
                           | Inr d \<Rightarrow>
                               (case ChainTip s d of
                                  Inl err \<Rightarrow> (with_book d w, [], Some (Engine err))
                                | Inr after \<Rightarrow>
                                    (with_book d w,
                                     if TipLogID after = TipLogID before
                                     then [NothingToDo (TipLedger tip) (TipLogID before) (TipLogID tip)]
                                     else [ResumedLine (TipLedger tip) (TipLogID after) (TipLogID before + 1) (TipLogID tip),
                                           NewTipLine (Tip_String after)],
                                     None))))))
      | _ \<Rightarrow> (w, [], Some (Usage NoComplaint RecoverUsage)))"

definition recoverCommand :: "outside \<Rightarrow> world \<Rightarrow> string list \<Rightarrow> outcome" where
  "recoverCommand out w args =
     (case args of
        [] \<Rightarrow> (w, [], Some (Usage NoComplaint RecoverUsage))
      | v # rest \<Rightarrow>
          (case connect out of
             Some e \<Rightarrow> (w, [], Some e)
           | None \<Rightarrow>
               (if v = ''tip'' then recoverTip w rest
                else if v = ''check'' then recoverCheck w rest
                else if v = ''resume'' then recoverResume out w rest
                else (w, [], Some (Usage (UnknownCommand v) RecoverUsage)))))"


subsection \<open>Flags of giro verify\<close>

record verify_flags =
  stale_prefix :: string
  stale_after :: time
  recon_after :: time
  boundary :: string
  record_runs :: bool
  last_run :: bool
  max_age :: time
  as_json :: bool

definition verify_defaults :: verify_flags where
  "verify_defaults =
     \<lparr>stale_prefix = ''pending:'', stale_after = 0, recon_after = 0, boundary = [], record_runs = True,
      last_run = False, max_age = 0, as_json = False\<rparr>"

text \<open>\<open>strconv.ParseBool\<close>.\<close>

definition ParseBool :: "string \<Rightarrow> bool option" where
  "ParseBool s =
     (if s \<in> {''1'', ''t'', ''T'', ''TRUE'', ''true'', ''True''} then Some True
      else if s \<in> {''0'', ''f'', ''F'', ''FALSE'', ''false'', ''False''} then Some False
      else None)"

definition bool_flag :: "string \<Rightarrow> bool" where
  "bool_flag name \<longleftrightarrow> name \<in> {''record'', ''last'', ''json''}"

definition defined_flag :: "string \<Rightarrow> bool" where
  "defined_flag name \<longleftrightarrow>
     bool_flag name \<or> name \<in> {''stale-prefix'', ''stale-after'', ''recon-after'', ''boundary'', ''max-age''}"

text \<open>\<open>flag.Value.Set\<close> on the variable of a defined flag.\<close>

definition set_flag :: "(string \<Rightarrow> time option) \<Rightarrow> string \<Rightarrow> string \<Rightarrow> verify_flags \<Rightarrow> verify_flags option" where
  "set_flag duration name v f =
     (if name = ''stale-prefix'' then Some (f\<lparr>stale_prefix := v\<rparr>)
      else if name = ''boundary'' then Some (f\<lparr>boundary := v\<rparr>)
      else if name = ''stale-after'' then map_option (\<lambda>t. f\<lparr>stale_after := t\<rparr>) (duration v)
      else if name = ''recon-after'' then map_option (\<lambda>t. f\<lparr>recon_after := t\<rparr>) (duration v)
      else if name = ''max-age'' then map_option (\<lambda>t. f\<lparr>max_age := t\<rparr>) (duration v)
      else if name = ''record'' then map_option (\<lambda>b. f\<lparr>record_runs := b\<rparr>) (ParseBool v)
      else if name = ''last'' then map_option (\<lambda>b. f\<lparr>last_run := b\<rparr>) (ParseBool v)
      else map_option (\<lambda>b. f\<lparr>as_json := b\<rparr>) (ParseBool v))"

text \<open>What \<open>flag.FlagSet\<close> takes an argument for: not a flag, the end of the flags, a malformed flag, or a flag with its
  name and the value after the first equals sign that is not the first character.\<close>

datatype flag_word = Positional | EndOfFlags | BadFlag | Flag string "string option"

fun cut_equals :: "string \<Rightarrow> string \<times> string option" where
  "cut_equals [] = ([], None)"
| "cut_equals (c # s) = (if c = CHR ''='' then ([], Some s) else (case cut_equals s of (n, v) \<Rightarrow> (c # n, v)))"

definition flag_word :: "string \<Rightarrow> flag_word" where
  "flag_word s =
     (case s of
        [] \<Rightarrow> Positional
      | [c] \<Rightarrow> Positional
      | c0 # c1 # rest \<Rightarrow>
          if c0 \<noteq> CHR ''-'' then Positional
          else if c1 = CHR ''-'' \<and> rest = [] then EndOfFlags
          else
            (case (if c1 = CHR ''-'' then rest else c1 # rest) of
               [] \<Rightarrow> BadFlag
             | c # name \<Rightarrow>
                 if c = CHR ''-'' \<or> c = CHR ''='' then BadFlag
                 else (case cut_equals name of (n, v) \<Rightarrow> Flag (c # n) v)))"

text \<open>\<open>Parse\<close>: \<open>None\<close> is any error, help included; otherwise the flags and the arguments left.\<close>

fun parse_flags :: "(string \<Rightarrow> time option) \<Rightarrow> string list \<Rightarrow> verify_flags \<Rightarrow> (verify_flags \<times> string list) option" where
  "parse_flags duration [] f = Some (f, [])"
| "parse_flags duration (a # args) f =
     (case flag_word a of
        Positional \<Rightarrow> Some (f, a # args)
      | EndOfFlags \<Rightarrow> Some (f, args)
      | BadFlag \<Rightarrow> None
      | Flag name value \<Rightarrow>
          if \<not> defined_flag name then None
          else if bool_flag name
          then (case set_flag duration name (case value of None \<Rightarrow> ''true'' | Some v \<Rightarrow> v) f of
                  None \<Rightarrow> None
                | Some f' \<Rightarrow> parse_flags duration args f')
          else
            (case value of
               Some v \<Rightarrow>
                 (case set_flag duration name v f of None \<Rightarrow> None | Some f' \<Rightarrow> parse_flags duration args f')
             | None \<Rightarrow>
                 (case args of
                    [] \<Rightarrow> None
                  | v # rest \<Rightarrow>
                      (case set_flag duration name v f of None \<Rightarrow> None | Some f' \<Rightarrow> parse_flags duration rest f'))))"

subsection \<open>giro verify\<close>

text \<open>The checks of the layers above the engine.  A disagreement list is joined into one error.\<close>

definition joined :: "('a \<Rightarrow> string) \<Rightarrow> 'a list \<Rightarrow> error option" where
  "joined f xs = (if xs = [] then None else Some (ErrText (join_with CHR 0x0A (map f xs))))"

definition conversions_check :: "outside \<Rightarrow> string \<Rightarrow> db \<Rightarrow> nat \<times> error option" where
  "conversions_check out l d =
     (case Fx_Verify d l DefaultTolerance of
        Inl e \<Rightarrow> (0, Some e)
      | Inr (n, found) \<Rightarrow> (n, joined (err_text out) found))"

definition reconciliation_outcome :: "outside \<Rightarrow> (nat \<times> StaleBreak list) res \<Rightarrow> nat \<times> error option" where
  "reconciliation_outcome out r =
     (case r of Inl e \<Rightarrow> (0, Some e) | Inr (n, found) \<Rightarrow> (n, joined (break_text out) found))"

text \<open>The matching pass of the reconciliation check writes evidence; the run of the check is done when its turn comes.\<close>

definition recon_pass :: "outside \<Rightarrow> verify_flags \<Rightarrow> string \<Rightarrow> db \<Rightarrow> recon \<Rightarrow> recon \<times> (nat \<times> StaleBreak list) res" where
  "recon_pass out f l d rc =
     Recon_Check (query_plan out) (clock out) d l \<lparr>BoundaryPrefix = boundary f, Tolerance = None\<rparr> (recon_after f) rc"

definition extraChecks :: "outside \<Rightarrow> verify_flags \<Rightarrow> string \<Rightarrow> recon \<Rightarrow> (string \<times> (db \<Rightarrow> nat \<times> error option)) list" where
  "extraChecks out f l rc =
     (''conversions'', conversions_check out l) #
     (if recon_after f > 0
      then [(''reconciliation'', \<lambda>d. reconciliation_outcome out (snd (recon_pass out f l d rc)))]
      else [])"

definition reported_findings :: "CheckResult list \<Rightarrow> nat" where
  "reported_findings results = length (filter (\<lambda>r. \<not> OK r) results)"

text \<open>One ledger: the database, the evidence and the results.\<close>

definition verify_one :: "outside \<Rightarrow> verify_flags \<Rightarrow> string \<Rightarrow> db \<times> recon \<Rightarrow> (db \<times> recon) \<times> CheckResult list" where
  "verify_one out f l st =
     (case st of (d, rc) \<Rightarrow>
        (case Verify (err_text out) (stale_text out) (check_took out) (New l) (clock out)
                \<lparr>StalePrefix = stale_prefix f, StaleAfter = stale_after f, Record = record_runs f,
                 Extra = extraChecks out f l rc\<rparr> d of
           (d', results) \<Rightarrow> ((d', if recon_after f > 0 then fst (recon_pass out f l d rc) else rc), results)))"

text \<open>A nil dereference in the conversions check takes the process down.\<close>

fun verify_all ::
  "outside \<Rightarrow> verify_flags \<Rightarrow> string list \<Rightarrow> db \<times> recon \<Rightarrow> nat \<Rightarrow> (db \<times> recon) \<times> line list \<times> (error + nat)" where
  "verify_all out f [] st findings = (st, [], Inr findings)"
| "verify_all out f (l # ls) st findings =
     (case Fx_Verify (fst st) l DefaultTolerance of
        Inl e \<Rightarrow> (st, [], Inl e)
      | Inr _ \<Rightarrow>
          (case verify_one out f l st of
             (st', results) \<Rightarrow>
               (case verify_all out f ls st' (findings + reported_findings results) of
                  (st'', lines', r) \<Rightarrow> (st'', ReportLines (as_json f) l results # lines', r))))"

text \<open>When each check last ran, in the order of their names.\<close>

definition ledger_staleness :: "outside \<Rightarrow> verify_flags \<Rightarrow> db \<Rightarrow> string \<Rightarrow> staleness list" where
  "ledger_staleness out f d l =
     (let seen = LastVerified (New l) d
      in if seen = []
         then (if max_age f > 0 then [\<lparr>st_ledger = l, st_check = ''*'', st_at = None, st_stale = True\<rparr>] else [])
         else map (\<lambda>check. \<lparr>st_ledger = l, st_check = check, st_at = map_of seen check,
                            st_stale = (max_age f > 0 \<and>
                              (case map_of seen check of None \<Rightarrow> False | Some t \<Rightarrow> go_now (clock out) - t > max_age f))\<rparr>)
                (sort (keys seen)))"

definition reportLastRun :: "outside \<Rightarrow> verify_flags \<Rightarrow> world \<Rightarrow> string list \<Rightarrow> outcome" where
  "reportLastRun out f w names =
     (let rows = concat (map (ledger_staleness out f (book w)) names);
          stale = length (filter st_stale rows)
      in (w, [LastRunLines (as_json f) rows], if stale > 0 then Some (ChecksNotRun stale (max_age f)) else None))"

definition verifyCommand :: "outside \<Rightarrow> world \<Rightarrow> string list \<Rightarrow> outcome" where
  "verifyCommand out w args =
     (case parse_flags (ParseDuration out) args verify_defaults of
        None \<Rightarrow> (w, [], Some (Usage NoComplaint VerifyUsage))
      | Some (f, names) \<Rightarrow>
          (case connect out of
             Some e \<Rightarrow> (w, [], Some e)
           | None \<Rightarrow>
               (case find (\<lambda>name. name \<noteq> [] \<and> hd name = CHR ''-'') names of
                  Some name \<Rightarrow> (w, [], Some (Usage (FlagAfterLedger name) VerifyUsage))
                | None \<Rightarrow>
                    (let names = (if names = [] then Ledgers (book w) else names)
                     in if names = [] then (w, [NoLedgersLine], None)
                        else if last_run f then reportLastRun out f w names
                        else
                          (case verify_all out f names (db_rest (base w)) 0 of
                             (st, ls, r) \<Rightarrow>
                               (with_rest st w, ls,
                                (case r of
                                   Inl e \<Rightarrow> Some (Crashed e)
                                 | Inr findings \<Rightarrow> if findings > 0 then Some (ChecksFound findings) else None)))))))"

subsection \<open>giro migrate\<close>

definition migrateUp :: "outside \<Rightarrow> world \<Rightarrow> outcome" where
  "migrateUp out w =
     (case Run (engine out) (lock_session out) (embedded out) (base w) of
        (b, n, errs) \<Rightarrow>
          (w\<lparr>base := b\<rparr>,
           if errs \<noteq> [] then [] else if n = 0 then [UpToDate] else [AppliedLine n],
           if errs \<noteq> [] then Some (MigrateErrors errs) else None))"

definition migrateStatus :: "outside \<Rightarrow> world \<Rightarrow> outcome" where
  "migrateStatus out w =
     (case Migrate_Status (migrate_io out) (embedded out) (base w) of
        Inl e \<Rightarrow> (w, [], Some (MigrateErrors [e]))
      | Inr rows \<Rightarrow>
          (w, if rows = [] then [NoMigrationsFound] else map (\<lambda>(m, applied, t). MigrationLine applied m t) rows, None))"

definition migrateNew :: "outside \<Rightarrow> world \<Rightarrow> string \<Rightarrow> outcome" where
  "migrateNew out w name =
     (case newAt (migrate_io out) (disk w) name (go_now (clock out)) of
        Inl e \<Rightarrow> (w, [], Some (MigrateErrors [e]))
      | Inr (files, path) \<Rightarrow> (w\<lparr>disk := files\<rparr>, [CreatedLine path], None))"

definition withConn :: "outside \<Rightarrow> world \<Rightarrow> (world \<Rightarrow> outcome) \<Rightarrow> outcome" where
  "withConn out w run = (case connect out of Some e \<Rightarrow> (w, [], Some e) | None \<Rightarrow> run w)"

definition migrateCommand :: "outside \<Rightarrow> world \<Rightarrow> string list \<Rightarrow> outcome" where
  "migrateCommand out w args =
     (case args of
        [] \<Rightarrow> (w, [], Some (Usage NoComplaint MigrateUsage))
      | v # rest \<Rightarrow>
          (if v = ''up'' then withConn out w (migrateUp out)
           else if v = ''status'' then withConn out w (migrateStatus out)
           else if v = ''new''
           then (if rest = [] then (w, [], Some (Usage NoComplaint MigrateNewUsage))
                 else migrateNew out w (join_with CHR '' '' rest))
           else (w, [], Some (Usage (UnknownCommand v) MigrateUsage))))"

subsection \<open>giro serve\<close>

text \<open>The loop over the arguments: the positional ones, or why the command is refused.\<close>

fun serve_args :: "string list \<Rightarrow> string list \<Rightarrow> cli_error + string list" where
  "serve_args [] positional = Inr positional"
| "serve_args (a # args) positional =
     (if a = ''-h'' \<or> a = ''--help'' then Inl (Usage NoComplaint ServeUsage)
      else if a = ''--allow-unkeyed-writes'' then serve_args args positional
      else if a \<noteq> [] \<and> hd a = CHR ''-'' then Inl (Usage (UnknownFlag a) ServeUsage)
      else serve_args args (positional @ [a]))"

definition serverOptions :: "string list \<Rightarrow> (Server \<Rightarrow> Server) list" where
  "serverOptions args = map (\<lambda>a. AllowUnkeyedWrites) (filter (\<lambda>a. a = ''--allow-unkeyed-writes'') args)"

text \<open>Refused unless the schema is the one compiled in; a schema that is ahead is only warned about.\<close>

definition checkSchema :: "outside \<Rightarrow> world \<Rightarrow> line list \<times> cli_error option" where
  "checkSchema out w =
     (case RequireUpToDate (migrate_io out) (embedded out) (base w) of
        Inl (ErrSchemaAhead n) \<Rightarrow> ([SchemaAheadWarning (ErrSchemaAhead n)], None)
      | Inl e \<Rightarrow> ([], Some (SchemaCheck e))
      | Inr _ \<Rightarrow> ([], None))"

definition warnIfPrivileged :: "outside \<Rightarrow> line list" where
  "warnIfPrivileged out = (case privileged_as out of None \<Rightarrow> [] | Some user \<Rightarrow> [PrivilegedWarning user])"

text \<open>The requests served until the server is stopped, one after the other.\<close>

fun serve_requests :: "Server \<Rightarrow> ((nat \<Rightarrow> env) \<times> Request) list \<Rightarrow> db \<Rightarrow> db \<times> line list" where
  "serve_requests sv [] d = (d, [])"
| "serve_requests sv ((envs, r) # rs) d =
     (case ServeHTTP sv envs d r of
        (d1, resp) \<Rightarrow> (case serve_requests sv rs d1 of (d2, ls) \<Rightarrow> (d2, Answered resp # ls)))"

definition serveCommand :: "outside \<Rightarrow> world \<Rightarrow> string list \<Rightarrow> outcome" where
  "serveCommand out w args =
     (case serve_args args [] of
        Inl e \<Rightarrow> (w, [], Some e)
      | Inr positional \<Rightarrow>
          (if length positional > 1 then (w, [], Some (Usage NoComplaint ServeUsage))
           else
             let addr = (case positional of [] \<Rightarrow> '':8080'' | a # _ \<Rightarrow> a)
             in (case connect out of
                   Some e \<Rightarrow> (w, [], Some e)
                 | None \<Rightarrow>
                     (case checkSchema out w of
                        (ls, Some e) \<Rightarrow> (w, ls, Some e)
                      | (ls, None) \<Rightarrow>
                          (let sv = NewServer (server0 out) (serverOptions args);
                               boot = ls @ warnIfPrivileged out @ [NoAuthNote] @
                                      map (\<lambda>_. UnkeyedNote) (serverOptions args) @ [ListeningLine addr]
                           in case listen_err out of
                                Some e \<Rightarrow> (w, boot, Some (ServerFailed e))
                              | None \<Rightarrow>
                                  (case serve_requests sv (requests out) (book w) of
                                     (d, answers) \<Rightarrow> (with_book d w, boot @ answers @ [StoppedLine], None)))))))"

subsection \<open>The command\<close>

definition dispatch :: "outside \<Rightarrow> world \<Rightarrow> string list \<Rightarrow> outcome" where
  "dispatch out w args =
     (case args of
        [] \<Rightarrow> (w, [], Some (Usage NoComplaint MainUsage))
      | v # rest \<Rightarrow>
          (if v = ''migrate'' then migrateCommand out w rest
           else if v = ''serve'' then serveCommand out w rest
           else if v = ''verify'' then verifyCommand out w rest
           else if v = ''account'' then accountCommand out w rest
           else if v = ''recover'' then recoverCommand out w rest
           else if v = ''help'' \<or> v = ''-h'' \<or> v = ''--help'' then (w, [UsageText], None)
           else (w, [], Some (Usage (UnknownCommand v) MainUsage))))"

definition giro :: "outside \<Rightarrow> world \<Rightarrow> string list \<Rightarrow> world \<times> line list \<times> nat" where
  "giro out w args = (case dispatch out w args of (w', ls, e) \<Rightarrow> (w', ls, exit_code e))"

end
