(* ===== verification/Cli_Verify.thy ===== *)
theory Cli_Verify
  imports Cli
begin

text \<open>
  The verdict of \<open>giro verify\<close> (\<open>src/cmd/giro/verify.go\<close>): on a book the store wrote it fails exactly for what an operator or
  a caller can still have done to it, it writes nothing but the runs it made, and \<open>--last\<close> fails exactly for a
  ledger that was never verified or a check that has not been recorded for too long.
\<close>

subsection \<open>What giro verify finds\<close>

text \<open>What a run without the matching pass can still find on a book the store wrote: balances outside bounds that were
  narrowed afterwards, conversions that are off their stated rate, and balances that sit still for too long.\<close>

definition clean :: "outside \<Rightarrow> verify_flags \<Rightarrow> db \<Rightarrow> string \<Rightarrow> bool" where
  "clean out f d l \<longleftrightarrow>
     (\<forall>k r. map_of (accounts_volumes d) (l, k) = Some r \<longrightarrow> \<not> out_of_bounds r) \<and>
     list_all (agrees DefaultTolerance) (conversion_rows d l) \<and>
     (stale_after f > 0 \<longrightarrow> StaleBalances (New l) (clock out) d (stale_prefix f) (stale_after f) = Inr [])"

lemma clean_runs [simp]: "clean out f (d\<lparr>verification_runs := v\<rparr>) l = clean out f d l"
  by (simp add: clean_def conversion_rows_def StaleBalances_def ledger_volumes_def last_insertion_def key_moves_def
      Let_def cong: option.case_cong)

lemma Fx_Verify_runs [simp]: "Fx_Verify (d\<lparr>verification_runs := v\<rparr>) l t = Fx_Verify d l t"
  by (simp add: Fx_Verify_def conversion_rows_def)

lemma VerifyLog_absent:
  assumes "book_ok d" "map_of (ledgers d) (ledger s) = None"
  shows "snd (VerifyLog s d) = None"
proof -
  have "(ledger s, i) \<notin> set (keys (logs d))" for i
    using assms unfolding book_ok_def log_ok_def log_ids_ok_def by fastforce
  then have "filter (\<lambda>((l', _), _). l' = ledger s) (logs d) = []" by (fastforce simp: filter_empty_conv image_iff)
  then have "ledger_logs d (ledger s) = []" by (simp add: ledger_logs_def)
  then show ?thesis by (simp add: VerifyLog_def)
qed

lemma result_OK [simp]: "OK (result text name out took) = (snd out = None)"
  by (simp add: result_def)

lemma joined_None: "joined f xs = None \<longleftrightarrow> xs = []"
  by (simp add: joined_def)

lemma conversions_clean:
  assumes "Fx_Verify d l DefaultTolerance = Inr x"
  shows "snd (conversions_check out l d) = None \<longleftrightarrow> list_all (agrees DefaultTolerance) (conversion_rows d l)"
  using assms Fx_Verify_clean [of d l DefaultTolerance "length (conversion_rows d l)"] Fx_Verify_clean [of d l DefaultTolerance "fst x"]
  by (cases x) (auto simp: conversions_check_def joined_None)

lemma Fx_Verify_panics: "Fx_Verify d l DefaultTolerance = Inl e \<Longrightarrow> \<not> list_all (agrees DefaultTolerance) (conversion_rows d l)"
  using Fx_Verify_clean [of d l DefaultTolerance "length (conversion_rows d l)"] by auto

text \<open>The checks every run makes.\<close>

definition check_names :: "string list" where
  "check_names =
     [''conservation'', ''log'', ''projection'', ''effective_volumes'', ''balance_permissions'', ''closed_accounts'',
      ''conversions'']"

definition ran_all :: "time \<Rightarrow> string \<Rightarrow> run_row list \<Rightarrow> bool" where
  "ran_all t l v \<longleftrightarrow> (\<forall>name\<in>set check_names. \<exists>q\<in>set v. run_ledger q = l \<and> run_check q = name \<and> run_at q = t)"

lemma ran_all_append: "ran_all t l v \<or> ran_all t l v' \<Longrightarrow> ran_all t l (v @ v')"
  by (auto simp: ran_all_def)

lemma verify_one_spec:
  assumes "reachable d" and "recon_after f \<le> 0" and "Fx_Verify d l DefaultTolerance = Inr x"
    and run: "verify_one out f l (d, rc) = (st, results)"
  shows "reported_findings results = 0 \<longleftrightarrow> clean out f d l"
    and "\<exists>v. st = (d\<lparr>verification_runs := verification_runs d @ v\<rparr>, rc) \<and> (\<not> record_runs f \<longrightarrow> v = []) \<and>
      (\<forall>q\<in>set v. run_at q = db_now (clock out)) \<and> (record_runs f \<longrightarrow> ran_all (db_now (clock out)) l v)"
proof -
  have ok: "book_ok d" "closed_ok d" "log_ok d" "well_keyed d"
    using reachable_sys_ok [OF assms(1)] by (auto simp: sys_ok_def book_ok_def)
  have log: "snd (VerifyLog (New l) d) = None"
    using VerifyLog_ok [OF ok(3), of "New l"] VerifyLog_absent [OF ok(1), of "New l"]
    by (cases "map_of (ledgers d) (ledger (New l))") auto
  have clo: "snd (closed_accounts (New l) d) = None"
    using closed_accounts_None [OF ok(4), of "New l"] ok(2) by (auto simp: closed_ok_def)
  have ex: "extraChecks out f l rc = [(''conversions'', conversions_check out l)]"
    using assms(2) by (simp add: extraChecks_def)
  let ?ran = "map (\<lambda>(name, run). result (err_text out) name (run d) (check_took out name))
      (engine_checks (New l) @ [(''conversions'', conversions_check out l)])"
  let ?stale = "if stale_after f > 0 then [stale_result (err_text out) (stale_text out)
      (StaleBalances (New l) (clock out) d (stale_prefix f) (stale_after f)) (check_took out ''stale_balances'')] else []"
  have res: "results = ?ran @ ?stale"
    and st: "st = (if record_runs f then recordVerification (New l) (clock out) results d else d, rc)"
    using run assms(2) by (auto simp: verify_one_def Verify_def ex Let_def)
  have "reported_findings results = 0 \<longleftrightarrow> (\<forall>r\<in>set results. OK r)" by (auto simp: reported_findings_def filter_empty_conv)
  also have "\<dots> \<longleftrightarrow> clean out f d l"
    unfolding res using VerifyConservation_ok [OF ok(1)] VerifyProjection_ok [OF ok(1)] VerifyEffectiveVolumes_ok [OF ok(1)] log clo
      balance_permissions_None [OF ok(4), of "New l"] conversions_clean [OF assms(3)]
    by (auto simp: engine_checks_def clean_def stale_result_def New_def StaleBalances_def Let_def)
  finally show "reported_findings results = 0 \<longleftrightarrow> clean out f d l" .
  have names: "\<exists>r\<in>set results. CName r = name" if "name \<in> set check_names" for name
    using that by (auto simp: res result_def engine_checks_def check_names_def)
  show "\<exists>v. st = (d\<lparr>verification_runs := verification_runs d @ v\<rparr>, rc) \<and> (\<not> record_runs f \<longrightarrow> v = []) \<and>
      (\<forall>q\<in>set v. run_at q = db_now (clock out)) \<and> (record_runs f \<longrightarrow> ran_all (db_now (clock out)) l v)"
  proof (cases "record_runs f")
    case True
    then show ?thesis using st names by (fastforce simp: recordVerification_def New_def ran_all_def)
  next
    case False
    then show ?thesis using st by (intro exI [of _ "[]"]) simp
  qed
qed

text \<open>The loop over the ledgers: only runs are recorded, and the count is of the checks that found something.\<close>

lemma verify_all_spec:
  assumes "reachable d" and "recon_after f \<le> 0" and "verify_all out f ls (d, rc) n = (st, lns, r)"
  shows "\<exists>v. st = (d\<lparr>verification_runs := verification_runs d @ v\<rparr>, rc) \<and> giro_step\<^sup>*\<^sup>* d (fst st) \<and> (\<not> record_runs f \<longrightarrow> v = []) \<and>
    (\<forall>q\<in>set v. run_at q = db_now (clock out)) \<and>
    (case r of
       Inl e \<Rightarrow> (\<exists>l\<in>set ls. \<not> clean out f d l)
     | Inr m \<Rightarrow> n \<le> m \<and> (m = n \<longleftrightarrow> (\<forall>l\<in>set ls. clean out f d l)) \<and>
         (record_runs f \<longrightarrow> (\<forall>l\<in>set ls. ran_all (db_now (clock out)) l v)))"
  using assms
proof (induction ls arbitrary: d n lns st)
  case Nil
  then show ?case by (intro exI [of _ "[]"]) auto
next
  case (Cons l ls)
  show ?case
  proof (cases "Fx_Verify d l DefaultTolerance")
    case (Inl e)
    then have "st = (d, rc)" "r = Inl e" using Cons.prems(3) by simp_all
    then show ?thesis using Fx_Verify_panics [OF Inl] by (intro exI [of _ "[]"]) (auto simp: clean_def)
  next
    case (Inr x)
    obtain st1 results where one: "verify_one out f l (d, rc) = (st1, results)" by fastforce
    note spec = verify_one_spec [OF Cons.prems(1,2) Inr one]
    from spec(2) obtain v1 where v1: "st1 = (d\<lparr>verification_runs := verification_runs d @ v1\<rparr>, rc)" "\<not> record_runs f \<longrightarrow> v1 = []"
      "\<forall>q\<in>set v1. run_at q = db_now (clock out)"
      "record_runs f \<longrightarrow> ran_all (db_now (clock out)) l v1"
      by blast
    define d1 where "d1 = d\<lparr>verification_runs := verification_runs d @ v1\<rparr>"
    have step: "giro_step d d1"
    proof -
      have "fst st1 = fst (Verify (err_text out) (stale_text out) (check_took out) (New l) (clock out)
                \<lparr>StalePrefix = stale_prefix f, StaleAfter = stale_after f, Record = record_runs f,
                 Extra = extraChecks out f l rc\<rparr> d)"
        using one by (auto simp: verify_one_def split: prod.splits)
      then show ?thesis unfolding d1_def using v1(1) giro_step.verify by fastforce
    qed
    have reach: "reachable d1" by (rule reachable_step [OF Cons.prems(1) step])
    obtain lns' where rest: "verify_all out f ls (d1, rc) (n + reported_findings results) = (st, lns', r)"
      using Cons.prems(3) Inr one v1(1) by (auto simp: d1_def split: prod.splits)
    have cl: "clean out f d1 l' = clean out f d l'" for l' by (simp add: d1_def)
    from Cons.IH [OF reach Cons.prems(2) rest] obtain v2 where v2: "st = (d1\<lparr>verification_runs := verification_runs d1 @ v2\<rparr>, rc)"
      "giro_step\<^sup>*\<^sup>* d1 (fst st)" "\<not> record_runs f \<longrightarrow> v2 = []"
      "\<forall>q\<in>set v2. run_at q = db_now (clock out)" and res: "case r of
       Inl e \<Rightarrow> (\<exists>l\<in>set ls. \<not> clean out f d l)
     | Inr m \<Rightarrow> n + reported_findings results \<le> m \<and> (m = n + reported_findings results \<longleftrightarrow> (\<forall>l\<in>set ls. clean out f d l)) \<and>
         (record_runs f \<longrightarrow> (\<forall>l\<in>set ls. ran_all (db_now (clock out)) l v2))"
      unfolding cl by blast
    have "st = (d\<lparr>verification_runs := verification_runs d @ v1 @ v2\<rparr>, rc)" using v2(1) by (simp add: d1_def)
    moreover have "giro_step\<^sup>*\<^sup>* d (fst st)" using step v2(2) by (rule converse_rtranclp_into_rtranclp)
    moreover have "\<not> record_runs f \<longrightarrow> v1 @ v2 = []" using v1(2) v2(3) by simp
    moreover have "\<forall>q\<in>set (v1 @ v2). run_at q = db_now (clock out)" using v1(3) v2(4) by auto
    moreover have "case r of
       Inl e \<Rightarrow> (\<exists>l\<in>set (l # ls). \<not> clean out f d l)
     | Inr m \<Rightarrow> n \<le> m \<and> (m = n \<longleftrightarrow> (\<forall>l\<in>set (l # ls). clean out f d l)) \<and>
         (record_runs f \<longrightarrow> (\<forall>l\<in>set (l # ls). ran_all (db_now (clock out)) l (v1 @ v2)))"
    proof (cases r)
      case (Inl e)
      then show ?thesis using res by auto
    next
      case (Inr m)
      have "m = n \<longleftrightarrow> clean out f d l \<and> (\<forall>l\<in>set ls. clean out f d l)" using res spec(1) Inr by auto
      moreover have "n \<le> m" using res Inr by simp
      moreover have "ran_all (db_now (clock out)) l' (v1 @ v2)" if "record_runs f" "l' \<in> set (l # ls)" for l'
        using that v1(4) res Inr by (intro ran_all_append) auto
      ultimately show ?thesis using Inr by simp
    qed
    ultimately show ?thesis by blast
  qed
qed

lemma verifyCommand_spec:
  assumes "reachable (book w)" and "connect out = None"
    and flags: "parse_flags (ParseDuration out) args verify_defaults = Some (f, names)"
    and "\<not> last_run f" "recon_after f \<le> 0" and dash: "\<forall>l\<in>set names. take 1 l \<noteq> ''-''"
    and run: "verifyCommand out w args = (w', lns, e)"
  shows "(exit_code e = 0 \<longleftrightarrow> (\<forall>l\<in>set (if names = [] then Ledgers (book w) else names). clean out f (book w) l)) \<and>
    (\<exists>v. w' = with_book ((book w)\<lparr>verification_runs := verification_runs (book w) @ v\<rparr>) w \<and> (\<not> record_runs f \<longrightarrow> v = []) \<and>
      (\<forall>q\<in>set v. run_at q = db_now (clock out)) \<and> (record_runs f \<and> exit_code e \<noteq> 2 \<longrightarrow> (\<forall>l\<in>set (if names = [] then Ledgers (book w) else names). ran_all (db_now (clock out)) l v)))"
proof -
  let ?ls = "if names = [] then Ledgers (book w) else names"
  have nodash: "find (\<lambda>name. name \<noteq> [] \<and> hd name = CHR ''-'') names = None"
  proof -
    have "\<not> (l \<noteq> [] \<and> hd l = CHR ''-'')" if "l \<in> set names" for l
      using dash that by (cases l) auto
    then show ?thesis by (simp add: find_None_iff)
  qed
  show ?thesis
  proof (cases "?ls = []")
    case True
    then have "w' = w \<and> e = None"
      using run by (auto simp: verifyCommand_def flags assms(2) nodash Let_def split: if_splits)
    then show ?thesis using True
      by (auto simp: with_book_def book_def evidence_def intro!: exI [of _ "[]"] split: if_splits)
  next
    case False
    obtain st lns' r where all: "verify_all out f ?ls (book w, evidence w) 0 = (st, lns', r)" by (metis prod_cases3)
    have pair: "db_rest (base w) = (book w, evidence w)" by (simp add: book_def evidence_def)
    have w': "w' = with_rest st w" and e: "e = (case r of Inl e \<Rightarrow> Some (Crashed e) | Inr m \<Rightarrow> if m > 0 then Some (ChecksFound m) else None)"
      using run False all assms(4) by (simp_all add: verifyCommand_def flags assms(2) nodash Let_def pair)
    from verify_all_spec [OF assms(1,5) all] obtain v where v: "st = ((book w)\<lparr>verification_runs := verification_runs (book w) @ v\<rparr>, evidence w)"
      "\<not> record_runs f \<longrightarrow> v = []" "\<forall>q\<in>set v. run_at q = db_now (clock out)" and res: "case r of
       Inl e \<Rightarrow> (\<exists>l\<in>set ?ls. \<not> clean out f (book w) l)
     | Inr m \<Rightarrow> 0 \<le> m \<and> (m = 0 \<longleftrightarrow> (\<forall>l\<in>set ?ls. clean out f (book w) l)) \<and>
         (record_runs f \<longrightarrow> (\<forall>l\<in>set ?ls. ran_all (db_now (clock out)) l v))" by blast
    have "w' = with_book ((book w)\<lparr>verification_runs := verification_runs (book w) @ v\<rparr>) w"
      using w' v(1) by (simp add: with_rest_def with_book_def)
    moreover have "exit_code e = 0 \<longleftrightarrow> (\<forall>l\<in>set ?ls. clean out f (book w) l)" using res by (cases r) (auto simp: e)
    moreover have "record_runs f \<and> exit_code e \<noteq> 2 \<longrightarrow> (\<forall>l\<in>set ?ls. ran_all (db_now (clock out)) l v)" using res by (cases r) (auto simp: e)
    ultimately show ?thesis using v(2,3) by blast
  qed
qed

subsection \<open>What giro verify --last finds\<close>

lemma LastVerified_some:
  "map_of (LastVerified s d) check = Some t \<longleftrightarrow>
     (\<exists>q\<in>set (verification_runs d). run_ledger q = ledger s \<and> run_check q = check \<and> run_at q = t) \<and>
     (\<forall>q\<in>set (verification_runs d). run_ledger q = ledger s \<and> run_check q = check \<longrightarrow> run_at q \<le> t)"
proof -
  let ?at = "{run_at r | r. r \<in> set (verification_runs d) \<and> run_ledger r = ledger s \<and> run_check r = check}"
  have fin: "finite ?at" by simp
  have "map_of (LastVerified s d) check = Some t \<longleftrightarrow> ?at \<noteq> {} \<and> t = Max ?at"
    by (auto simp: LastVerified_lookup Let_def)
  also have "\<dots> \<longleftrightarrow> t \<in> ?at \<and> (\<forall>u\<in>?at. u \<le> t)"
    using Max_eq_iff [OF fin, of t] by (cases "?at = {}") auto
  finally show ?thesis by auto
qed

lemma LastVerified_keys:
  "check \<in> set (keys (LastVerified s d)) \<longleftrightarrow> (\<exists>q\<in>set (verification_runs d). run_ledger q = ledger s \<and> run_check q = check)"
  by (auto simp: LastVerified_def Let_def image_iff)

text \<open>A ledger has a stale row exactly if nothing was ever recorded for it, or some check that was ever recorded has not
  been recorded within the bound.\<close>

lemma ledger_staleness_spec:
  assumes "max_age f > 0"
  shows "filter st_stale (ledger_staleness out f d l) = [] \<longleftrightarrow>
    (\<exists>q\<in>set (verification_runs d). run_ledger q = l) \<and>
    (\<forall>q\<in>set (verification_runs d). run_ledger q = l \<longrightarrow>
       (\<exists>q'\<in>set (verification_runs d). run_ledger q' = l \<and> run_check q' = run_check q \<and>
          go_now (clock out) - run_at q' \<le> max_age f))"
proof (cases "LastVerified (New l) d = []")
  case True
  then have "\<not> (\<exists>q\<in>set (verification_runs d). run_ledger q = l)"
    using LastVerified_keys [of _ "New l" d] by (auto simp: New_def)
  then show ?thesis using True assms by (auto simp: ledger_staleness_def)
next
  case False
  let ?seen = "LastVerified (New l) d"
  have ran: "\<exists>q\<in>set (verification_runs d). run_ledger q = l"
    using False LastVerified_keys [of "fst (hd ?seen)" "New l" d] by (cases ?seen) (auto simp: New_def)
  have ks: "c \<in> set (keys ?seen) \<longleftrightarrow> (\<exists>q\<in>set (verification_runs d). run_ledger q = l \<and> run_check q = c)" for c
    using LastVerified_keys [of c "New l" d] by (simp add: New_def)
  have stale: "(case map_of ?seen c of None \<Rightarrow> False | Some t \<Rightarrow> go_now (clock out) - t > max_age f) \<longleftrightarrow>
      \<not> (\<exists>q'\<in>set (verification_runs d). run_ledger q' = l \<and> run_check q' = c \<and> go_now (clock out) - run_at q' \<le> max_age f)"
    if c: "c \<in> set (keys ?seen)" for c
  proof -
    from c obtain t where t: "map_of ?seen c = Some t" by (metis map_of_None_keys not_None_eq)
    from LastVerified_some [of "New l" d c t] t have
      "\<exists>q\<in>set (verification_runs d). run_ledger q = l \<and> run_check q = c \<and> run_at q = t"
      "\<forall>q\<in>set (verification_runs d). run_ledger q = l \<and> run_check q = c \<longrightarrow> run_at q \<le> t" by (auto simp: New_def)
    then show ?thesis unfolding t by (auto simp: not_le)
  qed
  have "filter st_stale (ledger_staleness out f d l) = [] \<longleftrightarrow>
      (\<forall>c\<in>set (keys ?seen). \<not> (case map_of ?seen c of None \<Rightarrow> False | Some t \<Rightarrow> go_now (clock out) - t > max_age f))"
    using False assms by (auto simp: ledger_staleness_def Let_def filter_empty_conv)
  also have "\<dots> \<longleftrightarrow> (\<forall>c\<in>set (keys ?seen).
      \<exists>q'\<in>set (verification_runs d). run_ledger q' = l \<and> run_check q' = c \<and> go_now (clock out) - run_at q' \<le> max_age f)"
    using stale by (intro ball_cong) auto
  also have "\<dots> \<longleftrightarrow> (\<forall>q\<in>set (verification_runs d). run_ledger q = l \<longrightarrow>
       (\<exists>q'\<in>set (verification_runs d). run_ledger q' = l \<and> run_check q' = run_check q \<and> go_now (clock out) - run_at q' \<le> max_age f))"
    unfolding Ball_def ks by blast
  finally show ?thesis using ran by simp
qed

lemma reportLastRun_spec:
  assumes "max_age f > 0"
  shows "exit_code (snd (snd (reportLastRun out f w names))) = 0 \<longleftrightarrow>
    (\<forall>l\<in>set names. (\<exists>q\<in>set (verification_runs (book w)). run_ledger q = l) \<and>
      (\<forall>q\<in>set (verification_runs (book w)). run_ledger q = l \<longrightarrow>
         (\<exists>q'\<in>set (verification_runs (book w)). run_ledger q' = l \<and> run_check q' = run_check q \<and>
            go_now (clock out) - run_at q' \<le> max_age f)))"
proof -
  have "exit_code (snd (snd (reportLastRun out f w names))) = 0 \<longleftrightarrow>
      (\<forall>l\<in>set names. filter st_stale (ledger_staleness out f (book w) l) = [])"
    by (auto simp: reportLastRun_def Let_def filter_concat)
  then show ?thesis by (simp only: ledger_staleness_spec [OF assms])
qed

text \<open>A recorded run of every check silences the monitor for as long as it asks for, unless a check was recorded before
  that this run did not make.\<close>

lemma recorded_run_is_fresh:
  assumes runs: "verification_runs (book w) = old @ v" and v: "\<forall>q\<in>set v. run_at q = t" and all: "\<forall>l\<in>set names. ran_all t l v"
    and "max_age f > 0" and fresh: "go_now (clock out) - t \<le> max_age f"
    and old: "\<forall>q\<in>set old. run_ledger q \<in> set names \<longrightarrow> run_check q \<in> set check_names"
  shows "exit_code (snd (snd (reportLastRun out f w names))) = 0"
  unfolding reportLastRun_spec [OF assms(4)] runs
proof (intro ballI conjI impI)
  fix l assume l: "l \<in> set names"
  have new: "\<exists>q'\<in>set (old @ v). run_ledger q' = l \<and> run_check q' = c \<and> go_now (clock out) - run_at q' \<le> max_age f"
    if c: "c \<in> set check_names" for c
  proof -
    obtain q where "q \<in> set v" "run_ledger q = l" "run_check q = c" "run_at q = t"
      using bspec [OF bspec [OF all l, unfolded ran_all_def] c] by auto
    then show ?thesis using fresh by (intro bexI [of _ q]) simp_all
  qed
  have "''log'' \<in> set check_names" by (simp add: check_names_def)
  from new [OF this] show "\<exists>q\<in>set (old @ v). run_ledger q = l" by blast
  fix q assume q: "q \<in> set (old @ v)" "run_ledger q = l"
  show "\<exists>q'\<in>set (old @ v). run_ledger q' = l \<and> run_check q' = run_check q \<and> go_now (clock out) - run_at q' \<le> max_age f"
  proof (cases "q \<in> set v")
    case True
    then show ?thesis using q v fresh by (intro bexI [of _ q]) simp_all
  next
    case False
    then show ?thesis using new old q l by simp
  qed
qed

end
