(* ===== verification/Api_Props.thy ===== *)
theory Api_Props
  imports Api Storage_Outcomes
begin

text \<open>
  What the interface promises: every response keeps the contract, an error changes nothing, anything else is at most one
  operation of the store (so the server is an instance of the store's own contract \<open>ledger_op\<close>), and keyed writes can be
  retried at any later time.
\<close>

subsection \<open>What a response may be\<close>

fun code_status :: "ErrorCode \<Rightarrow> nat" where
  "code_status CONFLICT = 409"
| "code_status IDEMPOTENCYKEYREQUIRED = 400"
| "code_status IDEMPOTENCYMISMATCH = 409"
| "code_status INSUFFICIENTFUNDS = 422"
| "code_status INTERNAL = 500"
| "code_status NOTFOUND = 404"
| "code_status VALIDATION = 400"

lemma code_status_error [simp]: "code_status c \<noteq> 200" "code_status c \<noteq> 201"
  by (cases c; simp)+

text \<open>An error response: the status belongs to the code, an internal one says nothing, and exactly a shortage of funds
  carries its numbers.\<close>

fun error_reply :: "response \<Rightarrow> bool" where
  "error_reply (Reply status (ErrorBody code m dt)) =
     (status = code_status code \<and> (code = INTERNAL \<longrightarrow> m = Text ''internal error'') \<and>
      (dt \<noteq> None \<longleftrightarrow> code = INSUFFICIENTFUNDS))"
| "error_reply (Reply status b) = False"
| "error_reply Dropped = True"

text \<open>A success: the kind of body and the statuses the contract gives the route.\<close>

datatype kind =
    KError | KLedger | KTransaction | KTransactions | KAccount | KBalances | KLogs | KMoves | KReversal | KBatch | KAssets | KPlain

fun body_kind :: "body \<Rightarrow> kind" where
  "body_kind (ErrorBody _ _ _) = KError"
| "body_kind (LedgerBody _) = KLedger"
| "body_kind (TransactionBody _) = KTransaction"
| "body_kind (TransactionPage _) = KTransactions"
| "body_kind (AccountBody _) = KAccount"
| "body_kind (BalancesBody _) = KBalances"
| "body_kind (LogPage _) = KLogs"
| "body_kind (MovePage _) = KMoves"
| "body_kind (ReversalBody _ _) = KReversal"
| "body_kind (BatchBody _) = KBatch"
| "body_kind (AssetsBody _) = KAssets"
| "body_kind (PlainBody _) = KPlain"

fun contract :: "route \<Rightarrow> kind \<times> nat list" where
  "contract (R_createLedger _) = (KLedger, [201])"
| "contract (R_getLedger _) = (KLedger, [200])"
| "contract (R_registerAsset _) = (KAssets, [201])"
| "contract (R_listAssets _) = (KAssets, [200])"
| "contract (R_createTransaction _) = (KTransaction, [200, 201])"
| "contract (R_listTransactions _) = (KTransactions, [200])"
| "contract (R_commitBatch _) = (KBatch, [200, 201])"
| "contract (R_getTransaction _ _) = (KTransaction, [200])"
| "contract (R_revertTransaction _ _) = (KReversal, [201])"
| "contract (R_setTransactionMetadata _ _) = (KTransaction, [200])"
| "contract (R_deleteTransactionMetadata _ _ _) = (KTransaction, [200])"
| "contract (R_getAccount _ _) = (KAccount, [200])"
| "contract (R_setAccountMetadata _ _) = (KAccount, [200])"
| "contract (R_deleteAccountMetadata _ _ _) = (KAccount, [200])"
| "contract (R_getBalances _ _) = (KBalances, [200])"
| "contract (R_listMoves _ _) = (KMoves, [200])"
| "contract (R_aggregateBalances _) = (KBalances, [200])"
| "contract (R_listLogs _) = (KLogs, [200])"
| "contract (R_page _) = (KPlain, [200])"
| "contract R_home = (KPlain, [200, 404])"
| "contract R_notAllowed = (KPlain, [405])"

fun success_reply :: "route \<Rightarrow> response \<Rightarrow> bool" where
  "success_reply rt (Reply status b) = (body_kind b = fst (contract rt) \<and> status \<in> set (snd (contract rt)))"
| "success_reply rt Dropped = False"

text \<open>What serving a request does: an error leaves the database as it was, and anything else is at most one
  operation of the store.\<close>

definition served :: "db \<Rightarrow> route \<Rightarrow> db \<times> response \<Rightarrow> bool" where
  "served d rt x \<longleftrightarrow>
     (error_reply (snd x) \<and> fst x = d) \<or> (success_reply rt (snd x) \<and> (fst x = d \<or> giro_step d (fst x)))"

subsection \<open>Errors\<close>

lemma err_find_funds: "err_find as_funds err = Some x \<Longrightarrow> fst (classify err) = 422"
  by (simp add: classify_def)

lemma writeError_ok: "error_reply (writeError err)"
  by (auto simp: writeError_def classify_def detailsFor_def split: option.splits)

lemma refuse_ok [simp]: "error_reply (refuse_request t)"
  by (simp add: refuse_request_def)

lemma guards_ok:
  "requireKey sv r = Inl x \<Longrightarrow> error_reply x" "query r = Inl x \<Longrightarrow> error_reply x"
  "boolParam vs n = Inl x \<Longrightarrow> error_reply x" "intParam vs n = Inl x \<Longrightarrow> error_reply x"
  "effectiveDate vs = Inl x \<Longrightarrow> error_reply x" "optionalDate vs n = Inl x \<Longrightarrow> error_reply x"
  "transactionID s = Inl x \<Longrightarrow> error_reply x" "decodeJSON b = Inl x \<Longrightarrow> error_reply x"
  "answered res = Inl x \<Longrightarrow> error_reply x"
  by (auto simp: requireKey_def query_def boolParam_def intParam_def effectiveDate_def optionalDate_def
      transactionID_def decodeJSON_def answered_def mapErr_def writeError_ok Let_def
      split: if_splits option.splits prod.splits sum.splits)

lemma expansions_ok: "expansions t ws = Inl x \<Longrightarrow> error_reply x"
  by (induction t ws rule: expansions.induct) (auto simp: Let_def bindE_Inl_iff split: if_splits)

lemma answered_Inr: "answered res = Inr x \<longleftrightarrow> res = Inr x"
  by (cases res) (simp_all add: answered_def mapErr_def)

subsection \<open>Handlers\<close>

lemma served_reads:
  assumes "\<And>x. h = Inl x \<Longrightarrow> error_reply x" and "\<And>x. h = Inr x \<Longrightarrow> success_reply rt x"
  shows "served d rt (reads d h)"
  using assms by (cases h) (auto simp: reads_def served_def)

lemma served_writes:
  assumes "\<And>x. h = Inl x \<Longrightarrow> error_reply x"
    and "\<And>d' x. h = Inr (d', x) \<Longrightarrow> success_reply rt x \<and> (d' = d \<or> giro_step d d')"
  shows "served d rt (writes d h)"
  using assms by (cases h) (auto simp: writes_def served_def)

lemmas handler_simps = bindE_Inl_iff bindE_Inr_iff answered_Inr Let_def

lemma served_createLedger: "served d (R_createLedger l) (createLedger sv envs d l)"
  unfolding createLedger_def
  by (rule served_writes) (auto simp: handler_simps dest: guards_ok intro: giro_step.create split: prod.splits)

lemma served_getLedger: "served d (R_getLedger l) (getLedger sv d l)"
  unfolding getLedger_def by (rule served_reads) (auto simp: handler_simps dest: guards_ok)

lemma served_registerAsset: "served d (R_registerAsset l) (registerAsset sv envs d l r)"
  unfolding registerAsset_def
  by (rule served_writes) (auto simp: handler_simps dest: guards_ok intro: giro_step.register)

lemma served_listAssets: "served d (R_listAssets l) (listAssets sv d l)"
  by (simp add: listAssets_def served_def)

lemma commit_step: "snd (CommitTransaction envs s d p opts) = Inr (d', t) \<Longrightarrow> giro_step d d'"
  by (metis giro_step.commit prod.collapse)

lemma batch_step: "snd (CommitBatch envs s d items opts) = Inr (d', t) \<Longrightarrow> giro_step d d'"
  by (metis giro_step.batch prod.collapse)

lemma revert_step: "snd (RevertTransaction envs s d i opts) = Inr (d', t) \<Longrightarrow> giro_step d d'"
  by (metis giro_step.revert prod.collapse)

lemma served_createTransaction: "served d (R_createTransaction l) (createTransaction sv envs d l r)"
  unfolding createTransaction_def
  by (rule served_writes) (auto simp: handler_simps created_def dest: guards_ok commit_step split: prod.splits)

lemma served_commitBatch: "served d (R_commitBatch l) (commitBatch sv envs d l r)"
  unfolding commitBatch_def
  by (rule served_writes) (auto simp: handler_simps created_def dest: guards_ok batch_step split: prod.splits)

lemma served_listTransactions: "served d (R_listTransactions l) (listTransactions sv d l r)"
  unfolding listTransactions_def by (rule served_reads) (auto simp: handler_simps dest: guards_ok)

lemma served_getTransaction: "served d (R_getTransaction l i) (getTransaction sv d l i)"
  unfolding getTransaction_def by (rule served_reads) (auto simp: handler_simps dest: guards_ok)

lemma served_revertTransaction: "served d (R_revertTransaction l i) (revertTransaction sv envs d l i r)"
  unfolding revertTransaction_def
  by (rule served_writes) (auto simp: handler_simps dest: guards_ok revert_step split: prod.splits if_splits)

lemma served_setTransactionMetadata: "served d (R_setTransactionMetadata l i) (setTransactionMetadata sv envs d l i r)"
  unfolding setTransactionMetadata_def
  by (rule served_writes) (auto simp: handler_simps dest: guards_ok intro: giro_step.set_tx_metadata split: prod.splits)

lemma served_deleteTransactionMetadata:
  "served d (R_deleteTransactionMetadata l i k) (deleteTransactionMetadata sv envs d l i k)"
  unfolding deleteTransactionMetadata_def
  by (rule served_writes) (auto simp: handler_simps dest: guards_ok intro: giro_step.delete_tx_metadata split: prod.splits)

lemma served_getAccount: "served d (R_getAccount l a) (getAccount sv envs d l a r)"
  unfolding getAccount_def by (rule served_reads) (auto simp: handler_simps dest: guards_ok expansions_ok)

lemma served_getBalances: "served d (R_getBalances l a) (getBalances sv d l a r)"
  unfolding getBalances_def by (rule served_reads) (auto simp: handler_simps dest: guards_ok)

lemma served_aggregateBalances: "served d (R_aggregateBalances l) (aggregateBalances sv d l r)"
  unfolding aggregateBalances_def by (rule served_reads) (auto simp: handler_simps dest: guards_ok)

lemma served_listMoves: "served d (R_listMoves l a) (listMoves sv d l a r)"
  unfolding listMoves_def by (rule served_reads) (auto simp: handler_simps dest: guards_ok)

lemma served_setAccountMetadata: "served d (R_setAccountMetadata l a) (setAccountMetadata sv envs d l a r)"
  unfolding setAccountMetadata_def
  by (rule served_writes) (auto simp: handler_simps dest: guards_ok intro: giro_step.set_account_metadata split: prod.splits)

lemma served_deleteAccountMetadata:
  "served d (R_deleteAccountMetadata l a k) (deleteAccountMetadata sv envs d l a k)"
  unfolding deleteAccountMetadata_def
  by (rule served_writes) (auto simp: handler_simps dest: guards_ok intro: giro_step.delete_account_metadata split: prod.splits)

lemma served_listLogs: "served d (R_listLogs l) (listLogs sv d l r)"
  unfolding listLogs_def by (rule served_reads) (auto simp: handler_simps dest: guards_ok)

lemmas served_handlers =
  served_createLedger served_getLedger served_registerAsset served_listAssets served_createTransaction
  served_listTransactions served_commitBatch served_getTransaction served_revertTransaction
  served_setTransactionMetadata served_deleteTransactionMetadata served_getAccount served_setAccountMetadata
  served_deleteAccountMetadata served_getBalances served_listMoves served_aggregateBalances served_listLogs

lemma ServeHTTP_served: "served d (routes (rq_method r) (rq_path r)) (ServeHTTP sv envs d r)"
  unfolding ServeHTTP_def
  by (cases "routes (rq_method r) (rq_path r)")
    (simp_all add: served_handlers, simp_all add: served_def handleHome_def)

text \<open>The server over a running store: any request in any environment is a step.\<close>

definition http_step :: "db \<Rightarrow> db \<Rightarrow> bool" where
  "http_step d d' \<longleftrightarrow> (\<exists>sv envs r. fst (ServeHTTP sv envs d r) = d')"

lemma http_step_giro: "http_step d d' \<Longrightarrow> giro_step\<^sup>*\<^sup>* d d'"
proof -
  assume "http_step d d'"
  then obtain sv envs r where "d' = fst (ServeHTTP sv envs d r)" by (auto simp: http_step_def)
  then have "d' = d \<or> giro_step d d'" using ServeHTTP_served [of d r sv envs] by (auto simp: served_def)
  then show ?thesis by auto
qed

interpretation http: ledger_op http_step
proof
  fix d d' assume "http_step d d'" "sys_ok d"
  then show "sys_ok d' \<and> history_kept d d'" using giro.many [OF http_step_giro] by blast
qed

subsection \<open>Reading requests\<close>

lemma reads_fst [simp]: "fst (reads d h) = d"
  by (simp add: reads_def)

fun reading :: "route \<Rightarrow> bool" where
  "reading (R_createLedger _) = False"
| "reading (R_registerAsset _) = False"
| "reading (R_createTransaction _) = False"
| "reading (R_commitBatch _) = False"
| "reading (R_revertTransaction _ _) = False"
| "reading (R_setTransactionMetadata _ _) = False"
| "reading (R_deleteTransactionMetadata _ _ _) = False"
| "reading (R_setAccountMetadata _ _) = False"
| "reading (R_deleteAccountMetadata _ _ _) = False"
| "reading _ = True"

lemma reading_unmatched [simp]: "reading (unmatched b)"
  by (simp add: unmatched_def)

lemma route_ledger_get: "meth \<noteq> ''POST'' \<Longrightarrow> meth \<noteq> ''DELETE'' \<Longrightarrow> reading (route_ledger meth True l rest)"
  unfolding route_ledger_def by (simp add: if_distrib [of reading] split: list.split)

lemma get_route:
  assumes "meth = ''GET'' \<or> meth = ''HEAD''"
  shows "reading (routes meth path)"
proof -
  have m: "meth \<noteq> ''POST''" "meth \<noteq> ''DELETE''" using assms by auto
  show ?thesis unfolding routes_def Let_def
    using assms m by (simp add: if_distrib [of reading] route_ledger_get split: list.split)
qed

lemma reading_serves: "reading (routes (rq_method r) (rq_path r)) \<Longrightarrow> fst (ServeHTTP sv envs d r) = d"
  unfolding ServeHTTP_def
  by (cases "routes (rq_method r) (rq_path r)")
    (simp_all add: getLedger_def listAssets_def listTransactions_def
        getTransaction_def getAccount_def getBalances_def listMoves_def aggregateBalances_def listLogs_def)

lemmas get_reads = reading_serves [OF get_route]

subsection \<open>Refusals\<close>

text \<open>Which refusals are answered with a client error: all but three.\<close>

lemma refusal_status:
  assumes "CauseOf err = Some c"
  shows "fst (classify err) = 500 \<longleftrightarrow>
    err_find as_posting err = None \<and> c \<in> {CauseUnexpectedCredit, CauseAccountClosed, CauseUnboundedSweep}"
  using assms
proof (induction err)
qed (auto simp: CauseOf_def classify_def err_is_def split: if_splits)

subsection \<open>Retries\<close>

lemma commit_dry_keeps:
  assumes "CommitTransaction envs s d p opts = (s', Inr (d', t))" "ODryRun opts"
  shows "d' = d"
proof -
  obtain s1 h i where "commitOnce s1 (envs i) d d p opts h i = Inr (d', t)" using assms(1) by (rule CommitTransaction_Inr)
  then show ?thesis using assms(2)
    by (auto simp: commitOnce_def bindE_def split: option.splits sum.splits prod.splits)
qed

lemma batch_dry_keeps:
  assumes "CommitBatch envs s d items opts = (s', Inr (d', ts))" "ODryRun opts"
  shows "d' = d"
proof -
  obtain s1 h r where loop: "retry_loop (ledger s1) envs (\<lambda>i. commitBatchOnce s1 (envs i) d d items opts h i) maxAttempts 0 =
      (r, Inr (d', ts))"
    using assms(1) by (auto simp: CommitBatch_def split: if_splits option.splits prod.splits sum.splits)
  then obtain i where "commitBatchOnce s1 (envs i) d d items opts h i = Inr (d', ts)"
    using retry_loop_Inr [of "ledger s1" envs "\<lambda>i. commitBatchOnce s1 (envs i) d d items opts h i" maxAttempts 0 "(d', ts)"]
    by auto
  then show ?thesis using assms(2)
    by (auto simp: commitBatchOnce_def bindE_def split: option.splits sum.splits prod.splits batch_end.splits if_splits)
qed

lemma unkeyed_is_dry:
  assumes "requireKey sv r = Inr u" "\<not> allowUnkeyed sv" "rq_key r = []"
    and "query r = Inr params" "boolParam params ''dryRun'' = Inr b"
  shows "b"
proof -
  have "Get (fst (ParseQuery (rq_query r))) ''dryRun'' = ''true''"
    using assms(1-3) by (auto simp: requireKey_def split: if_splits)
  moreover have "params = fst (ParseQuery (rq_query r))"
    using assms(4) by (auto simp: query_def split: prod.splits if_splits)
  ultimately show ?thesis using assms(5) by (simp add: boolParam_def)
qed

lemma snd_eq: "snd p = y \<Longrightarrow> \<exists>s. p = (s, y)"
  by (cases p) simp

lemma writes_cases: "writes d h = (d', x) \<longleftrightarrow> (h = Inl x \<and> d' = d) \<or> h = Inr (d', x)"
  by (cases h) (auto simp: writes_def)

lemma createTransaction_cases:
  assumes "createTransaction sv envs d l r = (d', x)"
  obtains (error) "error_reply x" "d' = d"
    | (ok) u params b body s' t where "requireKey sv r = Inr u" "query r = Inr params" "boolParam params ''dryRun'' = Inr b"
        "decodeJSON (rq_transaction r) = Inr body"
        "CommitTransaction envs (sv_store sv l) d (fromAPIPostings (q_postings body)) (request_options (rq_key r) b body) = (s', Inr (d', t))"
        "x = Reply (created b) (TransactionBody (toAPITransaction t))"
proof -
  have "(error_reply x \<and> d' = d) \<or> (\<exists>u params b body t. requireKey sv r = Inr u \<and> query r = Inr params \<and>
      boolParam params ''dryRun'' = Inr b \<and> decodeJSON (rq_transaction r) = Inr body \<and>
      snd (CommitTransaction envs (sv_store sv l) d (fromAPIPostings (q_postings body)) (request_options (rq_key r) b body)) = Inr (d', t) \<and>
      x = Reply (created b) (TransactionBody (toAPITransaction t)))"
    using assms unfolding createTransaction_def writes_cases
    by (auto simp: handler_simps dest: guards_ok split: prod.splits)
  then show thesis by (elim disjE exE conjE) (simp add: error, drule snd_eq, elim exE, rule ok, assumption+)
qed

lemma commitBatch_cases:
  assumes "commitBatch sv envs d l r = (d', x)"
  obtains (error) "error_reply x" "d' = d"
    | (ok) u params b body s' ts where "requireKey sv r = Inr u" "query r = Inr params" "boolParam params ''dryRun'' = Inr b"
        "decodeJSON (rq_batch r) = Inr body"
        "CommitBatch envs (sv_store sv l) d (map batch_item (q_transactions body)) (batch_options (rq_key r) b) = (s', Inr (d', ts))"
proof -
  have "(error_reply x \<and> d' = d) \<or> (\<exists>u params b body ts. requireKey sv r = Inr u \<and> query r = Inr params \<and>
      boolParam params ''dryRun'' = Inr b \<and> decodeJSON (rq_batch r) = Inr body \<and>
      snd (CommitBatch envs (sv_store sv l) d (map batch_item (q_transactions body)) (batch_options (rq_key r) b)) = Inr (d', ts))"
    using assms unfolding commitBatch_def writes_cases
    by (auto simp: handler_simps dest: guards_ok split: prod.splits)
  then show thesis by (elim disjE exE conjE) (simp add: error, drule snd_eq, elim exE, rule ok, assumption+)
qed

lemma unkeyed_create:
  assumes "createTransaction sv envs d l r = (d', x)" "\<not> allowUnkeyed sv" "rq_key r = []"
  shows "d' = d"
  using assms(1)
proof (cases rule: createTransaction_cases)
  case (ok u params b body s' t)
  then show ?thesis using commit_dry_keeps [OF ok(5)] unkeyed_is_dry [OF ok(1) assms(2,3) ok(2,3)]
    by (simp add: request_options_def)
qed

lemma unkeyed_batch:
  assumes "commitBatch sv envs d l r = (d', x)" "\<not> allowUnkeyed sv" "rq_key r = []"
  shows "d' = d"
  using assms(1)
proof (cases rule: commitBatch_cases)
  case (ok u params b body s' t)
  then show ?thesis using batch_dry_keeps [OF ok(5)] unkeyed_is_dry [OF ok(1) assms(2,3) ok(2,3)]
    by (simp add: batch_options_def)
qed

text \<open>What reading an entry back loses of a transaction, the wire does not show.\<close>

lemma toAPITransaction_roundtrip [simp]: "toAPITransaction (json_roundtrip t) = toAPITransaction t"
  by (auto simp: toAPITransaction_def json_roundtrip_def orEmpty_def non_empty_def)

text \<open>A keyed commit that returned has its transaction under its key, whether it made it or found it.\<close>

lemma keyed_commit_entry:
  assumes ct: "CommitTransaction envs s d p opts = (s', Inr (d', t))" and inv: "book_ok d"
    and dry: "\<not> ODryRun opts" and ik: "OIdempotencyKey opts \<noteq> []"
  obtains row h t' where "idempotencyHash p opts = Inr h" "log_with_key d' (ledger s) (OIdempotencyKey opts) = Some row"
    "lg_key_hash row = Some h" "unmarshalTransaction (lg_data row) = Some t'" "toAPITransaction t' = toAPITransaction t"
proof (cases "fresh_key d (ledger s) (OIdempotencyKey opts)")
  case True
  obtain i h where h: "idempotencyHash p opts = Inr h" and ce: "commit_effect s (envs i) d p opts h d' t"
    using CommitTransaction_effect [OF ct inv True dry] by metis
  obtain row where "log_with_key d' (ledger s) (OIdempotencyKey opts) = Some row"
    "lg_data row = TxData t" "lg_key_hash row = Some h"
    using commit_effect_entry [OF ce True ik] by metis
  then show thesis using that [OF h] by auto
next
  case False
  obtain s1 h i where h: "idempotencyHash p opts = Inr h" and ca: "checkAssets s d p = (s1, None)"
    and once: "commitOnce s1 (envs i) d d p opts h i = Inr (d', t)" using ct by (rule CommitTransaction_Inr)
  have l: "ledger s1 = ledger s" using checkAssets_ledger [of s d p] ca by simp
  obtain row where row: "log_with_key d (ledger s) (OIdempotencyKey opts) = Some row" using False by (auto simp: fresh_key_def)
  then have "lg_key_hash row = Some h" "unmarshalTransaction (lg_data row) = Some t" "d' = d"
    using once ik l by (auto simp: commitOnce_def replay_lookup_def findByIdempotencyKey_def bindE_Inr_iff
        split: option.splits if_splits)
  then show thesis using that [OF h] row by simp
qed

lemma keyed_commit_again:
  assumes ct: "CommitTransaction envs s d p opts = (s', Inr (d', t))" and inv: "book_ok d" "cache_sound s d"
    and dry: "\<not> ODryRun opts" and ik: "OIdempotencyKey opts \<noteq> []"
    and later: "history_kept d d2" "logs_kept d' d2"
  obtains s'' t' where "CommitTransaction envs2 s d2 p opts = (s'', Inr (d2, t'))" "toAPITransaction t' = toAPITransaction t"
proof -
  obtain row h t' where h: "idempotencyHash p opts = Inr h" and row: "log_with_key d' (ledger s) (OIdempotencyKey opts) = Some row"
    and data: "lg_key_hash row = Some h" "unmarshalTransaction (lg_data row) = Some t'" "toAPITransaction t' = toAPITransaction t"
    using keyed_commit_entry [OF ct inv(1) dry ik] by metis
  obtain s1 where p: "p \<noteq> []" "list_all valid_posting p" and ca: "checkAssets s d p = (s1, None)"
    using ct by (rule CommitTransaction_Inr)
  have rg: "registry_grows d d2" using later(1) by (simp add: history_kept_def)
  have "assets_ok d (ledger s) p" using checkAssets_None_iff [OF inv(2), of p] ca by simp
  then have ok: "assets_ok d2 (ledger s) p" using rg by (auto simp: assets_ok_def registry_grows_def)
  have cs: "cache_sound s d2" by (rule cache_sound_grows [OF inv(2) rg])
  have row2: "log_with_key d2 (ledger s) (OIdempotencyKey opts) = Some row"
    using row later(2) log_with_key_stays unfolding logs_kept_def by blast
  have "\<exists>s''. CommitTransaction envs2 s d2 p opts = (s'', Inr (d2, t'))"
    by (rule CommitTransaction_first [OF p ok cs h])
      (use row2 data ik in \<open>simp_all add: commitOnce_def replay_lookup_def findByIdempotencyKey_def\<close>)
  then show thesis using that data(3) by blast
qed

text \<open>The same request again.\<close>

lemma keyed_create_again:
  assumes run: "createTransaction sv envs d l r = (d', Reply 201 b)" and inv: "sys_ok d" "cache_sound (sv_store sv l) d"
    and ik: "rq_key r \<noteq> []" and later: "giro_step\<^sup>*\<^sup>* d' d2"
  shows "createTransaction sv envs2 d2 l r = (d2, Reply 201 b)"
  using run
proof (cases rule: createTransaction_cases)
  case error
  then show ?thesis by (cases b) auto
next
  case (ok u params c body s' t)
  have c: "c = False" and b: "b = TransactionBody (toAPITransaction t)" using ok(6) by (simp_all add: created_def split: if_splits)
  have "giro_step d d'" using giro_step.commit [OF ok(5)] .
  then have steps: "giro_step\<^sup>*\<^sup>* d d2" "sys_ok d'" using later giro_step_keeps inv(1) by (auto intro: converse_rtranclp_into_rtranclp)
  have hk: "history_kept d d2" "history_kept d' d2" using giro.many [OF steps(1) inv(1)] giro.many [OF later steps(2)] by blast+
  have bk: "book_ok d" using inv(1) by (simp add: sys_ok_def)
  have o: "\<not> ODryRun (request_options (rq_key r) c body)" "OIdempotencyKey (request_options (rq_key r) c body) \<noteq> []"
    using c ik by (simp_all add: request_options_def)
  obtain s'' t' where "CommitTransaction envs2 (sv_store sv l) d2 (fromAPIPostings (q_postings body))
      (request_options (rq_key r) c body) = (s'', Inr (d2, t'))" "toAPITransaction t' = toAPITransaction t"
    using keyed_commit_again [OF ok(5) bk inv(2) o hk(1)] hk(2) unfolding history_kept_def by metis
  then show ?thesis using ok(1-4) c b
    by (simp add: createTransaction_def answered_def mapErr_def writes_def created_def)
qed

end
