(* ===== verification/Migrate_Names.thy ===== *)
theory Migrate_Names
  imports Migrate
begin

text \<open>
  File names and contents: a slug is made of words, a written name is read back as the version and slug it was made of, a
  fresh file does not ask to run outside a transaction, and what is loaded is in strictly increasing version order.
\<close>

subsection \<open>Names that are written can be read\<close>

fun words_from :: "bool \<Rightarrow> string \<Rightarrow> bool" where
  "words_from b [] = b"
| "words_from b (c # s) = (if slug_char c then words_from True s else c = CHR ''_'' \<and> b \<and> words_from False s)"

lemma slug_char_no_underscore [simp]: "\<not> slug_char CHR ''_''"
  by (simp add: slug_char_def is_lower_def is_digit_def less_eq_char_def)

lemma words_from_split:
  "words_from b s \<Longrightarrow> (case split_on CHR ''_'' s of [] \<Rightarrow> False
     | w # ws \<Rightarrow> (\<not> b \<longrightarrow> w \<noteq> []) \<and> list_all slug_char w \<and> list_all (\<lambda>w. w \<noteq> [] \<and> list_all slug_char w) ws)"
proof (induction b s rule: words_from.induct)
  case (2 b c s)
  show ?case
  proof (cases "slug_char c")
    case True
    then have "c \<noteq> CHR ''_''" by auto
    then show ?thesis using 2 True by (auto split: list.splits)
  next
    case False
    then show ?thesis using 2 by (auto split: list.splits)
  qed
qed simp

lemma slug_ok_words: "words_from False s \<Longrightarrow> slug_ok s"
  using words_from_split [of False s] by (auto simp: slug_ok_def split: list.splits)

fun singly :: "string \<Rightarrow> bool" where
  "singly [] = True"
| "singly (c # s) = ((slug_char c \<or> (c = CHR ''_'' \<and> (s = [] \<or> slug_char (hd s)))) \<and> singly s)"

lemma squeeze_head: "s \<noteq> [] \<Longrightarrow> squeeze s \<noteq> [] \<and> (slug_char (hd s) \<longrightarrow> hd (squeeze s) = hd s) \<and>
    (\<not> slug_char (hd s) \<longrightarrow> hd (squeeze s) = CHR ''_'')"
  by (cases s) auto

lemma squeeze_singly: "singly (squeeze s)"
proof (induction s rule: squeeze.induct)
  case (2 c s)
  show ?case
  proof (cases "slug_char c")
    case True
    then show ?thesis using 2 by simp
  next
    case False
    show ?thesis
    proof (cases s)
      case (Cons d s')
      show ?thesis
      proof (cases "slug_char d")
        case True
        then have "singly (squeeze s)" using 2(2) [OF False] Cons by simp
        then show ?thesis using False Cons True squeeze_head [of s] by simp
      next
        case nd: False
        then have si: "singly (squeeze s)" using 2(3) [OF False] Cons by simp
        obtain t where t: "squeeze s = CHR ''_'' # t" using squeeze_head [of s] nd Cons by (cases "squeeze s") auto
        then show ?thesis using False Cons nd si by simp
      qed
    qed (use False in simp)
  qed
qed simp

lemma singly_dropWhile: "singly s \<Longrightarrow> singly (dropWhile P s)"
  by (induction s) auto

lemma singly_prefix: "singly (s @ t) \<Longrightarrow> singly s"
  by (induction s) (auto simp: hd_append split: if_splits)

lemma singly_words:
  "singly s \<Longrightarrow> s \<noteq> [] \<Longrightarrow> slug_char (last s) \<Longrightarrow> b \<or> slug_char (hd s) \<Longrightarrow> words_from b s"
proof (induction b s rule: words_from.induct)
  case (2 b c s)
  show ?case
  proof (cases "s = []")
    case True
    then show ?thesis using 2 by auto
  next
    case False
    then show ?thesis using 2 by (cases "slug_char c") auto
  qed
qed simp

lemma Slugify_ok:
  assumes "Slugify name \<noteq> []"
  shows "words_from False (Slugify name)"
proof -
  define a where "a = dropWhile (\<lambda>c. c = CHR ''_'') (squeeze (to_lower name))"
  define b where "b = dropWhile (\<lambda>c. c = CHR ''_'') (rev a)"
  have s: "Slugify name = rev b" by (simp add: Slugify_def trim_char_def a_def b_def)
  have "singly a" unfolding a_def by (intro singly_dropWhile squeeze_singly)
  moreover have pre: "a = rev b @ rev (takeWhile (\<lambda>c. c = CHR ''_'') (rev a))"
    unfolding b_def by (metis rev_append rev_rev_ident takeWhile_dropWhile_id)
  ultimately have si: "singly (rev b)" using singly_prefix by metis
  have ne: "b \<noteq> []" using assms s by simp
  have chars: "slug_char c \<or> c = CHR ''_''" if "singly t" "c \<in> set t" for c t
    using that by (induction t) auto
  have "hd b \<noteq> CHR ''_''" using hd_dropWhile ne unfolding b_def by blast
  moreover have "slug_char (hd b) \<or> hd b = CHR ''_''" using chars [OF si, of "hd b"] ne by simp
  ultimately have la: "slug_char (last (rev b))" using ne by (simp add: last_rev)
  have "a \<noteq> []" using pre ne by auto
  then have "hd a \<noteq> CHR ''_''" using hd_dropWhile unfolding a_def by blast
  moreover have "hd a = hd (rev b)" using pre ne by (metis hd_append2 rev_is_Nil_conv)
  moreover have "slug_char (hd (rev b)) \<or> hd (rev b) = CHR ''_''"
    using chars [OF si, of "hd (rev b)"] ne hd_in_set [of "rev b"] by simp
  ultimately show ?thesis using si la ne unfolding s by (intro singly_words) auto
qed

lemma parseFilename_written:
  assumes "length stamp = 14" "list_all is_digit stamp" "slug_ok slug"
  shows "parseFilename (stamp @ ''_'' @ slug @ ''.sql'') = Inr (int (digits_value stamp), slug)"
proof -
  have t: "take 14 (stamp @ ''_'' @ slug @ ''.sql'') = stamp" "drop 14 (stamp @ ''_'' @ slug @ ''.sql'') = ''_'' @ slug @ ''.sql''"
    using assms(1) by simp_all
  have "take 1 stamp \<noteq> ''-''" "take 1 stamp \<noteq> ''+''" "stamp \<noteq> []"
    using assms(1,2) by (cases stamp; auto simp: is_digit_def less_eq_char_def)+
  moreover have "digits_value stamp < 10 ^ 14" using digits_value_bound [OF assms(2)] assms(1) by simp
  ultimately have "ParseInt64 stamp = Some (int (digits_value stamp))"
    using assms(2) by (simp add: ParseInt64_def Let_def)
  moreover have "take (length (''_'' @ slug @ ''.sql'') - 5) (drop 1 (''_'' @ slug @ ''.sql'')) = slug" by simp
  ultimately show ?thesis using assms unfolding parseFilename_def t Let_def by simp
qed

subsection \<open>The stamp\<close>

lemma dec_digits_length: "n < 10 ^ k \<Longrightarrow> 0 < k \<Longrightarrow> length (dec_digits fuel n acc) \<le> k + length acc"
proof (induction fuel arbitrary: n k acc)
  case (Suc fuel)
  show ?case
  proof (cases "n < 10")
    case False
    with Suc.prems have k: "1 < k" by (cases "k = 1") auto
    then obtain j where j: "k = Suc j" "0 < j" by (cases k) auto
    then have "n div 10 < 10 ^ j" using Suc.prems(1) by auto
    from Suc.IH [OF this j(2), of "char_of (48 + n mod 10) # acc"] show ?thesis using False j by (simp add: Let_def)
  qed (use Suc.prems in \<open>simp add: Let_def\<close>)
qed simp

lemma pad_int_digits:
  assumes "0 \<le> n" "n < 10 ^ w" "0 < w"
  shows "length (pad_int w n) = w" "list_all is_digit (pad_int w n)"
proof -
  have "json_int n = dec_digits (Suc (BitLen n)) n []" using assms(1) by (simp add: json_int_def)
  then have "length (json_int n) \<le> w" using dec_digits_length [OF assms(2,3), of "Suc (BitLen n)" "[]"] by (simp del: dec_digits.simps)
  then show "length (pad_int w n) = w" by (simp add: pad_int_def Let_def)
  have "is_digit CHR ''0''" by (simp add: is_digit_def)
  moreover have "list_all is_digit (json_int n)" using json_int_nonneg [of n] assms(1) by simp
  ultimately show "list_all is_digit (pad_int w n)" by (auto simp: pad_int_def Let_def list_all_iff)
qed

lemma year_and_day_range: "0 \<le> snd (year_and_day n) \<and> snd (year_and_day n) \<le> 365"
proof -
  define m where "m = (n mod 146097 - 36524 * min 3 (n mod 146097 div 36524)) mod 1461"
  have "0 \<le> m \<and> m < 1461" by (simp add: m_def)
  moreover have "snd (year_and_day n) = m - 365 * min 3 (m div 365)"
    by (simp add: year_and_day_def Let_def m_def)
  moreover have "0 \<le> x - 365 * min 3 (x div 365) \<and> x - 365 * min 3 (x div 365) \<le> 365" if "0 \<le> x" "x < 1461" for x :: int
    using that by (auto simp: min_def)
  ultimately show ?thesis by metis
qed

lemma month_and_day_range:
  assumes "0 \<le> d" "\<forall>n\<in>set ns. 0 < n \<and> n \<le> 31"
  shows "m \<le> fst (month_and_day ns m d) \<and> fst (month_and_day ns m d) \<le> m + int (length ns) \<and>
    1 \<le> snd (month_and_day ns m d) \<and> snd (month_and_day ns m d) \<le> max 31 (d + 1 - sum_list ns)"
  using assms
proof (induction ns arbitrary: m d)
  case (Cons n ns)
  show ?case
  proof (cases "d < n")
    case True
    then show ?thesis using Cons.prems by (simp add: le_max_iff_disj)
  next
    case False
    with Cons.IH [of "d - n" "m + 1"] Cons.prems show ?thesis by (simp add: algebra_simps)
  qed
qed simp

lemma timestamp_text_digits:
  assumes "time_ok t"
  shows "length (timestamp_text t) = 14" "list_all is_digit (timestamp_text t)"
proof -
  let ?secs = "t div nanos_per_second"
  obtain y yd where yd: "year_and_day (?secs div 86400) = (y, yd)" by (cases "year_and_day (?secs div 86400)")
  obtain m d where md: "month_and_day (month_lengths y) 1 yd = (m, d)" by (cases "month_and_day (month_lengths y) 1 yd")
  have y: "0 \<le> y" "y < 10 ^ 4" using assms yd
    by (simp_all add: time_ok_def year_of_def zdiv_zmult2_eq [symmetric] nanos_per_second_def)
  have r: "0 \<le> yd" "yd \<le> 365" using year_and_day_range [of "?secs div 86400"] yd by simp_all
  have ml: "\<forall>n\<in>set (month_lengths y). 0 < n \<and> n \<le> 31" "length (month_lengths y) = 11" "sum_list (month_lengths y) \<ge> 334"
    by (simp_all add: month_lengths_def)
  have range: "1 \<le> m \<and> m \<le> 12 \<and> 1 \<le> d \<and> d \<le> max 31 (yd + 1 - sum_list (month_lengths y))"
    using month_and_day_range [OF r(1) ml(1), of 1] md ml(2) by simp
  then have "d \<le> 99" using r(2) ml(3) by linarith
  then have "m \<le> 12 \<and> 1 \<le> m \<and> 1 \<le> d \<and> d \<le> 99"
    using range r by simp
  then have "0 \<le> m" "m < 10 ^ 2" "0 \<le> d" "d < 10 ^ 2" by simp_all
  moreover define sec where "sec = ?secs mod 86400"
  then have "0 \<le> sec" "sec < 86400" by simp_all
  then have "0 \<le> sec div 3600" "sec div 3600 < 10 ^ 2" "0 \<le> sec div 60 mod 60" "0 \<le> sec mod 60" by simp_all
  moreover have "x mod 60 < (10 :: int) ^ 2" for x using pos_mod_bound [of 60 x] by simp
  ultimately show "length (timestamp_text t) = 14" "list_all is_digit (timestamp_text t)"
    using y pad_int_digits by (simp_all add: timestamp_text_def Let_def yd md sec_def [symmetric])
qed

subsection \<open>What a fresh file holds\<close>

lemma slug_words_chars: "words_from b s \<Longrightarrow> c \<in> set s \<Longrightarrow> slug_char c \<or> c = CHR ''_''"
  by (induction b s rule: words_from.induct) (auto split: if_splits)

lemma slug_char_facts:
  assumes "slug_char c \<or> c = CHR ''_''"
  shows "c \<noteq> CHR 0x0A" "to_lower_char c = c" "c \<noteq> CHR '':''" "c \<noteq> CHR 0xC5"
  using assms by (auto simp: slug_char_def to_lower_char_def is_lower_def is_upper_def is_digit_def less_eq_char_def)

lemma to_lower_colon: "to_lower_char c = CHR '':'' \<longleftrightarrow> c = CHR '':''"
proof
  assume h: "to_lower_char c = CHR '':''"
  show "c = CHR '':''"
  proof (cases "is_upper c")
    case True
    then have "(65 :: nat) \<le> of_char c \<and> of_char c \<le> (90 :: nat)" by (simp add: is_upper_def less_eq_char_def)
    moreover have "of_char (char_of (of_char c + 32 :: nat)) = (58 :: nat)" using h True by (simp add: to_lower_char_def)
    ultimately show ?thesis by simp
  qed (use h in \<open>simp add: to_lower_char_def\<close>)
qed (simp add: to_lower_char_def is_upper_def less_eq_char_def)

lemma equal_fold_colon: "equal_fold s ds \<Longrightarrow> CHR '':'' \<in> set ds \<Longrightarrow> CHR '':'' \<in> set s"
proof (induction s ds rule: equal_fold.induct)
  case (3 c cs d ds)
  show ?case
  proof (cases "to_lower_char c = to_lower_char d")
    case True
    then show ?thesis using 3 to_lower_colon by (metis equal_fold.simps(3) list.set_intros(1,2) set_ConsD)
  next
    case False
    then have "to_lower_char d = CHR ''s''" "equal_fold (drop 1 cs) ds" using 3(3) by simp_all
    moreover have "d \<noteq> CHR '':''" using calculation(1) by (auto simp: to_lower_char_def is_upper_def less_eq_char_def)
    ultimately have "CHR '':'' \<in> set (drop 1 cs)" using 3(2) [OF False] 3(4) False 3(3) by auto
    then show ?thesis using in_set_dropD by fastforce
  qed
qed auto

lemma split_on_line: "CHR 0x0A \<notin> set a \<Longrightarrow> split_on CHR 0x0A (a @ CHR 0x0A # s) = a # split_on CHR 0x0A s"
  by (rule split_on_append)

lemma stub_no_directive:
  assumes "words_from b slug"
  shows "\<not> hasDirective (stub slug) noTransactionDirective"
proof -
  have nl: "CHR 0x0A \<notin> set (''-- '' @ slug)" using slug_words_chars [OF assms] slug_char_facts(1) by auto
  have "stub slug = (''-- '' @ slug) @ CHR 0x0A # stub_advice" by (simp add: stub_def)
  then have st: "split_on CHR 0x0A (stub slug) = (''-- '' @ slug) # split_on CHR 0x0A stub_advice"
    using split_on_line [OF nl] by simp
  have "CHR '':'' \<notin> set (''-- '' @ slug)" using slug_words_chars [OF assms] slug_char_facts(3) by auto
  then have "\<not> equal_fold (TrimSpace (''-- '' @ slug)) noTransactionDirective"
    using equal_fold_colon [of "TrimSpace (''-- '' @ slug)" noTransactionDirective] TrimSpace_subset
    by (fastforce simp: noTransactionDirective_def)
  moreover have "\<not> hasDirective stub_advice noTransactionDirective" by code_simp
  ultimately show ?thesis unfolding hasDirective_def st by simp
qed

lemma newAt_Inr:
  assumes "newAt io d name now = Inr (d', f)" "time_ok now"
  shows "parseFilename f = Inr (int (digits_value (timestamp_text now)), Slugify name)"
    and "map_of d f = None" and "d' = AList.update f (stub (Slugify name)) d"
    and "\<not> hasDirective (stub (Slugify name)) noTransactionDirective"
proof -
  have sl: "Slugify name \<noteq> []" and f: "f = migration_filename (Slugify name) now"
    using assms(1) by (auto simp: newAt_def Let_def split: if_splits option.splits)
  note ok = Slugify_ok [OF sl]
  show "parseFilename f = Inr (int (digits_value (timestamp_text now)), Slugify name)"
    unfolding f migration_filename_def
    by (rule parseFilename_written [OF timestamp_text_digits [OF assms(2)] slug_ok_words [OF ok]])
  show "map_of d f = None" "d' = AList.update f (stub (Slugify name)) d"
    using assms(1) by (auto simp: newAt_def Let_def split: if_splits option.splits)
  show "\<not> hasDirective (stub (Slugify name)) noTransactionDirective" by (rule stub_no_directive [OF ok])
qed

lemma newAt_total: "(\<exists>d' f. newAt None d name now = Inr (d', f)) \<longleftrightarrow>
    Slugify name \<noteq> [] \<and> map_of d (migration_filename (Slugify name) now) = None"
  by (auto simp: newAt_def Let_def)

subsection \<open>What is loaded\<close>

lemma duplicate_version_None:
  "sorted (map MVersion ms) \<Longrightarrow> duplicate_version ms = None \<longleftrightarrow> sorted_wrt (<) (map MVersion ms)"
proof (induction ms rule: duplicate_version.induct)
  case (1 a b ms)
  have "sorted_wrt (<) (map MVersion (a # b # ms)) \<longleftrightarrow> MVersion a < MVersion b \<and> sorted_wrt (<) (map MVersion (b # ms))"
    by (auto intro: order.strict_trans)
  then show ?case using 1 by auto
qed auto

lemma Load_ordered:
  assumes "Load fsys = Inr ms"
  shows "sorted_wrt (<) (map MVersion ms)"
proof -
  obtain es l where "ms = sort_key MVersion l" "duplicate_version ms = None"
    using assms by (auto simp: Load_def bindE_Inr_iff Let_def split: option.splits)
  then show ?thesis using duplicate_version_None [of ms] by simp
qed

lemma parseFilename_nonneg: "parseFilename f = Inr (v, n) \<Longrightarrow> 0 \<le> v"
proof -
  assume h: "parseFilename f = Inr (v, n)"
  then have d: "list_all is_digit (take 14 f)" "ParseInt64 (take 14 f) = Some v"
    by (auto simp: parseFilename_def Let_def split: if_splits option.splits)
  have "take 1 (take 14 f) \<noteq> ''-''" using d(1) by (cases f) (auto simp: is_digit_def less_eq_char_def)
  with d(2) show "0 \<le> v" by (auto simp: ParseInt64_def Let_def split: if_splits)
qed

lemma Load_nonneg:
  assumes "Load fsys = Inr ms" "m \<in> set ms"
  shows "0 \<le> MVersion m"
proof -
  have keep: "P m" if "foldE (\<lambda>e ms. if de_is_dir e \<or> \<not> has_suffix (de_name e) ''.sql'' then Inr ms
                   else bindE (load_entry e) (\<lambda>m. Inr (ms @ [m]))) es l0 = Inr l" "\<forall>m\<in>set l0. P m" "m \<in> set l"
      and step: "\<And>e m. load_entry e = Inr m \<Longrightarrow> P m" for P es l0 l m
    using that(1-3)
  proof (induction es arbitrary: l0)
    case (Cons e es)
    then obtain l1 where l1: "(if de_is_dir e \<or> \<not> has_suffix (de_name e) ''.sql'' then Inr l0
        else bindE (load_entry e) (\<lambda>m. Inr (l0 @ [m]))) = (Inr l1 :: Migration list mres)"
      by (auto simp: bindE_Inr_iff)
    then have "\<forall>m\<in>set l1. P m" using Cons.prems(2) step by (auto simp: bindE_Inr_iff split: if_splits)
    then show ?case using Cons l1 by (auto simp: bindE_Inr_iff)
  qed auto
  obtain es l where "load_entries es = Inr l" "ms = sort_key MVersion l"
    using assms(1) by (auto simp: Load_def bindE_Inr_iff Let_def split: option.splits)
  then have "foldE (\<lambda>e ms. if de_is_dir e \<or> \<not> has_suffix (de_name e) ''.sql'' then Inr ms
                   else bindE (load_entry e) (\<lambda>m. Inr (ms @ [m]))) es [] = Inr l" "m \<in> set l"
    using assms(2) by (simp_all add: load_entries_def)
  moreover have "0 \<le> MVersion m" if "load_entry e = Inr m" for e m
    using that parseFilename_nonneg by (auto simp: load_entry_def bindE_Inr_iff split: prod.splits)
  ultimately show ?thesis using keep [where P = "\<lambda>m. 0 \<le> MVersion m"] by simp
qed

end
