(* ===== verification/Migrate_History.thy ===== *)
theory Migrate_History
  imports Migrate_Names
begin

text \<open>
  History against directory: the checks pass exactly when the history is an initial segment of the directory, body for
  body, and a run keeps it one.
\<close>

subsection \<open>A history that agrees with the directory\<close>

text \<open>What history and directory are compared by: the version and the digest of the body.\<close>

definition recorded :: "history \<Rightarrow> (int \<times> string) set" where
  "recorded done = (\<lambda>(v, a). (v, AChecksum a)) ` set done"

definition bodies :: "Migration list \<Rightarrow> (int \<times> string) set" where
  "bodies ms = (\<lambda>m. (MVersion m, MChecksum m)) ` set ms"

definition consistent :: "Migration list \<Rightarrow> history \<Rightarrow> bool" where
  "consistent ms done \<longleftrightarrow> (\<exists>k\<le>length ms. recorded done = bodies (take k ms))"

lemma recorded_iff: "unique_keys done \<Longrightarrow> (v, c) \<in> recorded done \<longleftrightarrow> (\<exists>a. map_of done v = Some a \<and> AChecksum a = c)"
  unfolding recorded_def by (fastforce simp: image_iff dest: map_of_is_SomeI map_of_SomeD)

lemma recorded_versions: "fst ` recorded done = fst ` set done"
  unfolding recorded_def by force

lemma map_of_recorded: "map_of done v = None \<longleftrightarrow> v \<notin> fst ` recorded done"
  unfolding recorded_versions by (simp add: map_of_eq_None_iff)

lemma bodies_versions: "fst ` bodies ms = MVersion ` set ms"
  unfolding bodies_def by force

lemma check_drift_Inl: "check_drift done ms h = Inl e \<Longrightarrow>
    \<exists>m\<in>set ms. \<exists>a. map_of done (MVersion m) = Some a \<and> AChecksum a \<noteq> MChecksum m"
  by (induction ms arbitrary: h) (auto split: option.splits if_splits)

lemma check_drift_Inr: "check_drift done ms h = Inr h' \<Longrightarrow>
    (\<forall>m\<in>set ms. \<forall>a. map_of done (MVersion m) = Some a \<longrightarrow> AChecksum a = MChecksum m \<and> MVersion m \<le> h') \<and>
    h \<le> h' \<and> (h' = h \<or> (\<exists>m\<in>set ms. map_of done (MVersion m) \<noteq> None \<and> h' = MVersion m))"
proof (induction ms arbitrary: h)
  case (Cons m ms)
  show ?case
  proof (cases "map_of done (MVersion m)")
    case None
    then show ?thesis using Cons by auto
  next
    case (Some a)
    then have "AChecksum a = MChecksum m" "check_drift done ms (max h (MVersion m)) = Inr h'"
      using Cons.prems by (auto split: if_splits)
    with Cons.IH [OF this(2)] Some show ?thesis by (auto simp: max_def split: if_splits)
  qed
qed simp

lemma check_order_None: "check_order done h ms = None \<longleftrightarrow>
    (\<forall>m\<in>set ms. map_of done (MVersion m) = None \<longrightarrow> h \<le> MVersion m)"
  by (induction ms) auto

lemma sorted_same_version:
  assumes "sorted_wrt (<) (map MVersion ms)" "m \<in> set ms" "m' \<in> set ms" "MVersion m = MVersion m'"
  shows "m = m'"
proof -
  have "distinct (map MVersion ms)" using assms(1) by (simp add: strict_sorted_iff)
  then show ?thesis using assms(2-4) by (simp add: distinct_map inj_on_def)
qed

lemma prefix_versions:
  assumes "sorted_wrt (<) (map MVersion ms)" "m \<in> set ms"
  shows "MVersion m \<in> MVersion ` set (take k ms) \<longleftrightarrow> m \<in> set (take k ms)"
  using sorted_same_version [OF assms] by (auto dest: in_set_takeD)

lemma rest_later:
  assumes "sorted_wrt (<) (map MVersion ms)" "m \<in> set (take k ms)" "m' \<in> set (drop k ms)"
  shows "MVersion m < MVersion m'"
proof -
  have "sorted_wrt (<) (map MVersion (take k ms) @ map MVersion (drop k ms))"
    using assms(1) by (simp flip: map_append)
  then show ?thesis using assms(2,3) by (auto simp: sorted_wrt_append)
qed

lemma consistent_verify:
  assumes ord: "sorted_wrt (<) (map MVersion ms)" "\<forall>m\<in>set ms. 0 \<le> MVersion m" and u: "unique_keys done"
    and k: "recorded done = bodies (take k ms)"
  shows "migrate_verify ms done = None"
proof -
  have app: "map_of done (MVersion m) = None \<longleftrightarrow> m \<notin> set (take k ms)" if "m \<in> set ms" for m
    using map_of_recorded [of "done" "MVersion m"] prefix_versions [OF ord(1) that] unfolding k bodies_versions by blast
  have same: "AChecksum a = MChecksum m" if "m \<in> set ms" "map_of done (MVersion m) = Some a" for m a
  proof -
    have "(MVersion m, AChecksum a) \<in> bodies (take k ms)" using recorded_iff [OF u] that(2) k by blast
    then obtain m' where "m' \<in> set (take k ms)" "MVersion m' = MVersion m" "MChecksum m' = AChecksum a"
      by (auto simp: bodies_def)
    then show ?thesis using sorted_same_version [OF ord(1)] that(1) by (metis in_set_takeD)
  qed
  obtain h where h: "check_drift done ms 0 = Inr h" using check_drift_Inl [of "done" ms 0] same by (cases "check_drift done ms 0") blast+
  have "v \<in> MVersion ` set ms" if "(v, a) \<in> set done" for v a
  proof -
    have "v \<in> fst ` recorded done" using that unfolding recorded_versions by force
    then show ?thesis unfolding k bodies_versions by (auto dest: in_set_takeD)
  qed
  then have miss: "\<not> list_ex (\<lambda>(v, _). \<not> on_disk ms v) done" by (force simp: list_ex_iff on_disk_def)
  have "h \<le> MVersion m" if m: "m \<in> set ms" "map_of done (MVersion m) = None" for m
  proof -
    have d: "m \<in> set (drop k ms)" using app [OF m(1)] m by (metis Un_iff append_take_drop_id set_append)
    have "\<forall>m\<in>set ms. map_of done (MVersion m) \<noteq> None \<longrightarrow> m \<in> set (take k ms)" using app by simp
    then consider "h = 0" | m' where "m' \<in> set (take k ms)" "h = MVersion m'" using check_drift_Inr [OF h] by blast
    then show ?thesis
    proof cases
      case 1
      then show ?thesis using ord(2) m(1) by simp
    next
      case 2
      then show ?thesis using rest_later [OF ord(1) 2(1) d] by simp
    qed
  qed
  then have "check_order done h ms = None" by (simp add: check_order_None)
  with h miss show ?thesis by (simp add: migrate_verify_def)
qed

lemma verify_consistent:
  assumes ord: "sorted_wrt (<) (map MVersion ms)" and u: "unique_keys done" and v: "migrate_verify ms done = None"
  shows "consistent ms done"
proof -
  obtain h where h: "check_drift done ms 0 = Inr h" and miss: "\<not> list_ex (\<lambda>(v, _). \<not> on_disk ms v) done"
      and o: "check_order done h ms = None"
    using v by (auto simp: migrate_verify_def split: sum.splits if_splits)
  define P where "P m \<longleftrightarrow> map_of done (MVersion m) \<noteq> None" for m :: Migration
  define k where "k = length (takeWhile P ms)"
  have tk: "take k ms = takeWhile P ms" unfolding k_def by (metis takeWhile_eq_take)
  have later: "\<not> P m" if m: "m \<in> set (drop k ms)" for m
  proof
    assume p: "P m"
    have dk: "drop k ms = dropWhile P ms" unfolding k_def by (simp add: dropWhile_eq_drop)
    have ne: "drop k ms \<noteq> []" using m by auto
    define m0 where "m0 = hd (drop k ms)"
    have m0: "drop k ms = m0 # tl (drop k ms)" "\<not> P m0"
      using ne hd_dropWhile [of P ms] unfolding m0_def dk by simp_all
    have mem: "m \<in> set ms" "m0 \<in> set ms" using m m0(1) by (metis in_set_dropD list.set_intros(1))+
    have "sorted_wrt (<) (map MVersion (drop k ms))" using ord by (metis drop_map sorted_wrt_drop)
    then have "\<forall>x\<in>set (tl (drop k ms)). MVersion m0 < MVersion x" by (subst (asm) m0(1)) simp
    moreover have "m \<in> set (tl (drop k ms))" using m m0 p by (metis set_ConsD)
    ultimately have "MVersion m0 < MVersion m" by blast
    also have "MVersion m \<le> h" using check_drift_Inr [OF h] p mem(1) unfolding P_def by blast
    also have "h \<le> MVersion m0" using o m0(2) mem(2) unfolding check_order_None P_def by blast
    finally show False by simp
  qed
  have "recorded done = bodies (take k ms)"
  proof (intro set_eqI iffI; clarify)
    fix w c assume r: "(w, c) \<in> recorded done"
    then obtain a where a: "map_of done w = Some a" "AChecksum a = c" using recorded_iff [OF u] by blast
    then obtain m where m: "m \<in> set ms" "MVersion m = w"
      using miss map_of_SomeD [OF a(1)] by (fastforce simp: list_ex_iff on_disk_def)
    then have "P m" using a(1) by (simp add: P_def)
    then have "m \<in> set (take k ms)" using later m(1) by (metis Un_iff append_take_drop_id set_append)
    moreover have "MChecksum m = c" using check_drift_Inr [OF h] m a by auto
    ultimately show "(w, c) \<in> bodies (take k ms)" using m(2) by (force simp: bodies_def)
  next
    fix w c assume "(w, c) \<in> bodies (take k ms)"
    then obtain m where m: "m \<in> set (take k ms)" "MVersion m = w" "MChecksum m = c" by (auto simp: bodies_def)
    then have "P m" "m \<in> set ms" unfolding tk by (auto dest: set_takeWhileD)
    then obtain a where "map_of done w = Some a" using m(2) unfolding P_def by blast
    moreover then have "AChecksum a = c" using check_drift_Inr [OF h] m(2,3) \<open>m \<in> set ms\<close> by auto
    ultimately show "(w, c) \<in> recorded done" using recorded_iff [OF u] by blast
  qed
  moreover have "k \<le> length ms" unfolding k_def by (rule length_takeWhile_le)
  ultimately show ?thesis unfolding consistent_def by blast
qed

lemma Load_verify:
  assumes "Load fsys = Inr ms" "unique_keys done"
  shows "migrate_verify ms done = None \<longleftrightarrow> consistent ms done"
  using verify_consistent [OF Load_ordered [OF assms(1)] assms(2)]
    consistent_verify [OF Load_ordered [OF assms(1)] _ assms(2)] Load_nonneg [OF assms(1)]
  unfolding consistent_def by blast

subsection \<open>What a run leaves\<close>

text \<open>The effect a migration's text has when it succeeds, and the row it is recorded by.\<close>

definition exec_body :: "'d sql_engine \<Rightarrow> Migration \<Rightarrow> 'd \<Rightarrow> 'd mres" where
  "exec_body eng m d =
     (if MNoTx m then (case exec_bare eng (MSQL m) d of (d', None) \<Rightarrow> Inr d' | (_, Some e) \<Rightarrow> Inl e)
      else exec_tx eng (MSQL m) d)"

definition history_row :: "time \<Rightarrow> Migration \<Rightarrow> int \<times> applied" where
  "history_row now m = (MVersion m, \<lparr>AName = MName m, AChecksum = MChecksum m, AppliedAt = now\<rparr>)"

definition add_history :: "time \<Rightarrow> Migration list \<Rightarrow> history option \<Rightarrow> history option" where
  "add_history now ms = map_option (\<lambda>h. h @ map (history_row now) ms)"

lemma add_history_simps [simp]:
  "add_history now [] h = h" "add_history now ms None = None"
  "add_history now ms (Some t) = Some (t @ map (history_row now) ms)"
  by (cases h) (simp_all add: add_history_def)

lemma record_applied_Inr: "record_applied eng now m db = Inr db' \<Longrightarrow>
    db_rest db' = db_rest db \<and> schema_migrations db' = add_history now [m] (schema_migrations db)"
  by (auto simp: record_applied_def history_row_def split: option.splits if_splits)

lemma apply_migration_ok: "apply_migration eng now m db = (db', None) \<Longrightarrow>
    exec_body eng m (db_rest db) = Inr (db_rest db') \<and> schema_migrations db' = add_history now [m] (schema_migrations db)"
  by (auto simp: apply_migration_def exec_body_def dest!: record_applied_Inr split: if_splits prod.splits option.splits sum.splits)

lemma apply_migration_failed: "apply_migration eng now m db = (db', Some e) \<Longrightarrow>
    schema_migrations db' = schema_migrations db \<and>
    (db_rest db' = db_rest db \<or> (MNoTx m \<and> db_rest db' = fst (exec_bare eng (MSQL m) (db_rest db))))"
  by (auto simp: apply_migration_def split: if_splits prod.splits option.splits sum.splits)

lemma apply_pending_skip:
  "apply_pending eng now done ms db n = apply_pending eng now done (filter (\<lambda>m. map_of done (MVersion m) = None) ms) db n"
  by (induction ms arbitrary: db n) (auto split: prod.splits option.splits)

lemma apply_pending_runs:
  assumes "apply_pending eng now done ms db n = (db', n', err)" "\<forall>m\<in>set ms. map_of done (MVersion m) = None"
  shows "\<exists>j\<le>length ms. \<exists>d. n' = n + j \<and> (err = None \<longleftrightarrow> j = length ms) \<and>
    foldE (exec_body eng) (take j ms) (db_rest db) = Inr d \<and>
    schema_migrations db' = add_history now (take j ms) (schema_migrations db) \<and>
    (db_rest db' = d \<or> (j < length ms \<and> MNoTx (ms ! j) \<and> db_rest db' = fst (exec_bare eng (MSQL (ms ! j)) d)))"
  using assms
proof (induction ms arbitrary: db n)
  case (Cons m ms)
  obtain db1 e where a: "apply_migration eng now m db = (db1, e)" by (cases "apply_migration eng now m db")
  show ?case
  proof (cases e)
    case (Some x)
    have "db' = db1" "n' = n" "err = Some x" using Cons.prems a Some by auto
    then show ?thesis using apply_migration_failed [OF a [unfolded Some]] by (intro exI [of _ 0]) auto
  next
    case None
    then have "apply_pending eng now done ms db1 (Suc n) = (db', n', err)" using Cons.prems a by simp
    from Cons.IH [OF this] Cons.prems(2) obtain j d where j: "j \<le> length ms" "n' = Suc n + j" "err = None \<longleftrightarrow> j = length ms"
        "foldE (exec_body eng) (take j ms) (db_rest db1) = Inr d"
        "schema_migrations db' = add_history now (take j ms) (schema_migrations db1)"
        "db_rest db' = d \<or> (j < length ms \<and> MNoTx (ms ! j) \<and> db_rest db' = fst (exec_bare eng (MSQL (ms ! j)) d))"
      by auto
    note ok = apply_migration_ok [OF a [unfolded None]]
    have "schema_migrations db' = add_history now (take (Suc j) (m # ms)) (schema_migrations db)"
      using j(5) ok by (cases "schema_migrations db") simp_all
    then show ?thesis using j ok by (intro exI [of _ "Suc j"] conjI exI [of _ d]) auto
  qed
qed simp

lemma recorded_append: "recorded (h @ map (history_row now) ms) = recorded h \<union> bodies ms"
  unfolding recorded_def bodies_def history_row_def by (simp add: image_Un image_image)

lemma bodies_append: "bodies (xs @ ys) = bodies xs \<union> bodies ys"
  unfolding bodies_def by auto

lemma unapplied_drop:
  assumes "sorted_wrt (<) (map MVersion ms)" "recorded done = bodies (take k ms)"
  shows "filter (\<lambda>m. map_of done (MVersion m) = None) ms = drop k ms"
proof -
  have app: "map_of done (MVersion m) = None \<longleftrightarrow> m \<notin> set (take k ms)" if "m \<in> set ms" for m
    using map_of_recorded [of "done" "MVersion m"] prefix_versions [OF assms(1) that] unfolding assms(2) bodies_versions by blast
  have "filter (\<lambda>m. map_of done (MVersion m) = None) (take k ms) = []"
    using app by (auto simp: filter_empty_conv dest: in_set_takeD)
  moreover have "m \<notin> set (take k ms)" if "m \<in> set (drop k ms)" for m
    using rest_later [OF assms(1) _ that, of m] by auto
  then have "filter (\<lambda>m. map_of done (MVersion m) = None) (drop k ms) = drop k ms"
    using app by (auto simp: filter_id_conv dest: in_set_dropD)
  ultimately show ?thesis by (metis append_Nil append_take_drop_id filter_append)
qed

lemma drifted_None: "drifted done ms = None \<longleftrightarrow>
    (\<forall>m\<in>set ms. \<forall>a. map_of done (MVersion m) = Some a \<longrightarrow> AChecksum a = MChecksum m)"
  by (induction ms) (auto split: option.splits)

lemma RequireUpToDate_iff:
  assumes "Load fsys = Inr ms" "unique_keys (loadApplied db)"
  shows "RequireUpToDate None fsys db = Inr () \<longleftrightarrow>
    schema_migrations db \<noteq> None \<and> recorded (loadApplied db) = bodies ms"
proof (cases "schema_migrations db")
  case (Some t)
  have la: "loadApplied db = t" using Some by (simp add: loadApplied_def)
  have u: "unique_keys t" using assms(2) la by simp
  have "recorded t = bodies ms \<longleftrightarrow> drifted t ms = None \<and> (\<forall>m\<in>set ms. map_of t (MVersion m) \<noteq> None) \<and>
      (\<forall>(v, a)\<in>set t. v \<in> MVersion ` set ms)" (is "?L \<longleftrightarrow> ?R")
  proof
    assume l: ?L
    have "map_of t (MVersion m) \<noteq> None" if "m \<in> set ms" for m
      using that map_of_recorded [of t] unfolding l bodies_versions by blast
    moreover have "AChecksum a = MChecksum m" if "m \<in> set ms" "map_of t (MVersion m) = Some a" for m a
    proof -
      have "(MVersion m, MChecksum m) \<in> recorded t" using that(1) unfolding l bodies_def by blast
      then show ?thesis using recorded_iff [OF u] that(2) by auto
    qed
    moreover have "fst ` set t = MVersion ` set ms" using recorded_versions [of t] l bodies_versions by metis
    then have "v \<in> MVersion ` set ms" if "(v, a) \<in> set t" for v a using that by force
    ultimately show ?R unfolding drifted_None by blast
  next
    assume r: ?R
    show ?L
    proof (intro set_eqI iffI; clarify)
      fix v c assume "(v, c) \<in> recorded t"
      then obtain a where a: "map_of t v = Some a" "AChecksum a = c" using recorded_iff [OF u] by blast
      then obtain m where "m \<in> set ms" "MVersion m = v" using r map_of_SomeD [OF a(1)] by fastforce
      then show "(v, c) \<in> bodies ms" using r a unfolding drifted_None bodies_def by force
    next
      fix v c assume "(v, c) \<in> bodies ms"
      then obtain m where m: "m \<in> set ms" "MVersion m = v" "MChecksum m = c" by (auto simp: bodies_def)
      then obtain a where "map_of t v = Some a" using r by blast
      with m r show "(v, c) \<in> recorded t" using recorded_iff [OF u] unfolding drifted_None by auto
    qed
  qed
  moreover have "RequireUpToDate None fsys db = Inr () \<longleftrightarrow> drifted t ms = None \<and>
      (\<forall>m\<in>set ms. map_of t (MVersion m) \<noteq> None) \<and> (\<forall>(v, a)\<in>set t. v \<in> MVersion ` set ms)"
    unfolding RequireUpToDate_def using assms(1) Some
    by (auto simp: Let_def filter_empty_conv on_disk_def list_ex_iff split: option.splits)
      (erule bexI [rotated], auto)
  ultimately show ?thesis using Some la by simp
qed (use assms(1) in \<open>simp add: RequireUpToDate_def\<close>)

lemma Run_cases:
  assumes "Run eng se fsys db = (db', n, errs)" "Load fsys = Inr ms"
  obtains (stopped) "n = 0" "db_rest db' = db_rest db" "loadApplied db' = loadApplied db" "errs \<noteq> []"
        "schema_migrations db' = schema_migrations db \<or> schema_migrations db' = Some (loadApplied db)"
    | (ran) err where "migrate_verify ms (loadApplied db) = None"
        "apply_pending eng (se_now se) (loadApplied db) ms (create_table db) 0 = (db', n, err)"
        "errs = [] \<Longrightarrow> err = None"
proof -
  have la: "loadApplied (create_table db) = loadApplied db" by (simp add: create_table_def loadApplied_def)
  show ?thesis
  proof (cases "se_lock_timeout se = None \<and> acquireAdvisoryLock (se_polls se) = None \<and> se_create_table se = None \<and>
      se_load_applied se = None \<and> migrate_verify ms (loadApplied db) = None")
    case True
    obtain d k err where ap: "apply_pending eng (se_now se) (loadApplied db) ms (create_table db) 0 = (d, k, err)"
      by (cases "apply_pending eng (se_now se) (loadApplied db) ms (create_table db) 0")
    then have "db' = d" "n = k" "errs = List.map_filter id [err, releaseAdvisoryLock (se_release se)]"
      using assms True la by (simp_all add: Run_def locked_run_def)
    then show ?thesis using ran ap True by (auto simp: map_filter_simps split: option.splits)
  next
    case False
    then have "n = 0 \<and> errs \<noteq> [] \<and> (db' = db \<or> db' = create_table db)"
      using assms la by (auto simp: Run_def locked_run_def map_filter_simps Let_def split: option.splits)
    then show ?thesis using stopped la by (auto simp: create_table_def)
  qed
qed

lemma Run_history:
  assumes "Run eng se fsys db = (db', n, errs)" "Load fsys = Inr ms" "unique_keys (loadApplied db)"
    and k: "k \<le> length ms" "recorded (loadApplied db) = bodies (take k ms)"
  shows "unique_keys (loadApplied db')" and "k + n \<le> length ms"
    and "loadApplied db' = loadApplied db @ map (history_row (se_now se)) (take n (drop k ms))"
    and "recorded (loadApplied db') = bodies (take (k + n) ms)"
    and "\<exists>d. foldE (exec_body eng) (take n (drop k ms)) (db_rest db) = Inr d \<and>
      (db_rest db' = d \<or> (k + n < length ms \<and> MNoTx (ms ! (k + n)) \<and> db_rest db' = fst (exec_bare eng (MSQL (ms ! (k + n))) d)))"
    and "errs = [] \<Longrightarrow> k + n = length ms \<and> RequireUpToDate None fsys db' = Inr ()"
proof -
  note ord = Load_ordered [OF assms(2)]
  have "k + n \<le> length ms \<and> loadApplied db' = loadApplied db @ map (history_row (se_now se)) (take n (drop k ms)) \<and>
    (\<exists>d. foldE (exec_body eng) (take n (drop k ms)) (db_rest db) = Inr d \<and>
      (db_rest db' = d \<or> (k + n < length ms \<and> MNoTx (ms ! (k + n)) \<and> db_rest db' = fst (exec_bare eng (MSQL (ms ! (k + n))) d)))) \<and>
    (errs = [] \<longrightarrow> k + n = length ms \<and> schema_migrations db' \<noteq> None)"
    using assms(1,2)
  proof (cases rule: Run_cases)
    case stopped
    then show ?thesis using k by simp
  next
    case (ran err)
    have "apply_pending eng (se_now se) (loadApplied db) (drop k ms) (create_table db) 0 = (db', n, err)"
      using ran(2) apply_pending_skip unapplied_drop [OF ord k(2)] by metis
    moreover have "\<forall>m\<in>set (drop k ms). map_of (loadApplied db) (MVersion m) = None"
      using unapplied_drop [OF ord k(2), symmetric] by simp
    ultimately obtain j d where j: "j \<le> length (drop k ms)" "n = 0 + j" "err = None \<longleftrightarrow> j = length (drop k ms)"
        "foldE (exec_body eng) (take j (drop k ms)) (db_rest (create_table db)) = Inr d"
        "schema_migrations db' = add_history (se_now se) (take j (drop k ms)) (schema_migrations (create_table db))"
        "db_rest db' = d \<or> (j < length (drop k ms) \<and> MNoTx (drop k ms ! j) \<and>
          db_rest db' = fst (exec_bare eng (MSQL (drop k ms ! j)) d))"
      using apply_pending_runs by blast
    have sm: "schema_migrations db' = Some (loadApplied db @ map (history_row (se_now se)) (take j (drop k ms)))"
      using j(5) by (simp add: create_table_def)
    then show ?thesis using j k ran(3) by (auto simp: loadApplied_def create_table_def)
  qed
  then have main: "k + n \<le> length ms" "loadApplied db' = loadApplied db @ map (history_row (se_now se)) (take n (drop k ms))"
    "\<exists>d. foldE (exec_body eng) (take n (drop k ms)) (db_rest db) = Inr d \<and>
      (db_rest db' = d \<or> (k + n < length ms \<and> MNoTx (ms ! (k + n)) \<and> db_rest db' = fst (exec_bare eng (MSQL (ms ! (k + n))) d)))"
    "errs = [] \<Longrightarrow> k + n = length ms \<and> schema_migrations db' \<noteq> None" by blast+
  show "k + n \<le> length ms" "loadApplied db' = loadApplied db @ map (history_row (se_now se)) (take n (drop k ms))"
    "\<exists>d. foldE (exec_body eng) (take n (drop k ms)) (db_rest db) = Inr d \<and>
      (db_rest db' = d \<or> (k + n < length ms \<and> MNoTx (ms ! (k + n)) \<and> db_rest db' = fst (exec_bare eng (MSQL (ms ! (k + n))) d)))"
    using main(1-3) by simp_all
  show rec: "recorded (loadApplied db') = bodies (take (k + n) ms)"
    unfolding main(2) recorded_append k(2) bodies_append [symmetric] by (simp add: take_add)
  have ver: "distinct (map MVersion (take n (drop k ms)))"
    using strict_sorted_iff [THEN iffD1, OF ord] by (metis distinct_drop distinct_take drop_map take_map)
  have new: "MVersion m \<notin> fst ` set (loadApplied db)" if m: "m \<in> set (take n (drop k ms))" for m
  proof
    assume "MVersion m \<in> fst ` set (loadApplied db)"
    then have "MVersion m \<in> MVersion ` set (take k ms)"
      using recorded_versions [of "loadApplied db"] k(2) bodies_versions [of "take k ms"] by metis
    then obtain m' where m': "m' \<in> set (take k ms)" "MVersion m' = MVersion m" by auto
    then show False using rest_later [OF ord m'(1), of m] m by (auto dest: in_set_takeD)
  qed
  have "keys (loadApplied db') = keys (loadApplied db) @ map MVersion (take n (drop k ms))"
    unfolding main(2) by (simp add: history_row_def comp_def)
  moreover have "fst ` set (loadApplied db) \<inter> MVersion ` set (take n (drop k ms)) = {}"
    unfolding disjoint_iff using new by (metis imageE)
  ultimately show u: "unique_keys (loadApplied db')" using assms(3) ver by (simp add: Int_commute)
  show "errs = [] \<Longrightarrow> k + n = length ms \<and> RequireUpToDate None fsys db' = Inr ()"
    using main(4) rec RequireUpToDate_iff [OF assms(2) u] by auto
qed

text \<open>A session in which nothing but the run itself can fail.\<close>

definition clean_session :: "session \<Rightarrow> bool" where
  "clean_session se \<longleftrightarrow>
     se_lock_timeout se = None \<and> acquireAdvisoryLock (se_polls se) = None \<and> se_create_table se = None \<and>
     se_load_applied se = None \<and> releaseAdvisoryLock (se_release se) = None"

lemma Run_again:
  assumes "Load fsys = Inr ms" "unique_keys (loadApplied db)" "RequireUpToDate None fsys db = Inr ()" "clean_session se"
  shows "Run eng se fsys db = (db, 0, [])"
proof -
  have r: "recorded (loadApplied db) = bodies ms" "schema_migrations db \<noteq> None"
    using RequireUpToDate_iff [OF assms(1,2)] assms(3) by simp_all
  then have "recorded (loadApplied db) = bodies (take (length ms) ms)" by simp
  then have c: "consistent ms (loadApplied db)" unfolding consistent_def by blast
  have ct: "create_table db = db" using r(2) by (auto simp: create_table_def loadApplied_def)
  have "apply_pending eng now (loadApplied db) ms db 0 = (db, 0, None)" for now
    using apply_pending_skip [of eng now "loadApplied db" ms db 0]
      unapplied_drop [OF Load_ordered [OF assms(1)], of "loadApplied db" "length ms"] r(1) by simp
  then show ?thesis using assms(1,4) Load_verify [OF assms(1,2)] c ct
    by (simp add: Run_def clean_session_def locked_run_def map_filter_simps)
qed

end
