(* ===== verification/Cli_Props.thy ===== *)
theory Cli_Props
  imports Cli_Verify Api_Props Migrate_History
begin

text \<open>
  The other commands of \<open>src/cmd/giro\<close>: what resuming above a recorded tip does, that no command but \<open>migrate up\<close> does
  anything to the book that is not a run of the store's own operations, and when \<open>serve\<close> listens.
\<close>

subsection \<open>Recovering from the command line\<close>

lemma ParseTip_range: "ParseTip s = Inr tip \<Longrightarrow> - (2 ^ 63) \<le> TipLogID tip \<and> TipLogID tip < 2 ^ 63"
  by (auto simp: ParseTip_def ParseInt64_def Let_def split: list.splits option.splits if_splits)

text \<open>What resuming did, when it succeeded.\<close>

lemma recoverResume_spec:
  assumes run: "recoverResume out w args = (w', lns, None)" and reach: "reachable (book w)"
  shows "\<exists>nt arg tip r r'. resume_args args [] [] = (nt, [arg]) \<and> ParseTip arg = Inr tip \<and>
    map_of (ledgers (book w)) (TipLedger tip) = Some r \<and> map_of (ledgers (book w')) (TipLedger tip) = Some r' \<and>
    w' = with_book (book w') w \<and> giro_step (book w) (book w') \<and>
    TipLogID tip \<le> last_log_id r' \<and> TipLogID tip \<le> last_tx_id r' \<and>
    (if TipLogID tip \<le> last_log_id r \<and> TipLogID tip \<le> last_tx_id r
     then book w' = book w \<and> lns = [NothingToDo (TipLedger tip) (last_log_id r) (TipLogID tip)]
     else last_log_id r' = max (last_log_id r) (TipLogID tip) + 1 \<and> last_tx_id r' = max (last_tx_id r) (TipLogID tip) \<and>
       (\<exists>row. ledger_logs (book w') (TipLedger tip) = ledger_logs (book w) (TipLedger tip) @ [(last_log_id r', row)] \<and>
          lg_data row = RecoveryData \<lparr>ResumedFrom = last_log_id r, SkippedThrough = TipLogID tip, Note = nt\<rparr>) \<and>
       (\<exists>tip'. ChainTip (New (TipLedger tip)) (book w') = Inr tip' \<and>
          lns = [ResumedLine (TipLedger tip) (last_log_id r') (last_log_id r + 1) (TipLogID tip), NewTipLine (Tip_String tip')]))"
proof -
  from run obtain nt arg tip where args: "resume_args args [] [] = (nt, [arg])" and tip: "ParseTip arg = Inr tip"
    by (auto simp: recoverResume_def split: prod.splits list.splits sum.splits)
  define s where "s = New (TipLedger tip)"
  define wm where "wm = \<lparr>TipLedger = TipLedger tip, TipTxID = TipLogID tip, TipLogID = TipLogID tip, TipHash = []\<rparr>"
  have l: "ledger s = TipLedger tip" by (simp add: s_def New_def)
  from run obtain before d after where t: "ChainTip s (book w) = Inr before"
    and rec: "RecordRecovery s (clock out) (book w) wm nt = Inr d" and t': "ChainTip s d = Inr after" and w': "w' = with_book d w"
    and lns: "lns = (if TipLogID after = TipLogID before
                     then [NothingToDo (TipLedger tip) (TipLogID before) (TipLogID tip)]
                     else [ResumedLine (TipLedger tip) (TipLogID after) (TipLogID before + 1) (TipLogID tip), NewTipLine (Tip_String after)])"
    unfolding recoverResume_def args s_def wm_def by (auto simp: tip Let_def split: if_splits sum.splits)
  obtain r where r: "map_of (ledgers (book w)) (TipLedger tip) = Some r" "TipLogID before = last_log_id r"
    using t by (auto simp: ChainTip_def l split: option.splits)
  obtain r' where r': "map_of (ledgers d) (TipLedger tip) = Some r'" "TipLogID after = last_log_id r'"
    using t' by (auto simp: ChainTip_def l split: option.splits)
  have wid: "TipLogID wm = TipLogID tip" "TipTxID wm = TipLogID tip" by (simp_all add: wm_def)
  have range: "TipLogID wm < 2 ^ 63" using ParseTip_range [OF tip] wid by simp
  have bk: "book w' = d" by (simp add: w' with_book_def book_def)
  have step: "giro_step (book w) d" by (rule giro_step.recover [OF range rec])
  have inv: "book_ok (book w)" using reachable_sys_ok [OF reach] by (simp add: sys_ok_def)
  have w2: "w' = with_book (book w') w" using w' bk by simp
  show ?thesis
  proof (cases "TipLogID tip \<le> last_log_id r \<and> TipLogID tip \<le> last_tx_id r")
    case True
    then have "d = book w" using RecordRecovery_noop [of "book w" s r wm] rec r l wid by simp
    then show ?thesis using args tip r r' True step w2 lns bk by (auto simp: with_book_def)
  next
    case False
    have rs: "map_of (ledgers (book w)) (ledger s) = Some r" using r l by simp
    have beh: "\<not> (TipLogID wm \<le> last_log_id r \<and> TipTxID wm \<le> last_tx_id r)" using False wid by simp
    from RecordRecovery_entry [OF rec rs beh inv range] obtain row q where
      el: "entry_logged (ledger s) (book w) d r q (max (last_log_id r) (TipLogID tip) + 1) row"
      and q: "last_tx_id q = max (last_tx_id r) (TipLogID tip)" "last_log_id q = max (last_log_id r) (TipLogID tip) + 1"
      and row: "lg_data row = RecoveryData \<lparr>ResumedFrom = last_log_id r, SkippedThrough = TipLogID tip, Note = nt\<rparr>"
      unfolding wid by blast
    have app: "log_appended (ledger s) (book w) d r q (max (last_log_id r) (TipLogID tip) + 1) row"
      using el by (simp add: entry_logged_def)
    then have "q = r'" using r' l by (auto simp: log_appended_def)
    have lg: "logs d = logs (book w) @ [((ledger s, last_log_id r'), row)]" and "last_log_id r < last_log_id r'"
      using app q \<open>q = r'\<close> by (auto simp: log_appended_def)
    have "j < last_log_id r'" if "(ledger s, j) \<in> set (keys (logs (book w)))" for j
      using inv rs that \<open>last_log_id r < last_log_id r'\<close> unfolding book_ok_def log_ok_def log_ids_ok_def by fastforce
    with ledger_logs_append [OF lg, of "ledger s"]
    have "ledger_logs d (TipLedger tip) = ledger_logs (book w) (TipLedger tip) @ [(last_log_id r', row)]" by (simp add: l)
    then show ?thesis using args tip r r' False step w2 lns bk q row \<open>q = r'\<close> t' \<open>last_log_id r < last_log_id r'\<close>
      by (auto simp: s_def)
  qed
qed

subsection \<open>Every command is a run of the store\<close>

lemma with_book_self [simp]: "with_book (book w) w = w"
  by (simp add: with_book_def book_def evidence_def)

lemma with_book_simps [simp]:
  "book (with_book d w) = d" "evidence (with_book d w) = evidence w" "disk (with_book d w) = disk w"
  "schema_migrations (base (with_book d w)) = schema_migrations (base w)" "with_book d1 (with_book d w) = with_book d1 w"
  by (simp_all add: with_book_def book_def evidence_def)

lemma with_rest_simps [simp]:
  "book (with_rest st w) = fst st" "disk (with_rest st w) = disk w"
  "schema_migrations (base (with_rest st w)) = schema_migrations (base w)"
  by (simp_all add: with_rest_def book_def)

text \<open>What a command may do: steps of the store on the book, and nothing to the schema and the directory.\<close>

definition safe_outcome :: "world \<Rightarrow> outcome \<Rightarrow> bool" where
  "safe_outcome w r \<longleftrightarrow>
     (case r of (w', lns, e) \<Rightarrow>
        giro_step\<^sup>*\<^sup>* (book w) (book w') \<and> schema_migrations (base w') = schema_migrations (base w) \<and>
        (case e of Some (Usage c u) \<Rightarrow> w' = w | _ \<Rightarrow> True))"

lemma safe_still [simp]: "safe_outcome w (w, lns, e)"
  by (simp add: safe_outcome_def split: option.splits cli_error.splits)

lemma safe_step: "giro_step (book w) d \<Longrightarrow> (\<forall>c u. e \<noteq> Some (Usage c u)) \<Longrightarrow> safe_outcome w (with_book d w, lns, e)"
  by (auto simp: safe_outcome_def split: option.splits cli_error.splits)

lemma setBound_step:
  "giro_step (book w) (book (fst (setBound s w a x sd allow))) \<or> fst (setBound s w a x sd allow) = w"
  by (cases sd) (auto simp: setBound_def split: sum.splits intro: giro_step.allow_negative giro_step.allow_positive)

lemma account_run_spec:
  assumes "account_run out s w verb a x = (w', lns, e)"
  shows "w' = with_book (book w') w \<and> (book w' = book w \<or> giro_step (book w) (book w')) \<and> (e \<noteq> None \<longrightarrow> w' = w) \<and>
    (\<forall>c u. e \<noteq> Some (Usage c u))"
proof (cases verb)
  case Show
  then show ?thesis using assms by (auto simp: account_run_def showAccount_def split: sum.splits)
next
  case (Bound sd allow)
  then show ?thesis using assms
    by (cases sd) (auto simp: account_run_def setBound_def split: sum.splits intro: giro_step.allow_negative giro_step.allow_positive)
next
  case CloseIt
  then show ?thesis using assms by (auto simp: account_run_def split: sum.splits intro: giro_step.close)
next
  case ReopenIt
  then show ?thesis using assms by (auto simp: account_run_def split: sum.splits intro: giro_step.reopen)
qed

text \<open>An account command is refused, changing nothing, unless it names a ledger that exists and, for a bound, an asset the
  ledger handles.\<close>

lemma accountCommand_cases:
  assumes "accountCommand out w args = (w', lns, e)"
  shows "(w' = w \<and> lns = [] \<and> e \<noteq> None) \<or>
    (\<exists>v rest verb x. args = v # rest \<and> verb_of v = Some verb \<and> rest ! 0 \<in> set (Ledgers (book w)) \<and> Address_Valid (rest ! 1) \<and>
       (wants_asset verb \<longrightarrow> x = rest ! 2 \<and> x \<in> set (Assets (New (rest ! 0)) (book w))) \<and>
       account_run out (New (rest ! 0)) w verb (rest ! 1) x = (w', lns, e))"
proof (cases args)
  case (Cons v rest)
  show ?thesis
  proof (cases "verb_of v")
    case (Some verb)
    then show ?thesis using assms Cons
      by (cases "wants_asset verb") (auto simp: accountCommand_def Let_def split: if_splits option.splits)
  qed (use assms Cons in \<open>auto simp: accountCommand_def\<close>)
qed (use assms in \<open>auto simp: accountCommand_def\<close>)

lemma safe_account: "safe_outcome w (accountCommand out w args)"
proof -
  obtain w' lns e where r: "accountCommand out w args = (w', lns, e)" by (cases "accountCommand out w args")
  from accountCommand_cases [OF r] show ?thesis
  proof
    assume "w' = w \<and> lns = [] \<and> e \<noteq> None"
    then show ?thesis by (simp add: r)
  next
    assume "\<exists>v rest verb x. args = v # rest \<and> verb_of v = Some verb \<and> rest ! 0 \<in> set (Ledgers (book w)) \<and> Address_Valid (rest ! 1) \<and>
       (wants_asset verb \<longrightarrow> x = rest ! 2 \<and> x \<in> set (Assets (New (rest ! 0)) (book w))) \<and>
       account_run out (New (rest ! 0)) w verb (rest ! 1) x = (w', lns, e)"
    then obtain s verb a x where "account_run out s w verb a x = (w', lns, e)" by blast
    note spec = account_run_spec [OF this]
    then have "schema_migrations (base w') = schema_migrations (base w)" by (metis with_book_simps(4))
    then show ?thesis using spec by (auto simp: r safe_outcome_def split: option.splits cli_error.splits)
  qed
qed

lemma safe_recover: "safe_outcome w (recoverCommand out w args)"
proof -
  have tip: "safe_outcome w (recoverTip w a)" for a
    by (cases "print_tips (book w) (if a = [] then Ledgers (book w) else a)") (simp add: recoverTip_def Let_def)
  have check: "safe_outcome w (recoverCheck w a)" for a
    by (auto simp: recoverCheck_def split: sum.splits)
  have resume: "safe_outcome w (recoverResume out w a)" for a
  proof -
    obtain nt ts where ra: "resume_args a [] [] = (nt, ts)" by fastforce
    show ?thesis
    proof (cases "\<exists>arg. ts = [arg]")
      case False
      then show ?thesis by (cases ts; cases "tl ts") (auto simp: recoverResume_def ra)
    next
      case True
      then obtain arg where ts: "ts = [arg]" by blast
      show ?thesis
      proof (cases "ParseTip arg")
        case (Inr tip)
        have st: "giro_step (book w) d"
          if "RecordRecovery s e (book w) \<lparr>TipLedger = TipLedger tip, TipTxID = TipLogID tip, TipLogID = TipLogID tip, TipHash = []\<rparr> nt = Inr d"
          for s e d
          using giro_step.recover [OF _ that] ParseTip_range [OF Inr] by simp
        show ?thesis
          by (auto simp: recoverResume_def ra ts Inr Let_def split: sum.splits intro!: safe_step st)
      qed (simp add: recoverResume_def ra ts)
    qed
  qed
  show ?thesis
    by (cases args) (auto simp: recoverCommand_def tip check resume split: option.splits)
qed

lemma verify_one_step: "verify_one out f l st = (st', results) \<Longrightarrow> giro_step (fst st) (fst st')"
proof -
  have "giro_step d d'" if "Verify tx st tk s e vo d = (d', x)" for tx st tk s e vo d d' x
    by (rule giro_step.verify [of _ tx st tk s e vo]) (simp add: that)
  then show "verify_one out f l st = (st', results) \<Longrightarrow> giro_step (fst st) (fst st')"
    by (cases st) (fastforce simp: verify_one_def split: prod.splits)
qed

lemma verify_all_steps: "verify_all out f ls st n = (st', lns, r) \<Longrightarrow> giro_step\<^sup>*\<^sup>* (fst st) (fst st')"
proof (induction ls arbitrary: st n lns)
  case (Cons l ls)
  show ?case
  proof (cases "Fx_Verify (fst st) l DefaultTolerance")
    case (Inr x)
    obtain st1 results where one: "verify_one out f l st = (st1, results)" by fastforce
    obtain lns1 where rest: "verify_all out f ls st1 (n + reported_findings results) = (st', lns1, r)"
      using Cons.prems Inr one by (auto split: prod.splits)
    show ?thesis using verify_one_step [OF one] Cons.IH [OF rest] by (rule converse_rtranclp_into_rtranclp)
  qed (use Cons.prems in simp)
qed simp

lemma safe_verify: "safe_outcome w (verifyCommand out w args)"
proof (cases "parse_flags (ParseDuration out) args verify_defaults")
  case (Some p)
  obtain f names where p: "p = (f, names)" by (cases p)
  have last: "safe_outcome w (reportLastRun out f w ns)" for ns by (simp add: reportLastRun_def Let_def)
  have run: "safe_outcome w (case verify_all out f ns (db_rest (base w)) 0 of
       (st, ls, r) \<Rightarrow> (with_rest st w, ls, (case r of Inl e \<Rightarrow> Some (Crashed e)
          | Inr findings \<Rightarrow> if findings > 0 then Some (ChecksFound findings) else None)))" for ns
  proof -
    obtain st ls r where v: "verify_all out f ns (db_rest (base w)) 0 = (st, ls, r)" by (metis prod_cases3)
    show ?thesis using verify_all_steps [OF v]
      by (cases r) (auto simp: v safe_outcome_def book_def with_rest_def)
  qed
  show ?thesis
    unfolding verifyCommand_def Some p
    using last run by (simp add: Let_def split: option.split)
qed (simp add: verifyCommand_def)

lemma serve_requests_steps: "serve_requests sv rs d = (d', ls) \<Longrightarrow> giro_step\<^sup>*\<^sup>* d d'"
proof (induction sv rs d arbitrary: ls rule: serve_requests.induct)
  case (2 sv envs r rs d)
  obtain d1 resp where s: "ServeHTTP sv envs d r = (d1, resp)" by fastforce
  obtain ls' where r: "serve_requests sv rs d1 = (d', ls')" using 2(2) s by (auto split: prod.splits)
  have "d1 = d \<or> giro_step d d1" using ServeHTTP_served [of d r sv envs] s by (auto simp: served_def)
  then show ?case using 2(1) [OF s [symmetric] r] by (auto intro: converse_rtranclp_into_rtranclp)
qed simp

lemma serve_args_usage: "serve_args args ps = Inl e \<Longrightarrow> \<exists>c. e = Usage c ServeUsage"
  by (induction args arbitrary: ps) (auto split: if_splits)

lemma checkSchema_error: "checkSchema out w = (ls, Some e) \<Longrightarrow> \<exists>m. e = SchemaCheck m"
  by (auto simp: checkSchema_def split: sum.splits migrate_error.splits)

lemma safe_serve: "safe_outcome w (serveCommand out w args)"
proof (cases "serve_args args []")
  case (Inr ps)
  obtain ls e where c: "checkSchema out w = (ls, e)" by fastforce
  obtain d an where s: "serve_requests (NewServer (server0 out) (serverOptions args)) (requests out) (book w) = (d, an)" by fastforce
  show ?thesis using serve_requests_steps [OF s]
    by (auto simp: serveCommand_def Inr c s Let_def safe_outcome_def split: option.splits cli_error.splits)
qed (auto simp: serveCommand_def)

lemma safe_migrate:
  assumes "\<And>rest. args \<noteq> ''up'' # rest"
  shows "safe_outcome w (migrateCommand out w args)"
proof (cases args)
  case (Cons v rest)
  have "v \<noteq> ''up''" using assms Cons by blast
  then show ?thesis unfolding migrateCommand_def Cons
    by (auto simp: withConn_def migrateStatus_def migrateNew_def safe_outcome_def book_def split: option.splits sum.splits prod.splits cli_error.splits)
qed (simp add: migrateCommand_def)

lemma safe_dispatch:
  assumes "\<And>rest. args \<noteq> ''migrate'' # ''up'' # rest"
  shows "safe_outcome w (dispatch out w args)"
proof (cases args)
  case (Cons v rest)
  have "v = ''migrate'' \<Longrightarrow> safe_outcome w (migrateCommand out w rest)" using assms Cons by (intro safe_migrate) auto
  then show ?thesis unfolding dispatch_def Cons
    using safe_account [of w out rest] safe_recover [of w out rest] safe_verify [of w out rest] safe_serve [of w out rest] by simp
qed (simp add: dispatch_def)

subsection \<open>What giro serve insists on\<close>

text \<open>Every migration compiled in was applied as it is; what else the database has been through does not matter.\<close>

definition schema_applied :: "Migration list \<Rightarrow> world \<Rightarrow> bool" where
  "schema_applied ms w \<longleftrightarrow>
     schema_migrations (base w) \<noteq> None \<and>
     (\<forall>m\<in>set ms. \<exists>a. map_of (loadApplied (base w)) (MVersion m) = Some a \<and> AChecksum a = MChecksum m)"

lemma checkSchema_iff:
  assumes "Load (embedded out) = Inr ms" and "migrate_io out = None"
  shows "snd (checkSchema out w) = None \<longleftrightarrow> schema_applied ms w"
proof (cases "schema_migrations (base w)")
  case None
  then show ?thesis using assms by (simp add: checkSchema_def RequireUpToDate_def schema_applied_def)
next
  case (Some done')
  then have la: "loadApplied (base w) = done'" by (simp add: loadApplied_def)
  show ?thesis
  proof (cases "drifted done' ms")
    case (Some e)
    then have "\<exists>m\<in>set ms. \<exists>a. map_of done' (MVersion m) = Some a \<and> AChecksum a \<noteq> MChecksum m"
      using drifted_None [of done' ms] by auto
    moreover have "\<exists>f. e = ErrChecksumDrift f" using Some by (induction ms) (auto split: option.splits if_splits)
    ultimately show ?thesis using assms \<open>schema_migrations (base w) = Some done'\<close> Some la
      by (fastforce simp: checkSchema_def RequireUpToDate_def schema_applied_def)
  next
    case None
    have "snd (checkSchema out w) = None \<longleftrightarrow> (\<forall>m\<in>set ms. map_of done' (MVersion m) \<noteq> None)"
      by (cases "filter (\<lambda>m. map_of done' (MVersion m) = None) ms = []")
        (auto simp: checkSchema_def RequireUpToDate_def assms \<open>schema_migrations (base w) = Some done'\<close> None Let_def
          filter_empty_conv)
    also have "\<dots> \<longleftrightarrow> schema_applied ms w"
      using None drifted_None [of done' ms] by (auto simp: schema_applied_def \<open>schema_migrations (base w) = Some done'\<close> la)
    finally show ?thesis .
  qed
qed

lemma serve_listens:
  assumes "serveCommand out w args = (w', lns, e)"
  shows "(\<exists>a. ListeningLine a \<in> set lns) \<longleftrightarrow>
      (\<exists>ps. serve_args args [] = Inr ps \<and> length ps \<le> 1) \<and> connect out = None \<and> snd (checkSchema out w) = None"
    and "(\<exists>a. ListeningLine a \<in> set lns) \<or> w' = w"
proof -
  have quiet: "ListeningLine a \<notin> set (fst (checkSchema out w))" for a
    by (auto simp: checkSchema_def split: sum.splits migrate_error.splits)
  have "((\<exists>a. ListeningLine a \<in> set lns) \<longleftrightarrow>
      (\<exists>ps. serve_args args [] = Inr ps \<and> length ps \<le> 1) \<and> connect out = None \<and> snd (checkSchema out w) = None) \<and>
    ((\<exists>a. ListeningLine a \<in> set lns) \<or> w' = w)"
  proof (cases "serve_args args []")
    case (Inr ps)
    obtain ls ce where c: "checkSchema out w = (ls, ce)" by fastforce
    obtain d an where s: "serve_requests (NewServer (server0 out) (serverOptions args)) (requests out) (book w) = (d, an)" by fastforce
    obtain co where co: "connect out = co" by simp
    show ?thesis using assms quiet unfolding c co
      by (cases ce; cases "length ps > 1"; cases co; cases "listen_err out")
        (auto simp: serveCommand_def Inr c co s Let_def)
  qed (use assms in \<open>auto simp: serveCommand_def\<close>)
  then show "(\<exists>a. ListeningLine a \<in> set lns) \<longleftrightarrow>
      (\<exists>ps. serve_args args [] = Inr ps \<and> length ps \<le> 1) \<and> connect out = None \<and> snd (checkSchema out w) = None"
    "(\<exists>a. ListeningLine a \<in> set lns) \<or> w' = w" by blast+
qed

text \<open>The server asks for keys unless the flag says not to.\<close>

lemma serve_keys: "allowUnkeyed (NewServer sv (serverOptions args)) \<longleftrightarrow> ''--allow-unkeyed-writes'' \<in> set args"
proof -
  have "fold (\<lambda>f. f) (map (\<lambda>a. AllowUnkeyedWrites) xs) sv' = (if xs = [] then sv' else sv'\<lparr>allowUnkeyed := True\<rparr>)"
    for xs :: "string list" and sv'
    by (induction xs arbitrary: sv') (auto simp: AllowUnkeyedWrites_def)
  then show ?thesis by (auto simp: NewServer_def serverOptions_def filter_empty_conv)
qed

lemma migrateUp_applies:
  assumes "Load (embedded out) = Inr ms" "unique_keys (loadApplied (base w))"
    and up: "migrateUp out w = (w', lns, None)"
  shows "schema_applied ms w'"
proof -
  obtain b n errs where run: "Run (engine out) (lock_session out) (embedded out) (base w) = (b, n, errs)" by (metis prod_cases3)
  then have e: "errs = []" and w': "w' = w\<lparr>base := b\<rparr>" using up by (auto simp: migrateUp_def split: if_splits)
  have "migrate_verify ms (loadApplied (base w)) = None"
    using run assms(1) e by (cases rule: Run_cases) auto
  then obtain k where k: "k \<le> length ms" "recorded (loadApplied (base w)) = bodies (take k ms)"
    using Load_verify [OF assms(1,2)] unfolding consistent_def by blast
  have "RequireUpToDate None (embedded out) b = Inr ()" using Run_history [OF run assms(1,2) k] e by blast
  then have "snd (checkSchema (out\<lparr>migrate_io := None\<rparr>) w') = None" by (simp add: checkSchema_def w')
  then show ?thesis using checkSchema_iff [of "out\<lparr>migrate_io := None\<rparr>" ms w'] assms(1) by simp
qed

subsection \<open>What the commands rest on\<close>

lemma serve_args_ok:
  "serve_args args ps = Inr qs \<longleftrightarrow>
     (\<forall>a\<in>set args. a = ''--allow-unkeyed-writes'' \<or> take 1 a \<noteq> ''-'') \<and>
     qs = ps @ filter (\<lambda>a. take 1 a \<noteq> ''-'') args"
proof (induction args arbitrary: ps)
  case (Cons a args)
  have "(a \<noteq> [] \<and> hd a = CHR ''-'') \<longleftrightarrow> take 1 a = ''-''" by (cases a) auto
  then show ?case using Cons.IH by auto
qed auto

lemma account_moves_nothing:
  assumes run: "accountCommand out w args = (w', lns, e)" and "book_ok (book w)"
  shows "same_volumes (book w) (book w') \<or> w' = w"
proof -
  have wk: "well_keyed (book w)" using assms(2) by (simp add: book_ok_def)
  from accountCommand_cases [OF run] have "w' = w \<or> (\<exists>s verb a x. account_run out s w verb a x = (w', lns, e))"
    by blast
  then show ?thesis
  proof (elim disjE exE)
    fix s verb a x assume r: "account_run out s w verb a x = (w', lns, e)"
    show ?thesis
    proof (cases verb)
      case Show
      then show ?thesis using r by (auto simp: account_run_def showAccount_def split: sum.splits)
    next
      case (Bound sd allow)
      then show ?thesis using r SetAllow_same_volumes [OF wk]
        by (cases sd) (auto simp: account_run_def setBound_def split: sum.splits)
    next
      case CloseIt
      then show ?thesis using r CloseAccount_Inr(1) [OF _ wk] by (auto simp: account_run_def split: sum.splits)
    next
      case ReopenIt
      then show ?thesis using r ReopenAccount_Inr(1) [OF _ wk] by (auto simp: account_run_def split: sum.splits)
    qed
  qed simp
qed

text \<open>Resuming a second time finds nothing to do.\<close>

lemma recoverResume_again:
  assumes "resume_args args [] [] = (nt, [arg])" "ParseTip arg = Inr tip"
    and r: "map_of (ledgers (book w)) (TipLedger tip) = Some r" "TipLogID tip \<le> last_log_id r" "TipLogID tip \<le> last_tx_id r"
  shows "recoverResume out w args = (w, [NothingToDo (TipLedger tip) (last_log_id r) (TipLogID tip)], None)"
proof -
  have "TipLedger tip \<in> set (Ledgers (book w))"
    using r(1) by (force simp: Ledgers_def dest: map_of_SomeD)
  moreover have "ChainTip (New (TipLedger tip)) (book w) = Inr \<lparr>TipLedger = TipLedger tip, TipTxID = last_tx_id r,
      TipLogID = last_log_id r, TipHash = hash_bytes (last_log_hash r)\<rparr>" using r by (simp add: ChainTip_def New_def)
  moreover have "RecordRecovery (New (TipLedger tip)) (clock out) (book w)
      \<lparr>TipLedger = TipLedger tip, TipTxID = TipLogID tip, TipLogID = TipLogID tip, TipHash = []\<rparr> nt = Inr (book w)"
    using RecordRecovery_noop [of "book w" "New (TipLedger tip)" r] r by (simp add: New_def)
  ultimately show ?thesis by (simp add: recoverResume_def assms(1,2) Let_def)
qed

end
