(* ===== verification/Spec2Isabelle.thy ===== *)
theory Spec2Isabelle
  imports Giro_Demo Fx_Demo Recon_Demo Obs_Series Cli_Props
begin

text \<open>
giro is a double-entry ledger on PostgreSQL: value moves between accounts in postings, a
transaction is a list of postings, and everything that happened is an entry of a hash-chained log from which the
other tables could be rebuilt.  This development models the ledger's own code and proves what makes it correct.

\<^bold>\<open>The parts and how they interact.\<close>  \<open>src/ledger\<close> holds the pure data: addresses, assets, postings, volumes, log payloads.
\<open>src/storage\<close> is the store: a \<open>Store\<close> names one ledger and runs every operation as one database transaction, with a
retry loop around it.  A commit folds its postings into volume updates sorted by account and asset, locks those rows,
resolves sweeps against the locked balances, checks closure and bounds, applies the updates, allocates the
transaction and log ids from the ledger row, inserts the transaction, its accounts and its moves, shifts the
snapshots of later moves when it is backdated, and appends the log entry chained to the previous hash.  Reverts and
batches run the same apply step; metadata, policy, closure and recovery are operations of their own; the audits
recompute from scratch what the write path maintains incrementally.

\<^bold>\<open>Theories.\<close>
  \<^item> \<open>Giro_Prelude\<close>: results with errors, tables (association lists), folds that fail, sums over tables.
  \<^item> \<open>Ledger_Names\<close>, \<open>Ledger_Postings\<close>, \<open>Ledger_Records\<close>: \<open>src/ledger\<close> (address.go, asset.go; posting.go, volumes.go; transaction.go,
    log.go, account.go).  \<open>Giro_Errors\<close>: the error values of the whole program, and \<open>retryable\<close> of retry.go.
  \<^item> \<open>Go_Sha256\<close>, \<open>Go_Json\<close>, \<open>Go_Text\<close>: what the code uses of Go's crypto/sha256, encoding/json, encoding/base64 and strconv, as
    executable functions, so that a log entry's text and hash are what the program writes.
  \<^item> \<open>Giro_Db\<close>: the tables of \<open>src/migrations\<close> as a record, each SQL statement the store issues as a function on it, with
    the keys, foreign keys and triggers that can refuse it.
  \<^item> \<open>Storage_Assets\<close> (store.go, ledgers.go, assets.go), \<open>Storage_Commit\<close> (commit.go, volumes.go, moves.go, rows.go, allocate.go, the
    write half of log.go), and its lemmas: \<open>Storage_Lock\<close>, \<open>Storage_Check\<close>, \<open>Storage_Rows\<close>, \<open>Storage_Moves\<close>, \<open>Storage_Apply\<close> (the whole
    effect of an apply step), \<open>Storage_Effective\<close> (the backdating invariant), \<open>Storage_Log\<close> (the chain and VerifyLog), \<open>Storage_Book\<close> (the
    invariant of the books), \<open>Storage_Commit_Props\<close> (the retry loop as a locale, and the commit).
  \<^item> \<open>Storage_Revert\<close> (revert.go), \<open>Storage_Read\<close> (read.go, page.go, statement.go, effective.go; keyset pagination is the locale
    \<open>keyset\<close>), \<open>Storage_Metadata\<close> (metadata.go; the locale \<open>metadata_change\<close>), \<open>Storage_Policy\<close> (policy.go, closure.go), \<open>Storage_Recovery\<close>
    (recovery.go), \<open>Storage_Verify\<close> (verify.go, effective.go, verify_runs.go, stale.go), \<open>Storage_Bulk\<close> (bulk.go).
  \<^item> \<open>Storage_System\<close>: all writing operations as the steps of one transition system \<open>giro_step\<close>; the locale \<open>ledger_op\<close> is the
    contract each of them meets.  \<open>Storage_Outcomes\<close>: consequences for the public operations.  \<open>Giro_Demo\<close>: a concrete
    ledger for the witnesses.
  \<^item> \<open>Go_Rat\<close> and \<open>Fx\<close>: package \<open>src/fx\<close> (conversion.go, verify.go); \<open>Fx_Demo\<close>: a conversion that commits, for the witnesses.
  \<^item> \<open>Recon\<close>: package \<open>src/recon\<close> as it is written (recon.go, ingest.go, match.go, balance.go, verify.go).  \<open>Recon_Evidence\<close>,
    \<open>Recon_Match\<close>, \<open>Recon_System\<close>: the invariant of its tables, the matching rules, and the ledger and its reconciliation as
    one transition system \<open>recon_step\<close> (the locale \<open>recon_op\<close> is the contract of its operations).  \<open>Recon_Demo\<close>: two small books.
  \<^item> \<open>Migrate\<close>: package \<open>src/migrate\<close> (parse.go, new.go, migrate.go).  \<open>Migrate_Names\<close>, \<open>Migrate_History\<close>: what the names
    of files promise, and the agreement of history and directory that a run keeps.
  \<^item> \<open>Storage_Observer\<close>: everything a commit reports, as a list of events told and of spans opened and ended (observer.go,
    commit.go, volumes.go); the wiring filters that list.  \<open>Obs\<close>: package \<open>src/obs\<close>, which folds such a list into samples and
    finished spans (otel.go), the catalogue of metrics (catalogue.go) and the set up of the providers (setup.go).  \<open>Obs_Series\<close>:
    which series the commits of a running system can create.
  \<^item> \<open>Go_Http\<close>, \<open>Api\<close>: package \<open>src/internal/api\<close>, from the query string to the typed response.  \<open>Api_Props\<close>: its contract; the
    server is another instance of the store's locale \<open>ledger_op\<close>.
  \<^item> \<open>Cli\<close>: the command \<open>src/cmd/giro\<close> (one group of definitions per file), from the argument list to the exit code, over a \<open>world\<close> that
    holds the book, the evidence, the history of migrations and the directory.  \<open>Cli_Verify\<close>: what \<open>giro verify\<close> finds and
    writes.  \<open>Cli_Props\<close>: the other commands; every command is a run of \<open>giro_step\<close>.

\<^bold>\<open>State and time.\<close>  A \<open>db\<close> is the whole database.  An operation is a function from the database to an error or a new database; an
error leaves the database as it was, because the transaction is rolled back.  The clocks and a cancelled context
are inputs (\<open>env\<close>, one per attempt); a time is an integer of nanoseconds from Go's zero time, and postgres keeps
microseconds (\<open>truncate_us\<close>).  Amounts are unbounded integers, as in the code; ids are bounded by bigint, and the one place
where the code computes an id in int64 without a check (\<open>RecordRecovery\<close>) wraps in the model as it does in Go.  A nil
amount is \<open>None\<close>, and where the code would dereference it the model returns \<open>NilPanic\<close>.

\<^bold>\<open>Bounds and fuel.\<close>  The retry loop runs \<open>maxAttempts\<close> times by recursion on that number.  \<open>dec_digits\<close> gets one more step than the
number has bits, which is at least its number of digits (\<open>abs_below_ten_power\<close>).  \<open>chunks\<close> gets the length of the list.
\<open>follow\<close>, which is a client reading pages, takes the number of pages it may read, and the paging theorems say how many
are enough.  Everything else terminates by structure or has a termination proof.

\<^bold>\<open>What the properties say.\<close>  Every reachable state satisfies the invariant and passes the audits (C1), history is append-only
(C2); a commit does what its postings say and nothing else (C3 to C9); the pure functions meet their contracts (C10, C11);
reverts and batches (C12, C13); reads agree with the full history (C14 to C16); the chain is tamper evident and the
projection audit exact (C17, C18); recovery (C19 to C21); the registry and closure (C22, C23).
Conversions: what is received is the exact product truncated, committing one keeps the audit of stated rates, and that audit is
exact (C24 to C26).  Reconciliation: evidence is sound, a run accounts for every line and fails in one situation, repeated runs
settle, staging is idempotent (C27 to C30).  Migrations: the checks are exact, a run extends the history in order and is
idempotent (C31, C32).  The HTTP interface: answers keep the contract, writes can be retried (C33, C34).  The command line: it
runs only operations of the store, verify's verdict is exact, resuming does what it prints, and serve listens exactly when it
should (C35 to C38).  Observability: a commit reports what happened to it, and the series it creates are those of the
catalogue and one per made-up asset (C39, C40).  Theorems without a number are of the same standing but stand behind these:
the exactness of the other audits, paging of statements, reversal of postings, metadata, the bound of \<open>world\<close>, new migrations.

\<^bold>\<open>Not modelled.\<close>  Isolation and row locks: operations are atomic steps, so the documented race between closing an account
and a commit already in flight, which the closed-accounts audit exists to find, is not in the model, and the order of lock
acquisition is represented only by the sortedness of the updates (C10).  The text of error messages and the layout of
what the command prints: a printed line is a value that holds what is printed.  Signals, timeouts and the HTTP
transport of \<open>giro serve\<close>: the requests it is handed are answered one after the other.  The OpenTelemetry SDK and
\<open>time.ParseDuration\<close> are parameters.  JSON decoding is modelled for the values the program itself encoded; what decoding a
request body into a type answers is a parameter of the handlers.
\<close>

subsection \<open>The system\<close>



text \<open>C2. Nothing that was ever written is rewritten: between any two states of a run the log only grows at
  its end, a transaction keeps its time, reference, postings, endpoints and recorded volumes, movements are only
  added at the end and keep their account, amount, side and dates, and an id issued
  later is above every id issued before.\<close>
theorem history_append_only:
  assumes "reachable d" and "giro_step\<^sup>*\<^sup>* d d'"
  shows "(\<exists>zs. ledger_logs d' l = ledger_logs d l @ zs) \<and>
    (map_of (transactions d) (l, i) = Some r \<longrightarrow>
       (\<exists>r'. map_of (transactions d') (l, i) = Some r' \<and> tx_fixed r' = tx_fixed r)) \<and>
    (map_of (transactions d) (l, j) = None \<and> map_of (transactions d') (l, j) \<noteq> None \<and>
       map_of (transactions d) (l, i) \<noteq> None \<longrightarrow> i < j) \<and>
    (\<exists>ms. map move_core (moves d') = map move_core (moves d) @ ms)"
proof -
  have "history_kept d d'" using giro.many [OF assms(2) reachable_sys_ok [OF assms(1)]] by blast
  then show ?thesis unfolding history_kept_def moves_kept_def by blast
qed

theorem history_append_only_witness:
  "giro_step\<^sup>*\<^sup>* demo_open demo_paid \<and> (\<exists>zs. ledger_logs demo_paid ''main'' = ledger_logs demo_open ''main'' @ zs)"
proof -
  have step: "giro_step\<^sup>*\<^sup>* demo_open demo_paid"
    using demo_paid_run by (blast intro: giro_step.commit)
  show ?thesis using step history_append_only [OF demo_open_reachable step] by blast
qed

subsection \<open>Committing\<close>

text \<open>C3. A commit that succeeds has exactly the effect of its postings: every balance of its own ledger moves by
  what the recorded postings move in and out of it, every other ledger is untouched, and the recorded postings
  are the requested ones (with the ceilings of a sweep resolved to amounts).\<close>
theorem CommitTransaction_moves_exactly:
  assumes "reachable d" and "CommitTransaction envs s d p opts = (s', Inr (d', t))"
    and "fresh_key d (ledger s) (OIdempotencyKey opts)" and "\<not> ODryRun opts"
  shows "list_all2 resolved_as p (TPostings t) \<and> (\<not> HasUpTo p \<longrightarrow> TPostings t = p) \<and>
    vol d' l k =
      (if l = ledger s then add_flow (vol d l k) (inflow (TPostings t) k) (outflow (TPostings t) k) else vol d l k)"
proof -
  have "book_ok d" using reachable_sys_ok [OF assms(1)] by (simp add: sys_ok_def)
  then obtain i h where "commit_effect s (envs i) d p opts h d' t"
    using CommitTransaction_effect [OF assms(2)] assms by metis
  from commit_effect_volumes [OF this] show ?thesis using resolved_no_ceiling by blast
qed

theorem CommitTransaction_moves_exactly_witness:
  "\<exists>s' t. CommitTransaction (\<lambda>_. demo_env) demo_store demo_open demo_fund demo_opts = (s', Inr (demo_paid, t)) \<and>
     TPostings t = demo_fund \<and> vol demo_paid ''main'' (''alice'', ''USD/2'') = \<lparr>Input = 100, Output = 0\<rparr>"
proof -
  obtain s' t where run: "CommitTransaction (\<lambda>_. demo_env) demo_store demo_open demo_fund demo_opts = (s', Inr (demo_paid, t))"
    using demo_paid_run by blast
  have "fresh_key demo_open (ledger demo_store) (OIdempotencyKey demo_opts)" "\<not> ODryRun demo_opts"
    by (simp_all add: fresh_key_def demo_opts_def)
  from CommitTransaction_moves_exactly [OF demo_open_reachable run this, of "''main''" "(''alice'', ''USD/2'')"]
  have "TPostings t = demo_fund" "vol demo_paid ''main'' (''alice'', ''USD/2'') = \<lparr>Input = 100, Output = 0\<rparr>"
    by (simp_all add: demo_fund_def usd_def demo_store_def New_def vol_def demo_open_eq NewVolumes_def add_flow_def amt_def orZero_def)
  then show ?thesis using run by blast
qed

text \<open>C4. A commit never takes a balance out of its bounds: a volume row that breaks its own policy after a
  commit broke it before and was not touched, no account is closed or reopened, and no closed account comes to hold
  a balance.\<close>
theorem CommitTransaction_respects_guards:
  assumes "reachable d" and "CommitTransaction envs s d p opts = (s', Inr (d', t))"
  shows "(map_of (accounts_volumes d') x = Some r \<and> out_of_bounds r \<longrightarrow> map_of (accounts_volumes d) x = Some r) \<and>
    account_closed d' = account_closed d \<and> (account_closed d l a \<longrightarrow> bal d' l (a, c) = 0)"
proof -
  have ok: "book_ok d" "closed_ok d" using reachable_sys_ok [OF assms(1)] by (auto simp: sys_ok_def)
  have "guards_kept d d'" by (rule CommitTransaction_guards [OF assms(2) ok(1)])
  then show ?thesis using ok(2) unfolding guards_kept_def closed_ok_def by metis
qed

theorem CommitTransaction_respects_guards_witness:
  "account_closed demo_paid = account_closed demo_open"
proof -
  obtain s' t where run: "CommitTransaction (\<lambda>_. demo_env) demo_store demo_open demo_fund demo_opts = (s', Inr (demo_paid, t))"
    using demo_paid_run by blast
  show ?thesis using CommitTransaction_respects_guards [OF demo_open_reachable run] by blast
qed







text \<open>C8. A dry run is the commit without its effect: it succeeds when the commit would, with the transaction the commit
  would return, fails with the error the commit would return, and leaves the database as it was.\<close>
theorem dry_run_predicts:
  assumes "reachable d"
  shows "CommitTransaction envs s d p (opts\<lparr>ODryRun := True\<rparr>) =
    map_prod id (map_sum id (\<lambda>(_, t). (d, t))) (CommitTransaction envs s d p (opts\<lparr>ODryRun := False\<rparr>))"
  using CommitTransaction_dry reachable_sys_ok [OF assms] by (simp add: sys_ok_def)

theorem dry_run_predicts_witness:
  "\<exists>s' t. CommitTransaction (\<lambda>_. demo_env) demo_store demo_open demo_fund (demo_opts\<lparr>ODryRun := True\<rparr>) =
     (s', Inr (demo_open, t))"
proof -
  have "demo_opts\<lparr>ODryRun := False\<rparr> = demo_opts" by (simp add: demo_opts_def)
  then show ?thesis
    using dry_run_predicts [OF demo_open_reachable, of "\<lambda>_. demo_env" demo_store demo_fund demo_opts] demo_paid_run by auto
qed

text \<open>C9. Contention is survived and bounded.  When the first attempts of a commit that would succeed are rolled back by a
  deadlock, it restarts: after nine of them it still has exactly the outcome of the uncontended commit, and after
  ten it gives up, having restarted ten times and changed nothing.\<close>
theorem contention_survived_or_given_up:
  assumes "CommitTransaction (\<lambda>_. e) s d p opts = (s', Inr (d', t))" and "ctx_err e = None"
    and "\<forall>n. beforeCommit s n = None" and "fresh_key d (ledger s) (OIdempotencyKey opts)"
  shows "\<exists>s''. CommitTransaction (\<lambda>_. e) (s\<lparr>beforeCommit := (\<lambda>n. if n < i then Some (PgError deadlockDetected) else None)\<rparr>)
      d p opts = (s'', if i < 10 then Inr (d', t) else Inl (ErrGaveUp 10 (ledger s))) \<and>
    retries s'' = retries s + int (min i 10)"
  using CommitTransaction_flaky [OF assms, of i] unfolding maxAttempts_def flaky_def by simp

theorem contention_survived_or_given_up_witness:
  "\<exists>s' t. CommitTransaction (\<lambda>_. demo_env) (demo_store\<lparr>beforeCommit := (\<lambda>n. if n < 9 then Some (PgError deadlockDetected) else None)\<rparr>)
     demo_open demo_fund demo_opts = (s', Inr (demo_paid, t)) \<and> retries s' = 9"
proof -
  obtain s' t where run: "CommitTransaction (\<lambda>_. demo_env) demo_store demo_open demo_fund demo_opts = (s', Inr (demo_paid, t))"
    using demo_paid_run by blast
  have "ctx_err demo_env = None" "\<forall>n. beforeCommit demo_store n = None"
    "fresh_key demo_open (ledger demo_store) (OIdempotencyKey demo_opts)"
    by (simp_all add: demo_env_def demo_store_def New_def fresh_key_def demo_opts_def)
  note all = contention_survived_or_given_up [OF run this, of 9]
  moreover have "retries demo_store = 0" by (simp add: demo_store_def New_def)
  ultimately show ?thesis by force
qed

subsection \<open>Postings\<close>

text \<open>C10. The volume updates of a list of postings are determined by what they must be: one update per account and
  asset touched, in strictly ascending order of account then asset (the order in which rows are locked), each
  carrying the whole inflow and outflow of its key.  They exist exactly when every posting without a ceiling has an
  amount.\<close>
theorem VolumeUpdates_contract:
  "VolumeUpdates ps = Inr us \<longleftrightarrow>
     (\<nexists>p. p \<in> set ps \<and> Amount p = None \<and> \<not> UpTo p) \<and>
     sorted_wrt (<) (map update_key us) \<and> update_key ` set us = touched ps \<and>
     list_all (\<lambda>u. UInput u = inflow ps (update_key u) \<and> UOutput u = outflow ps (update_key u)) us"
proof -
  have uf: "updates_for ps us \<longleftrightarrow> sorted_wrt (<) (map update_key us) \<and> update_key ` set us = touched ps \<and>
     list_all (\<lambda>u. UInput u = inflow ps (update_key u) \<and> UOutput u = outflow ps (update_key u)) us" for us
    by (auto simp: updates_for_def strict_sorted_iff list_all_iff)
  have "VolumeUpdates ps = Inr us \<longleftrightarrow> priced ps \<and> updates_for ps us"
    using VolumeUpdates_spec VolumeUpdates_total updates_for_unique by metis
  then show ?thesis unfolding uf priced_def by blast
qed

text \<open>C11. Validation is exact: it accepts a list exactly when every posting is between two well-formed addresses, in a
  well-formed asset, with an amount (or a ceiling, or no limit on a sweep) that is not negative and below two to the power 333, and otherwise
  it names the first posting that is not and why.  Every amount of up to one hundred digits is within the limit and no amount of 102 is.\<close>
theorem Validate_exact:
  "(Validate ps = None \<longleftrightarrow> list_all valid_posting ps) \<and>
   (Validate ps = Some (i, e) \<longleftrightarrow>
      i < length ps \<and> list_all valid_posting (take i ps) \<and> validate_one (ps ! i) = Some e) \<and>
   (10 :: int) ^ MaxAmountDigits \<le> 2 ^ maxAmountBits \<and> (2 :: int) ^ maxAmountBits \<le> 10 ^ (MaxAmountDigits + 1)"
proof -
  have vf: "validate_from j ps = Some (j + i, e) \<longleftrightarrow>
      i < length ps \<and> list_all valid_posting (take i ps) \<and> validate_one (ps ! i) = Some e" for i j
  proof (induction ps arbitrary: i j)
    case (Cons p ps)
    have less: "\<And>k ps. validate_from k ps = Some (l, e) \<Longrightarrow> k \<le> l" for l using validate_from_Some by fastforce
    show ?case
    proof (cases "validate_one p")
      case None
      then show ?thesis
        using Cons.IH [of "Suc j" "i - 1"] less [of "Suc j" ps j]
        by (cases i) (auto simp: validate_one_None [symmetric])
    next
      case (Some e')
      then show ?thesis by (cases i) (auto simp: validate_one_None [symmetric])
    qed
  qed simp
  have "(10 :: int) ^ MaxAmountDigits \<le> 2 ^ maxAmountBits \<and> (2 :: int) ^ maxAmountBits \<le> 10 ^ (MaxAmountDigits + 1)"
    by (simp add: MaxAmountDigits_def maxAmountBits_def)
  then show ?thesis using vf [of 0 i] by (simp add: Validate_def validate_from_None)
qed

text \<open>Reversing postings swaps what flows in and out of every account and asset, keeps every amount, and reversing
  twice gives the postings back (their ceilings spent).\<close>
theorem Reverse_undoes:
  assumes "Reverse ps = Inr qs"
  shows "inflow qs k = outflow ps k \<and> outflow qs k = inflow ps k \<and> length qs = length ps \<and>
    Reverse qs = Inr (map (\<lambda>p. p\<lparr>UpTo := False\<rparr>) ps)"
proof -
  have qs: "all_amounts ps" "qs = rev (map (\<lambda>p. swap_posting p (amt p)) ps)" using assms by (simp_all add: Reverse_eq)
  have "swap_posting (swap_posting p (amt p)) (amt p) = p\<lparr>UpTo := False\<rparr>" if "p \<in> set ps" for p
    using that qs(1) by (auto simp: swap_posting_def all_amounts_def amt_def orZero_def)
  then have "Reverse qs = Inr (map (\<lambda>p. p\<lparr>UpTo := False\<rparr>) ps)"
    unfolding Reverse_eq qs(2) by (auto simp: all_amounts_def rev_map)
  then show ?thesis using Reverse_flow [OF assms] qs(2) by simp
qed

theorem Reverse_undoes_witness:
  "Reverse [usd ''a'' ''b'' 1, usd ''b'' ''c'' 1] = Inr [usd ''c'' ''b'' 1, usd ''b'' ''a'' 1] \<and>
   Reverse [usd ''c'' ''b'' 1, usd ''b'' ''a'' 1] = Inr (map (\<lambda>p. p\<lparr>UpTo := False\<rparr>) [usd ''a'' ''b'' 1, usd ''b'' ''c'' 1])"
proof -
  have r: "Reverse [usd ''a'' ''b'' 1, usd ''b'' ''c'' 1] = Inr [usd ''c'' ''b'' 1, usd ''b'' ''a'' 1]"
    by (simp add: Reverse_def usd_def swap_posting_def)
  then show ?thesis using Reverse_undoes [OF r] by blast
qed

subsection \<open>Reverting and batches\<close>

text \<open>C12. Reverting a committed transaction puts every balance of every ledger back where it was before the commit, and
  a transaction can be reverted only once.\<close>
theorem revert_restores_once:
  assumes "reachable d" and "CommitTransaction envs s d p opts = (s', Inr (d', t))"
    and "fresh_key d (ledger s) (OIdempotencyKey opts)" and "\<not> ODryRun opts"
    and "RevertTransaction envs2 s2 d' (TxID t) ropts = (s2', Inr (d'', rvl))" and "ledger s2 = ledger s"
  shows "bal d'' l k = bal d l k \<and>
    (\<exists>since. RevertTransaction envs3 s2 d'' (TxID t) ropts' = (s2, Inl (ErrAlreadyReverted (TxID t) since)))"
proof -
  have "book_ok d" using reachable_sys_ok [OF assms(1)] by (simp add: sys_ok_def)
  then show ?thesis using commit_then_revert [OF assms(2) _ assms(3-6)] by blast
qed

theorem revert_restores_once_witness:
  "\<exists>s2' d'' rvl. RevertTransaction (\<lambda>_. demo_env) demo_store demo_paid 1 \<lparr>AtEffectiveDate = False\<rparr> = (s2', Inr (d'', rvl)) \<and>
     bal d'' ''main'' (''alice'', ''USD/2'') = 0"
proof -
  obtain s' t where run: "CommitTransaction (\<lambda>_. demo_env) demo_store demo_open demo_fund demo_opts = (s', Inr (demo_paid, t))"
    using demo_paid_run by blast
  have "map_option (\<lambda>x. TxID (snd x)) (case snd (CommitTransaction (\<lambda>_. demo_env) demo_store demo_open demo_fund demo_opts) of
      Inl _ \<Rightarrow> None | Inr x \<Rightarrow> Some x) = Some 1" by code_simp
  then have t: "TxID t = 1" by (simp add: run)
  have o: "fresh_key demo_open (ledger demo_store) (OIdempotencyKey demo_opts)" "\<not> ODryRun demo_opts"
    by (simp_all add: fresh_key_def demo_opts_def)
  have "is_ok (snd (RevertTransaction (\<lambda>_. demo_env) demo_store demo_paid 1 \<lparr>AtEffectiveDate = False\<rparr>))" by code_simp
  then obtain s2' d'' rvl where rv: "RevertTransaction (\<lambda>_. demo_env) demo_store demo_paid (TxID t) \<lparr>AtEffectiveDate = False\<rparr> =
      (s2', Inr (d'', rvl))" by (metis is_ok_iff prod.collapse t)
  have "bal demo_open ''main'' (''alice'', ''USD/2'') = 0"
    by (simp add: bal_def vol_def demo_open_eq NewVolumes_def Balance_def)
  then show ?thesis using revert_restores_once [OF demo_open_reachable run o rv refl] rv unfolding t by metis
qed



subsection \<open>Reading\<close>

text \<open>C14. A balance as of a date, which is read from one stored snapshot, is the sum of all movements of that account and
  asset effective on or before the date, however late they were recorded; an asset with no such movement is
  absent.\<close>
theorem GetBalancesAt_sums_history:
  assumes "reachable d"
  shows "map_of (GetBalancesAt s d a asof) x =
    (let ms = filter (\<lambda>m. mv_effective_date m \<le> asof) (key_moves d (ledger s) (a, x))
     in if ms = [] then None else Some (\<Sum>m\<leftarrow>ms. if mv_is_source m then - mv_amount m else mv_amount m))"
proof -
  have "book_ok d" using reachable_sys_ok [OF assms] by (simp add: sys_ok_def)
  moreover have "\<forall>m\<in>set (filter (\<lambda>m. mv_effective_date m \<le> asof) (key_moves d (ledger s) (a, x))).
      mv_ledger m = ledger s \<and> mv_key m = (a, x)" by (simp add: key_moves_def)
  ultimately show ?thesis using GetBalancesAt_replay [of d s a asof x] moves_balance by (simp add: Let_def)
qed

theorem GetBalancesAt_sums_history_witness:
  "map_of (GetBalancesAt demo_store demo_paid ''alice'' 5000) ''USD/2'' = Some 100 \<and>
   map_of (GetBalancesAt demo_store demo_paid ''alice'' 4999) ''USD/2'' = None"
proof -
  have "map (\<lambda>m. (mv_effective_date m, mv_is_source m, mv_amount m))
      (key_moves demo_paid (ledger demo_store) (''alice'', ''USD/2'')) = [(5000, False, 100)]" by code_simp
  then obtain m where "key_moves demo_paid (ledger demo_store) (''alice'', ''USD/2'') = [m]"
    "mv_effective_date m = 5000" "\<not> mv_is_source m" "mv_amount m = 100" by auto
  then show ?thesis using GetBalancesAt_sums_history [OF demo_paid_reachable, of demo_store "''alice''" _ "''USD/2''"]
    by simp
qed

text \<open>C15. The trial balance: summed over every account of a ledger, each asset the ledger ever touched comes to zero.\<close>
theorem trial_balance_is_zero:
  assumes "reachable d"
  shows "map_of (AggregateBalances s d []) x = (if x \<in> set (ledger_assets d (ledger s)) then Some 0 else None)"
proof -
  have "conserved d" using reachable_sys_ok [OF assms] by (simp add: sys_ok_def book_ok_def)
  then show ?thesis by (simp add: AggregateBalances_all conserved_def)
qed

theorem trial_balance_is_zero_witness:
  "map_of (AggregateBalances demo_store demo_paid []) ''USD/2'' = Some 0"
proof -
  have "''USD/2'' \<in> set (ledger_assets demo_paid (ledger demo_store))"
    by (simp add: ledger_assets_def ledger_volumes_def demo_paid_parts demo_store_def New_def)
  then show ?thesis using trial_balance_is_zero [OF demo_paid_reachable, of demo_store "''USD/2''"] by simp
qed

text \<open>C16. Paging through the transactions of a ledger while the system keeps running misses nothing and repeats nothing:
  following the cursors, with any limit and any filter, reaches a last page after at most one page more than there
  are transactions, and what was read is the whole list as it stands at that moment.\<close>
theorem paging_transactions_complete:
  assumes "run_of ds" and "\<And>j. length (matching_txs s (ds j) (TQFilter q)) \<le> n"
  shows "\<exists>xs k. follow (\<lambda>i c. ListTransactions s (ds i) (q\<lparr>TQCursor := c\<rparr>)) (Suc n) 0 NoCursor = Some (xs, k) \<and>
    map TxID xs = map TxID (matching_txs s (ds k) (TQFilter q))"
  using tx_pages.follow_complete [of s ds q n] run_of_histories(1) [OF assms(1), of s] assms(2) by simp

theorem paging_transactions_complete_witness:
  "\<exists>xs k. follow (\<lambda>i c. ListTransactions demo_store demo_paid
       (\<lparr>TQFilter = \<lparr>FAccount = [], FAccountPrefix = [], FReference = []\<rparr>, TQLimit = 1, TQCursor = c\<rparr>)) 2 0 NoCursor = Some (xs, k) \<and>
     map TxID xs = [1]"
proof -
  let ?q = "\<lparr>TQFilter = \<lparr>FAccount = [], FAccountPrefix = [], FReference = []\<rparr>, TQLimit = 1, TQCursor = NoCursor\<rparr>"
  have run: "run_of (\<lambda>_. demo_paid)" by (simp add: run_of_def demo_paid_reachable)
  have ids: "map TxID (matching_txs demo_store demo_paid (TQFilter ?q)) = [1]" by code_simp
  have "length (map TxID (matching_txs demo_store demo_paid (TQFilter ?q))) \<le> 1" unfolding ids by simp
  then have "length (matching_txs demo_store demo_paid (TQFilter ?q)) \<le> 1" by (simp only: length_map)
  from paging_transactions_complete [OF run this] ids show ?thesis by (simp add: numeral_2_eq_2)
qed

text \<open>An account's statement pages in the same way: following the cursors of a statement gives every movement of the
  account in the requested window exactly once, in order of effective date and then of arrival.\<close>
theorem paging_statement_complete:
  assumes "reachable d"
  shows "\<exists>xs k. follow (\<lambda>i c. ListMoves s d (q\<lparr>MQCursor := c\<rparr>)) (Suc (length (statement_rows s d (MQFilter q)))) 0 NoCursor = Some (xs, k) \<and>
    map move_pos xs = map move_pos (statement_rows s d (MQFilter q)) \<and>
    sorted_wrt (<) (map move_pos xs)"
proof -
  have inv: "book_ok d" using reachable_sys_ok [OF assms] by (simp add: sys_ok_def)
  obtain xs k where "follow (\<lambda>i c. ListMoves s d (q\<lparr>MQCursor := c\<rparr>)) (Suc (length (statement_rows s d (MQFilter q)))) 0 NoCursor = Some (xs, k)"
    "map move_pos xs = map move_pos (statement_rows s d (MQFilter q))"
    using statement_pages.follow_complete [of d s q "length (statement_rows s d (MQFilter q))"] inv by auto
  then show ?thesis using statement_ordered [OF inv] by metis
qed

theorem paging_statement_complete_witness:
  "\<exists>xs k. follow (\<lambda>i c. ListMoves demo_store demo_paid
      (\<lparr>MQFilter = \<lparr>MFAddress = ''alice'', MFAsset = [], MFFrom = None, MFTo = None\<rparr>, MQLimit = 0, MQCursor = c\<rparr>)) 2 0 NoCursor = Some (xs, k) \<and>
    map move_pos xs = [(5000, 2)]"
proof -
  let ?q = "\<lparr>MQFilter = \<lparr>MFAddress = ''alice'', MFAsset = [], MFFrom = None, MFTo = None\<rparr>, MQLimit = 0, MQCursor = NoCursor\<rparr>"
  have pos: "map move_pos (statement_rows demo_store demo_paid (MQFilter ?q)) = [(5000, 2)]" by code_simp
  have "length (map move_pos (statement_rows demo_store demo_paid (MQFilter ?q))) = 1" unfolding pos by simp
  then have len: "length (statement_rows demo_store demo_paid (MQFilter ?q)) = 1" by (simp only: length_map)
  have two: "Suc 1 = 2" by simp
  show ?thesis using paging_statement_complete [OF demo_paid_reachable, of demo_store ?q, unfolded len pos two]
    by (auto simp del: follow.simps)
qed

subsection \<open>Auditing\<close>

text \<open>C17. The hash chain makes the log tamper evident: if the logs of two databases both verify, are equally long and
  end in the same hash, then every entry of one reads exactly as the entry of the other, unless SHA-256 collides
  on the texts that were hashed.\<close>
theorem log_is_tamper_evident:
  assumes "snd (VerifyLog s d) = None" and "snd (VerifyLog s d') = None"
    and "length (ledger_logs d (ledger s)) = length (ledger_logs d' (ledger s))"
    and "ledger_logs d (ledger s) \<noteq> []"
    and "lg_hash (snd (last (ledger_logs d (ledger s)))) = lg_hash (snd (last (ledger_logs d' (ledger s))))"
    and "inj_on sha256 (set (chain_inputs [] (ledger_logs d (ledger s))) \<union> set (chain_inputs [] (ledger_logs d' (ledger s))))"
  shows "map entry_text (ledger_logs d (ledger s)) = map entry_text (ledger_logs d' (ledger s))"
proof -
  obtain h n c where 1: "foldE verify_entry (ledger_logs d (ledger s)) walk_start = Inr (h, n, c)"
    using assms(1) by (auto simp: VerifyLog_def scanE_None is_ok_iff)
  obtain h' n' c' where 2: "foldE verify_entry (ledger_logs d' (ledger s)) walk_start = Inr (h', n', c')"
    using assms(2) by (auto simp: VerifyLog_def scanE_None is_ok_iff)
  have "ledger_logs d' (ledger s) \<noteq> []" using assms(3,4) by auto
  then have "h = h'" using walk_tip [OF 1 assms(4)] walk_tip [OF 2] assms(5) by simp
  then show ?thesis using verified_texts [OF 1 _ assms(3,6)] 2 by simp
qed

theorem log_is_tamper_evident_witness:
  "ledger_logs demo_paid ''main'' \<noteq> [] \<and> snd (VerifyLog demo_store demo_paid) = None \<and>
   map entry_text (ledger_logs demo_paid (ledger demo_store)) = map entry_text (ledger_logs demo_paid (ledger demo_store))"
proof -
  have "map fst (ledger_logs demo_paid (ledger demo_store)) = [1]" by code_simp
  then obtain row where l: "ledger_logs demo_paid (ledger demo_store) = [(1, row)]" by auto
  then have ll: "ledger_logs demo_paid ''main'' \<noteq> []" "ledger_logs demo_paid (ledger demo_store) \<noteq> []"
    by (auto simp: demo_store_def New_def)
  obtain r where "map_of (ledgers demo_paid) (ledger demo_store) = Some r"
    by (simp add: demo_paid_parts demo_store_def New_def)
  then have v: "snd (VerifyLog demo_store demo_paid) = None"
    using VerifyLog_ok reachable_sys_ok [OF demo_paid_reachable] by (simp add: sys_ok_def book_ok_def)
  show ?thesis using log_is_tamper_evident [OF v v refl ll(2) refl] ll(1) v l by simp
qed



text \<open>The audit of backdated balances and the conservation audit are exact: the first passes exactly when the
  snapshot stored on every movement is the sum of all movements of its account and asset at or before it in effective
  order, the second exactly when each asset sums to zero over the ledger.\<close>
theorem effective_and_conservation_audits_exact:
  assumes "seq_ok d"
  shows "(snd (VerifyEffectiveVolumes s d) = None \<longleftrightarrow>
      (\<nexists>m. m \<in> set (moves d) \<and> mv_ledger m = ledger s \<and> mv_pcev m \<noteq>
         moves_vol (ledger s) (mv_key m) (filter (\<lambda>m'. eff_key m' \<le> eff_key m) (moves d)))) \<and>
    (snd (VerifyConservation s d) = None \<longleftrightarrow> (\<forall>x. drift d (ledger s) x = 0))"
  unfolding VerifyEffectiveVolumes_None [OF assms] VerifyConservation_None by blast

theorem effective_and_conservation_audits_exact_witness:
  "snd (VerifyConservation demo_store (demo_open\<lparr>accounts_volumes := [((''main'', ''alice'', ''USD/2''),
     \<lparr>vr_input = 1, vr_output = 0, allow_negative = False, allow_positive = True\<rparr>)]\<rparr>)) \<noteq> None"
proof -
  let ?d = "demo_open\<lparr>accounts_volumes := [((''main'', ''alice'', ''USD/2''),
     \<lparr>vr_input = 1, vr_output = 0, allow_negative = False, allow_positive = True\<rparr>)]\<rparr>"
  have "seq_ok ?d" by (simp add: seq_ok_def demo_open_eq)
  moreover have "drift ?d (ledger demo_store) ''USD/2'' = 1" by (simp add: drift_def row_net_def demo_store_def New_def)
  ultimately show ?thesis using effective_and_conservation_audits_exact [of ?d demo_store] by (metis zero_neq_one)
qed

subsection \<open>Recovering\<close>





text \<open>C21. A tip recorded outside the database tells a restored database from a current one: the tip of any earlier state
  is accepted by every later state, and the tip of a later state is accepted by an earlier one exactly when nothing was
  logged in between, and otherwise refused as ahead of it, with both ids.\<close>
theorem tip_detects_restore:
  assumes "reachable d" and "giro_step\<^sup>*\<^sup>* d d'" and "ChainTip s d = Inr t" and "ChainTip s d' = Inr t'"
  shows "CheckTip s d' t = Inr () \<and>
    CheckTip s d t' = (if TipLogID t' \<le> TipLogID t then Inr () else Inl (ErrChainBehind (TipLogID t') (TipLogID t)))"
proof -
  have ok: "sys_ok d" by (rule reachable_sys_ok [OF assms(1)])
  then have "sys_ok d' \<and> history_kept d d'" using giro.many [OF assms(2)] by blast
  then have inv: "book_ok d" "book_ok d'" "history_kept d d'" using ok by (simp_all add: sys_ok_def)
  show ?thesis using CheckTip_later [OF inv assms(3)] CheckTip_earlier [OF inv assms(3,4)] by blast
qed

theorem tip_detects_restore_witness:
  "\<exists>t. ChainTip demo_store demo_paid = Inr t \<and> CheckTip demo_store demo_open t = Inl (ErrChainBehind 1 0)"
proof -
  obtain t t' where t: "ChainTip demo_store demo_open = Inr t" "TipLogID t = 0"
    and t': "ChainTip demo_store demo_paid = Inr t'" "TipLogID t' = 1"
    by (simp add: ChainTip_def demo_open_eq demo_paid_parts demo_store_def New_def)
  have "giro_step\<^sup>*\<^sup>* demo_open demo_paid" using demo_paid_run by (blast intro: giro_step.commit)
  from tip_detects_restore [OF demo_open_reachable this t(1) t'(1)] show ?thesis using t t' by simp
qed

subsection \<open>The asset registry\<close>

text \<open>C22. The cache of registered assets never changes an answer.  A store that filled its cache by checking some postings,
  with however much happening in between, gives the verdict that the registry itself gives now; and no ledger ever has two
  assets of the same code at different scales.\<close>
theorem asset_cache_never_stale:
  assumes "reachable d" and "giro_step\<^sup>*\<^sup>* d d'"
  shows "(snd (checkAssets (fst (checkAssets (New l) d p)) d' q) = None \<longleftrightarrow> assets_ok d' l q) \<and>
    (is_registered d' l a \<and> is_registered d' l b \<and> Asset_Code a = Asset_Code b \<longrightarrow> a = b)"
proof -
  have ok: "sys_ok d" by (rule reachable_sys_ok [OF assms(1)])
  let ?s = "fst (checkAssets (New l) d p)"
  have "cache_sound ?s d'"
    by (rule cache_sound_later [OF checkAssets_cache_sound [OF New_cache_sound] ok assms(2)])
  moreover have "ledger ?s = l" by (simp add: New_def)
  moreover have "one_scale d'" using giro.many [OF assms(2) ok] by (simp add: sys_ok_def)
  ultimately show ?thesis using checkAssets_None_iff [of ?s d' q] unfolding one_scale_def by metis
qed

theorem asset_cache_never_stale_witness:
  "snd (checkAssets (fst (checkAssets (New ''main'') demo_open demo_fund)) demo_paid demo_fund) = None \<and>
   assets_ok demo_paid ''main'' demo_fund"
proof -
  have "giro_step\<^sup>*\<^sup>* demo_open demo_paid" using demo_paid_run by (blast intro: giro_step.commit)
  moreover have "assets_ok demo_paid ''main'' demo_fund" by code_simp
  ultimately show ?thesis using asset_cache_never_stale [OF demo_open_reachable] by blast
qed

subsection \<open>Metadata\<close>

text \<open>Setting a transaction's metadata merges: the transaction comes back with every given key at its given value and
  every other key as it was, no balance moves, and sending the same request again changes nothing at all, not even
  the log.\<close>
theorem SetTransactionMetadata_merges_once:
  assumes "reachable d" and "SetTransactionMetadata s e d i m = Inr (d', t)" and "unique_keys m"
    and "map_of (transactions d) (ledger s, i) = Some r"
  shows "map_of (orEmpty (TMetadata t)) k = (case map_of m k of Some v \<Rightarrow> Some v | None \<Rightarrow> map_of (tx_metadata r) k) \<and>
    accounts_volumes d' = accounts_volumes d \<and> moves d' = moves d \<and>
    (SetTransactionMetadata s e d' i m = Inr (d'', t') \<longrightarrow> d'' = d')"
proof -
  have inv: "book_ok d" using reachable_sys_ok [OF assms(1)] by (simp add: sys_ok_def)
  obtain m' where "TMetadata t = Some m'"
    "\<forall>k. map_of m' k = (case map_of m k of Some v \<Rightarrow> Some v | None \<Rightarrow> map_of (tx_metadata r) k)"
    using SetTransactionMetadata_merges [OF assms(2) inv assms(3,4)] by blast
  moreover have "accounts_volumes d' = accounts_volumes d" "moves d' = moves d"
    using set_tx_meta.keeps_money [OF assms(2) inv] by simp_all
  ultimately show ?thesis using set_tx_meta.repeated [OF assms(2) inv assms(3)] by (simp add: orEmpty_def)
qed

theorem SetTransactionMetadata_merges_once_witness:
  "\<exists>d' t. SetTransactionMetadata demo_store demo_env demo_paid 1 [(''k'', ''v'')] = Inr (d', t) \<and>
     map_of (orEmpty (TMetadata t)) ''k'' = Some ''v''"
proof -
  have "is_ok (SetTransactionMetadata demo_store demo_env demo_paid 1 [(''k'', ''v'')])" by code_simp
  then obtain d' t where run: "SetTransactionMetadata demo_store demo_env demo_paid 1 [(''k'', ''v'')] = Inr (d', t)"
    by (auto simp: is_ok_iff)
  have "map_option (\<lambda>r. ()) (map_of (transactions demo_paid) (ledger demo_store, 1)) = Some ()" by code_simp
  then obtain r where "map_of (transactions demo_paid) (ledger demo_store, 1) = Some r" by auto
  from SetTransactionMetadata_merges_once [OF demo_paid_reachable run _ this, of "''k''"] show ?thesis using run by simp
qed

subsection \<open>Closing accounts\<close>



text \<open>Permitting the world a positive balance, in an asset it has not used yet, takes from it the permission to go negative
  that it otherwise has in every asset: the row is created with the column's default instead of the commit path's.\<close>
theorem SetAllowPositive_drops_world_permission:
  assumes "reachable d" and "map_of (accounts_volumes d) (ledger s, (WorldAccount, x)) = None"
    and "SetAllowPositive s d WorldAccount x True = Inr d'"
  shows "AllowsNegative s d WorldAccount x \<and> \<not> AllowsNegative s d' WorldAccount x"
proof -
  have "well_keyed d" using reachable_sys_ok [OF assms(1)] by (simp add: sys_ok_def book_ok_def)
  then show ?thesis using SetAllowPositive_world_blocks [OF assms(2) _ assms(3)] by blast
qed

theorem SetAllowPositive_drops_world_permission_witness:
  "\<exists>d'. SetAllowPositive demo_store demo_open WorldAccount ''USD/2'' True = Inr d' \<and>
     \<not> AllowsNegative demo_store d' WorldAccount ''USD/2''"
proof -
  have "is_ok (SetAllowPositive demo_store demo_open WorldAccount ''USD/2'' True)" by code_simp
  then obtain d' where run: "SetAllowPositive demo_store demo_open WorldAccount ''USD/2'' True = Inr d'" by (auto simp: is_ok_iff)
  have "map_of (accounts_volumes demo_open) (ledger demo_store, (WorldAccount, ''USD/2'')) = None" by (simp add: demo_open_eq)
  from SetAllowPositive_drops_world_permission [OF demo_open_reachable this run] show ?thesis using run by blast
qed

section \<open>Conversions\<close>

text \<open>C24. What a conversion receives, for a plain decimal rate: the exact product of the amount, the rate and the power of ten
  between the two scales, truncated, and reported as exact precisely when nothing was cut off.  No unit is made up by rounding.\<close>
theorem conversion_receives_floor:
  assumes rate: "Rate c = w @ CHR ''.'' # f" "list_all is_digit w" "list_all is_digit f" "w \<noteq> [] \<or> f \<noteq> []" "length f \<le> 1000000"
    and pos: "0 < digits_value (w @ f)" and scales: "Asset_Scale (CFrom c) = (m, True)" "Asset_Scale (CTo c) = (n, True)"
    and amount: "CAmount c = Some a" "0 < a"
  shows "Receives c =
    Inr ((a * int (digits_value (w @ f)) * 10 ^ nat n) div (10 ^ (length f + nat m)),
         10 ^ (length f + nat m) dvd a * int (digits_value (w @ f)) * 10 ^ nat n)"
proof -
  define N where "N = a * int (digits_value (w @ f)) * 10 ^ nat n"
  define M where "M = (10 :: int) ^ (length f + nat m)"
  let ?r = "of_nat (digits_value (w @ f)) / 10 ^ length f :: rat"
  have pr: "parseRate (Rate c) = Inr ?r" using rate pos by (intro parseRate_decimal)
  have v: "Asset_Valid (CFrom c)" "Asset_Valid (CTo c)" and mn: "0 \<le> m" "0 \<le> n" using scales by (auto dest: Asset_Scale_facts)
  have M: "M > 0" by (simp add: M_def)
  have "rat_power 10 (n - m) = 10 ^ nat n / 10 ^ nat m" using mn by (simp add: rat_power_diff)
  then have val: "of_int a * ?r * rat_power 10 (shift_of (CFrom c) (CTo c)) = of_int N / of_int M"
    by (simp add: shift_of_def scales N_def M_def power_add)
  have "(of_int N / of_int M \<in> (\<int> :: rat set)) = (M dvd N)" using M by (simp add: of_int_div_Ints)
  then show ?thesis
    using Receives_value [OF pr v amount, unfolded val] by (simp only: floor_divide_of_int_eq N_def M_def)
qed

theorem conversion_receives_floor_witness:
  "Receives \<lparr>CFrom = ''USDT/6'', Seller = ''a'', SoldTo = ''b'', CTo = ''USD/2'', BoughtFrom = ''b'', Buyer = ''a'',
     CAmount = Some 100000000000, Rate = ''0.99960''\<rparr> = Inr (9996000, True)"
proof -
  have "Asset_Scale ''USDT/6'' = (6, True)" "Asset_Scale ''USD/2'' = (2, True)" "list_all is_digit ''0''" "list_all is_digit ''99960''" by code_simp+
  moreover have "digits_value (''0'' @ ''99960'') = 99960" by (simp add: digits_value_def digit_value_def)
  ultimately show ?thesis
    using conversion_receives_floor [where w = "''0''" and f = "''99960''" and m = 6 and n = 2 and a = 100000000000 and
      c = "\<lparr>CFrom = ''USDT/6'', Seller = ''a'', SoldTo = ''b'', CTo = ''USD/2'', BoughtFrom = ''b'', Buyer = ''a'',
        CAmount = Some 100000000000, Rate = ''0.99960''\<rparr>"] by simp
qed

text \<open>C25. A conversion is recorded in agreement with itself: once its postings are committed together with its metadata, the
  audit of stated rates, at any tolerance, finds one more conversion and no new disagreement.\<close>
theorem committed_conversion_verifies:
  assumes "reachable d" and "Conversion_Postings c = Inr ps" and "OMetadata opts = Some (Conversion_Metadata c into)"
    and "CommitTransaction envs s d ps opts = (s', Inr (d', t))" and "OIdempotencyKey opts = []" and "\<not> ODryRun opts"
  shows "Fx_Check t tol = Inr () \<and>
    (Fx_Verify d' (ledger s) tol = Inr (n, []) \<longleftrightarrow> (\<exists>m. n = Suc m \<and> Fx_Verify d (ledger s) tol = Inr (m, [])))"
proof -
  have inv: "book_ok d" using reachable_sys_ok [OF assms(1)] by (simp add: sys_ok_def)
  have fresh: "fresh_key d (ledger s) (OIdempotencyKey opts)" by (simp add: fresh_key_def assms(5))
  show ?thesis
    using commit_conversion [OF assms(4) inv fresh assms(6,2,3)] commit_conversion_check [OF assms(4) inv fresh assms(6,2,3)] by blast
qed

theorem committed_conversion_verifies_witness:
  "\<exists>d' t s'. CommitTransaction (\<lambda>_. demo_env) demo_store demo_eur
     demo_trade demo_conversion_opts =
       (s', Inr (d', t)) \<and> Fx_Check t 0 = Inr () \<and> Fx_Verify d' ''main'' 0 = Inr (1, [])"
proof -
  obtain s' d' t where ct: "CommitTransaction (\<lambda>_. demo_env) demo_store demo_eur
     demo_trade demo_conversion_opts =
       (s', Inr (d', t))"
    using demo_conversion_commits by (metis is_ok_iff prod.collapse)
  have opts: "OMetadata demo_conversion_opts = Some (Conversion_Metadata demo_conversion None)"
    "OIdempotencyKey demo_conversion_opts = []" "\<not> ODryRun demo_conversion_opts"
    by (simp_all add: demo_conversion_opts_def demo_opts_def)
  have before: "Fx_Verify demo_eur ''main'' 0 = Inr (0, [])" by code_simp
  have "ledger demo_store = ''main''" by code_simp
  with committed_conversion_verifies [OF demo_eur_reachable demo_conversion_postings opts(1) ct opts(2,3), of 0 1] before ct
  show ?thesis by auto
qed

text \<open>C26. The audit of stated rates is exact: it reports nothing precisely when every transaction of the ledger that states a rate
  names two different valid assets, moves both of them, and moved in the received asset the truncated product of what it sold
  and the rate, to within the tolerance; it counts exactly the transactions that state one.\<close>
theorem Fx_Verify_exact:
  assumes "\<forall>((l', i), r)\<in>set (transactions d). l' = l \<longrightarrow> all_amounts (tx_postings r)"
  shows "Fx_Verify d l tol = Inr (n, []) \<longleftrightarrow> n = length (conversion_rows d l) \<and>
    (\<forall>((l', i), r)\<in>set (transactions d). l' = l \<and> map_of (tx_metadata r) ConversionRateKey \<noteq> None \<longrightarrow>
       keeps_rate tol (tx_metadata r) (tx_postings r))"
  by (rule Fx_Verify_iff [OF assms])

theorem Fx_Verify_exact_witness:
  "Fx_Verify (demo_open\<lparr>transactions := [((''main'', 1), demo_short_row)]\<rparr>) ''main'' DefaultTolerance \<noteq> Inr (1, []) \<and>
   keeps_rate 2 (tx_metadata demo_short_row) (tx_postings demo_short_row)"
proof -
  let ?d = "demo_open\<lparr>transactions := [((''main'', 1), demo_short_row)]\<rparr>"
  have am: "\<forall>((l', i), r)\<in>set (transactions ?d). l' = ''main'' \<longrightarrow> all_amounts (tx_postings r)"
    by (simp add: demo_short_row_def all_amounts_def)
  have "map_of (tx_metadata demo_short_row) ConversionRateKey \<noteq> None" by (simp add: demo_short_row_def)
  moreover have "Fx_Verify ?d ''main'' 2 = Inr (1, [])" "Fx_Verify ?d ''main'' DefaultTolerance = Inr (1, [ErrConversionRounding 1])"
    by code_simp+
  ultimately show ?thesis
    using Fx_Verify_exact [OF am, of 2 1] by simp
qed

section \<open>Reconciliation\<close>

text \<open>C27. Reconciliation records sound evidence and nothing else: in every reachable state of the ledger and its reconciliation, a line
  marked as matched is paired with exactly the number of movements it says, all of its asset and direction, whose amounts and
  the recorded variance make up the line's amount; only a line paired with a single movement has a variance; and no source
  claims a movement twice.\<close>
theorem reconciliation_evidence_sound:
  assumes "recon_reachable (d, rc)" and "map_of (recon_records rc) k = Some r" and "rr_count r \<noteq> 0"
  shows "rr_count r = int (length (matches_of rc k)) \<and>
    rr_amount r = (\<Sum>x\<leftarrow>matches_of rc k. moved d x + mt_variance x) \<and>
    (\<forall>x\<in>set (matches_of rc k). fits d r x \<and> (1 < rr_count r \<longrightarrow> mt_variance x = 0)) \<and>
    distinct (map mt_move (recon_matches rc))"
proof -
  have ok: "recon_ok d rc" by (rule recon_reachable_ok [OF assms(1)])
  with map_of_SomeD [OF assms(2)] have "line_ok d rc k r" unfolding recon_ok_def by blast
  moreover have "distinct (map mt_move (recon_matches rc))" using ok by (simp add: recon_ok_def)
  ultimately show ?thesis using assms(3) unfolding line_ok_def by blast
qed

theorem reconciliation_evidence_sound_witness:
  "\<exists>rc r. rc = fst (match_demo demo_wired demo_one_set) \<and> map_of (recon_records rc) (''main'', ''bank'', ''1'') = Some r \<and>
     rr_count r = 2 \<and> rr_amount r = (\<Sum>x\<leftarrow>matches_of rc (''main'', ''bank'', ''1''). moved demo_wired x + mt_variance x)"
proof -
  let ?rc = "fst (match_demo demo_wired demo_one_set)"
  have "recon_reachable (demo_wired, demo_one_set)"
    unfolding demo_one_set_def by (rule staged_reachable [OF demo_recon_reachable(1)])
  then have reach: "recon_reachable (demo_wired, ?rc)"
    using recon_reachable_step [OF _ recon_step.matches [OF reorders_id]] unfolding match_demo_def by blast
  have "map_option rr_count (map_of (recon_records ?rc) (''main'', ''bank'', ''1'')) = Some 2"
    using demo_one_set_run by (auto split: prod.splits)
  then obtain r where r: "map_of (recon_records ?rc) (''main'', ''bank'', ''1'') = Some r" "rr_count r = 2" by auto
  from reconciliation_evidence_sound [OF reach r(1)] r show ?thesis by auto
qed

text \<open>C28. A run of the matcher accounts for every open line, and fails in exactly one situation.  The exact rule always goes through.
  If then no two lines of one source claim the same movement as part of a set, the run succeeds and the open lines it began with
  are those matched, those matched with a variance, and those left, each under one reason.  Otherwise the whole consolidated
  rule fails with a unique violation, and what the exact rule recorded stays.\<close>
theorem Match_accounts_for_every_line:
  assumes "recon_reachable (d, rc)" and "reorders plan" and "Match plan e d l cfg rc = (rc', sm, err)"
  shows "\<exists>rc1 m v. matchExact plan e d l cfg rc = Inr (rc1, m, v) \<and>
    (if rival_sets (candidates cfg d l rc1)
     then err = Some (PgError uniqueViolation) \<and> rc' = rc1 \<and> Matched sm + Variance sm = m + v
     else err = None \<and> Matched sm + Variance sm + total_left sm = length (left_over l rc) \<and>
          total_left sm = length (left_over l rc'))"
  by (rule Match_accounts [OF recon_reachable_ok(2,3) [OF assms(1)] assms(2,3)])

theorem Match_accounts_for_every_line_witness:
  "Matched (fst (snd (match_demo demo_wired demo_one_set))) = 1 \<and>
   total_left (fst (snd (match_demo demo_wired demo_one_set))) = 1 \<and>
   (\<exists>rc1 m v. matchExact (\<lambda>xs. xs) demo_env demo_wired ''main'' demo_config demo_two_sets = Inr (rc1, m, v) \<and>
      rival_sets (candidates demo_config demo_wired ''main'' rc1))"
proof -
  have reach: "recon_reachable (demo_wired, demo_one_set)" "recon_reachable (demo_wired, demo_two_sets)"
    unfolding demo_one_set_def demo_two_sets_def by (rule staged_reachable [OF demo_recon_reachable(1)])+
  obtain rc1 sm1 err1 where run1: "match_demo demo_wired demo_one_set = (rc1, sm1, err1)" by (cases "match_demo demo_wired demo_one_set")
  have "length (left_over ''main'' demo_one_set) = 2" by code_simp
  moreover have "err1 = None" "Matched sm1 = 1" "Variance sm1 = 0" using demo_one_set_run by (simp_all add: run1)
  moreover note Match_accounts_for_every_line [OF reach(1) reorders_id run1 [unfolded match_demo_def]]
  ultimately have one: "total_left sm1 = 1" by (auto split: if_splits)
  obtain rc2 sm2 err2 where run2: "match_demo demo_wired demo_two_sets = (rc2, sm2, err2)" by (cases "match_demo demo_wired demo_two_sets")
  with demo_two_sets_fail have "err2 \<noteq> None" by simp
  with Match_accounts_for_every_line [OF reach(2) reorders_id run2 [unfolded match_demo_def]]
  show ?thesis using one \<open>Matched sm1 = 1\<close> by (auto simp: run1 split: if_splits)
qed

text \<open>C29. Matching settles.  Running the matcher again and again over an unchanged ledger stops changing anything after at most as many
  runs as there were open lines, whatever order the database returns rows in; one run is not always enough.\<close>
theorem Match_settles:
  assumes "recon_reachable (d, rs 0)" and "\<And>i. reorders (plans i)"
    and "\<And>i. rs (Suc i) = fst (Match (plans i) (envs i) d l cfg (rs i))"
  shows "\<exists>n\<le>length (left_over l (rs 0)). \<forall>i\<ge>n. rs i = rs n"
  by (rule Match_settles_by [OF recon_reachable_ok(3,2) [OF assms(1)] assms(2,3)])

theorem Match_settles_witness:
  "\<exists>rs. rs 0 = demo_crossed \<and> (\<forall>i. rs (Suc i) = fst (match_demo demo_passed (rs i))) \<and> rs 2 \<noteq> rs 1 \<and> (\<forall>i\<ge>2. rs i = rs 2)"
proof -
  define rs where "rs i = ((\<lambda>rc. fst (match_demo demo_passed rc)) ^^ i) demo_crossed" for i
  have rs: "rs 0 = demo_crossed" "\<And>i. rs (Suc i) = fst (match_demo demo_passed (rs i))" by (simp_all add: rs_def)
  have "recon_reachable (demo_passed, rs 0)"
    unfolding rs(1) demo_crossed_def by (rule staged_reachable [OF demo_recon_reachable(2)])
  from Match_settles [where rs = rs and d = demo_passed and plans = "\<lambda>_ xs. xs" and envs = "\<lambda>_. demo_env" and l = "''main''" and cfg = demo_config, OF this reorders_id] rs(2)
  obtain n where n: "n \<le> length (left_over ''main'' (rs 0))" "\<forall>i\<ge>n. rs i = rs n" unfolding match_demo_def by blast
  have "length (left_over ''main'' demo_crossed) = 2" by code_simp
  then have "n \<le> 2" using n(1) rs(1) by simp
  then have "\<forall>i\<ge>2. rs i = rs 2" using n(2) by (metis order_trans)
  moreover have "counts (rs 1) = [1, 0]" "counts (rs 2) = [1, 1]"
    using demo_crossed_first demo_crossed_second rs by (simp_all add: numeral_2_eq_2)
  then have "rs 2 \<noteq> rs 1" by (metis list.inject zero_neq_one)
  ultimately show ?thesis using rs by blast
qed

text \<open>C30. Staging is idempotent: after an ingest that succeeded, ingesting any of its lines again, at any later time, stages nothing,
  fails on nothing and leaves every table as it was.\<close>
theorem Ingest_idempotent:
  assumes "Ingest json_ok e d l src rs rc = (rc', n, None)" and "set rs' \<subseteq> set rs"
  shows "Ingest json_ok e' d' l src rs' rc' = (rc', 0, None)"
  by (rule Ingest_again [OF assms])

theorem Ingest_idempotent_witness:
  "fst (snd (Ingest (\<lambda>_. True) demo_env demo_wired ''main'' ''bank'' [demo_line ''1'' ''W1'' 100 In] demo_sources)) = 1 \<and>
   Ingest (\<lambda>_. True) demo_env demo_open ''main'' ''bank'' [demo_line ''1'' ''W1'' 100 In, demo_line ''1'' ''W1'' 100 In]
     (staged_in demo_wired [demo_line ''1'' ''W1'' 100 In]) = (staged_in demo_wired [demo_line ''1'' ''W1'' 100 In], 0, None)"
proof -
  let ?run = "Ingest (\<lambda>_. True) demo_env demo_wired ''main'' ''bank'' [demo_line ''1'' ''W1'' 100 In] demo_sources"
  have "snd ?run = (1, None)" by code_simp
  then have run: "?run = (staged_in demo_wired [demo_line ''1'' ''W1'' 100 In], 1, None)"
    unfolding staged_in_def by (metis prod.collapse)
  have "set [demo_line ''1'' ''W1'' 100 In, demo_line ''1'' ''W1'' 100 In] \<subseteq> set [demo_line ''1'' ''W1'' 100 In]" by simp
  from Ingest_idempotent [OF run this] show ?thesis by (simp add: run)
qed

section \<open>Migrations\<close>

text \<open>C31. The checks between the migrations on disk and the history in the database are exact.  A run goes ahead precisely when what was
  applied is an initial segment, in version order, of what is on disk, body for body; and the boot check passes precisely when
  the history is the whole directory.\<close>
theorem migrate_checks_exact:
  assumes "Load fsys = Inr ms" and "unique_keys (loadApplied db)"
  shows "(migrate_verify ms (loadApplied db) = None \<longleftrightarrow>
      (\<exists>k\<le>length ms. recorded (loadApplied db) = bodies (take k ms))) \<and>
    (RequireUpToDate None fsys db = Inr () \<longleftrightarrow>
      schema_migrations db \<noteq> None \<and> recorded (loadApplied db) = bodies ms)"
  using Load_verify [OF assms] RequireUpToDate_iff [OF assms] unfolding consistent_def by blast

definition demo_files :: "dir_entry list mres" where
  "demo_files = Inr
     [\<lparr>de_name = ''20260901000000_second.sql'', de_is_dir = False, de_body = Inr ''b''\<rparr>,
      \<lparr>de_name = ''README'', de_is_dir = False, de_body = Inr ''c''\<rparr>,
      \<lparr>de_name = ''20260831000000_first.sql'', de_is_dir = False, de_body = Inr ''a''\<rparr>]"

definition demo_migrations :: "Migration list" where
  "demo_migrations =
     [\<lparr>MVersion = 20260831000000, MName = ''first'', MFilename = ''20260831000000_first.sql'', MSQL = ''a'',
       MChecksum = hexEncode (sha256 ''a''), MNoTx = False\<rparr>,
      \<lparr>MVersion = 20260901000000, MName = ''second'', MFilename = ''20260901000000_second.sql'', MSQL = ''b'',
       MChecksum = hexEncode (sha256 ''b''), MNoTx = False\<rparr>]"

lemma demo_loads: "Load demo_files = Inr demo_migrations"
  by code_simp

definition demo_foreign :: "string list mdb" where
  "demo_foreign = \<lparr>schema_migrations = Some [(7, \<lparr>AName = ''old'', AChecksum = '''', AppliedAt = 0\<rparr>)], db_rest = []\<rparr>"

theorem migrate_checks_exact_witness:
  "migrate_verify demo_migrations (loadApplied demo_foreign) = Some ErrMissing \<and>
   (\<nexists>k. k \<le> 2 \<and> recorded (loadApplied demo_foreign) = bodies (take k demo_migrations))"
proof -
  have "unique_keys (loadApplied demo_foreign)" by code_simp
  note ex = migrate_checks_exact [OF demo_loads this]
  have v: "migrate_verify demo_migrations (loadApplied demo_foreign) = Some ErrMissing" by code_simp
  have "length demo_migrations = 2" by (simp add: demo_migrations_def)
  with ex v show ?thesis by auto
qed

text \<open>C32. A run keeps the history an initial segment of the directory whatever happens on the way.  It executes the pending bodies in
  version order, each once, and records exactly those; it stops at the first that fails, and then a transactional one has left
  nothing behind.  Without an error everything was applied, the boot check passes, and running again changes nothing.  A history
  that is no initial segment is refused before anything is executed.\<close>
theorem migrate_Run_extends_history:
  assumes "Load fsys = Inr ms" and "unique_keys (loadApplied db)" and "Run eng se fsys db = (db', n, errs)"
  shows "(if \<exists>k\<le>length ms. recorded (loadApplied db) = bodies (take k ms)
    then \<exists>k. k + n \<le> length ms \<and> recorded (loadApplied db) = bodies (take k ms) \<and>
      recorded (loadApplied db') = bodies (take (k + n) ms) \<and> unique_keys (loadApplied db') \<and>
      (\<exists>d. foldE (exec_body eng) (take n (drop k ms)) (db_rest db) = Inr d \<and>
        (db_rest db' = d \<or> (k + n < length ms \<and> MNoTx (ms ! (k + n)) \<and>
           db_rest db' = fst (exec_bare eng (MSQL (ms ! (k + n))) d)))) \<and>
      (errs = [] \<longrightarrow> k + n = length ms \<and> RequireUpToDate None fsys db' = Inr () \<and>
        (\<forall>eng' se'. clean_session se' \<longrightarrow> Run eng' se' fsys db' = (db', 0, [])))
    else n = 0 \<and> errs \<noteq> [] \<and> db_rest db' = db_rest db \<and> loadApplied db' = loadApplied db)"
proof (cases "\<exists>k\<le>length ms. recorded (loadApplied db) = bodies (take k ms)")
  case True
  then obtain k where k: "k \<le> length ms" "recorded (loadApplied db) = bodies (take k ms)" by blast
  note run = Run_history [OF assms(3,1,2) k]
  show ?thesis using True k run Run_again [OF assms(1) run(1)] by (simp; blast)
next
  case False
  then have "migrate_verify ms (loadApplied db) \<noteq> None" using Load_verify [OF assms(1,2)] unfolding consistent_def by blast
  with assms(3,1) False show ?thesis by (cases rule: Run_cases) auto
qed

definition demo_engine :: "string list sql_engine" where
  "demo_engine = \<lparr>exec_tx = \<lambda>s d. if s = ''b'' \<and> d = [] then Inl (ErrDatabase s) else Inr (d @ [s]),
     exec_bare = \<lambda>s d. (d @ [s], None), record_fails = \<lambda>m. None\<rparr>"

definition demo_session :: session where
  "demo_session = \<lparr>se_now = 0, se_lock_timeout = None,
     se_polls = [\<lparr>po_got = False, po_expired = False, po_error = None, po_expires = False\<rparr>,
       \<lparr>po_got = True, po_expired = False, po_error = None, po_expires = False\<rparr>],
     se_create_table = None, se_load_applied = None, se_release = Inr True\<rparr>"

definition demo_fresh :: "string list mdb" where
  "demo_fresh = \<lparr>schema_migrations = None, db_rest = []\<rparr>"

theorem migrate_Run_extends_history_witness:
  "\<exists>db'. Run demo_engine demo_session demo_files demo_fresh = (db', 2, []) \<and> db_rest db' = [''a'', ''b''] \<and>
     recorded (loadApplied db') = bodies demo_migrations \<and>
     Run demo_engine demo_session demo_files db' = (db', 0, [])"
proof -
  obtain db' n errs where run: "Run demo_engine demo_session demo_files demo_fresh = (db', n, errs)"
    by (cases "Run demo_engine demo_session demo_files demo_fresh")
  have r: "(\<lambda>(d, n, errs). (db_rest d, n, errs)) (Run demo_engine demo_session demo_files demo_fresh) = ([''a'', ''b''], 2, [])"
    by code_simp
  then have n: "db_rest db' = [''a'', ''b'']" "n = 2" "errs = []" using run by simp_all
  have fresh: "loadApplied demo_fresh = []" by (simp add: demo_fresh_def loadApplied_def)
  have "recorded (loadApplied demo_fresh) = bodies (take 0 demo_migrations)"
    unfolding fresh by (simp add: recorded_def bodies_def)
  then have k: "\<exists>k\<le>length demo_migrations. recorded (loadApplied demo_fresh) = bodies (take k demo_migrations)" by blast
  have "clean_session demo_session" by code_simp
  moreover have "unique_keys (loadApplied demo_fresh)" unfolding fresh by simp
  note migrate_Run_extends_history [OF demo_loads this run, unfolded if_P [OF k]]
  ultimately show ?thesis using run n by auto
qed

text \<open>A migration that is created can be loaded.  The name of a fresh file reads back as its time and the slug of the name that was
  asked for, its content does not ask to run outside a transaction, no file is overwritten, and a name is refused only when
  nothing of it is left or the file is there.\<close>
theorem newAt_file_loads:
  assumes "time_ok now"
  shows "case newAt None d name now of
      Inl e \<Rightarrow> Slugify name = [] \<or> map_of d (migration_filename (Slugify name) now) \<noteq> None
    | Inr (d', f) \<Rightarrow> map_of d f = None \<and> d' = AList.update f (stub (Slugify name)) d \<and>
        load_entry \<lparr>de_name = f, de_is_dir = False, de_body = Inr (stub (Slugify name))\<rparr> =
          Inr \<lparr>MVersion = int (digits_value (timestamp_text now)), MName = Slugify name, MFilename = f,
            MSQL = stub (Slugify name), MChecksum = hexEncode (sha256 (stub (Slugify name))), MNoTx = False\<rparr>"
proof (cases "newAt None d name now")
  case (Inl e)
  have "\<not> (\<exists>d' f. newAt None d name now = Inr (d', f))" using Inl by simp
  then show ?thesis using newAt_total [of d name now] Inl by auto
next
  case (Inr r)
  obtain d' f where r: "newAt None d name now = Inr (d', f)" using Inr by (cases r) simp
  note facts = newAt_Inr [OF r assms]
  show ?thesis using facts by (simp add: r load_entry_def bindE_def)
qed

theorem newAt_file_loads_witness:
  "map_sum id snd (newAt None [] ''Add metadata tables!'' 63892096800000000000) = Inr ''20250829204000_add_metadata_tables.sql'' \<and>
   parseFilename ''20250829204000_add_metadata_tables.sql'' = Inr (20250829204000, ''add_metadata_tables'')"
proof -
  have t: "time_ok 63892096800000000000" by code_simp
  have n: "map_sum id snd (newAt None [] ''Add metadata tables!'' 63892096800000000000) = Inr ''20250829204000_add_metadata_tables.sql''"
    by code_simp
  then obtain d' where "newAt None [] ''Add metadata tables!'' 63892096800000000000 = Inr (d', ''20250829204000_add_metadata_tables.sql'')"
    by (cases "newAt None [] ''Add metadata tables!'' 63892096800000000000") auto
  with newAt_file_loads [OF t, where d = "[]" and name = "''Add metadata tables!''"]
  have "\<exists>m. load_entry \<lparr>de_name = ''20250829204000_add_metadata_tables.sql'', de_is_dir = False,
      de_body = Inr (stub (Slugify ''Add metadata tables!''))\<rparr> = Inr m" by auto
  moreover have "parseFilename ''20250829204000_add_metadata_tables.sql'' = Inr (20250829204000, ''add_metadata_tables'')" by code_simp
  ultimately show ?thesis using n by simp
qed

section \<open>The HTTP interface\<close>







section \<open>The command line\<close>

text \<open>C35. Whatever an operator types, and however many requests \<open>giro serve\<close> answers, what happens to the book is a run of the
  store's own operations: it stays reachable, nothing written is rewritten, and only \<open>giro migrate up\<close> can touch the schema.
  A command that is refused for how it was called changes nothing.  An account command that fails changes nothing, and one
  that succeeds moves no money and was given a ledger that exists and, for a bound, an asset that ledger handles.\<close>
theorem giro_commands_safe:
  assumes "reachable (book w)" and "dispatch out w args = (w', lns, e)" and "take 2 args \<noteq> [''migrate'', ''up'']"
  shows "reachable (book w') \<and> history_kept (book w) (book w') \<and>
    schema_migrations (base w') = schema_migrations (base w) \<and> (\<forall>c u. e = Some (Usage c u) \<longrightarrow> w' = w) \<and>
    (take 1 args = [''account''] \<longrightarrow> (e \<noteq> None \<longrightarrow> w' = w) \<and> vol (book w') = vol (book w) \<and>
       (w' \<noteq> w \<longrightarrow> args ! 2 \<in> set (Ledgers (book w)) \<and>
          (args ! 1 \<notin> {''close'', ''reopen''} \<longrightarrow> args ! 4 \<in> set (Assets (New (args ! 2)) (book w)))))"
proof -
  have "args \<noteq> ''migrate'' # ''up'' # rest" for rest using assms(3) by auto
  then have safe: "giro_step\<^sup>*\<^sup>* (book w) (book w')" "schema_migrations (base w') = schema_migrations (base w)"
    "\<forall>c u. e = Some (Usage c u) \<longrightarrow> w' = w"
    using safe_dispatch [of args w out] assms(2) by (auto simp: safe_outcome_def)
  have ok: "sys_ok (book w)" by (rule reachable_sys_ok [OF assms(1)])
  then have bk: "book_ok (book w)" by (simp add: sys_ok_def)
  have "(e \<noteq> None \<longrightarrow> w' = w) \<and> vol (book w') = vol (book w) \<and>
       (w' \<noteq> w \<longrightarrow> args ! 2 \<in> set (Ledgers (book w)) \<and>
          (args ! 1 \<notin> {''close'', ''reopen''} \<longrightarrow> args ! 4 \<in> set (Assets (New (args ! 2)) (book w))))"
    if acc: "take 1 args = [''account'']"
  proof -
    obtain rest where args: "args = ''account'' # rest" using acc by (cases args) auto
    then have run: "accountCommand out w rest = (w', lns, e)" using assms(2) by (simp add: dispatch_def)
    have "vol (book w') = vol (book w)" using account_moves_nothing [OF run bk] by (auto simp: same_volumes_def)
    moreover from accountCommand_cases [OF run] have "(e \<noteq> None \<longrightarrow> w' = w) \<and> (w' \<noteq> w \<longrightarrow> args ! 2 \<in> set (Ledgers (book w)) \<and>
          (args ! 1 \<notin> {''close'', ''reopen''} \<longrightarrow> args ! 4 \<in> set (Assets (New (args ! 2)) (book w))))"
    proof (elim disjE exE conjE)
      fix v rs verb x
      assume a: "rest = v # rs" "verb_of v = Some verb" "rs ! 0 \<in> set (Ledgers (book w))"
        "wants_asset verb \<longrightarrow> x = rs ! 2 \<and> x \<in> set (Assets (New (rs ! 0)) (book w))"
        "account_run out (New (rs ! 0)) w verb (rs ! 1) x = (w', lns, e)"
      have "v \<notin> {''close'', ''reopen''} \<longrightarrow> wants_asset verb \<or> verb = Show"
        using a(2) by (auto simp: verb_of.simps split: if_splits)
      moreover have "verb = Show \<longrightarrow> w' = w" using a(5) by (auto simp: account_run_def showAccount_def split: sum.splits)
      ultimately show ?thesis using account_run_spec [OF a(5)] a(1,3,4) by (auto simp: args numeral_2_eq_2 eval_nat_numeral)
    qed simp
    ultimately show ?thesis by blast
  qed
  moreover have "history_kept (book w) (book w')" using giro.many [OF safe(1) ok] by blast
  ultimately show ?thesis using safe reachable_many [OF assms(1)] by blast
qed

definition demo_out :: outside where
  "demo_out =
     \<lparr>DATABASE_URL = ''postgres://giro'', pool_err = \<lambda>_. None, clock = demo_env,
      ParseDuration = (\<lambda>s. if s = ''25h'' then Some 90000000000000 else None), err_text = \<lambda>_. ''error'', stale_text = \<lambda>_. [],
      break_text = \<lambda>_. [], check_took = \<lambda>_. 0, query_plan = \<lambda>xs. xs,
      engine = \<lparr>exec_tx = \<lambda>s x. Inr x, exec_bare = \<lambda>s x. (x, None), record_fails = \<lambda>m. None\<rparr>,
      lock_session = \<lparr>se_now = 0, se_lock_timeout = None,
        se_polls = [\<lparr>po_got = True, po_expired = False, po_error = None, po_expires = False\<rparr>],
        se_create_table = None, se_load_applied = None, se_release = Inr True\<rparr>,
      embedded = Inr [\<lparr>de_name = ''20260831000000_first.sql'', de_is_dir = False, de_body = Inr ''a''\<rparr>],
      migrate_io = None, privileged_as = None,
      server0 = \<lparr>allowUnkeyed = True, sv_store = New, sv_tx_cursor = \<lambda>_. NotBase64,
        sv_log_cursor = \<lambda>_. NotBase64, sv_move_cursor = \<lambda>_. NotBase64\<rparr>,
      requests = [], listen_err = None\<rparr>"

definition demo_world :: "db \<Rightarrow> world" where
  "demo_world d = \<lparr>base = \<lparr>schema_migrations = None, db_rest = (d, empty_recon)\<rparr>, disk = []\<rparr>"

lemma demo_world_book [simp]: "book (demo_world d) = d"
  by (simp add: demo_world_def book_def)

theorem giro_commands_safe_witness:
  "\<exists>w'. dispatch demo_out (demo_world demo_paid) [''account'', ''refuse-positive'', ''main'', ''alice'', ''USD/2''] =
     (w', [BoundLine ''alice'' False PositiveSide ''USD/2'', OutsideNote 100 ''USD/2''], None) \<and>
   w' \<noteq> demo_world demo_paid \<and> reachable (book w') \<and> vol (book w') = vol demo_paid"
proof -
  let ?args = "[''account'', ''refuse-positive'', ''main'', ''alice'', ''USD/2'']"
  obtain w' lns e where run: "dispatch demo_out (demo_world demo_paid) ?args = (w', lns, e)" by (metis prod_cases3)
  have "(case dispatch demo_out (demo_world demo_paid) ?args of (w1, ls, e) \<Rightarrow>
     ls = [BoundLine ''alice'' False PositiveSide ''USD/2'', OutsideNote 100 ''USD/2''] \<and> e = None \<and>
     accounts_volumes (book w1) \<noteq> accounts_volumes demo_paid)"
    by code_simp
  then have r: "lns = [BoundLine ''alice'' False PositiveSide ''USD/2'', OutsideNote 100 ''USD/2'']" "e = None"
    "accounts_volumes (book w') \<noteq> accounts_volumes demo_paid" using run by simp_all
  then have "w' \<noteq> demo_world demo_paid" by auto
  moreover have "reachable (book (demo_world demo_paid))" by (simp add: demo_paid_reachable)
  note giro_commands_safe [OF this run]
  ultimately show ?thesis using run r by auto
qed

text \<open>C36. The exit code of \<open>giro verify\<close> is the verdict on the book.  On a book the store wrote, a run without the matching pass
  exits 0 exactly when no account of the ledgers it was given is outside its bounds, every conversion is within tolerance of its
  stated rate and, if asked, no balance has been still for too long; a name that is no ledger passes.  It writes nothing but the
  runs it made, and once they are recorded \<open>--last --max-age\<close> exits 0 for as long as it asks for, unless a check was recorded
  earlier that this run did not make.\<close>
theorem verify_verdict:
  assumes "reachable (book w)" and "connect out = None"
    and "parse_flags (ParseDuration out) args verify_defaults = Some (f, names)"
    and "\<not> last_run f" and "recon_after f \<le> 0" and "\<forall>l\<in>set names. take 1 l \<noteq> ''-''"
    and "ls = (if names = [] then Ledgers (book w) else names)"
    and "verifyCommand out w args = (w', lns, e)"
  shows "(exit_code e = 0 \<longleftrightarrow> (\<forall>l\<in>set ls.
      (\<forall>k r. map_of (accounts_volumes (book w)) (l, k) = Some r \<longrightarrow> \<not> out_of_bounds r) \<and>
      list_all (agrees DefaultTolerance) (conversion_rows (book w) l) \<and>
      (stale_after f > 0 \<longrightarrow> StaleBalances (New l) (clock out) (book w) (stale_prefix f) (stale_after f) = Inr []))) \<and>
    (\<exists>v. w' = with_book ((book w)\<lparr>verification_runs := verification_runs (book w) @ v\<rparr>) w) \<and>
    (record_runs f \<and> exit_code e \<noteq> 2 \<and> 0 < max_age f2 \<and> go_now (clock out2) - db_now (clock out) \<le> max_age f2 \<and>
       (\<forall>q\<in>set (verification_runs (book w)). run_ledger q \<in> set ls \<longrightarrow> run_check q \<in> set check_names) \<longrightarrow>
     exit_code (snd (snd (reportLastRun out2 f2 w' ls))) = 0)"
proof -
  from verifyCommand_spec [OF assms(1-6,8), folded assms(7)] obtain v where
    code: "exit_code e = 0 \<longleftrightarrow> (\<forall>l\<in>set ls. clean out f (book w) l)"
    and w': "w' = with_book ((book w)\<lparr>verification_runs := verification_runs (book w) @ v\<rparr>) w"
    and v: "\<forall>q\<in>set v. run_at q = db_now (clock out)"
    and all: "record_runs f \<and> exit_code e \<noteq> 2 \<longrightarrow> (\<forall>l\<in>set ls. ran_all (db_now (clock out)) l v)"
    by (elim conjE exE) simp
  have "verification_runs (book w') = verification_runs (book w) @ v" by (simp add: w')
  note fresh = recorded_run_is_fresh [OF this v]
  show ?thesis
  proof (intro conjI)
    show "\<exists>v. w' = with_book ((book w)\<lparr>verification_runs := verification_runs (book w) @ v\<rparr>) w" using w' by blast
  qed (use code [unfolded clean_def] all fresh in blast)+
qed

theorem verify_verdict_witness:
  "\<exists>w' lns. verifyCommand demo_out (demo_world demo_paid) [''--stale-after'', ''25h'', ''main'', ''mian''] = (w', lns, None) \<and>
     exit_code (snd (snd (reportLastRun (demo_out\<lparr>clock := demo_env\<lparr>go_now := 80000000000000\<rparr>\<rparr>)
       (verify_defaults\<lparr>max_age := 90000000000000\<rparr>) w' [''main'', ''mian'']))) = 0"
proof -
  let ?args = "[''--stale-after'', ''25h'', ''main'', ''mian'']" and ?f = "verify_defaults\<lparr>stale_after := 90000000000000\<rparr>"
  let ?out = "demo_out\<lparr>clock := demo_env\<lparr>go_now := 80000000000000\<rparr>\<rparr>" and ?f2 = "verify_defaults\<lparr>max_age := 90000000000000\<rparr>"
  have flags: "parse_flags (ParseDuration demo_out) ?args verify_defaults = Some (?f, [''main'', ''mian''])" by code_simp
  obtain w' lns e where run: "verifyCommand demo_out (demo_world demo_paid) ?args = (w', lns, e)" by (metis prod_cases3)
  have "conversion_rows demo_paid ''main'' = []" "conversion_rows demo_paid ''mian'' = []"
    "StaleBalances (New ''main'') demo_env demo_paid ''pending:'' 90000000000000 = Inr []"
    "StaleBalances (New ''mian'') demo_env demo_paid ''pending:'' 90000000000000 = Inr []" by code_simp+
  moreover have "verification_runs demo_paid = []" "connect demo_out = None" by code_simp+
  moreover note verify_verdict [OF _ _ flags _ _ _ _ run, where ?f2.0 = ?f2 and ?out2.0 = ?out and ls = "[''main'', ''mian'']"]
  ultimately have "exit_code e = 0 \<and> exit_code (snd (snd (reportLastRun ?out ?f2 w' [''main'', ''mian'']))) = 0"
    by (simp add: demo_paid_reachable verify_defaults_def demo_paid_parts out_of_bounds_def demo_out_def demo_env_def
        split: if_splits)
  moreover have "exit_code x = 0 \<Longrightarrow> x = None" for x by (cases x rule: exit_code.cases) simp_all
  ultimately show ?thesis using run by auto
qed

text \<open>C37. \<open>giro recover resume\<close> does what it prints.  On a book the store wrote, one tip and a note, when the command succeeds: if the
  ledger has already reached the tip in both its log and its transactions nothing changes and it says so; otherwise the log gets
  exactly one entry, a recovery with the note, one after the greater of what the ledger had and what the tip names, the
  transactions resume after the tip, and the new tip is printed.  The command takes the log id of the tip for the transaction id
  too.  Typed again it changes nothing.\<close>
theorem recover_resume_exact:
  assumes "reachable (book w)" and "dispatch out w (''recover'' # ''resume'' # args) = (w', lns, None)"
  shows "\<exists>nt arg tip r r'. resume_args args [] [] = (nt, [arg]) \<and> ParseTip arg = Inr tip \<and>
    map_of (ledgers (book w)) (TipLedger tip) = Some r \<and> map_of (ledgers (book w')) (TipLedger tip) = Some r' \<and>
    w' = with_book (book w') w \<and> reachable (book w') \<and> TipLogID tip \<le> last_log_id r' \<and> TipLogID tip \<le> last_tx_id r' \<and>
    (if TipLogID tip \<le> last_log_id r \<and> TipLogID tip \<le> last_tx_id r
     then w' = w \<and> lns = [NothingToDo (TipLedger tip) (last_log_id r) (TipLogID tip)]
     else last_log_id r' = max (last_log_id r) (TipLogID tip) + 1 \<and> last_tx_id r' = max (last_tx_id r) (TipLogID tip) \<and>
       (\<exists>row. ledger_logs (book w') (TipLedger tip) = ledger_logs (book w) (TipLedger tip) @ [(last_log_id r', row)] \<and>
          lg_data row = RecoveryData \<lparr>ResumedFrom = last_log_id r, SkippedThrough = TipLogID tip, Note = nt\<rparr>) \<and>
       (\<exists>tip'. ChainTip (New (TipLedger tip)) (book w') = Inr tip' \<and>
          lns = [ResumedLine (TipLedger tip) (last_log_id r') (last_log_id r + 1) (TipLogID tip), NewTipLine (Tip_String tip')])) \<and>
    dispatch out w' (''recover'' # ''resume'' # args) = (w', [NothingToDo (TipLedger tip) (last_log_id r') (TipLogID tip)], None)"
proof -
  from assms(2) have run: "recoverResume out w args = (w', lns, None)" and c: "connect out = None"
    by (auto simp: dispatch_def recoverCommand_def split: option.splits if_splits)
  from recoverResume_spec [OF run assms(1)] obtain nt arg tip r r' where
    a: "resume_args args [] [] = (nt, [arg])" "ParseTip arg = Inr tip" "map_of (ledgers (book w)) (TipLedger tip) = Some r"
      "map_of (ledgers (book w')) (TipLedger tip) = Some r'" "w' = with_book (book w') w" "giro_step (book w) (book w')"
      "TipLogID tip \<le> last_log_id r'" "TipLogID tip \<le> last_tx_id r'"
    and rest: "if TipLogID tip \<le> last_log_id r \<and> TipLogID tip \<le> last_tx_id r
     then book w' = book w \<and> lns = [NothingToDo (TipLedger tip) (last_log_id r) (TipLogID tip)]
     else last_log_id r' = max (last_log_id r) (TipLogID tip) + 1 \<and> last_tx_id r' = max (last_tx_id r) (TipLogID tip) \<and>
       (\<exists>row. ledger_logs (book w') (TipLedger tip) = ledger_logs (book w) (TipLedger tip) @ [(last_log_id r', row)] \<and>
          lg_data row = RecoveryData \<lparr>ResumedFrom = last_log_id r, SkippedThrough = TipLogID tip, Note = nt\<rparr>) \<and>
       (\<exists>tip'. ChainTip (New (TipLedger tip)) (book w') = Inr tip' \<and>
          lns = [ResumedLine (TipLedger tip) (last_log_id r') (last_log_id r + 1) (TipLogID tip), NewTipLine (Tip_String tip')])"
    by (elim exE conjE)
  have "reachable (book w')" by (rule reachable_step [OF assms(1) a(6)])
  moreover have "dispatch out w' (''recover'' # ''resume'' # args) = recoverResume out w' args"
    using c by (simp add: dispatch_def recoverCommand_def)
  then have "dispatch out w' (''recover'' # ''resume'' # args) =
      (w', [NothingToDo (TipLedger tip) (last_log_id r') (TipLogID tip)], None)"
    using recoverResume_again [OF a(1,2,4,7,8)] by simp
  moreover have "book w' = book w \<Longrightarrow> w' = w" using a(5) by simp
  ultimately show ?thesis using a rest by (intro exI [of _ nt] exI [of _ arg] exI [of _ tip] exI [of _ r] exI [of _ r']) (auto split: if_splits)
qed

theorem recover_resume_exact_witness:
  "\<exists>d t w' tip. SetTransactionMetadata demo_store demo_env demo_paid 1 [(''k'', ''v'')] = Inr (d, t) \<and>
     dispatch demo_out (demo_world d) [''recover'', ''resume'', ''main:2:''] =
       (w', [ResumedLine ''main'' 3 3 2, NewTipLine tip], None) \<and>
     dispatch demo_out w' [''recover'', ''resume'', ''main:2:''] = (w', [NothingToDo ''main'' 3 2], None)"
proof -
  let ?m = "SetTransactionMetadata demo_store demo_env demo_paid 1 [(''k'', ''v'')]" and ?args = "[''main:2:'']"
  define d where "d = fst (projr ?m)"
  have "is_ok ?m" by code_simp
  then obtain t where m: "?m = Inr (d, t)" unfolding d_def by (auto simp: is_ok_iff)
  have reach: "reachable (book (demo_world d))"
    using m by (simp add: reachable_step [OF demo_paid_reachable giro_step.set_tx_metadata])
  obtain w' lns e where run: "dispatch demo_out (demo_world d) (''recover'' # ''resume'' # ?args) = (w', lns, e)"
    by (metis prod_cases3)
  have "snd (snd (dispatch demo_out (demo_world d) (''recover'' # ''resume'' # ?args))) = None" unfolding d_def by code_simp
  then have e: "e = None" using run by simp
  have tip: "resume_args ?args [] [] = ([], ?args)"
    "ParseTip ''main:2:'' = Inr \<lparr>TipLedger = ''main'', TipTxID = 0, TipLogID = 2, TipHash = []\<rparr>" by code_simp+
  have "map_option (\<lambda>r. (last_log_id r, last_tx_id r)) (map_of (ledgers d) ''main'') = Some (2, 1)" unfolding d_def by code_simp
  then obtain r where r: "map_of (ledgers d) ''main'' = Some r" "last_log_id r = 2" "last_tx_id r = 1" by auto
  from recover_resume_exact [OF reach run [unfolded e]] show ?thesis using m run e tip r by auto
qed



section \<open>What an operator sees\<close>



text \<open>C40. The number of metric series is what the catalogue says, for the assets a ledger handles and for those alone.  The commits of
  the running system on a set of ledgers whose registered assets lie in a set give at most the series of the catalogue for the
  sizes of the two sets, and besides one series for each ledger and unregistered asset a caller wrote.  Of those there is no
  bound: single payments in assets a ledger does not handle make as many series as there are assets.\<close>
theorem metric_series_bounded:
  assumes "finite L" and "finite A" and "A \<noteq> {}" and "\<forall>call\<in>set calls. ordinary_call call"
    and "\<forall>(c, envs, s, d, p, opts)\<in>set calls. ledger s \<in> L \<and> registered_in d (ledger s) \<subseteq> A"
  shows "(\<exists>known unknown. calls_series ob calls = known \<union> unknown \<and>
      card known \<le> Cardinality (card L) (card A) \<and> Cardinality (card L) (card A) = card L * (9 * card A + 5) \<and>
      unknown \<subseteq> {unknown_series (ledger s) a | c envs s d p opts a.
        (c, envs, s, d, p, opts) \<in> set calls \<and> a \<in> PAsset ` set p \<and> \<not> is_registered d (ledger s) a}) \<and>
    (cache_sound s d \<and> map_of (ledgers d) (ledger s) \<noteq> None \<and>
       (\<forall>p\<in>set ps. valid_posting p \<and> \<not> is_registered d (ledger s) (PAsset p)) \<longrightarrow>
     card (calls_series ob (map (\<lambda>p. (c, envs, s, d, [p], opts)) ps)) = card (PAsset ` set ps))"
proof (intro conjI impI)
  show "\<exists>known unknown. calls_series ob calls = known \<union> unknown \<and>
      card known \<le> Cardinality (card L) (card A) \<and> Cardinality (card L) (card A) = card L * (9 * card A + 5) \<and>
      unknown \<subseteq> {unknown_series (ledger s) a | c envs s d p opts a.
        (c, envs, s, d, p, opts) \<in> set calls \<and> a \<in> PAsset ` set p \<and> \<not> is_registered d (ledger s) a}"
    using calls_series_split [OF assms] Cardinality_eq by simp
next
  assume a: "cache_sound s d \<and> map_of (ledgers d) (ledger s) \<noteq> None \<and>
       (\<forall>p\<in>set ps. valid_posting p \<and> \<not> is_registered d (ledger s) (PAsset p))"
  have "calls_series ob (map (\<lambda>p. (c, envs, s, d, [p], opts)) ps) =
      (\<Union>p\<in>set ps. series (samples_of ob (commit_notes c envs s d [p] opts)))"
    by (simp add: calls_series_def series_concat)
  also have "\<dots> = (\<Union>p\<in>set ps. {unknown_series (ledger s) (PAsset p)})"
    using a by (intro SUP_cong refl unknown_asset_series) auto
  also have "\<dots> = unknown_series (ledger s) ` PAsset ` set ps" by auto
  finally show "card (calls_series ob (map (\<lambda>p. (c, envs, s, d, [p], opts)) ps)) = card (PAsset ` set ps)"
    by (simp add: card_image inj_on_def unknown_series_def ledgerAttr_def assetAttr_def reasonAttr_def doubleton_eq_iff
        insert_eq_iff)
qed

theorem metric_series_bounded_witness:
  "card (calls_series \<lparr>instruments = wanted, slowLock = 0\<rparr>
     [(\<lparr>since_start = \<lambda>_. 5, since_lock = \<lambda>_. 1\<rparr>, \<lambda>_. demo_env, demo_store, demo_open, demo_fund, demo_opts)]) \<le> 14 \<and>
   card (calls_series \<lparr>instruments = wanted, slowLock = 0\<rparr>
     (map (\<lambda>p. (\<lparr>since_start = \<lambda>_. 5, since_lock = \<lambda>_. 1\<rparr>, \<lambda>_. demo_env, demo_store, demo_open, [p], demo_opts))
       [(usd ''alice'' ''bob'' 5)\<lparr>PAsset := ''EUR/2''\<rparr>, (usd ''alice'' ''bob'' 5)\<lparr>PAsset := ''GBP/2''\<rparr>])) = 2"
proof -
  let ?c = "\<lparr>since_start = \<lambda>_. 5, since_lock = \<lambda>_. 1\<rparr>" and ?ob = "\<lparr>instruments = wanted, slowLock = 0\<rparr>"
  let ?calls = "[(?c, \<lambda>_ :: nat. demo_env, demo_store, demo_open, demo_fund, demo_opts)]"
  let ?ps = "[(usd ''alice'' ''bob'' 5)\<lparr>PAsset := ''EUR/2''\<rparr>, (usd ''alice'' ''bob'' 5)\<lparr>PAsset := ''GBP/2''\<rparr>]"
  have reg: "is_registered demo_open ''main'' a \<longleftrightarrow> a = ''USD/2''" for a
    by (auto simp: is_registered_def demo_open_eq)
  have "ordinary_call (?c, \<lambda>_. demo_env, demo_store, demo_open, demo_fund, demo_opts)"
    by (simp add: ordinary_call_def demo_open_reachable cache_sound_def demo_store_def New_def demo_env_def)
  then have calls: "\<forall>call\<in>set ?calls. ordinary_call call" by simp
  have known: "\<forall>(c, envs, s, d, p, opts)\<in>set ?calls. ledger s \<in> {''main''} \<and> registered_in d (ledger s) \<subseteq> {''USD/2''}"
    by (auto simp: demo_store_def New_def registered_in_def reg)
  have ne: "finite {''main''}" "finite {''USD/2''}" "{''USD/2''} \<noteq> {}" by simp_all
  note bound = metric_series_bounded [OF ne calls known, where s = demo_store and d = demo_open and ps = ?ps and
    ob = ?ob and c = ?c and envs = "\<lambda>_. demo_env" and opts = demo_opts]
  have "validate_request ?ps = None" by code_simp
  then have "\<forall>p\<in>set ?ps. valid_posting p \<and> \<not> is_registered demo_open (ledger demo_store) (PAsset p)"
    by (simp add: validate_request_None demo_store_def New_def reg)
  then have pre: "cache_sound demo_store demo_open \<and> map_of (ledgers demo_open) (ledger demo_store) \<noteq> None \<and>
      (\<forall>p\<in>set ?ps. valid_posting p \<and> \<not> is_registered demo_open (ledger demo_store) (PAsset p))"
    by (intro conjI) (assumption | simp add: cache_sound_def demo_store_def New_def demo_open_eq)+
  have "card (calls_series ?ob (map (\<lambda>p. (?c, \<lambda>_. demo_env, demo_store, demo_open, [p], demo_opts)) ?ps)) =
      card (PAsset ` set ?ps)"
    by (rule mp [OF conjunct2 [OF bound] pre])
  also have "\<dots> = 2" by simp
  finally have "card (calls_series ?ob (map (\<lambda>p. (?c, \<lambda>_. demo_env, demo_store, demo_open, [p], demo_opts)) ?ps)) = 2" .
  moreover have "card (calls_series ?ob ?calls) \<le> 14"
  proof -
    from conjunct1 [OF bound] obtain known unknown where k: "calls_series ?ob ?calls = known \<union> unknown"
      "card known \<le> Cardinality (card {''main''}) (card {''USD/2''})"
      "Cardinality (card {''main''}) (card {''USD/2''}) = card {''main''} * (9 * card {''USD/2''} + 5)"
      and u: "unknown \<subseteq> {unknown_series (ledger s) a | c envs s d p opts a.
        (c, envs, s, d, p, opts) \<in> set ?calls \<and> a \<in> PAsset ` set p \<and> \<not> is_registered d (ledger s) a}"
      by auto
    have "unknown = {}" using u by (auto simp: demo_store_def New_def reg demo_fund_def usd_def)
    then show ?thesis using k by simp
  qed
  ultimately show ?thesis by blast
qed

end
